(* ===== verification/Prelude.thy ===== *)
theory Prelude
  imports Main "HOL-Library.AList" "HOL-Library.Sublist"
begin

text \<open>
  Shared vocabulary of the development: Go errors as values, the error/state monad in which
  effectful methods are written, the Go conventions for maps, durations and time, and the rules
  that lift a fact about single operations to whole methods.
\<close>

named_theorems io_simps \<open>unfolding rules of the error/state monad\<close>
named_theorems io_keeps \<open>rules that a method keeps an invariant of the state\<close>

section \<open>Values\<close>

text \<open>
  Go strings and byte slices are byte sequences, so both are \<^typ>\<open>string\<close>. A \<open>time.Time\<close> is the
  number of nanoseconds since Go's zero time, hence \<open>IsZero\<close> is equality with 0; a
  \<open>time.Duration\<close> is a number of nanoseconds. A \<open>*time.Time\<close> is an option.
\<close>

type_synonym bytes = string
type_synonym path = string
type_synonym time = int
type_synonym duration = int

abbreviation second :: duration where "second \<equiv> 1000000000"
abbreviation minute :: duration where "minute \<equiv> 60 * second"
abbreviation hour :: duration where "hour \<equiv> 60 * minute"

text \<open>
  Seconds between Go's zero time and the Unix epoch; \<open>unix_nano\<close> is \<open>Time.UnixNano\<close> for the
  instants whose value fits 64 bits.
\<close>

definition unix_nano :: "time \<Rightarrow> int" where
  "unix_nano t = t - 62135596800 * second"

lemma unix_nano_le_iff [simp]: "unix_nano a \<le> unix_nano b \<longleftrightarrow> a \<le> b"
  by (simp add: unix_nano_def)

text \<open>
  Errors. \<open>EMsg\<close> is an \<open>errors.New\<close> value with its message; \<open>ENotExist\<close> is an error matching
  \<open>os.ErrNotExist\<close>; \<open>ENotFound\<close> and \<open>EAlreadyExists\<close> are the two API server answers the code
  distinguishes; \<open>EExit\<close> is a subprocess that ended with that code (\<open>exec.ExitError\<close>); \<open>EExt\<close> is any
  other error of the operating system, the network or a library; \<open>ETerminal\<close> is the coordinator's terminal collection error; \<open>EJoin\<close> is
  \<open>errors.Join\<close>; the others are the sentinel errors of the packages.
\<close>

datatype gerr =
    EMsg string
  | ENotExist
  | ENotFound
  | EAlreadyExists
  | EExt string
  | EExit int
  | ETerminal gerr
  | EJoin gerr gerr
  | EConflict
  | ERetryNotDue
  | EExhausted
  | ECoordinatorNotReady
  | EBusy
  | EResultLost
  | EInvalid
  | EUnavailable
  | EIdentityConflict
  | ENoRow
  | EInvalidInputs
  | EPending

text \<open>\<open>errors.Join\<close> of two possibly nil errors.\<close>

fun join_err :: "gerr option \<Rightarrow> gerr option \<Rightarrow> gerr option" where
  "join_err None b = b"
| "join_err a None = a"
| "join_err (Some a) (Some b) = Some (EJoin a b)"

lemma join_err_None_iff [simp]: "join_err a b = None \<longleftrightarrow> a = None \<and> b = None"
  by (cases "(a, b)" rule: join_err.cases) auto

text \<open>A Go function returning only \<open>error\<close> is a \<open>gerr option\<close>; \<open>None\<close> is nil.\<close>

definition to_res :: "gerr option \<Rightarrow> gerr + unit" where
  "to_res r = (case r of None \<Rightarrow> Inr () | Some e \<Rightarrow> Inl e)"

lemma to_res_simps [simp]:
  "to_res None = Inr ()"
  "to_res (Some e) = Inl e"
  "to_res r = Inr u \<longleftrightarrow> r = None"
  "to_res r = Inl e \<longleftrightarrow> r = Some e"
  by (auto simp: to_res_def split: option.splits)

definition check :: "bool \<Rightarrow> string \<Rightarrow> gerr option" where
  \<comment> \<open>\<open>if !ok { return errors.New(msg) }\<close>\<close>
  "check ok msg = (if ok then None else Some (EMsg msg))"

lemma check_None_iff [simp]: "check ok msg = None \<longleftrightarrow> ok"
  by (simp add: check_def)

text \<open>The first error of a sequence of checks run in order.\<close>

fun first_err :: "gerr option list \<Rightarrow> gerr option" where
  "first_err [] = None"
| "first_err (None # rs) = first_err rs"
| "first_err (Some e # rs) = Some e"

lemma first_err_None_iff [simp]: "first_err rs = None \<longleftrightarrow> (\<forall>r \<in> set rs. r = None)"
  by (induction rs rule: first_err.induct) auto

lemma first_err_append: "first_err (xs @ ys) = (case first_err xs of None \<Rightarrow> first_err ys | Some e \<Rightarrow> Some e)"
  by (induction xs rule: first_err.induct) auto

section \<open>Maps\<close>

text \<open>
  A Go map is an association list without duplicate keys; where the code ranges over a map the
  list order is the iteration order of that execution. \<open>lookup_or\<close> is indexing, which yields the
  zero value for a missing key.
\<close>

type_synonym 'v gomap = "(string \<times> 'v) list"

definition lookup_or :: "'v \<Rightarrow> 'v gomap \<Rightarrow> string \<Rightarrow> 'v" where
  "lookup_or z m k = (case map_of m k of None \<Rightarrow> z | Some v \<Rightarrow> v)"

definition has_key :: "'v gomap \<Rightarrow> string \<Rightarrow> bool" where
  "has_key m k \<longleftrightarrow> map_of m k \<noteq> None"

abbreviation distinct_keys :: "'v gomap \<Rightarrow> bool" where
  "distinct_keys m \<equiv> distinct (map fst m)"

lemma has_key_iff: "has_key m k \<longleftrightarrow> k \<in> fst ` set m"
  by (simp add: has_key_def map_of_eq_None_iff)

lemma lookup_or_Nil [simp]: "lookup_or z [] k = z"
  by (simp add: lookup_or_def)

lemma lookup_or_Cons [simp]: "lookup_or z ((k', v) # m) k = (if k = k' then v else lookup_or z m k)"
  by (simp add: lookup_or_def)

lemma lookup_or_Some [simp]: "map_of m k = Some v \<Longrightarrow> lookup_or z m k = v"
  by (simp add: lookup_or_def)

lemma lookup_or_update [simp]: "lookup_or z (AList.update k v m) k' = (if k' = k then v else lookup_or z m k')"
  by (simp add: lookup_or_def update_conv)

lemma has_key_update [simp]: "has_key (AList.update k v m) k' \<longleftrightarrow> k' = k \<or> has_key m k'"
  by (simp add: has_key_def update_conv)

lemma has_key_Cons [simp]: "has_key ((k', v) # m) k \<longleftrightarrow> k = k' \<or> has_key m k"
  by (auto simp: has_key_def)

lemma has_key_Nil [simp]: "\<not> has_key [] k"
  by (simp add: has_key_def)

lemma keys_update: "fst ` set (AList.update k v m) = insert k (fst ` set m)"
  by (simp add: update_conv' flip: dom_map_of_conv_image_fst)

lemma update_keys_same [simp]:
  "has_key m k \<Longrightarrow> map fst (AList.update k v m) = map fst m"
  by (induction m) (auto simp: has_key_def)

lemma length_update_same [simp]: "has_key m k \<Longrightarrow> length (AList.update k v m) = length m"
  by (induction m) (auto simp: has_key_def)

lemma map_of_distinct_in: "distinct_keys m \<Longrightarrow> (k, v) \<in> set m \<Longrightarrow> map_of m k = Some v"
  by (rule map_of_is_SomeI)

lemma update_new: "\<not> has_key m k \<Longrightarrow> AList.update k x m = m @ [(k, x)]"
  by (induction m) (auto simp: has_key_def)

lemma map_of_filter_key: "map_of (filter (\<lambda>(k, v). P k) m) k = (if P k then map_of m k else None)"
  by (induction m) auto

lemma distinct_filter_key: "distinct_keys m \<Longrightarrow> distinct_keys (filter (\<lambda>(k, v). P k) m)"
  by (induction m) auto

lemma same_keys_length:
  assumes "distinct_keys a" "distinct_keys b" "\<And>k. has_key a k \<longleftrightarrow> has_key b k"
  shows "length a = length b"
proof -
  have "set (map fst a) = set (map fst b)" using assms(3) by (auto simp: has_key_iff)
  with assms(1,2) have "length (map fst a) = length (map fst b)" by (metis distinct_card)
  then show ?thesis by simp
qed

section \<open>Methods with effects\<close>

text \<open>
  A method that reads and writes state and may return an error is a function from the state to an
  error or a value and the new state. What a method wrote before it failed stays written, as in
  the code.
\<close>

type_synonym ('s, 'a) io = "'s \<Rightarrow> (gerr + 'a) \<times> 's"

definition ret :: "'a \<Rightarrow> ('s, 'a) io" where
  "ret x s = (Inr x, s)"

definition throw :: "gerr \<Rightarrow> ('s, 'a) io" where
  "throw e s = (Inl e, s)"

definition bind_io :: "('s, 'a) io \<Rightarrow> ('a \<Rightarrow> ('s, 'b) io) \<Rightarrow> ('s, 'b) io" where
  "bind_io m f s = (case m s of (Inl e, s') \<Rightarrow> (Inl e, s') | (Inr x, s') \<Rightarrow> f x s')"

definition then_io :: "('s, 'a) io \<Rightarrow> ('s, 'b) io \<Rightarrow> ('s, 'b) io" where
  "then_io m n = bind_io m (\<lambda>_. n)"

definition get_io :: "('s \<Rightarrow> 'a) \<Rightarrow> ('s, 'a) io" where
  "get_io f s = (Inr (f s), s)"

definition mod_io :: "('s \<Rightarrow> 's) \<Rightarrow> ('s, unit) io" where
  "mod_io f s = (Inr (), f s)"

definition lift_io :: "gerr + 'a \<Rightarrow> ('s, 'a) io" where
  "lift_io r s = (r, s)"

definition require :: "bool \<Rightarrow> gerr \<Rightarrow> ('s, unit) io" where
  \<comment> \<open>\<open>if !ok { return err }\<close>\<close>
  "require ok e s = (if ok then Inr () else Inl e, s)"

definition catch_io :: "('s, 'a) io \<Rightarrow> ('s, gerr + 'a) io" where
  \<comment> \<open>\<open>x, err := m()\<close> where the code goes on in both cases\<close>
  "catch_io m s = (case m s of (r, s') \<Rightarrow> (Inr r, s'))"

fun for_io :: "'a list \<Rightarrow> ('a \<Rightarrow> ('s, unit) io) \<Rightarrow> ('s, unit) io" where
  \<comment> \<open>a \<open>range\<close> loop whose body may return early with an error\<close>
  "for_io [] f = ret ()"
| "for_io (x # xs) f = then_io (f x) (for_io xs f)"

lemma io_apply [io_simps]:
  "ret a s = (Inr a, s)"
  "throw e s = (Inl e, s)"
  "get_io g s = (Inr (g s), s)"
  "mod_io h s = (Inr (), h s)"
  "lift_io r s = (r, s)"
  "require ok e s = (if ok then Inr () else Inl e, s)"
  "catch_io m0 s = (case m0 s of (r', s') \<Rightarrow> (Inr r', s'))"
  "bind_io m f s = (case m s of (Inl e, s') \<Rightarrow> (Inl e, s') | (Inr x, s') \<Rightarrow> f x s')"
  "then_io m n s = (case m s of (Inl e, s') \<Rightarrow> (Inl e, s') | (Inr x, s') \<Rightarrow> n s')"
  by (simp_all add: ret_def throw_def get_io_def mod_io_def lift_io_def require_def catch_io_def
      bind_io_def then_io_def)

lemma first_err_Cons: "first_err (r # rs) = (case r of None \<Rightarrow> first_err rs | Some e \<Rightarrow> Some e)"
  by (cases r) auto

lemma bind_Inr_iff: "bind_io m f s = (Inr y, t) \<longleftrightarrow> (\<exists>x s1. m s = (Inr x, s1) \<and> f x s1 = (Inr y, t))"
  by (auto simp: io_apply split: prod.splits sum.splits)

lemma then_Inr_iff: "then_io m n s = (Inr y, t) \<longleftrightarrow> (\<exists>x s1. m s = (Inr x, s1) \<and> n s1 = (Inr y, t))"
  by (simp add: then_io_def bind_Inr_iff)

lemma leaf_Inr_iff:
  "ret a s = (Inr y, t) \<longleftrightarrow> y = a \<and> t = s"
  "require ok e s = (Inr u, t) \<longleftrightarrow> ok \<and> t = s"
  "lift_io r s = (Inr y, t) \<longleftrightarrow> r = Inr y \<and> t = s"
  "throw e s \<noteq> (Inr y, t)"
  by (auto simp: io_apply)

lemmas Inr_iffs = bind_Inr_iff then_Inr_iff leaf_Inr_iff

subsection \<open>Invariants of methods\<close>

text \<open>
  \<open>keeps R m\<close>: whatever \<open>m\<close> does, and whether or not it fails, the state it leaves is related by
  \<open>R\<close> to the one it found. For a reflexive and transitive \<open>R\<close> the combinators preserve it, so
  a two-state invariant of a method follows from the same fact of its primitive operations.
\<close>

definition keeps :: "('s \<Rightarrow> 's \<Rightarrow> bool) \<Rightarrow> ('s, 'a) io \<Rightarrow> bool" where
  "keeps R m \<longleftrightarrow> (\<forall>s. R s (snd (m s)))"

locale two_state =
  fixes R :: "'s \<Rightarrow> 's \<Rightarrow> bool"
  assumes refl_R: "R s s"
    and trans_R: "R s t \<Longrightarrow> R t u \<Longrightarrow> R s u"
begin

lemma keeps_ret [io_keeps]: "keeps R (ret x)"
  by (simp add: keeps_def io_apply refl_R)

lemma keeps_throw [io_keeps]: "keeps R (throw e)"
  by (simp add: keeps_def io_apply refl_R)

lemma keeps_get [io_keeps]: "keeps R (get_io f)"
  by (simp add: keeps_def io_apply refl_R)

lemma keeps_lift [io_keeps]: "keeps R (lift_io r)"
  by (simp add: keeps_def io_apply refl_R)

lemma keeps_require [io_keeps]: "keeps R (require ok e)"
  by (simp add: keeps_def io_apply refl_R)

lemma keeps_mod: "(\<And>s. R s (f s)) \<Longrightarrow> keeps R (mod_io f)"
  by (simp add: keeps_def io_apply)

lemma keeps_bind [io_keeps]:
  assumes m: "keeps R m" and f: "\<And>x. keeps R (f x)"
  shows "keeps R (bind_io m f)"
  unfolding keeps_def
proof (rule allI)
  fix s
  have 1: "R s (snd (m s))" using m by (simp add: keeps_def)
  have 2: "R t (snd (f x t))" for x t using f by (simp add: keeps_def)
  show "R s (snd (bind_io m f s))"
    using 1 2[of "snd (m s)"] by (auto simp: io_apply split_beta split: sum.splits intro: trans_R)
qed

lemma keeps_then [io_keeps]: "keeps R m \<Longrightarrow> keeps R n \<Longrightarrow> keeps R (then_io m n)"
  by (simp add: then_io_def keeps_bind)

lemma keeps_catch [io_keeps]: "keeps R m \<Longrightarrow> keeps R (catch_io m)"
  by (simp add: keeps_def io_apply split_beta)

lemma keeps_for [io_keeps]: "(\<And>x. keeps R (f x)) \<Longrightarrow> keeps R (for_io xs f)"
  by (induction xs) (auto intro: keeps_ret keeps_then)

lemma keeps_if [io_keeps]: "(b \<Longrightarrow> keeps R m) \<Longrightarrow> (\<not> b \<Longrightarrow> keeps R n) \<Longrightarrow> keeps R (if b then m else n)"
  by simp

lemma keeps_sum [io_keeps]:
  "(\<And>e. keeps R (f e)) \<Longrightarrow> (\<And>x. keeps R (g x)) \<Longrightarrow> keeps R (case r of Inl e \<Rightarrow> f e | Inr x \<Rightarrow> g x)"
  by (simp split: sum.split)

lemma keeps_option [io_keeps]:
  "keeps R m \<Longrightarrow> (\<And>x. keeps R (g x)) \<Longrightarrow> keeps R (case r of None \<Rightarrow> m | Some x \<Rightarrow> g x)"
  by (simp split: option.split)

lemma keepsD: "keeps R m \<Longrightarrow> m s = (r, t) \<Longrightarrow> R s t"
  by (metis keeps_def snd_conv)

text \<open>The same for one start state, where a step rests on what an earlier one established.\<close>

lemma at_bind:
  assumes "R s (snd (m s))" "\<And>x t. m s = (Inr x, t) \<Longrightarrow> R t (snd (f x t))"
  shows "R s (snd (bind_io m f s))"
proof -
  obtain r t where m: "m s = (r, t)" by fastforce
  with assms(1) have 1: "R s t" by simp
  show ?thesis
  proof (cases r)
    case (Inl e)
    with m 1 show ?thesis by (simp add: io_apply)
  next
    case (Inr x)
    with m assms(2) have "R t (snd (f x t))" by simp
    with m Inr 1 show ?thesis by (auto simp: io_apply intro: trans_R)
  qed
qed

lemma at_then:
  assumes "R s (snd (m s))" "\<And>x t. m s = (Inr x, t) \<Longrightarrow> R t (snd (n t))"
  shows "R s (snd (then_io m n s))"
  unfolding then_io_def by (rule at_bind[of s m "\<lambda>_. n"]) (use assms in auto)

lemma at_keeps: "keeps R m \<Longrightarrow> R s (snd (m s))"
  by (simp add: keeps_def)

lemma keepsI: "(\<And>s. R s (snd (m s))) \<Longrightarrow> keeps R m"
  by (simp add: keeps_def)

end

text \<open>
  \<open>triple P m Q E\<close>: from a state satisfying \<open>P\<close>, a normal return \<open>x\<close> satisfies \<open>Q x\<close> and an
  error return leaves a state satisfying \<open>E\<close>.
\<close>

definition triple :: "('s \<Rightarrow> bool) \<Rightarrow> ('s, 'a) io \<Rightarrow> ('a \<Rightarrow> 's \<Rightarrow> bool) \<Rightarrow> ('s \<Rightarrow> bool) \<Rightarrow> bool" where
  "triple P m Q E \<longleftrightarrow> (\<forall>s. P s \<longrightarrow> (case m s of (Inr x, t) \<Rightarrow> Q x t | (Inl e, t) \<Rightarrow> E t))"

lemma tripleI: "(\<And>s. P s \<Longrightarrow> (case m s of (Inr x, t) \<Rightarrow> Q x t | (Inl e, t) \<Rightarrow> E t)) \<Longrightarrow> triple P m Q E"
  by (simp add: triple_def)

lemma tripleD: "triple P m Q E \<Longrightarrow> P s \<Longrightarrow> m s = (Inr x, t) \<Longrightarrow> Q x t"
  by (force simp: triple_def)

lemma tripleE: "triple P m Q E \<Longrightarrow> P s \<Longrightarrow> m s = (Inl e, t) \<Longrightarrow> E t"
  by (force simp: triple_def)

lemma triple_bind:
  assumes "triple P m Q E" and "\<And>x. triple (Q x) (f x) Q' E"
  shows "triple P (bind_io m f) Q' E"
proof (rule tripleI)
  fix s assume P: "P s"
  obtain r t where m: "m s = (r, t)" by fastforce
  show "case bind_io m f s of (Inr x, t) \<Rightarrow> Q' x t | (Inl e, t) \<Rightarrow> E t"
  proof (cases r)
    case (Inl e)
    with assms(1) P m show ?thesis by (simp add: io_apply tripleE)
  next
    case (Inr x)
    with assms(1) P m have "Q x t" by (auto dest: tripleD)
    with assms(2)[of x] m Inr show ?thesis by (simp add: io_apply triple_def)
  qed
qed

lemma triple_then:
  "triple P m (\<lambda>_. Q) E \<Longrightarrow> triple Q n Q' E \<Longrightarrow> triple P (then_io m n) Q' E"
  unfolding then_io_def by (rule triple_bind)

lemma triple_pre: "triple P' m Q E \<Longrightarrow> (\<And>s. P s \<Longrightarrow> P' s) \<Longrightarrow> triple P m Q E"
  by (simp add: triple_def)

lemma triple_for:
  assumes "\<And>x. x \<in> set xs \<Longrightarrow> triple I (f x) (\<lambda>_. I) E"
  shows "triple I (for_io xs f) (\<lambda>_. I) E"
  using assms
proof (induction xs)
  case Nil
  show ?case by (simp add: triple_def io_apply)
next
  case (Cons x xs)
  then show ?case by (auto intro!: triple_then)
qed

lemma triple_pure: "(b \<Longrightarrow> triple P m Q E) \<Longrightarrow> triple (\<lambda>s. P s \<and> b) m Q E"
  by (auto simp: triple_def)

lemma triple_ret: "(\<And>w. P w \<Longrightarrow> Q x w) \<Longrightarrow> triple P (ret x) Q E"
  by (simp add: triple_def io_apply)

lemma triple_post: "triple P m Q E \<Longrightarrow> (\<And>x s. Q x s \<Longrightarrow> Q' x s) \<Longrightarrow> triple P m Q' E"
  by (fastforce simp: triple_def split: prod.splits sum.splits)

lemma triple_catch: "triple P m (\<lambda>_. R) R \<Longrightarrow> triple P (catch_io m) (\<lambda>_. R) E"
  by (fastforce simp: triple_def io_apply split: prod.splits sum.splits)

lemma triple_lift_io: "triple P (lift_io r) (\<lambda>_. P) P"
  by (auto simp: triple_def io_apply split: sum.split)

lemma triple_require: "triple P (require b e) (\<lambda>_. P) P"
  by (auto simp: triple_def io_apply)

lemma triple_throw: "triple P (throw e) Q P"
  by (simp add: triple_def io_apply)

lemma triple_error: "triple P m Q E \<Longrightarrow> (\<And>s. E s \<Longrightarrow> E' s) \<Longrightarrow> triple P m Q E'"
  by (fastforce simp: triple_def split: prod.splits sum.splits)

lemma triple_any: "(\<And>w x t. m w = (Inr x, t) \<Longrightarrow> Q x t) \<Longrightarrow> triple P m Q (\<lambda>_. True)"
  by (auto simp: triple_def split: prod.split sum.split)

text \<open>A \<open>range\<close> loop that updates a local variable.\<close>

fun fold_io :: "('b \<Rightarrow> 'a \<Rightarrow> ('s, 'b) io) \<Rightarrow> 'a list \<Rightarrow> 'b \<Rightarrow> ('s, 'b) io" where
  "fold_io f [] acc = ret acc"
| "fold_io f (x # xs) acc = bind_io (f acc x) (fold_io f xs)"

lemma triple_fold:
  assumes "\<And>acc x. x \<in> set xs \<Longrightarrow> triple (J acc) (f acc x) J E"
  shows "triple (J acc) (fold_io f xs acc) J E"
  using assms by (induction xs arbitrary: acc) (auto intro!: triple_ret triple_bind)

text \<open>A call on a component of the state.\<close>

definition lens_io :: "('s \<Rightarrow> 'x) \<Rightarrow> ('x \<Rightarrow> 's \<Rightarrow> 's) \<Rightarrow> ('x, 'a) io \<Rightarrow> ('s, 'a) io" where
  "lens_io get put m s = (case m (get s) of (r, x) \<Rightarrow> (r, put x s))"

lemma triple_lens:
  assumes "\<And>s a x. P s \<Longrightarrow> m (get s) = (Inr a, x) \<Longrightarrow> Q a (put x s)" "\<And>s e x. P s \<Longrightarrow> m (get s) = (Inl e, x) \<Longrightarrow> E (put x s)"
  shows "triple P (lens_io get put m) Q E"
  using assms by (fastforce simp: triple_def lens_io_def split: prod.splits sum.splits)

lemma triple_catch_lens:
  assumes "\<And>s r x. P s \<Longrightarrow> m (get s) = (r, x) \<Longrightarrow> Q r (put x s)"
  shows "triple P (catch_io (lens_io get put m)) Q E"
  using assms by (auto simp: triple_def lens_io_def io_apply split: prod.splits)

lemma triple_get: "(\<And>s. P s \<Longrightarrow> Q (g s) s) \<Longrightarrow> triple P (get_io g) Q E"
  by (simp add: triple_def io_apply)

lemma triple_mod: "(\<And>s. P s \<Longrightarrow> Q () (f s)) \<Longrightarrow> triple P (mod_io f) Q E"
  by (simp add: triple_def io_apply)

section \<open>Objects outside\<close>

text \<open>
  How the objects of a system outside change from one of its states to a later one: an object that was
  known stays known, and one that was known to be gone never comes back.
\<close>

definition forward :: "('k \<Rightarrow> 'x \<Rightarrow> bool) \<Rightarrow> ('k \<Rightarrow> 'x \<Rightarrow> bool) \<Rightarrow> 'x \<Rightarrow> 'x \<Rightarrow> bool" where
  "forward known live x y \<longleftrightarrow> (\<forall>k. known k x \<longrightarrow> known k y \<and> (live k y \<longrightarrow> live k x))"

lemma forward_refl: "forward known live x x"
  by (simp add: forward_def)

lemma forward_trans: "forward known live x y \<Longrightarrow> forward known live y z \<Longrightarrow> forward known live x z"
  by (simp add: forward_def)

lemma triple_ex:
  assumes "\<And>x. triple (P x) m Q E"
  shows "triple (\<lambda>s. \<exists>x. P x s) m Q E"
proof (rule tripleI)
  fix s assume "\<exists>x. P x s"
  then obtain x where x: "P x s" ..
  from assms[of x, unfolded triple_def, rule_format, OF x] show "case m s of (Inr x, t) \<Rightarrow> Q x t | (Inl e, t) \<Rightarrow> E t" .
qed

end
