(* ===== verification/Text.thy ===== *)
theory Text
  imports Prelude
begin

text \<open>
  The string operations of Go's standard library that the program relies on: UTF-8 decoding as
  \<open>range\<close> over a string does it, \<open>unicode.IsControl\<close>, the regular expressions used as
  validators, and \<open>strings.HasPrefix\<close> and its kin. A string is its list of bytes.
\<close>

section \<open>UTF-8\<close>

definition in_rng :: "nat \<Rightarrow> nat \<Rightarrow> nat \<Rightarrow> bool" where
  "in_rng lo hi b \<longleftrightarrow> lo \<le> b \<and> b \<le> hi"

text \<open>
  The multi-byte sequences \<open>unicode/utf8\<close> accepts after a first byte \<open>b0 \<ge> 128\<close>: the rune and
  how many more bytes it takes. Overlong forms, surrogates and runes above \<open>0x10FFFF\<close> are
  rejected by the ranges of the second byte.
\<close>

definition second_rng :: "nat \<Rightarrow> nat \<times> nat" where
  "second_rng b0 = (if b0 = 224 then (160, 191) else if b0 = 237 then (128, 159)
     else if b0 = 240 then (144, 191) else if b0 = 244 then (128, 143) else (128, 191))"

fun multi_rune :: "nat \<Rightarrow> nat list \<Rightarrow> (nat \<times> nat) option" where
  "multi_rune b0 bs =
     (if in_rng 194 223 b0 then
        (case bs of b1 # _ \<Rightarrow>
           if in_rng 128 191 b1 then Some ((b0 - 192) * 64 + (b1 - 128), 1) else None
         | _ \<Rightarrow> None)
      else if in_rng 224 239 b0 then
        (case bs of b1 # b2 # _ \<Rightarrow>
           if in_rng (fst (second_rng b0)) (snd (second_rng b0)) b1 \<and> in_rng 128 191 b2
           then Some ((b0 - 224) * 4096 + (b1 - 128) * 64 + (b2 - 128), 2) else None
         | _ \<Rightarrow> None)
      else if in_rng 240 244 b0 then
        (case bs of b1 # b2 # b3 # _ \<Rightarrow>
           if in_rng (fst (second_rng b0)) (snd (second_rng b0)) b1 \<and> in_rng 128 191 b2 \<and> in_rng 128 191 b3
           then Some ((b0 - 240) * 262144 + (b1 - 128) * 4096 + (b2 - 128) * 64 + (b3 - 128), 3) else None
         | _ \<Rightarrow> None)
      else None)"

declare multi_rune.simps [simp del]

text \<open>
  The runes \<open>for _, r := range s\<close> yields, each with whether it was decoded; a byte that starts
  no valid sequence yields \<open>RuneError\<close> (U+FFFD) and advances by one byte.
\<close>

function runes :: "nat list \<Rightarrow> (bool \<times> nat) list" where
  "runes [] = []"
| "runes (b # bs) =
     (if b < 128 then (True, b) # runes bs
      else case multi_rune b bs of
             None \<Rightarrow> (False, 65533) # runes bs
           | Some (r, n) \<Rightarrow> (True, r) # runes (drop n bs))"
  by pat_completeness auto
termination
  by (relation "measure length") auto

definition str_runes :: "string \<Rightarrow> nat list" where
  "str_runes s = map snd (runes (map of_char s))"

definition utf8_valid :: "string \<Rightarrow> bool" where
  "utf8_valid s \<longleftrightarrow> list_all fst (runes (map of_char s))"

definition encode_rune :: "nat \<Rightarrow> nat list" where
  "encode_rune r =
     (if r < 128 then [r]
      else if r < 2048 then [192 + r div 64, 128 + r mod 64]
      else if r < 65536 then [224 + r div 4096, 128 + r div 64 mod 64, 128 + r mod 64]
      else [240 + r div 262144, 128 + r div 4096 mod 64, 128 + r div 64 mod 64, 128 + r mod 64])"

definition runes_str :: "nat list \<Rightarrow> string" where
  \<comment> \<open>\<open>string(rs)\<close> for valid runes\<close>
  "runes_str rs = map char_of (concat (map encode_rune rs))"

definition valid_rune :: "nat \<Rightarrow> bool" where
  "valid_rune r \<longleftrightarrow> r < 55296 \<or> 57343 < r \<and> r \<le> 1114111"

definition is_control :: "nat \<Rightarrow> bool" where
  "is_control r \<longleftrightarrow> r < 32 \<or> in_rng 127 159 r"

lemma multi_rune_valid: "multi_rune b bs = Some (r, n) \<Longrightarrow> valid_rune r"
  by (auto simp: multi_rune.simps valid_rune_def in_rng_def second_rng_def
      split: if_splits list.splits) linarith+

lemma runes_valid: "x \<in> set (runes bs) \<Longrightarrow> valid_rune (snd x)"
proof (induction bs rule: runes.induct)
  case 1
  then show ?case by simp
next
  case (2 b bs)
  then show ?case
    by (auto simp: valid_rune_def split: if_splits option.splits dest: multi_rune_valid[unfolded valid_rune_def])
qed

lemma runes_encode: 
  assumes "valid_rune r"
  shows "runes (encode_rune r @ bs) = (True, r) # runes bs"
proof -
  consider "r < 128" | "128 \<le> r" "r < 2048" | "2048 \<le> r" "r < 65536" | "65536 \<le> r" by linarith
  then show ?thesis
  proof cases
    case 1
    then show ?thesis by (simp add: encode_rune_def)
  next
    case 2
    then have "multi_rune (192 + r div 64) ((128 + r mod 64) # bs) = Some (r, 1)"
      by (simp add: multi_rune.simps in_rng_def) linarith
    with 2 show ?thesis by (simp add: encode_rune_def)
  next
    case 3
    define h m l where hml: "h = r div 4096" "m = r div 64 mod 64" "l = r mod 64"
    have "r div 64 * 64 + l = r" "r div 64 div 64 * 64 + m = r div 64"
      unfolding hml by (rule div_mult_mod_eq)+
    moreover have "r div 64 div 64 = h" by (simp add: hml flip: div_mult2_eq)
    ultimately have r: "h * 4096 + m * 64 + l = r" by linarith
    have lt: "m < 64" "l < 64" by (simp_all add: hml)
    have "h = 0 \<Longrightarrow> 32 \<le> m" using 3 r lt by linarith
    moreover have "h = 13 \<Longrightarrow> m < 32" using assms r lt by (simp add: valid_rune_def)
    moreover have "h \<le> 15" using 3 r by linarith
    ultimately have "multi_rune (224 + h) ((128 + m) # (128 + l) # bs) = Some (r, 2)"
      using lt r by (auto simp: multi_rune.simps in_rng_def second_rng_def)
    with 3 show ?thesis by (simp add: encode_rune_def hml)
  next
    case 4
    have le: "r \<le> 1114111" using assms 4 by (simp add: valid_rune_def)
    define h g m l where hml: "h = r div 262144" "g = r div 4096 mod 64" "m = r div 64 mod 64" "l = r mod 64"
    have "r div 64 * 64 + l = r" "r div 64 div 64 * 64 + m = r div 64"
      "r div 4096 div 64 * 64 + g = r div 4096"
      unfolding hml by (rule div_mult_mod_eq)+
    moreover have "r div 64 div 64 = r div 4096" "r div 4096 div 64 = h"
      by (simp_all add: hml flip: div_mult2_eq)
    ultimately have r: "h * 262144 + g * 4096 + m * 64 + l = r" by linarith
    have lt: "g < 64" "m < 64" "l < 64" by (simp_all add: hml)
    have "h = 0 \<Longrightarrow> 16 \<le> g" using 4 r lt by linarith
    moreover have "h = 4 \<Longrightarrow> g < 16" using le r lt by linarith
    moreover have "h \<le> 4" using le r by linarith
    ultimately have "multi_rune (240 + h) ((128 + g) # (128 + m) # (128 + l) # bs) = Some (r, 3)"
      using lt r by (auto simp: multi_rune.simps in_rng_def second_rng_def)
    with 4 show ?thesis by (simp add: encode_rune_def hml)
  qed
qed

lemma encode_rune_byte: "valid_rune r \<Longrightarrow> b \<in> set (encode_rune r) \<Longrightarrow> b < 256"
  by (auto simp: encode_rune_def valid_rune_def split: if_splits)

lemma of_runes_str:
  assumes "\<forall>r \<in> set rs. valid_rune r"
  shows "map of_char (runes_str rs) = concat (map encode_rune rs)"
proof -
  have "of_char (char_of b :: char) = b" if "b \<in> set (concat (map encode_rune rs))" for b :: nat
    using that assms encode_rune_byte by auto
  then have "map (\<lambda>b. of_char (char_of b :: char)) (concat (map encode_rune rs)) = concat (map encode_rune rs)"
    by (rule map_idI)
  then show ?thesis by (simp only: runes_str_def map_map comp_def)
qed

lemma runes_concat:
  "\<forall>r \<in> set rs. valid_rune r \<Longrightarrow> runes (concat (map encode_rune rs)) = map (Pair True) rs"
  by (induction rs) (auto simp: runes_encode)

lemma str_runes_runes_str: "\<forall>r \<in> set rs. valid_rune r \<Longrightarrow> str_runes (runes_str rs) = rs"
  by (simp add: str_runes_def of_runes_str runes_concat comp_def)

lemma utf8_valid_runes_str: "\<forall>r \<in> set rs. valid_rune r \<Longrightarrow> utf8_valid (runes_str rs)"
  by (simp add: utf8_valid_def of_runes_str runes_concat list_all_iff)

lemma str_runes_valid: "r \<in> set (str_runes s) \<Longrightarrow> valid_rune r"
  by (auto simp: str_runes_def dest: runes_valid)

lemma runes_ascii: "\<forall>b \<in> set bs. b < 128 \<Longrightarrow> runes bs = map (Pair True) bs"
  by (induction bs) auto

text \<open>The byte prefix that holds the first \<open>n\<close> runes, the \<open>%.ns\<close> of package fmt.\<close>

fun rune_width :: "nat \<Rightarrow> nat list \<Rightarrow> nat" where
  "rune_width b bs = (if b < 128 then 1 else case multi_rune b bs of None \<Rightarrow> 1 | Some (r, n) \<Rightarrow> Suc n)"

fun take_runes :: "nat \<Rightarrow> string \<Rightarrow> string" where
  "take_runes 0 s = []"
| "take_runes (Suc n) [] = []"
| "take_runes (Suc n) (c # s) =
     (let k = rune_width (of_char c) (map of_char s) in take k (c # s) @ take_runes n (drop k (c # s)))"

lemma rune_width_le: "rune_width b bs \<le> 4"
  by (auto simp: multi_rune.simps split: option.splits list.splits if_splits)

lemma length_take_runes: "length (take_runes n s) \<le> 4 * n"
proof (induction n s rule: take_runes.induct)
  case (3 n c s)
  let ?k = "rune_width (of_char c) (map of_char s)"
  have "length (take ?k (c # s)) \<le> 4" using rune_width_le[of "of_char c" "map of_char s"] by simp
  with 3[OF refl] show ?case by (simp add: Let_def del: rune_width.simps)
qed auto

text \<open>\<open>strconv.Atoi\<close> and \<open>ParseInt(s, 10, 64)\<close>: a decimal number that fits 64 bits.\<close>

fun digits_value :: "int \<Rightarrow> string \<Rightarrow> int option" where
  "digits_value acc [] = Some acc"
| "digits_value acc (c # cs) = (if in_rng 48 57 (of_char c) then digits_value (10 * acc + (of_char c - 48)) cs else None)"

definition atoi :: "string \<Rightarrow> int option" where
  \<comment> \<open>\<open>strconv.Atoi\<close> on 64 bits\<close>
  "atoi s = (let (neg, ds) = (case s of c # cs \<Rightarrow> if c = CHR ''-'' then (True, cs) else if c = CHR ''+'' then (False, cs) else (False, s)
                             | [] \<Rightarrow> (False, []))
     in if ds = [] then None else case digits_value 0 ds of None \<Rightarrow> None | Some n \<Rightarrow>
          (let v = (if neg then - n else n) in if v < - (2 ^ 63) \<or> v \<ge> 2 ^ 63 then None else Some v))"

lemma length_take_runes_ascii: "\<forall>c \<in> set s. of_char c < (128 :: nat) \<Longrightarrow> length (take_runes n s) \<le> n"
proof (induction n s rule: take_runes.induct)
  case (3 n c s)
  then show ?case by (simp add: Let_def)
qed auto

section \<open>Validators\<close>

definition safe_text :: "string \<Rightarrow> nat \<Rightarrow> bool \<Rightarrow> bool" where
  "safe_text s mx allow_empty =
     (if (\<not> allow_empty \<and> s = []) \<or> length s > mx \<or> \<not> utf8_valid s then False
      else list_all (\<lambda>r. \<not> is_control r) (str_runes s))"

definition lower_hex :: "char \<Rightarrow> bool" where
  "lower_hex c \<longleftrightarrow> in_rng 48 57 (of_char c) \<or> in_rng 97 102 (of_char c)"

definition hex_n :: "nat \<Rightarrow> string \<Rightarrow> bool" where
  \<comment> \<open>the regular expression \<open>^[0-9a-f]{n}$\<close>\<close>
  "hex_n n s \<longleftrightarrow> length s = n \<and> list_all lower_hex s"

definition alnum :: "char \<Rightarrow> bool" where
  "alnum c \<longleftrightarrow> in_rng 48 57 (of_char c) \<or> in_rng 65 90 (of_char c) \<or> in_rng 97 122 (of_char c)"

definition uuid_shape :: "bool list" where
  "uuid_shape = replicate 8 False @ [True] @ replicate 4 False @ [True] @ replicate 4 False
     @ [True] @ replicate 4 False @ [True] @ replicate 12 False"

definition uuid_pattern :: "string \<Rightarrow> bool" where
  "uuid_pattern s = list_all2 (\<lambda>dash c. if dash then c = CHR ''-'' else lower_hex c) uuid_shape s"

definition revision_pattern :: "string \<Rightarrow> bool" where
  \<comment> \<open>the regular expression \<open>^([0-9a-f]{40}|[0-9a-f]{64})$\<close>\<close>
  "revision_pattern s \<longleftrightarrow> hex_n 40 s \<or> hex_n 64 s"

lemma hex_n_length: "hex_n n s \<Longrightarrow> length s = n"
  by (simp add: hex_n_def)

lemma hex_n_ascii: "hex_n n s \<Longrightarrow> c \<in> set s \<Longrightarrow> of_char c < (128::nat) \<and> 32 \<le> (of_char c :: nat)"
  by (auto simp: hex_n_def list_all_iff lower_hex_def in_rng_def)

lemma safe_text_ascii:
  assumes "\<forall>c \<in> set s. (32::nat) \<le> of_char c \<and> (of_char c::nat) < 127" "length s \<le> mx" "allow_empty \<or> s \<noteq> []"
  shows "safe_text s mx allow_empty"
proof -
  have "runes (map of_char s) = map (Pair True) (map of_char s)"
    using assms(1) by (intro runes_ascii) force
  then show ?thesis
    using assms by (auto simp: safe_text_def utf8_valid_def str_runes_def list_all_iff is_control_def in_rng_def)
qed

section \<open>Package strings\<close>

fun has_prefix :: "string \<Rightarrow> string \<Rightarrow> bool" where
  "has_prefix s [] = True"
| "has_prefix [] (p # ps) = False"
| "has_prefix (c # s) (p # ps) = (c = p \<and> has_prefix s ps)"

definition has_suffix :: "string \<Rightarrow> string \<Rightarrow> bool" where
  "has_suffix s p = has_prefix (rev s) (rev p)"

fun contains :: "string \<Rightarrow> string \<Rightarrow> bool" where
  "contains [] p = (p = [])"
| "contains (c # s) p = (has_prefix (c # s) p \<or> contains s p)"

definition contains_any :: "string \<Rightarrow> string \<Rightarrow> bool" where
  "contains_any s cs = list_ex (\<lambda>c. List.member cs c) s"

fun split_on :: "char \<Rightarrow> string \<Rightarrow> string list" where
  \<comment> \<open>\<open>strings.Split\<close> with a one-byte separator\<close>
  "split_on d [] = [[]]"
| "split_on d (c # s) =
     (if c = d then [] # split_on d s
      else (case split_on d s of [] \<Rightarrow> [[c]] | w # ws \<Rightarrow> (c # w) # ws))"

text \<open>
  \<open>strings.TrimSpace\<close>, as the runes that are left; the code only compares the trimmed text.
\<close>

definition is_space :: "nat \<Rightarrow> bool" where
  "is_space r \<longleftrightarrow> in_rng 9 13 r \<or> r = 32 \<or> r = 133 \<or> r = 160 \<or> r = 5760 \<or> in_rng 8192 8202 r \<or>
     r = 8232 \<or> r = 8233 \<or> r = 8239 \<or> r = 8287 \<or> r = 12288"

definition trim_runes :: "string \<Rightarrow> nat list" where
  "trim_runes s = rev (dropWhile is_space (rev (dropWhile is_space (str_runes s))))"

text \<open>\<open>strconv.Itoa\<close> and \<open>strconv.FormatInt\<close> in base ten.\<close>

fun show_nat :: "nat \<Rightarrow> string" where
  "show_nat n = (if n < 10 then [char_of (48 + n)] else show_nat (n div 10) @ [char_of (48 + n mod 10)])"

declare show_nat.simps [simp del]

definition show_int :: "int \<Rightarrow> string" where
  "show_int i = (if i < 0 then CHR ''-'' # show_nat (nat (- i)) else show_nat (nat i))"

lemma has_prefix_iff: "has_prefix s p \<longleftrightarrow> (\<exists>t. s = p @ t)"
  by (induction s p rule: has_prefix.induct) auto

lemma has_prefix_append [simp]: "has_prefix (p @ t) p"
  by (auto simp: has_prefix_iff)

lemma has_suffix_iff: "has_suffix s p \<longleftrightarrow> (\<exists>t. s = t @ p)"
  unfolding has_suffix_def has_prefix_iff by (metis rev_append rev_rev_ident)

lemma has_suffix_append [simp]: "has_suffix (t @ p) p"
  by (auto simp: has_suffix_iff)

lemma split_on_not_Nil [simp]: "split_on d s \<noteq> []"
  by (induction s) (auto split: list.splits)

end
