(* ===== verification/Digest.thy ===== *)
theory Digest
  imports Text "HOL-Library.Word"
begin

text \<open>
  \<open>proof.Digest\<close>: SHA-256 (FIPS 180-4, the \<open>crypto/sha256\<close> of the standard library) rendered
  as lower-case hexadecimal. It is defined rather than assumed, so that what the program relies
  on, the shape of a digest, is a theorem.
\<close>

unbundle bit_operations_syntax

type_synonym w32 = "32 word"

text \<open>The round constants and the initial state, in decimal.\<close>

definition sha_k :: "w32 list" where
  "sha_k = [
   1116352408, 1899447441, 3049323471, 3921009573, 961987163, 1508970993, 2453635748, 2870763221,
   3624381080, 310598401, 607225278, 1426881987, 1925078388, 2162078206, 2614888103, 3248222580,
   3835390401, 4022224774, 264347078, 604807628, 770255983, 1249150122, 1555081692, 1996064986,
   2554220882, 2821834349, 2952996808, 3210313671, 3336571891, 3584528711, 113926993, 338241895,
   666307205, 773529912, 1294757372, 1396182291, 1695183700, 1986661051, 2177026350, 2456956037,
   2730485921, 2820302411, 3259730800, 3345764771, 3516065817, 3600352804, 4094571909, 275423344,
   430227734, 506948616, 659060556, 883997877, 958139571, 1322822218, 1537002063, 1747873779,
   1955562222, 2024104815, 2227730452, 2361852424, 2428436474, 2756734187, 3204031479, 3329325298]"

type_synonym sha_state = "w32 \<times> w32 \<times> w32 \<times> w32 \<times> w32 \<times> w32 \<times> w32 \<times> w32"

definition sha_init :: sha_state where
  "sha_init = (1779033703, 3144134277, 1013904242, 2773480762, 1359893119, 2600822924, 528734635, 1541459225)"

definition rotr32 :: "nat \<Rightarrow> w32 \<Rightarrow> w32" where
  "rotr32 n x = drop_bit n x OR push_bit (32 - n) x"

definition small_sigma0 :: "w32 \<Rightarrow> w32" where
  "small_sigma0 x = rotr32 7 x XOR rotr32 18 x XOR drop_bit 3 x"
definition small_sigma1 :: "w32 \<Rightarrow> w32" where
  "small_sigma1 x = rotr32 17 x XOR rotr32 19 x XOR drop_bit 10 x"
definition big_sigma0 :: "w32 \<Rightarrow> w32" where
  "big_sigma0 x = rotr32 2 x XOR rotr32 13 x XOR rotr32 22 x"
definition big_sigma1 :: "w32 \<Rightarrow> w32" where
  "big_sigma1 x = rotr32 6 x XOR rotr32 11 x XOR rotr32 25 x"

text \<open>The message schedule, newest word first.\<close>

fun sha_extend :: "nat \<Rightarrow> w32 list \<Rightarrow> w32 list" where
  "sha_extend 0 ws = ws"
| "sha_extend (Suc n) ws =
     sha_extend n ((small_sigma1 (ws ! 1) + ws ! 6 + small_sigma0 (ws ! 14) + ws ! 15) # ws)"

fun sha_round :: "sha_state \<Rightarrow> w32 \<times> w32 \<Rightarrow> sha_state" where
  "sha_round (a, b, c, d, e, f, g, h) (k, w) =
     (let t1 = h + big_sigma1 e + ((e AND f) XOR (NOT e AND g)) + k + w;
          t2 = big_sigma0 a + ((a AND b) XOR (a AND c) XOR (b AND c))
      in (t1 + t2, a, b, c, d + t1, e, f, g))"

fun sha_add :: "sha_state \<Rightarrow> sha_state \<Rightarrow> sha_state" where
  "sha_add (a, b, c, d, e, f, g, h) (a', b', c', d', e', f', g', h') =
     (a + a', b + b', c + c', d + d', e + e', f + f', g + g', h + h')"

fun be_words :: "nat list \<Rightarrow> w32 list" where
  "be_words (a # b # c # d # bs) = of_nat (((a * 256 + b) * 256 + c) * 256 + d) # be_words bs"
| "be_words bs = []"

definition sha_block :: "sha_state \<Rightarrow> w32 list \<Rightarrow> sha_state" where
  "sha_block s ws = sha_add s (foldl sha_round s (zip sha_k (rev (sha_extend 48 (rev ws)))))"

function sha_blocks :: "sha_state \<Rightarrow> w32 list \<Rightarrow> sha_state" where
  "sha_blocks s ws = (if length ws < 16 then s else sha_blocks (sha_block s (take 16 ws)) (drop 16 ws))"
  by pat_completeness auto
termination
  by (relation "measure (\<lambda>(s, ws). length ws)") auto

declare sha_blocks.simps [simp del]

fun be_bytes :: "nat \<Rightarrow> nat \<Rightarrow> nat list" where
  "be_bytes 0 n = []"
| "be_bytes (Suc k) n = be_bytes k (n div 256) @ [n mod 256]"

definition sha_pad :: "nat list \<Rightarrow> nat list" where
  "sha_pad bs = bs @ 128 # replicate ((55 + 64 - length bs mod 64) mod 64) 0 @ be_bytes 8 (8 * length bs)"

definition hex_digit :: "nat \<Rightarrow> char" where
  "hex_digit n = ''0123456789abcdef'' ! (n mod 16)"

fun hex_of :: "nat \<Rightarrow> nat \<Rightarrow> string" where
  \<comment> \<open>the low \<open>k\<close> hexadecimal digits of \<open>n\<close>, most significant first\<close>
  "hex_of 0 n = []"
| "hex_of (Suc k) n = hex_of k (n div 16) @ [hex_digit n]"

fun hex_state :: "sha_state \<Rightarrow> string" where
  "hex_state (a, b, c, d, e, f, g, h) = concat (map (\<lambda>w. hex_of 8 (unat w)) [a, b, c, d, e, f, g, h])"

definition digest :: "bytes \<Rightarrow> string" where
  "digest data = hex_state (sha_blocks sha_init (be_words (sha_pad (map of_char data))))"

section \<open>Shape of a digest\<close>

lemma length_hex_of [simp]: "length (hex_of k n) = k"
  by (induction k n rule: hex_of.induct) auto

lemma lower_hex_digit: "lower_hex (hex_digit n)"
proof -
  have "\<forall>c \<in> set ''0123456789abcdef''. lower_hex c"
    by (simp add: lower_hex_def in_rng_def)
  moreover have "hex_digit n \<in> set ''0123456789abcdef''"
    unfolding hex_digit_def by (rule nth_mem) simp
  ultimately show ?thesis by blast
qed

lemma lower_hex_of: "c \<in> set (hex_of k n) \<Longrightarrow> lower_hex c"
  by (induction k n rule: hex_of.induct) (auto simp: lower_hex_digit)

lemma hex_n_state: "hex_n 64 (hex_state s)"
  by (cases s rule: hex_state.cases) (auto simp: hex_n_def list_all_iff dest: lower_hex_of)

lemma hex_n_digest [simp, intro]: "hex_n 64 (digest b)"
  by (simp add: digest_def hex_n_state)

lemma length_digest [simp]: "length (digest b) = 64"
  using hex_n_digest by (rule hex_n_length)

lemma digest_not_Nil [simp]: "digest b \<noteq> []"
  using length_digest[of b] by (metis list.size(3) zero_neq_numeral)

text \<open>The padded message is a whole number of blocks, so no byte is dropped by \<open>sha_blocks\<close>.\<close>

lemma length_be_bytes [simp]: "length (be_bytes k n) = k"
  by (induction k n rule: be_bytes.induct) auto

lemma sha_pad_blocks: "64 dvd length (sha_pad bs)"
proof -
  define q m where qm: "q = length bs div 64" "m = length bs mod 64"
  have n: "length bs = q * 64 + m" unfolding qm by (rule div_mult_mod_eq [symmetric])
  have m: "m < 64" by (simp add: qm)
  have len: "length (sha_pad bs) = q * 64 + m + 9 + (119 - m) mod 64"
    by (simp add: sha_pad_def qm)
  show ?thesis
  proof (cases "m \<le> 55")
    case True
    then have "(119 - m) mod 64 = 55 - m" by (simp add: mod_if)
    with True len have "length (sha_pad bs) = 64 * (q + 1)" by simp
    then show ?thesis by simp
  next
    case False
    with m have "(119 - m) mod 64 = 119 - m" by simp
    with False m len have "length (sha_pad bs) = 64 * (q + 2)" by simp
    then show ?thesis by simp
  qed
qed

end
