(* ===== verification/Files.thy ===== *)
theory Files
  imports Digest
begin

text \<open>
  The file protocol all components share: bounded reads of regular files (\<open>ReadBounded\<close> in
  internal/proof/model.go), durable replacement through a synced temporary file and a rename
  (\<open>durable\<close>, \<open>saveState\<close>, \<open>save\<close>, \<open>Atomic\<close>, \<open>writeJSON\<close>), publication that never overwrites,
  and the digest check of an artifact. What a step of the operating system does in an execution
  is a parameter, so every fact holds for every fault and for a crash at any step.
\<close>

section \<open>Reading\<close>

text \<open>
  What \<open>open(O_NOFOLLOW)\<close> finds at a path: nothing, a regular file with its bytes, something
  that is not a regular file (a symlink, directory or device), or an error.
\<close>

datatype node = Missing | Regular bytes | Special | Unreadable string

definition read_bounded :: "node \<Rightarrow> int \<Rightarrow> gerr + bytes" where
  "read_bounded n limit = (case n of
     Missing \<Rightarrow> Inl ENotExist
   | Unreadable e \<Rightarrow> Inl (EExt e)
   | Special \<Rightarrow> Inl (EMsg ''input must be a bounded regular file'')
   | Regular b \<Rightarrow> (if int (length b) > limit then Inl (EMsg ''input must be a bounded regular file'')
                   else Inr b))"

lemma read_bounded_Inr_iff: "read_bounded n limit = Inr b \<longleftrightarrow> n = Regular b \<and> int (length b) \<le> limit"
  by (auto simp: read_bounded_def split: node.splits)

lemma read_bounded_not_exist_iff: "read_bounded n limit = Inl ENotExist \<longleftrightarrow> n = Missing"
  by (auto simp: read_bounded_def split: node.splits)

definition verify_file :: "node \<Rightarrow> string \<Rightarrow> int \<Rightarrow> int \<Rightarrow> gerr option" where
  "verify_file n dg sz limit = (case n of
     Missing \<Rightarrow> Some ENotExist
   | Unreadable e \<Rightarrow> Some (EExt e)
   | Special \<Rightarrow> Some (EMsg ''artifact byte size mismatch'')
   | Regular b \<Rightarrow> first_err [
       check (\<not> (int (length b) \<noteq> sz \<or> sz > limit \<or> sz < 0)) ''artifact byte size mismatch'',
       check (\<not> (int (length b) \<noteq> sz \<or> digest b \<noteq> dg)) ''artifact digest mismatch''])"

lemma verify_file_None_iff:
  "verify_file n dg sz limit = None \<longleftrightarrow>
     (\<exists>b. n = Regular b \<and> int (length b) = sz \<and> sz \<le> limit \<and> digest b = dg)"
  by (auto simp: verify_file_def split: node.splits)

section \<open>Durable replacement\<close>

text \<open>
  The steps of one durable write and whether each succeeds in an execution. A crash at a step is
  the execution in which that step and all later ones fail.
\<close>

record durable_io =
  d_create :: bool
  d_write :: bool
  d_sync :: bool
  d_close :: bool
  d_rename :: bool
  d_dir_open :: bool
  d_dir_sync :: bool

text \<open>
  \<open>durable\<close> over the content of the target: the temporary file is written, synced and closed,
  then renamed over the target, then the directory is synced. The deferred removal only touches
  the temporary name. The result is the error and the content of the target afterwards.
\<close>

definition durable :: "durable_io \<Rightarrow> 'v \<Rightarrow> 'v \<Rightarrow> gerr option \<times> 'v" where
  "durable io data target =
     (if \<not> d_create io then (Some (EExt ''create''), target)
      else if \<not> d_write io then (Some (EExt ''write''), target)
      else if \<not> d_sync io then (Some (EExt ''sync''), target)
      else if \<not> d_close io then (Some (EExt ''close''), target)
      else if \<not> d_rename io then (Some (EExt ''rename''), target)
      else if \<not> d_dir_open io then (Some (EExt ''open''), data)
      else if \<not> d_dir_sync io then (Some (EExt ''sync''), data)
      else (None, data))"

definition durable_ok :: durable_io where
  "durable_ok = \<lparr>d_create = True, d_write = True, d_sync = True, d_close = True, d_rename = True,
     d_dir_open = True, d_dir_sync = True\<rparr>"

lemma durable_ok_simp [simp]: "durable durable_ok v t = (None, v)"
  by (simp add: durable_def durable_ok_def)

lemma durable_cases:
  obtains (written) "durable io v t = (None, v)"
  | (lost) e where "durable io v t = (Some e, t)"
  | (uncertain) e where "durable io v t = (Some e, v)"
proof -
  have "durable io v t = (None, v) \<or> (\<exists>e. durable io v t = (Some e, t)) \<or> (\<exists>e. durable io v t = (Some e, v))"
    by (simp add: durable_def)
  then show ?thesis using that by blast
qed

lemma durable_content: "snd (durable io v t) = v \<or> snd (durable io v t) = t"
  by (auto simp: durable_def)

lemma durable_None: "durable io v t = (None, t') \<Longrightarrow> t' = v"
  by (auto simp: durable_def split: if_splits)

lemma durable_same [simp]: "snd (durable io v v) = v"
  by (auto simp: durable_def)

text \<open>\<open>publishImmutable\<close> of internal/coordinator/observations.go.\<close>

definition publish_immutable :: "durable_io \<Rightarrow> bytes \<Rightarrow> int \<Rightarrow> node \<Rightarrow> gerr option \<times> node" where
  "publish_immutable io data limit target = (case read_bounded target limit of
     Inr existing \<Rightarrow>
       (check (existing = data) ''immutable observation publication conflict'', target)
   | Inl e \<Rightarrow> if e \<noteq> ENotExist then (Some e, target) else durable io (Regular data) target)"

lemma publish_immutable_keeps:
  assumes "target \<noteq> Missing"
  shows "snd (publish_immutable io data limit target) = target"
  using assms read_bounded_not_exist_iff[of target limit]
  by (auto simp: publish_immutable_def split: sum.splits)

lemma publish_immutable_None:
  assumes "publish_immutable io data limit target = (None, target')"
  shows "target' = Regular data \<and> (target = Missing \<or> target = Regular data)"
proof (cases "target = Missing")
  case True
  with assms show ?thesis
    by (auto simp: publish_immutable_def read_bounded_def dest: durable_None)
next
  case False
  with assms show ?thesis
    by (auto simp: publish_immutable_def read_bounded_def split: node.splits if_splits)
qed

end
