(* ===== verification/ProofModel.thy ===== *)
theory ProofModel
  imports Files
begin

text \<open>
  The shared vocabulary of receipts, internal/proof/model.go and internal/proof/assignment.go:
  run identities, coverage observations, the cleanup context of \<open>proofctl\<close> and its preliminary
  evidence, and the coordinator's assignment.
\<close>

section \<open>Data\<close>

definition run_label :: string where
  \<comment> \<open>\<open>Label\<close>\<close>
  "run_label = ''cleanup-receipt.local/run''"

record identity =
  i_provider :: string
  i_repository :: string
  i_run :: string
  i_attempt :: int
  i_job :: string
  i_revision :: string

record observation =
  o_status :: string
  o_observer :: string
  o_reason :: string

record kref =
  r_group :: string
  r_version :: string
  r_resource :: string
  r_namespace :: string
  r_name :: string
  r_uid :: string

record dir_identity =
  d_device :: int
  d_inode :: int

record state =
  s_kind :: string
  s_identity :: identity
  s_token :: string
  s_namespace :: string
  s_namespace_uid :: string
  s_namespace_scoped :: bool
  s_cluster_uid :: string
  s_sandbox :: string
  s_directories :: "dir_identity gomap"
  s_started :: time
  s_completed :: "time option"
  s_inventory_complete :: bool
  s_resources :: "kref list"
  s_coverage :: "observation gomap"
  s_attempts :: int

text \<open>
  The preliminary evidence: the map \<open>State.Evidence\<close> builds, and the \<open>preliminary\<close> struct
  internal/coordinator/staging.go decodes it into.
\<close>

record evidence =
  p_kind :: string
  p_identity :: identity
  p_namespace :: string
  p_namespace_uid :: string
  p_cluster_uid :: string
  p_started :: time
  p_completed :: "time option"
  p_attempts :: int
  p_inventory_complete :: bool
  p_resources :: "kref list"
  p_coverage :: "observation gomap"
  p_verdict :: string
  p_signature_state :: string

record assignment =
  a_kind :: string
  a_identity :: identity
  a_token :: string
  a_namespace :: string
  a_namespace_uid :: string
  a_cluster_uid :: string

definition zero_obs :: observation where
  "zero_obs = \<lparr>o_status = [], o_observer = [], o_reason = []\<rparr>"

definition zero_dir :: dir_identity where
  "zero_dir = \<lparr>d_device = 0, d_inode = 0\<rparr>"

definition components :: "string list" where
  "components = [''workspace'', ''credentials'', ''resources'', ''logs'', ''runner_disposal'']"

abbreviation obs :: "string \<Rightarrow> string \<Rightarrow> string \<Rightarrow> observation" where
  "obs st ob re \<equiv> \<lparr>o_status = st, o_observer = ob, o_reason = re\<rparr>"

abbreviation cov :: "observation gomap \<Rightarrow> string \<Rightarrow> observation" where
  "cov \<equiv> lookup_or zero_obs"

lemma components_distinct [simp]: "distinct components"
  by (simp add: components_def)

section \<open>Identities\<close>

definition identity_validate :: "identity \<Rightarrow> gerr option" where
  "identity_validate i = first_err [
     check (\<not> (i_provider i \<noteq> ''local'' \<and> i_provider i \<noteq> ''github'')) ''provider must be local or github'',
     first_err (map (\<lambda>v. check (\<not> (length v = 0 \<or> length v > 255)) ''repository, run and job must be 1-255 bytes'')
       [i_repository i, i_run i, i_job i]),
     check (\<not> (i_attempt i < 1 \<or> i_attempt i > 2147483647)) ''run attempt must fit a positive PostgreSQL integer'',
     check (revision_pattern (i_revision i)) ''source revision must be a full lowercase Git commit hash'']"

lemma identity_validate_None_iff:
  "identity_validate i = None \<longleftrightarrow>
     i_provider i \<in> {''local'', ''github''} \<and>
     (\<forall>v \<in> {i_repository i, i_run i, i_job i}. 1 \<le> length v \<and> length v \<le> 255) \<and>
     1 \<le> i_attempt i \<and> i_attempt i \<le> 2147483647 \<and> revision_pattern (i_revision i)"
  by (auto simp: identity_validate_def not_less Suc_le_eq)

section \<open>The cleanup context\<close>

definition hex_bytes :: "nat list \<Rightarrow> string" where
  \<comment> \<open>\<open>hex.EncodeToString\<close>\<close>
  "hex_bytes bs = concat (map (hex_of 2) bs)"

lemma hex_n_bytes: "hex_n (2 * length bs) (hex_bytes bs)"
  by (induction bs) (auto simp: hex_bytes_def hex_n_def list_all_iff dest: lower_hex_of)

text \<open>
  \<open>NewState\<close>, given the 16 bytes the random source returns (or its error) and the current time.
\<close>

definition not_observed :: observation where
  "not_observed = obs ''unobservable'' ''none'' ''Not observed by this command''"

definition new_state :: "identity \<Rightarrow> gerr + nat list \<Rightarrow> time \<Rightarrow> gerr + state" where
  "new_state i rand now = (case identity_validate i of Some e \<Rightarrow> Inl e | None \<Rightarrow>
     (case rand of Inl e \<Rightarrow> Inl e | Inr token \<Rightarrow>
       Inr \<lparr>s_kind = ''cleanup-context/v1'', s_identity = i, s_token = hex_bytes token,
            s_namespace = ''proof-'' @ hex_bytes token, s_namespace_uid = [], s_namespace_scoped = False,
            s_cluster_uid = [], s_sandbox = [], s_directories = [], s_started = now, s_completed = None,
            s_inventory_complete = False, s_resources = [],
            s_coverage = map (\<lambda>k. (k, not_observed)) components, s_attempts = 0\<rparr>))"

definition path_base :: "path \<Rightarrow> path" where
  \<comment> \<open>\<open>filepath.Base\<close>\<close>
  "path_base p = (if p = [] then ''.'' else
     let b = last (split_on (CHR ''/'') (rev (dropWhile ((=) (CHR ''/'')) (rev p))))
     in if b = [] then ''/'' else b)"

definition is_abs :: "path \<Rightarrow> bool" where
  "is_abs p = has_prefix p ''/''"

definition obs_shape :: "observation \<Rightarrow> bool" where
  "obs_shape ob \<longleftrightarrow> List.member [''verified'', ''failed'', ''unsupported'', ''unobservable''] (o_status ob) \<and>
     List.member [''job'', ''trusted'', ''none''] (o_observer ob) \<and>
     \<not> (length (o_reason ob) = 0 \<or> length (o_reason ob) > 1024)"

definition ref_in_scope :: "state \<Rightarrow> kref \<Rightarrow> bool" where
  "ref_in_scope s r \<longleftrightarrow> r_namespace r = s_namespace s \<or>
     (r_namespace r = [] \<and> r_group r = [] \<and> r_version r = ''v1'' \<and> r_resource r = ''persistentvolumes'')"

definition state_validate :: "state \<Rightarrow> gerr option" where
  "state_validate s = first_err [
     check (s_kind s = ''cleanup-context/v1'') ''unsupported context kind'',
     identity_validate (s_identity s),
     check (hex_n 32 (s_token s) \<and> s_namespace s = ''proof-'' @ s_token s) ''invalid ownership token or namespace'',
     check (\<not> (s_cluster_uid s = [] \<or> s_namespace_uid s = [])) ''missing cluster/namespace UID'',
     check (is_abs (s_sandbox s) \<and> path_base (s_sandbox s) = s_namespace s) ''invalid disposable sandbox path'',
     first_err (map (\<lambda>k. check (d_inode (lookup_or zero_dir (s_directories s) k) \<noteq> 0) ''missing pinned directory identity'')
       [''root'', ''workspace'', ''credentials'']),
     first_err (map (\<lambda>k. first_err [
         check (has_key (s_coverage s) k) ''missing coverage component'',
         check (obs_shape (cov (s_coverage s) k)) ''invalid coverage observation'']) components),
     check (\<not> (length (s_coverage s) \<noteq> 5 \<or> length (s_directories s) \<noteq> 3)) ''unexpected context components'',
     check (\<not> (s_started s = 0 \<or> s_attempts s < 0 \<or>
                (case s_completed s of None \<Rightarrow> False | Some t \<Rightarrow> t < s_started s))) ''invalid context chronology'',
     first_err (map (\<lambda>r. first_err [
         check (\<not> (r_uid r = [] \<or> r_name r = [] \<or> r_version r = [] \<or> r_resource r = [])) ''invalid resource reference'',
         check (ref_in_scope s r) ''resource reference escapes allowed scope'']) (s_resources s))]"

definition record_obs :: "string \<Rightarrow> string \<Rightarrow> string \<Rightarrow> state \<Rightarrow> state" where
  \<comment> \<open>\<open>State.Record\<close>\<close>
  "record_obs component status reason s =
     (let old = cov (s_coverage s) component in
      if o_status old = ''failed'' \<and> status \<noteq> ''failed'' then s
      else s\<lparr>s_coverage := AList.update component
             (obs status ''job'' (if length reason > 1024 then take 1024 reason else reason)) (s_coverage s)\<rparr>)"

definition state_evidence :: "state \<Rightarrow> gerr + evidence" where
  \<comment> \<open>\<open>State.Evidence\<close>\<close>
  "state_evidence s = (case state_validate s of Some e \<Rightarrow> Inl e | None \<Rightarrow>
     Inr \<lparr>p_kind = ''cleanup-evidence/v1'', p_identity = s_identity s, p_namespace = s_namespace s,
          p_namespace_uid = s_namespace_uid s, p_cluster_uid = s_cluster_uid s, p_started = s_started s,
          p_completed = s_completed s, p_attempts = s_attempts s,
          p_inventory_complete = s_inventory_complete s, p_resources = s_resources s,
          p_coverage = s_coverage s,
          p_verdict = (if list_ex (\<lambda>(k, ob). o_status ob = ''failed'') (s_coverage s) then ''fail'' else ''partial''),
          p_signature_state = ''unsigned''\<rparr>)"

text \<open>A failure, once recorded, stays: the contract of \<open>Record\<close>.\<close>

lemma record_obs_failed:
  "o_status (cov (s_coverage s) c) = ''failed'' \<Longrightarrow>
   o_status (cov (s_coverage (record_obs c' st re s)) c) = ''failed''"
  by (auto simp: record_obs_def Let_def)

lemma record_obs_frame:
  "c \<noteq> c' \<Longrightarrow> cov (s_coverage (record_obs c' st re s)) c = cov (s_coverage s) c"
  by (auto simp: record_obs_def Let_def)

fun record_all :: "(string \<times> string \<times> string) list \<Rightarrow> state \<Rightarrow> state" where
  "record_all [] s = s"
| "record_all ((c, st, re) # rs) s = record_all rs (record_obs c st re s)"

lemma record_all_failed:
  "o_status (cov (s_coverage s) c) = ''failed'' \<Longrightarrow>
   o_status (cov (s_coverage (record_all rs s)) c) = ''failed''"
  by (induction rs s rule: record_all.induct) (auto simp: record_obs_failed)

lemma record_obs_length:
  "has_key (s_coverage s) c \<Longrightarrow> length (s_coverage (record_obs c st re s)) = length (s_coverage s)"
  by (auto simp: record_obs_def Let_def)

text \<open>Recording a well-formed observation keeps a valid context valid.\<close>

lemma state_validate_None:
  assumes "state_validate s = None"
  shows "length (s_coverage s) = 5" "\<And>k. k \<in> set components \<Longrightarrow> has_key (s_coverage s) k"
    "\<And>k. k \<in> set components \<Longrightarrow> obs_shape (cov (s_coverage s) k)"
  using assms by (auto simp: state_validate_def)

lemma state_validate_record:
  assumes valid: "state_validate s = None" and c: "c \<in> set components"
    and st: "st \<in> {''verified'', ''failed'', ''unsupported'', ''unobservable''}" and re: "re \<noteq> []"
  shows "state_validate (record_obs c st re s) = None"
proof -
  note v = state_validate_None[OF valid]
  have shape: "obs_shape (obs st ''job'' (if length re > 1024 then take 1024 re else re))"
    using st re by (auto simp: obs_shape_def)
  have len: "length (s_coverage (record_obs c st re s)) = 5"
    using v(1) record_obs_length[OF v(2)[OF c]] by simp
  have cov: "has_key (s_coverage (record_obs c st re s)) k \<and> obs_shape (cov (s_coverage (record_obs c st re s)) k)"
    if "k \<in> set components" for k
    using v(2,3)[OF that] shape by (auto simp: record_obs_def Let_def)
  have same: "record_obs c st re s = s\<lparr>s_coverage := s_coverage (record_obs c st re s)\<rparr>"
    by (simp add: record_obs_def Let_def)
  show ?thesis
    using valid len cov by (subst same) (auto simp: state_validate_def ref_in_scope_def split: option.splits)
qed

section \<open>Assignments\<close>

definition assignment_validate :: "assignment \<Rightarrow> gerr option" where
  "assignment_validate a = first_err [
     check (a_kind a = ''cleanup-assignment/v1'') ''unsupported assignment kind'',
     identity_validate (a_identity a),
     check (hex_n 32 (a_token a) \<and> a_namespace a = ''proof-'' @ a_token a) ''invalid assignment token or namespace'',
     first_err (map (\<lambda>u. check (\<not> (trim_runes u = [] \<or> length u > 255)) ''assignment cluster/namespace UID must be 1-255 bytes'')
       [a_namespace_uid a, a_cluster_uid a])]"

text \<open>
  \<open>Assignment.UnmarshalJSON\<close>. The third-party canonicalizer and the JSON decoder are
  parameters: whether \<open>jcs.Transform\<close> accepts the text (it refuses duplicate keys), the decoded
  object as raw fields, and the typed decoding with unknown fields disallowed.
\<close>

record assignment_json =
  aj_transform :: "bytes \<Rightarrow> gerr option"
  aj_fields :: "bytes \<Rightarrow> gerr + bytes gomap"
  aj_decode :: "bytes \<Rightarrow> gerr + assignment"

definition assignment_fields :: "assignment_json \<Rightarrow> bytes \<Rightarrow> string list \<Rightarrow> gerr + bytes gomap" where
  "assignment_fields J data names = (case aj_fields J data of Inl e \<Rightarrow> Inl e | Inr fs \<Rightarrow>
     (case first_err (check (length fs = length names) ''assignment has missing or unknown fields'' #
        map (\<lambda>name. check (has_key fs name \<and> trim_runes (lookup_or [] fs name) \<noteq> map of_char ''null'')
               (''assignment requires non-null '' @ name)) names)
      of Some e \<Rightarrow> Inl e | None \<Rightarrow> Inr fs))"

definition unmarshal_assignment :: "assignment_json \<Rightarrow> bytes \<Rightarrow> gerr + assignment" where
  "unmarshal_assignment J data =
     (if length data > 16384 then Inl (EMsg ''assignment exceeds 16 KiB limit'')
      else case aj_transform J data of Some e \<Rightarrow> Inl e | None \<Rightarrow>
        (case assignment_fields J data [''kind'', ''identity'', ''token'', ''namespace'', ''namespace_uid'', ''cluster_uid'']
         of Inl e \<Rightarrow> Inl e | Inr fs \<Rightarrow>
          (case assignment_fields J (lookup_or [] fs ''identity'')
             [''provider'', ''repository'', ''run_id'', ''run_attempt'', ''job_id'', ''source_revision'']
           of Inl e \<Rightarrow> Inl e | Inr _ \<Rightarrow>
            (case aj_decode J data of Inl e \<Rightarrow> Inl e | Inr decoded \<Rightarrow>
              (case assignment_validate decoded of Some e \<Rightarrow> Inl e | None \<Rightarrow> Inr decoded)))))"

definition load_assignment :: "assignment_json \<Rightarrow> node \<Rightarrow> gerr + assignment" where
  "load_assignment J n = (case read_bounded n 16384 of Inl e \<Rightarrow> Inl e | Inr data \<Rightarrow> unmarshal_assignment J data)"

lemma unmarshal_assignment_valid:
  "unmarshal_assignment J data = Inr a \<Longrightarrow> assignment_validate a = None"
  by (auto simp: unmarshal_assignment_def split: if_splits option.splits sum.splits)

end
