(* ===== verification/Observer.thy ===== *)
theory Observer
  imports ProofModel
begin

text \<open>
  The contract of the trusted node collector, internal/coordinator/observer/contract.go, and its
  filesystem observations, files_linux.go: which results are admissible, and the automaton over
  inotify events that decides whether the collected log is complete.
\<close>

section \<open>Requests and results\<close>

record request =
  q_run :: string
  q_pod :: string
  q_uid :: string
  q_sandbox :: string
  q_binding :: string
  q_seconds :: int

record finding =
  f_status :: string
  f_reason :: string

record result =
  x_kind :: string
  x_request :: request
  x_armed :: time
  x_completed :: time
  x_start_proven :: bool
  x_termination_proven :: bool
  x_container :: string
  x_image :: string
  x_started :: int
  x_finished :: int
  x_exit :: int
  x_log_device :: int
  x_log_inode :: int
  x_logs :: finding
  x_logs_digest :: string
  x_logs_bytes :: int
  x_workspace :: finding
  x_credentials :: finding

definition max_logs :: int where "max_logs = 104857600"

definition pod_name :: "string \<Rightarrow> bool" where
  \<comment> \<open>the regular expression \<open>^job-[a-z0-9]{5}$\<close>\<close>
  "pod_name s \<longleftrightarrow> length s = 9 \<and> has_prefix s ''job-'' \<and>
     list_all (\<lambda>c. in_rng 97 122 (of_char c) \<or> in_rng 48 57 (of_char c)) (drop 4 s)"

definition request_validate :: "request \<Rightarrow> gerr option" where
  "request_validate r = check (\<not> (\<not> hex_n 32 (q_run r) \<or> \<not> uuid_pattern (q_uid r) \<or> \<not> pod_name (q_pod r) \<or>
     \<not> hex_n 64 (q_sandbox r) \<or> \<not> hex_n 64 (q_binding r) \<or> q_seconds r < 1 \<or> q_seconds r > 900))
     ''invalid pinned collector request''"

definition request_namespace :: "request \<Rightarrow> string" where
  "request_namespace r = ''proof-runner-'' @ q_run r"

definition request_directory :: "request \<Rightarrow> path" where
  "request_directory r = ''/tmp/proof-observe-'' @ q_run r @ ''-'' @ q_uid r"

definition request_log_directory :: "request \<Rightarrow> path" where
  "request_log_directory r = ''/var/log/pods/'' @ request_namespace r @ ''_'' @ q_pod r @ ''_'' @ q_uid r"

definition finding_ok :: "finding \<Rightarrow> bool" where
  "finding_ok f \<longleftrightarrow> \<not> ((f_status f \<noteq> ''verified'' \<and> f_status f \<noteq> ''unobservable'' \<and> f_status f \<noteq> ''failed'') \<or>
     length (f_reason f) = 0 \<or> length (f_reason f) > 1024)"

definition result_validate :: "result \<Rightarrow> gerr option" where
  "result_validate r = first_err [
     request_validate (x_request r),
     check (\<not> (x_kind r \<noteq> ''kind-node-observation/v1'' \<or> x_armed r = 0 \<or> x_completed r < x_armed r \<or>
        x_logs_bytes r < 0 \<or> x_logs_bytes r > max_logs \<or> \<not> hex_n 64 (x_logs_digest r))) ''invalid collector result'',
     first_err (map (\<lambda>f. check (finding_ok f) ''invalid collector finding'')
       [x_logs r, x_workspace r, x_credentials r]),
     check (\<not> (x_termination_proven r \<and> (\<not> hex_n 64 (x_container r) \<or> x_image r = [] \<or> x_started r \<le> 0 \<or>
        x_finished r < x_started r))) ''invalid runtime termination proof'',
     check (\<not> (f_status (x_logs r) = ''verified'' \<and> (\<not> x_start_proven r \<or> \<not> x_termination_proven r \<or>
        unix_nano (x_armed r) > x_started r \<or> x_log_inode r = 0))) ''complete logs require proven start and termination'',
     check (\<not> ((f_status (x_workspace r) \<noteq> ''unobservable'' \<or> f_status (x_credentials r) \<noteq> ''unobservable'') \<and>
        \<not> x_termination_proven r)) ''filesystem finding without stopped container'']"

lemma result_validate_None:
  assumes "result_validate r = None"
  shows "request_validate (x_request r) = None" "0 \<le> x_logs_bytes r" "x_logs_bytes r \<le> max_logs"
    "hex_n 64 (x_logs_digest r)" "finding_ok (x_logs r)" "finding_ok (x_workspace r)" "finding_ok (x_credentials r)"
  using assms by (auto simp: result_validate_def)

text \<open>A verified log carries the whole proof of the observation window.\<close>

lemma result_verified_logs:
  assumes "result_validate r = None" "f_status (x_logs r) = ''verified''"
  shows "x_start_proven r \<and> x_termination_proven r \<and> unix_nano (x_armed r) \<le> x_started r \<and>
         x_started r \<le> x_finished r \<and> x_log_inode r \<noteq> 0 \<and> hex_n 64 (x_container r)"
  using assms by (auto simp: result_validate_def)

lemma result_filesystem_finding:
  assumes "result_validate r = None" "f_status (x_workspace r) \<noteq> ''unobservable'' \<or> f_status (x_credentials r) \<noteq> ''unobservable''"
  shows "x_termination_proven r"
  using assms by (auto simp: result_validate_def)

section \<open>Directory inspection\<close>

text \<open>
  \<open>absentDirectory\<close>, given what \<open>openat2\<close> and \<open>Readdirnames(1)\<close> return: the names read and
  whether the enumeration ended with \<open>io.EOF\<close>.
\<close>

datatype opened = Opened "string list \<times> bool" | NoEntry | OpenError

definition absent_directory :: "opened \<Rightarrow> finding" where
  "absent_directory o1 = (case o1 of
     NoEntry \<Rightarrow> \<lparr>f_status = ''verified'', f_reason = ''Pinned stopped-runner path is absent''\<rparr>
   | OpenError \<Rightarrow> \<lparr>f_status = ''unobservable'', f_reason = ''Scoped path cannot be safely inspected''\<rparr>
   | Opened (entries, eof) \<Rightarrow>
       (if length entries > 0 then \<lparr>f_status = ''failed'', f_reason = ''Residual directory entry remains after guard termination''\<rparr>
        else if \<not> eof then \<lparr>f_status = ''unobservable'', f_reason = ''Directory enumeration did not prove absence''\<rparr>
        else \<lparr>f_status = ''verified'', f_reason = ''Pinned stopped-runner directory is empty, including hidden entries''\<rparr>))"

text \<open>
  \<open>inspectWorkspace\<close>: the kubelet volume must open, then the run directory in it, then its two
  subdirectories.
\<close>

datatype run_root = RootMissing | RootError | Root opened opened

definition inspect_workspace :: "run_root option \<Rightarrow> finding \<times> finding" where
  "inspect_workspace volume =
     (let missing = \<lparr>f_status = ''unobservable'', f_reason = ''Pinned kubelet emptyDir unavailable; disappearance is not cleanup proof''\<rparr> in
      case volume of None \<Rightarrow> (missing, missing)
      | Some RootMissing \<Rightarrow>
          (let f = \<lparr>f_status = ''verified'', f_reason = ''Run directory absent within the existing pinned emptyDir after termination''\<rparr>
           in (f, f))
      | Some RootError \<Rightarrow> (missing, missing)
      | Some (Root ws cr) \<Rightarrow> (absent_directory ws, absent_directory cr))"

lemma absent_directory_verified_iff:
  "f_status (absent_directory o1) = ''verified'' \<longleftrightarrow> o1 = NoEntry \<or> o1 = Opened ([], True)"
  by (auto simp: absent_directory_def split: opened.splits prod.splits)

lemma absent_directory_ok [simp]: "finding_ok (absent_directory o1)"
  by (auto simp: absent_directory_def finding_ok_def split: opened.splits prod.splits)

lemma inspect_workspace_ok: "inspect_workspace v = (f, g) \<Longrightarrow> finding_ok f \<and> finding_ok g"
  by (auto simp: inspect_workspace_def Let_def finding_ok_def[of "\<lparr>f_status = _, f_reason = _\<rparr>"]
      split: option.splits run_root.splits)

section \<open>The log watch\<close>

unbundle bit_operations_syntax

definition in_modify :: w32 where "in_modify = 0x2"
definition in_close_write :: w32 where "in_close_write = 0x8"
definition in_create :: w32 where "in_create = 0x100"
definition in_delete_self :: w32 where "in_delete_self = 0x400"
definition in_move_self :: w32 where "in_move_self = 0x800"
definition in_unmount :: w32 where "in_unmount = 0x2000"
definition in_q_overflow :: w32 where "in_q_overflow = 0x4000"
definition in_ignored :: w32 where "in_ignored = 0x8000"

lemmas in_masks = in_modify_def in_close_write_def in_create_def in_delete_self_def in_move_self_def
  in_unmount_def in_q_overflow_def in_ignored_def

record log_watch =
  w_guard :: int
  w_created :: bool
  w_closed :: bool
  w_problem :: string

record watch_event =
  e_wd :: int
  e_mask :: w32
  e_name :: string

definition lost_mask :: "w32 \<Rightarrow> bool" where
  "lost_mask m \<longleftrightarrow> m AND (in_q_overflow OR in_ignored OR in_unmount OR in_delete_self OR in_move_self) \<noteq> 0"

definition watch_step :: "log_watch \<Rightarrow> watch_event \<Rightarrow> log_watch" where
  \<comment> \<open>the body of the loop of \<open>logWatch.events\<close> for one decoded event\<close>
  "watch_step w e =
     (if lost_mask (e_mask e) then w\<lparr>w_problem := ''collector watch lost continuity''\<rparr>
      else if e_wd e = w_guard w then
        (if e_name e = ''0.log'' \<and> e_mask e = in_create \<and> \<not> w_created w then w\<lparr>w_created := True\<rparr>
         else if e_name e = ''0.log'' \<and> e_mask e = in_modify \<and> w_created w \<and> \<not> w_closed w then w
         else if e_name e = ''0.log'' \<and> e_mask e = in_close_write \<and> w_created w \<and> \<not> w_closed w then w\<lparr>w_closed := True\<rparr>
         else w\<lparr>w_problem := ''CRI log rotation, replacement, or unexpected file''\<rparr>)
      else if e_name e = ''guard'' then w\<lparr>w_problem := ''guard log directory replaced''\<rparr>
      else w)"

text \<open>
  \<open>logWatch.events\<close> over the bytes read from the inotify descriptor: 16-byte headers (watch
  descriptor, mask, cookie and name length, each 32 bits, little-endian as on the node's
  architectures) followed by the padded name.
\<close>

definition le32 :: "string \<Rightarrow> w32" where
  "le32 bs = of_nat (of_char (bs ! 0) + 256 * (of_char (bs ! 1) + 256 * (of_char (bs ! 2) + 256 * of_char (bs ! 3))))"

definition trim_nul :: "string \<Rightarrow> string" where
  "trim_nul s = rev (dropWhile (\<lambda>c. c = CHR 0x00) (rev s))"

function watch_events :: "log_watch \<Rightarrow> bytes \<Rightarrow> log_watch" where
  "watch_events w data =
     (if length data \<ge> 16 then
        (let n = unat (le32 (drop 12 data)) in
         if n > length data - 16 then w\<lparr>w_problem := ''malformed watch event''\<rparr>
         else watch_events
           (watch_step w \<lparr>e_wd = sint (le32 data), e_mask = le32 (drop 4 data),
                          e_name = trim_nul (take n (drop 16 data))\<rparr>)
           (drop (16 + n) data))
      else if length data \<noteq> 0 then w\<lparr>w_problem := ''partial watch event''\<rparr>
      else w)"
  by pat_completeness auto
termination
  by (relation "measure (\<lambda>(w, data). length data)") auto

declare watch_events.simps [simp del]

definition watch_run :: "log_watch \<Rightarrow> watch_event list \<Rightarrow> log_watch" where
  "watch_run = foldl watch_step"

text \<open>What no later event can undo.\<close>

lemma watch_step_problem: "w_problem w \<noteq> [] \<Longrightarrow> w_problem (watch_step w e) \<noteq> []"
  by (simp add: watch_step_def)

lemma watch_step_closed: "w_closed w \<Longrightarrow> w_closed (watch_step w e)"
  by (simp add: watch_step_def)

lemma watch_step_guard [simp]: "w_guard (watch_step w e) = w_guard w"
  by (simp add: watch_step_def)

lemma watch_events_problem: "w_problem w \<noteq> [] \<Longrightarrow> w_problem (watch_events w data) \<noteq> []"
proof (induction w data rule: watch_events.induct)
  case (1 w data)
  show ?case
    using "1.prems" "1.IH" watch_step_problem
    by (subst watch_events.simps) (auto simp: Let_def)
qed

lemma watch_run_Nil [simp]: "watch_run w [] = w"
  by (simp add: watch_run_def)

lemma watch_run_Cons [simp]: "watch_run w (e # es) = watch_run (watch_step w e) es"
  by (simp add: watch_run_def)

lemma watch_run_append: "watch_run w (es @ fs) = watch_run (watch_run w es) fs"
  by (simp add: watch_run_def)

lemma watch_run_problem: "w_problem w \<noteq> [] \<Longrightarrow> w_problem (watch_run w es) \<noteq> []"
  by (induction es arbitrary: w) (auto simp: watch_step_problem)

text \<open>
  The reference: the guard directory's events must be one creation, then modifications, then one
  closing of the writer, and no event may report a lost watch or a replaced guard directory.
\<close>

definition undisturbed :: "int \<Rightarrow> watch_event \<Rightarrow> bool" where
  "undisturbed g e \<longleftrightarrow> \<not> lost_mask (e_mask e) \<and> (e_wd e \<noteq> g \<longrightarrow> e_name e \<noteq> ''guard'')"

definition is_log_event :: "w32 \<Rightarrow> watch_event \<Rightarrow> bool" where
  "is_log_event m e \<longleftrightarrow> e_name e = ''0.log'' \<and> e_mask e = m"

definition complete_trace :: "int \<Rightarrow> watch_event list \<Rightarrow> bool" where
  "complete_trace g es \<longleftrightarrow> (\<forall>e \<in> set es. undisturbed g e) \<and>
     (\<exists>c ms k. filter (\<lambda>e. e_wd e = g) es = c # ms @ [k] \<and> is_log_event in_create c \<and>
        (\<forall>m \<in> set ms. is_log_event in_modify m) \<and> is_log_event in_close_write k)"

text \<open>The same language, by the state the watch is in.\<close>

lemma masks_distinct [simp]: "in_create \<noteq> in_modify" "in_modify \<noteq> in_create" "in_create \<noteq> in_close_write"
  "in_close_write \<noteq> in_create" "in_modify \<noteq> in_close_write" "in_close_write \<noteq> in_modify"
  by (simp_all add: in_masks)

lemma lost_mask_simps [simp]: "\<not> lost_mask in_create" "\<not> lost_mask in_modify" "\<not> lost_mask in_close_write"
  by (simp_all add: lost_mask_def in_masks)

lemma watch_step_disturbed: "\<not> undisturbed (w_guard w) e \<Longrightarrow> w_problem (watch_step w e) \<noteq> []"
  by (auto simp: watch_step_def undisturbed_def)

lemma watch_step_other: "undisturbed (w_guard w) e \<Longrightarrow> e_wd e \<noteq> w_guard w \<Longrightarrow> watch_step w e = w"
  by (auto simp: watch_step_def undisturbed_def)

lemma watch_step_log_created:
  assumes "undisturbed (w_guard w) e" "e_wd e = w_guard w" "w_created w" "\<not> w_closed w"
  shows "is_log_event in_modify e \<and> watch_step w e = w \<or>
    is_log_event in_close_write e \<and> watch_step w e = w\<lparr>w_closed := True\<rparr> \<or>
    \<not> is_log_event in_modify e \<and> \<not> is_log_event in_close_write e \<and> w_problem (watch_step w e) \<noteq> []"
  using assms by (auto simp: watch_step_def undisturbed_def is_log_event_def)

lemma watch_step_log_fresh:
  assumes "undisturbed (w_guard w) e" "e_wd e = w_guard w" "\<not> w_created w"
  shows "is_log_event in_create e \<and> watch_step w e = w\<lparr>w_created := True\<rparr> \<or>
    \<not> is_log_event in_create e \<and> w_problem (watch_step w e) \<noteq> []"
  using assms by (auto simp: watch_step_def undisturbed_def is_log_event_def)

lemma watch_run_closed_ok:
  assumes "w_closed w" "w_created w"
  shows "w_problem (watch_run w es) = [] \<longleftrightarrow>
    w_problem w = [] \<and> (\<forall>e \<in> set es. undisturbed (w_guard w) e) \<and> filter (\<lambda>e. e_wd e = w_guard w) es = []"
  using assms
proof (induction es arbitrary: w)
  case Nil
  then show ?case by simp
next
  case (Cons e es)
  have "w_closed (watch_step w e)" "w_created (watch_step w e)"
    using Cons.prems by (auto simp: watch_step_def)
  note IH = Cons.IH[OF this]
  show ?case using Cons.prems by (auto simp: IH) (auto simp: watch_step_def undisturbed_def split: if_splits)
qed

lemma watch_run_created_ok:
  assumes "w_created w" "\<not> w_closed w"
  shows "w_problem (watch_run w es) = [] \<and> w_closed (watch_run w es) \<longleftrightarrow>
    w_problem w = [] \<and> (\<forall>e \<in> set es. undisturbed (w_guard w) e) \<and>
    (\<exists>ms k. filter (\<lambda>e. e_wd e = w_guard w) es = ms @ [k] \<and>
       (\<forall>m \<in> set ms. is_log_event in_modify m) \<and> is_log_event in_close_write k)"
  using assms
proof (induction es arbitrary: w)
  case Nil
  then show ?case by simp
next
  case (Cons e es)
  consider (bad) "w_problem (watch_step w e) \<noteq> []" "w_problem w = []" "\<not> undisturbed (w_guard w) e \<or> (e_wd e = w_guard w \<and>
        \<not> is_log_event in_modify e \<and> \<not> is_log_event in_close_write e)"
    | (prob) "w_problem w \<noteq> []"
    | (skip) "watch_step w e = w" "undisturbed (w_guard w) e" "e_wd e \<noteq> w_guard w"
    | (modify) "watch_step w e = w" "undisturbed (w_guard w) e" "e_wd e = w_guard w" "is_log_event in_modify e"
    | (close) "watch_step w e = w\<lparr>w_closed := True\<rparr>" "undisturbed (w_guard w) e" "e_wd e = w_guard w" "is_log_event in_close_write e"
    using Cons.prems watch_step_disturbed[of w e] watch_step_other[of w e] watch_step_log_created[of w e] by blast
  then show ?case
  proof cases
    case bad
    have "\<not> (\<exists>ms k. e # xs = ms @ [k] \<and> (\<forall>m \<in> set ms. is_log_event in_modify m) \<and> is_log_event in_close_write k)"
      if "\<not> is_log_event in_modify e" "\<not> is_log_event in_close_write e" for xs
      using that by (auto simp: Cons_eq_append_conv)
    then show ?thesis using bad watch_run_problem[OF bad(1)] by auto
  next
    case prob
    then show ?thesis using watch_run_problem[of "watch_step w e" es] watch_step_problem by auto
  next
    case skip
    then show ?thesis using Cons.IH[OF Cons.prems] by simp
  next
    case modify
    have "(\<exists>ms k. e # xs = ms @ [k] \<and> (\<forall>m \<in> set ms. is_log_event in_modify m) \<and> is_log_event in_close_write k) \<longleftrightarrow>
          (\<exists>ms k. xs = ms @ [k] \<and> (\<forall>m \<in> set ms. is_log_event in_modify m) \<and> is_log_event in_close_write k)" for xs
      using modify(4) by (auto simp: Cons_eq_append_conv is_log_event_def)
    then show ?thesis using modify Cons.IH[OF Cons.prems] by simp
  next
    case close
    have "(\<exists>ms k. e # xs = ms @ [k] \<and> (\<forall>m \<in> set ms. is_log_event in_modify m) \<and> is_log_event in_close_write k) \<longleftrightarrow> xs = []" for xs
      using close(4) by (auto simp: Cons_eq_append_conv is_log_event_def)
    moreover have "w_closed (watch_run (watch_step w e) es)"
    proof -
      have "w_closed v \<Longrightarrow> w_closed (watch_run v es)" for v
        by (induction es arbitrary: v) (auto simp: watch_step_closed)
      then show ?thesis using close by simp
    qed
    ultimately show ?thesis
      using close Cons.prems watch_run_closed_ok[of "watch_step w e" es] by auto
  qed
qed

lemma watch_run_fresh_ok:
  assumes "\<not> w_created w" "\<not> w_closed w" "w_problem w = []"
  shows "w_problem (watch_run w es) = [] \<and> w_closed (watch_run w es) \<longleftrightarrow> complete_trace (w_guard w) es"
  using assms
proof (induction es arbitrary: w)
  case Nil
  then show ?case by (simp add: complete_trace_def)
next
  case (Cons e es)
  consider (bad) "w_problem (watch_step w e) \<noteq> []" "\<not> undisturbed (w_guard w) e \<or> (e_wd e = w_guard w \<and> \<not> is_log_event in_create e)"
    | (skip) "watch_step w e = w" "undisturbed (w_guard w) e" "e_wd e \<noteq> w_guard w"
    | (create) "watch_step w e = w\<lparr>w_created := True\<rparr>" "undisturbed (w_guard w) e" "e_wd e = w_guard w" "is_log_event in_create e"
    using Cons.prems watch_step_disturbed[of w e] watch_step_other[of w e] watch_step_log_fresh[of w e] by blast
  then show ?case
  proof cases
    case bad
    then show ?thesis using watch_run_problem[OF bad(1)] by (auto simp: complete_trace_def)
  next
    case skip
    then show ?thesis using Cons.IH[OF Cons.prems] by (simp add: complete_trace_def)
  next
    case create
    then show ?thesis
      using Cons.prems watch_run_created_ok[of "watch_step w e" es] by (simp add: complete_trace_def)
  qed
qed

end
