(* ===== verification/Ledger.thy ===== *)
theory Ledger
  imports Observer
begin

text \<open>
  The coordinator's ledger, internal/coordinator/ledger.go: the record of one local CI run, how
  it is loaded, saved and first published, and the bounded list of problems. The canonical JSON
  encoding is third-party, so encoders and decoders are a parameter.
\<close>

section \<open>Wire documents\<close>

text \<open>
  For one document type: \<open>enc\<close> is \<open>proof.Canonical\<close> (\<open>json.Marshal\<close>, then the third-party
  \<open>jcs.Transform\<close>), \<open>dec\<close> is the strict decoding (\<open>jcs.Transform\<close> accepts, then a decoder that
  disallows unknown fields). \<open>sound_codec\<close> is the documented round trip of that pair.
\<close>

record 'a codec =
  enc :: "'a \<Rightarrow> gerr + bytes"
  dec :: "bytes \<Rightarrow> gerr + 'a"

definition sound_codec :: "'a codec \<Rightarrow> bool" where
  "sound_codec C \<longleftrightarrow> (\<forall>x b. enc C x = Inr b \<longrightarrow> dec C b = Inr x)"

section \<open>The ledger\<close>

record ledger =
  l_kind :: string
  l_identity :: identity
  l_token :: string
  l_cluster_uid :: string
  l_resource_ns :: string
  l_resource_uid :: string
  l_runner_ns :: string
  l_runner_uid :: string
  l_job_uid :: string
  l_launch_attempted :: bool
  l_pod_name :: string
  l_pod_uid :: string
  l_stage_uid :: string
  l_role_uid :: string
  l_binding_uid :: string
  l_image :: string
  l_actual_image :: string
  l_command :: "string list"
  l_timeout :: int
  l_phase :: string
  l_created :: time
  l_updated :: time
  l_cancel :: bool
  l_exit :: "int option"
  l_pod_reason :: string
  l_evidence_status :: string
  l_evidence_digest :: string
  l_guard_digest :: string
  l_logs_status :: string
  l_logs_digest :: string
  l_logs_bytes :: int
  l_resource_absent :: bool
  l_runner_absent :: bool
  l_role_absent :: bool
  l_binding_absent :: bool
  l_container_id :: string
  l_collector_request :: "request option"
  l_collector_digest :: string
  l_errors :: "string list"

text \<open>A run directory: what is found under each file name.\<close>

type_synonym dir = "string \<Rightarrow> node"

definition run_pattern :: "string \<Rightarrow> bool" where
  "run_pattern s = hex_n 32 s"

definition run_dir :: "path \<Rightarrow> string \<Rightarrow> gerr + path" where
  "run_dir root run = (if \<not> run_pattern run then Inl (EMsg ''invalid local run ID'') else Inr (root @ ''/'' @ run))"

definition load_ledger :: "ledger codec \<Rightarrow> string \<Rightarrow> dir \<Rightarrow> gerr + ledger" where
  \<comment> \<open>\<open>Coordinator.Load\<close>, given the directory of the run\<close>
  "load_ledger C run d = (if \<not> run_pattern run then Inl (EMsg ''invalid local run ID'') else
     case read_bounded (d ''run.json'') 1048576 of Inl e \<Rightarrow> Inl e | Inr data \<Rightarrow>
       (case dec C data of Inl e \<Rightarrow> Inl e | Inr l \<Rightarrow>
         (if l_kind l \<noteq> ''local-ci-run/v1'' \<or> i_run (l_identity l) \<noteq> run \<or> l_token l \<noteq> run \<or>
             l_resource_ns l \<noteq> ''proof-'' @ run \<or> l_runner_ns l \<noteq> ''proof-runner-'' @ run
          then Inl (EMsg ''invalid ledger identity'')
          else case identity_validate (l_identity l) of Some e \<Rightarrow> Inl e | None \<Rightarrow> Inr l)))"

definition ledger_bytes :: "ledger codec \<Rightarrow> time \<Rightarrow> ledger \<Rightarrow> (gerr + bytes) \<times> ledger" where
  "ledger_bytes C now l =
     (let l' = l\<lparr>l_updated := now\<rparr> in
      (case enc C l' of Inl e \<Rightarrow> Inl e | Inr data \<Rightarrow>
         (if length data > 1048576 then Inl (EMsg ''ledger exceeds 1 MiB limit'') else Inr data), l'))"

definition save_ledger :: "ledger codec \<Rightarrow> time \<Rightarrow> durable_io \<Rightarrow> ledger \<Rightarrow> dir \<Rightarrow> gerr option \<times> ledger \<times> dir" where
  "save_ledger C now io l d = (case ledger_bytes C now l of
     (Inl e, l') \<Rightarrow> (Some e, l', d)
   | (Inr data, l') \<Rightarrow>
       (if \<not> run_pattern (i_run (l_identity l')) then (Some (EMsg ''invalid local run ID''), l', d)
        else case durable io (Regular data) (d ''run.json'') of (r, n) \<Rightarrow> (r, l', d(''run.json'' := n))))"

text \<open>
  \<open>publish\<close>: the run directory appears by one rename of a fully written temporary directory.
  The state is the run's directory, absent or present; \<open>p_mkdir\<close>, \<open>p_file\<close>, \<open>p_rename\<close> and
  \<open>p_sync\<close> say how the steps end.
\<close>

record publish_io =
  p_mkdir :: bool
  p_file :: durable_io
  p_rename :: bool
  p_sync :: bool

definition publish_ledger :: "ledger codec \<Rightarrow> time \<Rightarrow> publish_io \<Rightarrow> ledger \<Rightarrow> dir option \<Rightarrow> gerr option \<times> ledger \<times> dir option" where
  "publish_ledger C now io l target =
     (if \<not> run_pattern (i_run (l_identity l)) then (Some (EMsg ''invalid local run ID''), l, target)
      else case ledger_bytes C now l of
        (Inl e, l') \<Rightarrow> (Some e, l', target)
      | (Inr data, l') \<Rightarrow>
          (if \<not> p_mkdir io then (Some (EExt ''mkdir''), l', target)
           else case durable (p_file io) (Regular data) Missing of
             (Some e, _) \<Rightarrow> (Some e, l', target)
           | (None, n) \<Rightarrow>
               (if \<not> p_rename io \<or> target \<noteq> None then (Some (EExt ''rename''), l', target)
                else (if p_sync io then None else Some (EExt ''sync''), l', Some ((\<lambda>_. Missing)(''run.json'' := n))))))"

definition request_cancel :: "ledger codec \<Rightarrow> bytes \<Rightarrow> durable_io \<Rightarrow> string \<Rightarrow> dir \<Rightarrow> gerr option \<times> dir" where
  \<comment> \<open>\<open>RequestCancel\<close>; \<open>stamp\<close> is the formatted time\<close>
  "request_cancel C stamp io run d = (case load_ledger C run d of
     Inl e \<Rightarrow> (Some e, d)
   | Inr _ \<Rightarrow> (case durable io (Regular stamp) (d ''cancel.requested'') of (r, n) \<Rightarrow> (r, d(''cancel.requested'' := n))))"

definition problem :: "string \<Rightarrow> string option \<Rightarrow> ledger \<Rightarrow> ledger" where
  "problem code err l =
     (if length (l_errors l) \<ge> 64 then l
      else let message = (case err of None \<Rightarrow> code | Some text \<Rightarrow> code @ '': '' @ take_runes 300 text)
           in if List.member (l_errors l) message then l else l\<lparr>l_errors := l_errors l @ [message]\<rparr>)"

section \<open>Properties of the operations\<close>

lemma load_ledger_identity:
  assumes "load_ledger C run d = Inr l"
  shows "l_kind l = ''local-ci-run/v1'' \<and> i_run (l_identity l) = run \<and> l_token l = run \<and>
    l_resource_ns l = ''proof-'' @ run \<and> l_runner_ns l = ''proof-runner-'' @ run \<and>
    identity_validate (l_identity l) = None \<and> run_pattern run"
  using assms by (auto simp: load_ledger_def split: if_splits sum.splits option.splits)

lemma problem_errors:
  "l_errors (problem c e l) = l_errors l \<or> (\<exists>m. l_errors (problem c e l) = l_errors l @ [m] \<and> m \<notin> set (l_errors l))"
  by (auto simp: problem_def Let_def)

lemma problem_frame [simp]:
  "l_phase (problem c e l) = l_phase l" "l_identity (problem c e l) = l_identity l"
  "l_token (problem c e l) = l_token l" "l_evidence_status (problem c e l) = l_evidence_status l"
  "l_logs_status (problem c e l) = l_logs_status l" "l_resource_uid (problem c e l) = l_resource_uid l"
  "l_runner_uid (problem c e l) = l_runner_uid l" "l_job_uid (problem c e l) = l_job_uid l"
  by (simp_all add: problem_def Let_def)

fun problems :: "(string \<times> string option) list \<Rightarrow> ledger \<Rightarrow> ledger" where
  "problems [] l = l"
| "problems ((c, e) # ps) l = problems ps (problem c e l)"

lemma problems_bounded:
  assumes "length (l_errors l) \<le> 64" "distinct (l_errors l)"
  shows "length (l_errors (problems ps l)) \<le> 64 \<and> distinct (l_errors (problems ps l)) \<and>
    prefix (l_errors l) (l_errors (problems ps l))"
  using assms
proof (induction ps l rule: problems.induct)
  case (1 l)
  then show ?case by simp
next
  case (2 c e ps l)
  have "length (l_errors (problem c e l)) \<le> 64" "distinct (l_errors (problem c e l))"
    "prefix (l_errors l) (l_errors (problem c e l))"
    using "2.prems" by (auto simp: problem_def Let_def)
  with "2.IH" show ?case by (auto intro: prefix_order.trans)
qed

text \<open>What a save leaves: the old file, or the new ledger stamped with the current time.\<close>

lemma save_ledger_content:
  assumes "save_ledger C now io l d = (r, l', d')"
  shows "l' = l\<lparr>l_updated := now\<rparr> \<and> (d' = d \<or> (\<exists>data. enc C l' = Inr data \<and> d' = d(''run.json'' := Regular data)))"
  using assms durable_content[of io _ "d ''run.json''"]
  by (auto simp: save_ledger_def ledger_bytes_def Let_def fun_upd_idem_iff split: prod.splits sum.splits if_splits)
    (metis snd_conv fun_upd_idem_iff)+

lemma save_ledger_load:
  assumes "save_ledger C now io l d = (None, l', d')" and "sound_codec C"
    and "l_kind l = ''local-ci-run/v1''" "i_run (l_identity l) = run" "l_token l = run"
    "l_resource_ns l = ''proof-'' @ run" "l_runner_ns l = ''proof-runner-'' @ run"
    "identity_validate (l_identity l) = None"
  shows "load_ledger C run d' = Inr l'"
proof -
  obtain data where data: "enc C (l\<lparr>l_updated := now\<rparr>) = Inr data" "length data \<le> 1048576"
      "run_pattern run" "l' = l\<lparr>l_updated := now\<rparr>" "d' ''run.json'' = Regular data"
    using assms(1,4) by (auto simp: save_ledger_def ledger_bytes_def Let_def dest: durable_None
        split: prod.splits sum.splits if_splits)
  moreover have "dec C data = Inr l'" using assms(2) data by (simp add: sound_codec_def)
  ultimately show ?thesis using assms(3-) by (simp add: load_ledger_def read_bounded_def)
qed

lemma publish_ledger_atomic:
  assumes "publish_ledger C now io l target = (r, l', target')"
  shows "target' = target \<or>
    (target = None \<and> (\<exists>data d. target' = Some d \<and> d ''run.json'' = Regular data \<and> enc C l' = Inr data))"
  using assms
  by (auto simp: publish_ledger_def ledger_bytes_def Let_def dest: durable_None
      split: prod.splits sum.splits if_splits option.splits)

end
