(* ===== verification/Observations.thy ===== *)
theory Observations
  imports Ledger
begin

text \<open>
  The coordinator's trusted observations, internal/coordinator/observations.go: coverage derived
  from a completed ledger and the collector's result, their validation, the readiness marker that
  is published last, and the immutable publication of both.
\<close>

record observations =
  v_kind :: string
  v_identity :: identity
  v_ledger_digest :: string
  v_coverage :: "observation gomap"
  v_logs_digest :: string
  v_logs_bytes :: int
  v_evidence_digest :: string
  v_guard_digest :: string
  v_collector :: "result option"

record ready =
  y_kind :: string
  y_identity :: identity
  y_ledger_digest :: string
  y_observations_digest :: string

text \<open>The struct \<open>collectorBinding\<close> digests.\<close>

record binding_doc =
  b_identity :: identity
  b_strings :: "string list"
  b_command :: "string list"

record wire =
  w_ledger :: "ledger codec"
  w_observations :: "observations codec"
  w_ready :: "ready codec"
  w_result :: "result codec"
  w_evidence :: "evidence codec"
  w_binding :: "binding_doc \<Rightarrow> bytes"
  w_shape :: "bytes \<Rightarrow> gerr option"

definition collector_binding :: "wire \<Rightarrow> ledger \<Rightarrow> string" where
  "collector_binding W l = digest (w_binding W \<lparr>b_identity = l_identity l,
     b_strings = [l_cluster_uid l, l_resource_ns l, l_resource_uid l, l_runner_ns l, l_runner_uid l,
        l_job_uid l, l_pod_name l, l_pod_uid l, l_stage_uid l, l_role_uid l, l_binding_uid l, l_image l],
     b_command = l_command l\<rparr>)"

section \<open>Deriving coverage\<close>

definition runner_disposed :: "ledger \<Rightarrow> bool" where
  "runner_disposed l \<longleftrightarrow> l_runner_absent l \<and> l_runner_uid l \<noteq> [] \<and> l_pod_uid l \<noteq> [] \<and> l_job_uid l \<noteq> [] \<and>
     l_cluster_uid l \<noteq> [] \<and> l_role_absent l \<and> l_binding_absent l \<and> l_role_uid l \<noteq> [] \<and> l_binding_uid l \<noteq> []"

definition unavailable :: observation where
  "unavailable = obs ''unobservable'' ''none'' ''Required trusted observation unavailable''"

definition obs_resources :: observation where
  "obs_resources = obs ''verified'' ''trusted'' ''Coordinator confirmed assigned namespace absent using pinned cluster and namespace UIDs; runner profile cannot provision volumes''"

definition obs_disposal :: observation where
  "obs_disposal = obs ''verified'' ''trusted'' ''Coordinator confirmed runner namespace and run-scoped cluster RBAC absent after UID-bound disposal''"

definition obs_credentials :: observation where
  "obs_credentials = obs ''verified'' ''trusted'' ''Stopped-runner credential directory absent/empty; coordinator also confirmed runner namespace and run-scoped RBAC disposal; no external credential revocation claimed''"

definition obs_credentials_open :: observation where
  "obs_credentials_open = obs ''unobservable'' ''trusted'' ''Credential files inspected but runner token/RBAC disposal not fully confirmed''"

definition trusted_finding :: "finding \<Rightarrow> observation" where
  "trusted_finding f = obs (f_status f) ''trusted'' (f_reason f)"

definition collector_matches :: "wire \<Rightarrow> ledger \<Rightarrow> result \<Rightarrow> gerr option" where
  \<comment> \<open>the checks of the collector's result against the final ledger\<close>
  "collector_matches W l x = (case result_validate x of Some e \<Rightarrow> Some e | None \<Rightarrow>
     (case enc (w_result W) x of Inl e \<Rightarrow> Some e | Inr canonical \<Rightarrow> first_err [
        check (\<not> (l_collector_request l = None \<or> Some (x_request x) \<noteq> l_collector_request l \<or>
            q_binding (x_request x) \<noteq> collector_binding W l \<or> digest canonical \<noteq> l_collector_digest l \<or>
            x_logs_digest x \<noteq> l_logs_digest l \<or> x_logs_bytes x \<noteq> l_logs_bytes l)) ''collector does not match final ledger'',
        check (\<not> (x_termination_proven x \<and> (l_container_id l \<noteq> ''containerd://'' @ x_container x \<or>
            l_actual_image l \<noteq> x_image x \<or> l_exit l \<noteq> Some (x_exit x)))) ''collector/API runtime identity mismatch'',
        check (\<not> ((f_status (x_logs x) = ''verified'') \<noteq> (l_logs_status l = ''complete''))) ''log coverage mismatch'']))"

definition base_coverage :: "ledger \<Rightarrow> observation gomap" where
  "base_coverage l =
     (let c0 = map (\<lambda>k. (k, unavailable)) components;
          c1 = (if l_resource_absent l \<and> l_resource_uid l \<noteq> [] \<and> l_cluster_uid l \<noteq> []
                then AList.update ''resources'' obs_resources c0 else c0)
      in if runner_disposed l then AList.update ''runner_disposal'' obs_disposal c1 else c1)"

definition collector_coverage :: "ledger \<Rightarrow> result \<Rightarrow> observation gomap \<Rightarrow> observation gomap" where
  "collector_coverage l x c =
     (let c1 = AList.update ''logs'' (trusted_finding (x_logs x))
          (AList.update ''credentials'' (trusted_finding (x_credentials x))
          (AList.update ''workspace'' (trusted_finding (x_workspace x)) c))
      in if f_status (x_credentials x) = ''verified''
         then AList.update ''credentials'' (if runner_disposed l then obs_credentials else obs_credentials_open) c1
         else c1)"

definition derive_observations :: "wire \<Rightarrow> ledger \<Rightarrow> bytes \<Rightarrow> result option \<Rightarrow> gerr + observations" where
  \<comment> \<open>\<open>observations\<close>\<close>
  "derive_observations W l ledger_data res = (case dec (w_ledger W) ledger_data of Inl e \<Rightarrow> Inl e | Inr decoded \<Rightarrow>
     (if l \<noteq> decoded \<or> l_phase l \<noteq> ''complete'' \<or> i_provider (l_identity l) \<noteq> ''local''
      then Inl (EMsg ''observations require the exact completed local ledger'')
      else let ob = (\<lambda>c. \<lparr>v_kind = ''local-ci-observations/v1'', v_identity = l_identity l,
                 v_ledger_digest = digest ledger_data, v_coverage = c, v_logs_digest = l_logs_digest l,
                 v_logs_bytes = l_logs_bytes l, v_evidence_digest = l_evidence_digest l,
                 v_guard_digest = l_guard_digest l, v_collector = res\<rparr>)
        in case res of
          Some x \<Rightarrow> (case collector_matches W l x of Some e \<Rightarrow> Inl e
             | None \<Rightarrow> Inr (ob (collector_coverage l x (base_coverage l))))
        | None \<Rightarrow> (if l_collector_digest l \<noteq> [] \<or> l_logs_status l = ''complete''
             then Inl (EMsg ''complete collector artifact missing'') else Inr (ob (base_coverage l)))))"

definition validate_observations :: "wire \<Rightarrow> bytes \<Rightarrow> ledger \<Rightarrow> bytes \<Rightarrow> gerr + observations" where
  "validate_observations W data l ledger_data =
     (if length data = 0 \<or> length data > 1048576 then Inl (EMsg ''observation size limit'')
      else case dec (w_observations W) data of Inl e \<Rightarrow> Inl e | Inr ob \<Rightarrow>
       (case derive_observations W l ledger_data (v_collector ob) of Inl e \<Rightarrow> Inl e | Inr expected \<Rightarrow>
         (case enc (w_observations W) expected of Inl e \<Rightarrow> Inl e | Inr canonical \<Rightarrow>
           (if data \<noteq> canonical then Inl (EMsg ''noncanonical or inconsistent trusted observations'') else Inr ob))))"

section \<open>The readiness marker\<close>

definition ready_doc :: "ledger \<Rightarrow> bytes \<Rightarrow> bytes \<Rightarrow> ready" where
  "ready_doc l ledger_data obs_data = \<lparr>y_kind = ''local-ci-ready/v1'', y_identity = l_identity l,
     y_ledger_digest = digest ledger_data, y_observations_digest = digest obs_data\<rparr>"

definition validate_ready :: "wire \<Rightarrow> bytes \<Rightarrow> bytes \<Rightarrow> bytes \<Rightarrow> gerr option" where
  \<comment> \<open>\<open>ValidateFinalizationReady\<close>\<close>
  "validate_ready W data ledger_data obs_data =
     (if length data = 0 \<or> length data > 4096 then Some (EMsg ''invalid finalization readiness size'')
      else case dec (w_ledger W) ledger_data of Inl e \<Rightarrow> Some e | Inr l \<Rightarrow>
       (case validate_observations W obs_data l ledger_data of Inl e \<Rightarrow> Some e | Inr _ \<Rightarrow>
         (case enc (w_ready W) (ready_doc l ledger_data obs_data) of Inl e \<Rightarrow> Some e | Inr want \<Rightarrow>
           check (data = want) ''finalization readiness binding mismatch'')))"

definition check_artifacts :: "dir \<Rightarrow> ledger \<Rightarrow> gerr option" where
  "check_artifacts d l = first_err
     ((if l_logs_digest l \<noteq> [] then [verify_file (d ''job.log'') (l_logs_digest l) (l_logs_bytes l) max_logs] else []) @
      map (\<lambda>(name, dg, limit).
        if dg = [] then None
        else case read_bounded (d name) limit of Inl e \<Rightarrow> Some e | Inr raw \<Rightarrow>
          check (digest raw = dg) ''evidence digest mismatch'')
        [(''cleanup-evidence.json'', l_evidence_digest l, 921600), (''guard.json'', l_guard_digest l, 16384)])"

text \<open>\<open>publishObservations\<close>: what it reads and derives, then the two publications in their order.\<close>

definition observation_inputs :: "wire \<Rightarrow> ledger \<Rightarrow> dir \<Rightarrow> gerr + bytes \<times> bytes" where
  "observation_inputs W l d =
     (if \<not> run_pattern (i_run (l_identity l)) then Inl (EMsg ''invalid local run ID'')
      else case read_bounded (d ''run.json'') 1048576 of Inl e \<Rightarrow> Inl e | Inr ledger_data \<Rightarrow>
       (case (if l_collector_digest l = [] then Inr None
              else case read_bounded (d ''collector.json'') 65536 of Inl e \<Rightarrow> Inl e | Inr raw \<Rightarrow>
                (if digest raw \<noteq> l_collector_digest l then Inl (EMsg ''collector digest mismatch'')
                 else case dec (w_result W) raw of Inl e \<Rightarrow> Inl e | Inr x \<Rightarrow> Inr (Some x)))
        of Inl e \<Rightarrow> Inl e | Inr res \<Rightarrow>
         (case derive_observations W l ledger_data res of Inl e \<Rightarrow> Inl e | Inr ob \<Rightarrow>
           (case check_artifacts d l of Some e \<Rightarrow> Inl e | None \<Rightarrow>
             (case enc (w_observations W) ob of Inl e \<Rightarrow> Inl e | Inr raw \<Rightarrow> Inr (ledger_data, raw))))))"

definition publish_pair :: "wire \<Rightarrow> durable_io \<Rightarrow> durable_io \<Rightarrow> ledger \<Rightarrow> bytes \<Rightarrow> bytes \<Rightarrow> dir \<Rightarrow> gerr option \<times> dir" where
  "publish_pair W io1 io2 l ledger_data raw d =
     (case publish_immutable io1 raw 1048576 (d ''observations.json'') of
        (Some e, n) \<Rightarrow> (Some e, d(''observations.json'' := n))
      | (None, n) \<Rightarrow>
          (let d1 = d(''observations.json'' := n) in
           case enc (w_ready W) (ready_doc l ledger_data raw) of Inl e \<Rightarrow> (Some e, d1) | Inr ready \<Rightarrow>
             (case publish_immutable io2 ready 4096 (d1 ''finalization-ready.json'') of
                (r, m) \<Rightarrow> (r, d1(''finalization-ready.json'' := m)))))"

definition publish_observations :: "wire \<Rightarrow> durable_io \<Rightarrow> durable_io \<Rightarrow> ledger \<Rightarrow> dir \<Rightarrow> gerr option \<times> dir" where
  "publish_observations W io1 io2 l d = (case observation_inputs W l d of
     Inl e \<Rightarrow> (Some e, d)
   | Inr (ledger_data, raw) \<Rightarrow> publish_pair W io1 io2 l ledger_data raw d)"

definition load_observations :: "wire \<Rightarrow> string \<Rightarrow> dir \<Rightarrow> gerr + observations" where
  "load_observations W run d = (case load_ledger (w_ledger W) run d of Inl e \<Rightarrow> Inl e | Inr l \<Rightarrow>
     (case read_bounded (d ''run.json'') 1048576 of Inl e \<Rightarrow> Inl e | Inr ledger_data \<Rightarrow>
       (case read_bounded (d ''observations.json'') 1048576 of Inl e \<Rightarrow> Inl e | Inr data \<Rightarrow>
         (case validate_observations W data l ledger_data of Inl e \<Rightarrow> Inl e | Inr ob \<Rightarrow>
           (case read_bounded (d ''finalization-ready.json'') 4096 of Inl e \<Rightarrow> Inl e | Inr ready \<Rightarrow>
             (case validate_ready W ready ledger_data data of Some e \<Rightarrow> Inl e | None \<Rightarrow>
               (case check_artifacts d l of Some e \<Rightarrow> Inl e | None \<Rightarrow> Inr ob)))))))"

section \<open>What derived coverage can say\<close>

lemma map_pair_lookup: "lookup_or z (map (\<lambda>k. (k, v)) ks) k = (if k \<in> set ks then v else z)"
  by (induction ks) auto

lemma map_pair_has_key: "has_key (map (\<lambda>k. (k, v)) ks) k \<longleftrightarrow> k \<in> set ks"
  by (induction ks) auto

lemmas in_components = components_def

lemma base_coverage_simps:
  "cov (base_coverage l) ''resources'' =
     (if l_resource_absent l \<and> l_resource_uid l \<noteq> [] \<and> l_cluster_uid l \<noteq> [] then obs_resources else unavailable)"
  "cov (base_coverage l) ''runner_disposal'' = (if runner_disposed l then obs_disposal else unavailable)"
  "k \<in> {''workspace'', ''credentials'', ''logs''} \<Longrightarrow> cov (base_coverage l) k = unavailable"
  by (auto simp: base_coverage_def Let_def map_pair_lookup in_components)

lemma collector_coverage_simps:
  "cov (collector_coverage l x c) ''workspace'' = trusted_finding (x_workspace x)"
  "cov (collector_coverage l x c) ''logs'' = trusted_finding (x_logs x)"
  "cov (collector_coverage l x c) ''credentials'' = (if f_status (x_credentials x) = ''verified''
     then (if runner_disposed l then obs_credentials else obs_credentials_open) else trusted_finding (x_credentials x))"
  "k \<notin> {''workspace'', ''credentials'', ''logs''} \<Longrightarrow> cov (collector_coverage l x c) k = cov c k"
  by (auto simp: collector_coverage_def Let_def)

lemma coverage_keys:
  "map fst (base_coverage l) = components"
  "map fst (collector_coverage l x (base_coverage l)) = components"
  by (auto simp: base_coverage_def collector_coverage_def Let_def in_components)

lemma derive_observations_Inr:
  assumes "derive_observations W l data res = Inr ob"
  shows "dec (w_ledger W) data = Inr l" "l_phase l = ''complete''" "i_provider (l_identity l) = ''local''"
    "v_collector ob = res" "v_ledger_digest ob = digest data" "v_identity ob = l_identity l"
    "v_coverage ob = (case res of None \<Rightarrow> base_coverage l | Some x \<Rightarrow> collector_coverage l x (base_coverage l))"
    "\<And>x. res = Some x \<Longrightarrow> collector_matches W l x = None"
    "res = None \<Longrightarrow> l_collector_digest l = [] \<and> l_logs_status l \<noteq> ''complete''"
  using assms by (auto simp: derive_observations_def Let_def split: sum.splits if_splits option.splits)

lemma collector_matches_None:
  assumes "collector_matches W l x = None"
  shows "result_validate x = None" "l_collector_request l = Some (x_request x)"
    "q_binding (x_request x) = collector_binding W l"
    "\<exists>canonical. enc (w_result W) x = Inr canonical \<and> digest canonical = l_collector_digest l"
    "x_logs_digest x = l_logs_digest l" "x_logs_bytes x = l_logs_bytes l"
    "x_termination_proven x \<Longrightarrow> l_exit l = Some (x_exit x) \<and> l_actual_image l = x_image x"
    "f_status (x_logs x) = ''verified'' \<longleftrightarrow> l_logs_status l = ''complete''"
  using assms by (auto simp: collector_matches_def split: option.splits sum.splits)

lemma unavailable_simps [simp]: "o_status unavailable = ''unobservable''" "o_observer unavailable = ''none''"
  by (simp_all add: unavailable_def)

lemma derived_obs_simps [simp]:
  "o_status obs_resources = ''verified''" "o_observer obs_resources = ''trusted''"
  "o_status obs_disposal = ''verified''" "o_observer obs_disposal = ''trusted''"
  "o_status obs_credentials = ''verified''" "o_observer obs_credentials = ''trusted''"
  "o_status obs_credentials_open = ''unobservable''" "o_observer obs_credentials_open = ''trusted''"
  "o_status (trusted_finding f) = f_status f" "o_observer (trusted_finding f) = ''trusted''"
  "o_reason (trusted_finding f) = f_reason f"
  by (simp_all add: obs_resources_def obs_disposal_def obs_credentials_def obs_credentials_open_def trusted_finding_def)

lemma validate_observations_Inr:
  assumes "validate_observations W data l ledger_data = Inr ob"
  shows "\<exists>expected. derive_observations W l ledger_data (v_collector ob) = Inr expected \<and>
    enc (w_observations W) expected = Inr data \<and> dec (w_observations W) data = Inr ob \<and>
    data \<noteq> [] \<and> length data \<le> 1048576"
  using assms by (auto simp: validate_observations_def split: sum.splits if_splits)

lemma validate_observations_derived:
  assumes "validate_observations W data l ledger_data = Inr ob" and "sound_codec (w_observations W)"
  shows "derive_observations W l ledger_data (v_collector ob) = Inr ob"
  using validate_observations_Inr[OF assms(1)] assms(2) by (auto simp: sound_codec_def)

text \<open>Coverage of derived observations: what each verified component rests on.\<close>

lemma derived_verified:
  assumes d: "derive_observations W l data res = Inr ob"
    and v: "o_status (cov (v_coverage ob) k) = ''verified''"
  shows "o_observer (cov (v_coverage ob) k) = ''trusted'' \<and> (
     k = ''resources'' \<and> l_resource_absent l \<and> l_resource_uid l \<noteq> [] \<or>
     k = ''runner_disposal'' \<and> runner_disposed l \<or>
     k = ''credentials'' \<and> runner_disposed l \<and> (\<exists>x. res = Some x \<and> f_status (x_credentials x) = ''verified'') \<or>
     k = ''workspace'' \<and> (\<exists>x. res = Some x \<and> f_status (x_workspace x) = ''verified'') \<or>
     k = ''logs'' \<and> (\<exists>x. res = Some x \<and> f_status (x_logs x) = ''verified'') \<and> l_logs_status l = ''complete'')"
proof -
  note c = derive_observations_Inr[OF d]
  have keys: "k \<in> set components"
  proof (rule ccontr)
    assume "k \<notin> set components"
    moreover have "fst ` set (v_coverage ob) = set components"
      using c(7) coverage_keys[of l] by (cases res) (auto simp flip: set_map)
    ultimately have "\<not> has_key (v_coverage ob) k" by (simp add: has_key_iff)
    with v show False by (simp add: has_key_def lookup_or_def zero_obs_def)
  qed
  then have k: "k = ''workspace'' \<or> k = ''credentials'' \<or> k = ''resources'' \<or> k = ''logs'' \<or> k = ''runner_disposal''"
    by (auto simp: in_components)
  show ?thesis
  proof (cases res)
    case None
    then have "v_coverage ob = base_coverage l" using c(7) by simp
    with v k show ?thesis
      by (elim disjE) (simp_all add: base_coverage_simps split: if_splits)
  next
    case (Some x)
    have cv: "v_coverage ob = collector_coverage l x (base_coverage l)" using c(7) Some by simp
    have "f_status (x_logs x) = ''verified'' \<longleftrightarrow> l_logs_status l = ''complete''"
      by (rule collector_matches_None(8)[OF c(8)[OF Some]])
    with k v Some show ?thesis unfolding cv
      by (elim disjE) (simp_all add: collector_coverage_simps base_coverage_simps split: if_splits)
  qed
qed

lemma validate_ready_None:
  assumes "validate_ready W data ledger_data obs_data = None"
  shows "\<exists>l ob. dec (w_ledger W) ledger_data = Inr l \<and> validate_observations W obs_data l ledger_data = Inr ob \<and>
    enc (w_ready W) (ready_doc l ledger_data obs_data) = Inr data"
  using assms by (auto simp: validate_ready_def split: sum.splits if_splits)

section \<open>Publication\<close>

lemma publish_pair_cases:
  assumes "publish_pair W io1 io2 l ledger_data raw d = (r, d')"
  obtains (first) e n where "publish_immutable io1 raw 1048576 (d ''observations.json'') = (Some e, n)"
      "r = Some e" "d' = d(''observations.json'' := n)"
  | (encoding) e n where "publish_immutable io1 raw 1048576 (d ''observations.json'') = (None, n)"
      "r = Some e" "d' = d(''observations.json'' := n)"
  | (second) n rd m where "publish_immutable io1 raw 1048576 (d ''observations.json'') = (None, n)"
      "enc (w_ready W) (ready_doc l ledger_data raw) = Inr rd"
      "publish_immutable io2 rd 4096 (d ''finalization-ready.json'') = (r, m)"
      "d' = d(''observations.json'' := n, ''finalization-ready.json'' := m)"
  using assms by (auto simp: publish_pair_def Let_def split: sum.splits option.splits prod.splits)

lemma publish_pair_frame:
  assumes "publish_pair W io1 io2 l ledger_data raw d = (r, d')"
    and "k \<noteq> ''observations.json''" "k \<noteq> ''finalization-ready.json''"
  shows "d' k = d k"
  using assms(1) by (rule publish_pair_cases) (simp_all add: assms(2,3))

lemma publish_pair_immutable:
  assumes "publish_pair W io1 io2 l ledger_data raw d = (r, d')" and "d k \<noteq> Missing"
  shows "d' k = d k"
proof -
  have keep: "n = t" if "publish_immutable io data lim t = (q, n)" "t \<noteq> Missing" for io data lim t q n
    using publish_immutable_keeps[OF that(2), of io data lim] that(1) by simp
  from assms(1) show ?thesis
    by (rule publish_pair_cases) (use assms(2) in \<open>auto dest: keep\<close>)
qed

text \<open>The readiness marker exists only beside the observations it binds.\<close>

lemma publish_pair_ready:
  assumes "publish_pair W io1 io2 l ledger_data raw d = (r, d')"
    and "d ''finalization-ready.json'' = Missing" "d' ''finalization-ready.json'' \<noteq> Missing"
  shows "d' ''observations.json'' = Regular raw \<and>
    (\<exists>rd. enc (w_ready W) (ready_doc l ledger_data raw) = Inr rd \<and> d' ''finalization-ready.json'' = Regular rd)"
  using assms(1)
proof (cases rule: publish_pair_cases)
  case (second n rd m)
  have "n = Regular raw" using publish_immutable_None[OF second(1)] by simp
  moreover have "m = Regular rd"
    using second(3,4) assms(2,3) durable_content[of io2 "Regular rd" Missing]
    by (auto simp: publish_immutable_def read_bounded_def)
  ultimately show ?thesis using second by simp
qed (use assms in auto)

lemma publish_pair_None:
  assumes "publish_pair W io1 io2 l ledger_data raw d = (None, d')"
  shows "d' ''observations.json'' = Regular raw \<and>
    (\<exists>rd. enc (w_ready W) (ready_doc l ledger_data raw) = Inr rd \<and> d' ''finalization-ready.json'' = Regular rd)"
  using assms by (rule publish_pair_cases) (auto dest: publish_immutable_None)

lemma observation_inputs_Inr:
  assumes "observation_inputs W l d = Inr (ledger_data, raw)"
  shows "\<exists>res ob. derive_observations W l ledger_data res = Inr ob \<and> enc (w_observations W) ob = Inr raw \<and>
    read_bounded (d ''run.json'') 1048576 = Inr ledger_data \<and> check_artifacts d l = None"
  using assms by (auto simp: observation_inputs_def split: sum.splits if_splits option.splits)

end
