(* ===== verification/Staging.thy ===== *)
theory Staging
  imports Observations
begin

text \<open>
  Untrusted job evidence, internal/coordinator/staging.go: what \<open>validateEvidence\<close> accepts from a
  job, and how \<open>collectStage\<close> freezes it. Job evidence can never claim a trusted observation or a
  passing verdict.
\<close>

section \<open>Validation\<close>

definition evidence_obs_check :: "string \<Rightarrow> observation gomap \<Rightarrow> gerr option" where
  \<comment> \<open>the body of the loop over the five components\<close>
  "evidence_obs_check name c =
     (let ob = cov c name in first_err [
       check (\<not> (\<not> has_key c name \<or> (o_observer ob \<noteq> ''job'' \<and> o_observer ob \<noteq> ''none'') \<or>
          length (o_reason ob) = 0 \<or> length (o_reason ob) > 1024)) ''job evidence cannot assert trusted observation'',
       check (List.member [''verified'', ''failed'', ''unsupported'', ''unobservable''] (o_status ob)) ''invalid coverage status'',
       check (\<not> (o_observer ob = ''none'' \<and> o_status ob \<noteq> ''unobservable'')) ''missing observer cannot verify coverage'',
       check (\<not> ((name = ''logs'' \<or> name = ''runner_disposal'') \<and> o_status ob \<noteq> ''unobservable''))
         ''job cannot observe complete logs or its own disposal''])"

definition evidence_times_ok :: "time \<Rightarrow> ledger \<Rightarrow> evidence \<Rightarrow> bool" where
  "evidence_times_ok now l p \<longleftrightarrow> \<not> (p_started p = 0 \<or> p_started p < l_created l - minute \<or> p_started p > now + minute \<or>
     (case p_completed p of None \<Rightarrow> True | Some t \<Rightarrow> t < p_started p \<or> t > now + minute) \<or> p_attempts p < 1)"

definition validate_evidence :: "wire \<Rightarrow> time \<Rightarrow> bytes \<Rightarrow> ledger \<Rightarrow> gerr option" where
  "validate_evidence W now data l =
     (if length data = 0 \<or> length data > 921600 then Some (EMsg ''evidence exceeds local staging limit or is empty'')
      else case dec (w_evidence W) data of Inl e \<Rightarrow> Some e | Inr p \<Rightarrow>
       (case enc (w_evidence W) p of Inl e \<Rightarrow> Some e | Inr canonical \<Rightarrow> first_err [
         check (canonical = data) ''evidence must be canonical JSON'',
         check (\<not> (p_kind p \<noteq> ''cleanup-evidence/v1'' \<or> p_identity p \<noteq> l_identity l \<or> p_namespace p \<noteq> l_resource_ns l \<or>
            p_namespace_uid p \<noteq> l_resource_uid l \<or> p_cluster_uid p \<noteq> l_cluster_uid l))
           ''evidence identity/namespace does not match coordinator assignment'',
         check (\<not> (p_signature_state p \<noteq> ''unsigned'' \<or> (p_verdict p \<noteq> ''partial'' \<and> p_verdict p \<noteq> ''fail'')))
           ''job evidence cannot claim a signed or passing receipt'',
         check (evidence_times_ok now l p) ''invalid evidence chronology'',
         check (\<not> (length (p_coverage p) \<noteq> 5 \<or> length (p_resources p) > 10000)) ''unexpected evidence shape'',
         first_err (map (\<lambda>name. evidence_obs_check name (p_coverage p)) components),
         check ((p_verdict p = ''fail'') = list_ex (\<lambda>name. o_status (cov (p_coverage p) name) = ''failed'') components)
           ''verdict does not match coverage'',
         first_err (map (\<lambda>r. check (\<not> (r_namespace r \<noteq> l_resource_ns l \<or> r_uid r = [] \<or> r_name r = [] \<or>
            r_resource r = [] \<or> r_version r = [])) ''resource reference outside assigned namespace; runner PV creation is disabled'')
           (p_resources p))]))"

lemma evidence_obs_check_None:
  assumes "evidence_obs_check name c = None"
  shows "has_key c name" "o_observer (cov c name) = ''job'' \<or> o_observer (cov c name) = ''none''"
    "1 \<le> length (o_reason (cov c name))" "length (o_reason (cov c name)) \<le> 1024"
    "o_status (cov c name) \<in> {''verified'', ''failed'', ''unsupported'', ''unobservable''}"
    "o_observer (cov c name) = ''none'' \<Longrightarrow> o_status (cov c name) = ''unobservable''"
    "name = ''logs'' \<or> name = ''runner_disposal'' \<Longrightarrow> o_status (cov c name) = ''unobservable''"
  using assms by (auto simp: evidence_obs_check_def Let_def Suc_le_eq)

lemma validate_evidence_None:
  assumes "validate_evidence W now data l = None"
  shows "\<exists>p. dec (w_evidence W) data = Inr p \<and> enc (w_evidence W) p = Inr data \<and>
    p_identity p = l_identity l \<and> p_namespace_uid p = l_resource_uid l \<and> p_cluster_uid p = l_cluster_uid l \<and>
    length (p_coverage p) = 5 \<and> (\<forall>name \<in> set components. evidence_obs_check name (p_coverage p) = None) \<and>
    (p_verdict p = ''partial'' \<or> p_verdict p = ''fail'') \<and> p_signature_state p = ''unsigned'' \<and>
    (p_verdict p = ''fail'' \<longleftrightarrow> (\<exists>name \<in> set components. o_status (cov (p_coverage p) name) = ''failed'')) \<and>
    (\<forall>r \<in> set (p_resources p). r_namespace r = l_resource_ns l)"
proof -
  from assms obtain p where p: "dec (w_evidence W) data = Inr p" "enc (w_evidence W) p = Inr data"
    by (auto simp: validate_evidence_def split: if_splits sum.splits)
  with assms show ?thesis
    by (intro exI[of _ p]) (auto simp: validate_evidence_def list_ex_iff split: if_splits)
qed

section \<open>Collecting the staging object\<close>

record stage_object =
  sg_uid :: string
  sg_data :: "bytes gomap"

text \<open>
  \<open>collectStage\<close>: the answer of the API server for the staging ConfigMap, the ends of the two
  durable writes and the current time are the environment. The ledger is updated in memory only.
\<close>

definition collect_guard :: "wire \<Rightarrow> durable_io \<Rightarrow> stage_object \<Rightarrow> ledger \<times> dir \<Rightarrow> gerr option \<times> ledger \<times> dir" where
  "collect_guard W io stage ld = (case ld of (l, d) \<Rightarrow>
     (let raw = lookup_or [] (sg_data stage) ''guard.json'' in
      if length raw > 0 then
        (if length raw > 16384 then (Some (ETerminal (EMsg ''guard status exceeds limit'')), l, d)
         else case w_shape W raw of Some e \<Rightarrow> (Some (ETerminal e), l, d) | None \<Rightarrow>
           (case durable io (Regular raw) (d ''guard.json'') of
              (Some e, n) \<Rightarrow> (Some e, l, d(''guard.json'' := n))
            | (None, n) \<Rightarrow> (None, l\<lparr>l_guard_digest := digest raw\<rparr>, d(''guard.json'' := n))))
      else (None, l, d)))"

definition collect_stage :: "wire \<Rightarrow> time \<Rightarrow> durable_io \<Rightarrow> durable_io \<Rightarrow> gerr + stage_object \<Rightarrow> ledger \<Rightarrow> dir
    \<Rightarrow> gerr option \<times> ledger \<times> dir" where
  "collect_stage W now io1 io2 api l d = (case api of Inl e \<Rightarrow> (Some e, l, d) | Inr stage \<Rightarrow>
     (if sg_uid stage \<noteq> l_stage_uid l then (Some (ETerminal (EMsg ''staging object UID changed'')), l, d)
      else case collect_guard W io1 stage (l, d) of
        (Some e, l1, d1) \<Rightarrow> (Some e, l1, d1)
      | (None, l1, d1) \<Rightarrow>
         (let raw = lookup_or [] (sg_data stage) ''evidence.json'' in
          if length raw = 0 then (None, l1\<lparr>l_evidence_status := ''missing''\<rparr>, d1)
          else case validate_evidence W now raw l1 of
            Some e \<Rightarrow> (Some (ETerminal e), l1\<lparr>l_evidence_status := ''rejected''\<rparr>, d1)
          | None \<Rightarrow>
              (if l_evidence_digest l1 \<noteq> [] \<and> l_evidence_digest l1 \<noteq> digest raw
               then (Some (ETerminal (EMsg ''staged evidence changed after durable collection'')),
                     l1\<lparr>l_evidence_status := ''conflict''\<rparr>, d1)
               else case durable io2 (Regular raw) (d1 ''cleanup-evidence.json'') of
                 (Some e, n) \<Rightarrow> (Some e, l1, d1(''cleanup-evidence.json'' := n))
               | (None, n) \<Rightarrow> (None, l1\<lparr>l_evidence_status := ''accepted-untrusted'', l_evidence_digest := digest raw\<rparr>,
                     d1(''cleanup-evidence.json'' := n))))))"

lemma validate_evidence_guard [simp]:
  "validate_evidence W now data (l\<lparr>l_guard_digest := g\<rparr>) = validate_evidence W now data l"
  by (simp add: validate_evidence_def evidence_times_ok_def cong: sum.case_cong)

lemma validate_evidence_evidence [simp]:
  "validate_evidence W now data (l\<lparr>l_evidence_digest := g\<rparr>) = validate_evidence W now data l"
  "validate_evidence W now data (l\<lparr>l_evidence_status := g\<rparr>) = validate_evidence W now data l"
  by (simp_all add: validate_evidence_def evidence_times_ok_def cong: sum.case_cong)

lemma collect_guard_result:
  assumes "collect_guard W io stage (l, d) = (r, l', d')"
  shows "(l' = l \<or> (\<exists>g. l' = l\<lparr>l_guard_digest := g\<rparr>)) \<and> d' ''cleanup-evidence.json'' = d ''cleanup-evidence.json''"
  using assms by (auto simp: collect_guard_def Let_def split: if_splits option.splits prod.splits)

text \<open>
  A collection that reports success either found no evidence, or has durably frozen the very
  bytes it validated; and a digest that was frozen before never changes.
\<close>

lemma collect_stage_None:
  assumes "collect_stage W now io1 io2 api l d = (None, l', d')"
  shows "l_evidence_status l' = ''missing'' \<or>
    (l_evidence_status l' = ''accepted-untrusted'' \<and> (\<exists>raw. d' ''cleanup-evidence.json'' = Regular raw \<and>
       l_evidence_digest l' = digest raw \<and> validate_evidence W now raw l' = None \<and>
       (l_evidence_digest l = [] \<or> l_evidence_digest l = digest raw)))"
proof -
  from assms obtain stage where api: "api = Inr stage" and uid: "sg_uid stage = l_stage_uid l"
    by (auto simp: collect_stage_def split: sum.splits if_splits)
  obtain q l1 d1 where g: "collect_guard W io1 stage (l, d) = (q, l1, d1)" by (metis prod_cases3)
  have l1: "l1 = l \<or> (\<exists>g. l1 = l\<lparr>l_guard_digest := g\<rparr>)" using collect_guard_result[OF g] by simp
  then have dg: "l_evidence_digest l1 = l_evidence_digest l" by auto
  show ?thesis
    using assms dg unfolding collect_stage_def api
    by (auto simp: uid g Let_def dest: durable_None split: option.splits if_splits prod.splits)
qed

lemma collect_stage_digest:
  assumes "collect_stage W now io1 io2 api l d = (r, l', d')" and "l_evidence_digest l \<noteq> []"
  shows "l_evidence_digest l' = l_evidence_digest l"
proof (cases api)
  case (Inl e)
  with assms show ?thesis by (simp add: collect_stage_def)
next
  case (Inr stage)
  obtain q l1 d1 where g: "collect_guard W io1 stage (l, d) = (q, l1, d1)" by (metis prod_cases3)
  have "l1 = l \<or> (\<exists>g. l1 = l\<lparr>l_guard_digest := g\<rparr>)" using collect_guard_result[OF g] by simp
  then have "l_evidence_digest l1 = l_evidence_digest l" by auto
  with assms g Inr show ?thesis
    by (auto simp: collect_stage_def Let_def split: option.splits if_splits prod.splits)
qed

end
