(* ===== verification/Archive.thy ===== *)
theory Archive
  imports Files
begin

text \<open>
  The evidence archive, internal/archive/archive.go: digest-addressed references, the client over
  a versioned object store with retention, and the checks each read and each admission makes. The
  object store (the MinIO client library and the server behind it) is a parameter: a record of
  operations on a state the model does not look into.
\<close>

section \<open>References\<close>

record aref =
  rf_store :: string
  rf_bucket :: string
  rf_key :: string
  rf_version :: string
  rf_sha :: string
  rf_size :: int

definition zero_aref :: aref where
  "zero_aref = \<lparr>rf_store = [], rf_bucket = [], rf_key = [], rf_version = [], rf_sha = [], rf_size = 0\<rparr>"

definition max_object_bytes :: int where "max_object_bytes = 104857600"

definition component_pattern :: "string \<Rightarrow> bool" where
  \<comment> \<open>the regular expression \<open>^[a-zA-Z0-9][a-zA-Z0-9._-]{0,127}$\<close>\<close>
  "component_pattern s = (case s of [] \<Rightarrow> False | c # cs \<Rightarrow>
     alnum c \<and> length cs \<le> 127 \<and> list_all (\<lambda>d. alnum d \<or> d = CHR ''.'' \<or> d = CHR ''_'' \<or> d = CHR ''-'') cs)"

definition sha_segment :: "string \<Rightarrow> string" where
  "sha_segment sha = ''/sha256/'' @ sha"

definition aref_validate :: "aref \<Rightarrow> gerr option" where
  "aref_validate r = first_err [
     check (\<not> (\<not> component_pattern (rf_store r) \<or> \<not> component_pattern (rf_bucket r) \<or> \<not> hex_n 64 (rf_sha r) \<or>
        rf_version r = [] \<or> rf_version r = ''null'' \<or> length (rf_version r) > 256 \<or>
        contains_any (rf_version r) [CHR 0x0D, CHR 0x0A, CHR 0x00] \<or> rf_size r < 0 \<or> rf_size r > max_object_bytes))
       ''invalid archive reference'',
     check (\<not> (length (rf_key r) > 1024 \<or> \<not> has_suffix (rf_key r) (sha_segment (rf_sha r)) \<or>
        contains (rf_key r) ''..'' \<or> contains_any (rf_key r) [CHR 0x5C, CHR 0x0D, CHR 0x0A, CHR 0x00]))
       ''invalid digest-addressed archive key'']"

section \<open>The client\<close>

record archive_config =
  ac_store :: string
  ac_endpoint :: string
  ac_bucket :: string
  ac_prefix :: string
  ac_region :: string
  ac_kms :: string
  ac_max :: int

text \<open>What \<open>url.Parse\<close> finds in the endpoint.\<close>

record url =
  u_scheme :: string
  u_host :: string
  u_user :: bool
  u_query :: string
  u_fragment :: string
  u_path :: string

definition read_file :: "node \<Rightarrow> int \<Rightarrow> gerr + bytes" where
  \<comment> \<open>\<open>readFile\<close>\<close>
  "read_file n limit = (case n of
     Missing \<Rightarrow> Inl ENotExist
   | Unreadable e \<Rightarrow> Inl (EExt e)
   | Special \<Rightarrow> Inl (EMsg ''archive input must be a bounded regular file'')
   | Regular b \<Rightarrow> (if int (length b) > limit then Inl (EMsg ''archive input must be a bounded regular file'') else Inr b))"

text \<open>
  \<open>New\<close>: whether a configuration is admitted. The certificate parser is a parameter.
\<close>

definition new_client :: "(bytes \<Rightarrow> bool) \<Rightarrow> archive_config \<Rightarrow> gerr + url \<Rightarrow> node \<Rightarrow> node \<Rightarrow> node \<Rightarrow> gerr option" where
  "new_client append_certs c parsed ca_file access_file secret_file = first_err [
     check (case parsed of Inl _ \<Rightarrow> False | Inr u \<Rightarrow> \<not> (u_scheme u \<noteq> ''https'' \<or> u_host u = [] \<or> u_user u \<or>
         u_query u \<noteq> [] \<or> u_fragment u \<noteq> [] \<or> (u_path u \<noteq> [] \<and> u_path u \<noteq> ''/'')))
       ''archive endpoint must be an operator-configured HTTPS origin'',
     check (\<not> (\<not> component_pattern (ac_store c) \<or> \<not> component_pattern (ac_bucket c) \<or> \<not> component_pattern (ac_prefix c) \<or>
         ac_region c = [] \<or> ac_kms c = [] \<or> ac_max c \<le> 0 \<or> ac_max c > max_object_bytes))
       ''invalid archive configuration or size limit'',
     (case read_file ca_file 1048576 of Inl e \<Rightarrow> Some e | Inr ca \<Rightarrow> check (append_certs ca) ''invalid archive CA''),
     (case read_file access_file 4096 of Inl e \<Rightarrow> Some e | Inr access \<Rightarrow>
       (case read_file secret_file 4096 of Inl e \<Rightarrow> Some e | Inr secret \<Rightarrow>
         check (trim_runes access \<noteq> [] \<and> trim_runes secret \<noteq> []) ''empty archive credentials''))]"

definition client_validate :: "archive_config \<Rightarrow> aref \<Rightarrow> gerr option" where
  "client_validate c r = first_err [
     aref_validate r,
     check (\<not> (rf_store r \<noteq> ac_store c \<or> rf_bucket r \<noteq> ac_bucket c \<or> rf_key r \<noteq> ac_prefix c @ sha_segment (rf_sha r) \<or>
        rf_size r > ac_max c)) ''reference outside configured archive'']"

section \<open>The object store\<close>

record stat =
  st_version :: string
  st_size :: int
  st_sse :: string
  st_kms :: string
  st_type :: string
  st_modified :: time

type_synonym retention = "string option \<times> time option"

text \<open>
  The operations the client calls. \<open>s3_put\<close> is the conditional upload: the error code of the
  response, or the new version. \<open>s3_get\<close> is the whole stream of an object version.
\<close>

record 's s3 =
  s3_put :: "string \<Rightarrow> string \<Rightarrow> string \<Rightarrow> bytes \<Rightarrow> 's \<Rightarrow> (string + string) \<times> 's"
  s3_stat :: "string \<Rightarrow> string \<Rightarrow> string \<Rightarrow> ('s, stat) io"
  s3_get :: "string \<Rightarrow> string \<Rightarrow> string \<Rightarrow> ('s, bytes) io"
  s3_retention :: "string \<Rightarrow> string \<Rightarrow> string \<Rightarrow> ('s, retention) io"
  s3_retain :: "string \<Rightarrow> string \<Rightarrow> string \<Rightarrow> string \<Rightarrow> time \<Rightarrow> ('s, unit) io"
  s3_media :: "string \<Rightarrow> bool"

definition compliance :: string where "compliance = ''COMPLIANCE''"

definition admission_deadline :: "time \<Rightarrow> time" where
  "admission_deadline now = (let t = now + 7 * 24 * hour + minute in t - t mod second)"

definition needs_extension :: "time \<Rightarrow> time \<Rightarrow> bool" where
  "needs_extension until now \<longleftrightarrow> until < admission_deadline now"

definition retained_until :: "retention \<Rightarrow> time \<Rightarrow> bool" where
  \<comment> \<open>COMPLIANCE mode with a horizon no earlier than \<open>t\<close>\<close>
  "retained_until m t = (case m of (mode, until) \<Rightarrow>
     \<not> (mode = None \<or> mode \<noteq> Some compliance \<or> (case until of None \<Rightarrow> True | Some u \<Rightarrow> u < t)))"

definition extend_retention :: "'s s3 \<Rightarrow> aref \<Rightarrow> time \<Rightarrow> retention \<Rightarrow> ('s, unit) io" where
  "extend_retention S r now m = (case m of
     (Some mode, Some until) \<Rightarrow>
       (if mode \<noteq> compliance then throw (EMsg ''COMPLIANCE retention required'')
        else if needs_extension until now
             then s3_retain S (rf_bucket r) (rf_key r) (rf_version r) mode (admission_deadline now)
             else ret ())
   | _ \<Rightarrow> throw (EMsg ''COMPLIANCE retention required''))"

definition protect_admission :: "'s s3 \<Rightarrow> aref \<Rightarrow> time \<Rightarrow> ('s, unit) io" where
  "protect_admission S r now =
     bind_io (s3_retention S (rf_bucket r) (rf_key r) (rf_version r)) (\<lambda>m.
     then_io (extend_retention S r now m)
     (bind_io (s3_retention S (rf_bucket r) (rf_key r) (rf_version r)) (\<lambda>m'.
      require (retained_until m' (now + 7 * 24 * hour)) (EMsg ''new archive admission lacks seven days remaining retention''))))"

definition stat_ok :: "archive_config \<Rightarrow> 's s3 \<Rightarrow> aref \<Rightarrow> stat \<Rightarrow> gerr option" where
  \<comment> \<open>the checks of \<open>checkMetadata\<close> on the object's own metadata\<close>
  "stat_ok c S r st = first_err [
     check (\<not> (st_version st \<noteq> rf_version r \<or> st_size st \<noteq> rf_size r)) ''archive size/version mismatch'',
     check (\<not> (st_sse st \<noteq> ''aws:kms'' \<or> (st_kms st \<noteq> ac_kms c \<and> st_kms st \<noteq> ''arn:aws:kms:'' @ ac_kms c)))
       ''archive SSE-KMS metadata mismatch'',
     check (s3_media S (st_type st)) ''invalid archive content type'']"

definition check_metadata :: "archive_config \<Rightarrow> 's s3 \<Rightarrow> aref \<Rightarrow> ('s, unit) io" where
  "check_metadata c S r =
     bind_io (s3_stat S (rf_bucket r) (rf_key r) (rf_version r)) (\<lambda>st.
     then_io (lift_io (to_res (stat_ok c S r st)))
     (bind_io (s3_retention S (rf_bucket r) (rf_key r) (rf_version r)) (\<lambda>m.
      require (retained_until m (st_modified st + 7 * 24 * hour)) (EMsg ''archive seven-day COMPLIANCE retention missing''))))"

definition archive_read :: "archive_config \<Rightarrow> 's s3 \<Rightarrow> aref \<Rightarrow> ('s, bytes) io" where
  "archive_read c S r =
     then_io (lift_io (to_res (client_validate c r)))
     (then_io (check_metadata c S r)
     (bind_io (s3_get S (rf_bucket r) (rf_key r) (rf_version r)) (\<lambda>stream.
      let b = take (nat (rf_size r + 1)) stream in
      then_io (require (\<not> (int (length b) \<noteq> rf_size r \<or> digest b \<noteq> rf_sha r)) (EMsg ''archive digest/size mismatch''))
      (ret b))))"

definition archive_verify :: "archive_config \<Rightarrow> 's s3 \<Rightarrow> aref \<Rightarrow> ('s, unit) io" where
  "archive_verify c S r = then_io (archive_read c S r) (ret ())"

definition archive_protect :: "archive_config \<Rightarrow> 's s3 \<Rightarrow> time \<Rightarrow> aref \<Rightarrow> ('s, unit) io" where
  "archive_protect c S now r = then_io (archive_verify c S r) (protect_admission S r now)"

definition content_type :: "string \<Rightarrow> string" where
  "content_type name = (if has_suffix name ''.json'' then ''application/json''
     else if has_suffix name ''.log'' then ''text/plain'' else ''application/octet-stream'')"

definition put_ref :: "archive_config \<Rightarrow> bytes \<Rightarrow> aref" where
  "put_ref c data = \<lparr>rf_store = ac_store c, rf_bucket = ac_bucket c, rf_key = ac_prefix c @ sha_segment (digest data),
     rf_version = [], rf_sha = digest data, rf_size = int (length data)\<rparr>"

definition put_version :: "archive_config \<Rightarrow> 's s3 \<Rightarrow> string \<Rightarrow> bytes \<Rightarrow> ('s, string) io" where
  \<comment> \<open>the conditional upload; a version that already holds the key is found by a second request\<close>
  "put_version c S name data s =
     (let r = put_ref c data in
      case s3_put S (rf_bucket r) (rf_key r) (content_type name) data s of
        (Inr v, s') \<Rightarrow> (Inr v, s')
      | (Inl code, s') \<Rightarrow>
          (if code \<noteq> ''PreconditionFailed'' \<and> code \<noteq> ''ConditionalRequestConflict''
           then (Inl (EExt ''archive upload''), s')
           else bind_io (s3_stat S (rf_bucket r) (rf_key r) []) (\<lambda>st. ret (st_version st)) s'))"

definition archive_put :: "archive_config \<Rightarrow> 's s3 \<Rightarrow> time \<Rightarrow> string \<Rightarrow> bytes \<Rightarrow> ('s, aref) io" where
  "archive_put c S now name data =
     then_io (require (int (length data) \<le> ac_max c) (EMsg ''archive object exceeds configured limit''))
     (then_io (require (component_pattern name) (EMsg ''invalid evidence name''))
     (bind_io (put_version c S name data) (\<lambda>v.
      let r = (put_ref c data)\<lparr>rf_version := v\<rparr> in
      then_io (archive_protect c S now r) (ret r))))"

section \<open>What the operations guarantee\<close>

lemma archive_read_Inr:
  assumes "archive_read c S r s = (Inr b, s')"
  shows "client_validate c r = None \<and> int (length b) = rf_size r \<and> digest b = rf_sha r"
  using assms by (auto simp: archive_read_def Inr_iffs Let_def)

lemma archive_verify_Inr:
  assumes "archive_verify c S r s = (Inr u, s')"
  shows "\<exists>b. archive_read c S r s = (Inr b, s')"
  using assms by (auto simp: archive_verify_def Inr_iffs)

lemma archive_protect_Inr:
  assumes "archive_protect c S now r s = (Inr u, s')"
  shows "(\<exists>b s1. archive_read c S r s = (Inr b, s1) \<and> protect_admission S r now s1 = (Inr (), s'))"
  using assms by (auto simp: archive_protect_def Inr_iffs dest: archive_verify_Inr)

lemma protect_admission_Inr:
  assumes "protect_admission S r now s = (Inr u, s')"
  shows "\<exists>m s1. s3_retention S (rf_bucket r) (rf_key r) (rf_version r) s1 = (Inr m, s') \<and>
    retained_until m (now + 7 * 24 * hour)"
  using assms by (fastforce simp: protect_admission_def Inr_iffs)

lemma archive_put_Inr:
  assumes "archive_put c S now name data s = (Inr r, s')"
  shows "rf_sha r = digest data \<and> rf_size r = int (length data) \<and> rf_key r = ac_prefix c @ sha_segment (digest data) \<and>
    rf_store r = ac_store c \<and> rf_bucket r = ac_bucket c \<and>
    (\<exists>s1. archive_protect c S now r s1 = (Inr (), s'))"
  using assms by (auto simp: archive_put_def Inr_iffs Let_def put_ref_def)

lemma client_validate_None:
  assumes "client_validate c r = None"
  shows "aref_validate r = None" "rf_key r = ac_prefix c @ sha_segment (rf_sha r)" "rf_size r \<le> ac_max c"
    "rf_store r = ac_store c" "rf_bucket r = ac_bucket c"
  using assms by (auto simp: client_validate_def)

text \<open>The deadline of an admission is later than seven days from now, by less than a minute.\<close>

lemma admission_deadline_bounds:
  "now + 7 * 24 * hour < admission_deadline now" "admission_deadline now \<le> now + 7 * 24 * hour + minute"
  "admission_deadline now mod second = 0"
proof -
  have "0 \<le> (now + 7 * 24 * hour + minute) mod second" "(now + 7 * 24 * hour + minute) mod second < second" by simp_all
  then show "now + 7 * 24 * hour < admission_deadline now" "admission_deadline now \<le> now + 7 * 24 * hour + minute"
    by (simp_all add: admission_deadline_def Let_def)
  show "admission_deadline now mod second = 0"
    by (simp only: admission_deadline_def Let_def minus_mod_eq_mult_div) simp
qed

text \<open>
  Over a store that honours retention requests, an object under COMPLIANCE retention is always
  admitted, and its horizon never moves back.
\<close>

lemma protect_admission_live:
  assumes get: "\<And>t. s3_retention S (rf_bucket r) (rf_key r) (rf_version r) t = (Inr (Some compliance, Some (horizon t)), t)"
    and put: "\<And>d t. \<exists>t'. s3_retain S (rf_bucket r) (rf_key r) (rf_version r) compliance d t = (Inr (), t') \<and> horizon t' = d"
  shows "\<exists>s'. protect_admission S r now s = (Inr (), s') \<and> horizon s \<le> horizon s' \<and> now + 7 * 24 * hour \<le> horizon s'"
proof (cases "needs_extension (horizon s) now")
  case True
  obtain s' where "s3_retain S (rf_bucket r) (rf_key r) (rf_version r) compliance (admission_deadline now) s = (Inr (), s')"
    "horizon s' = admission_deadline now" using put by blast
  with True get admission_deadline_bounds(1)[of now] show ?thesis
    by (simp add: protect_admission_def extend_retention_def io_apply retained_until_def needs_extension_def)
next
  case False
  with get admission_deadline_bounds(1)[of now] show ?thesis
    by (simp add: protect_admission_def extend_retention_def io_apply retained_until_def needs_extension_def)
qed

end
