(* ===== verification/Receipt.thy ===== *)
theory Receipt
  imports Staging Archive
begin

text \<open>
  Receipts, internal/finalizer/schema.go, internal/finalizer/archived.go and the receipt builder of
  internal/finalizer/core.go: the shape of a valid receipt, the verdict over its coverage, how a
  receipt is derived from a frozen coordinator snapshot, and how an archived one is re-derived.
\<close>

section \<open>Data\<close>

record binding =
  bd_cluster_uid :: string
  bd_resource_ns :: string
  bd_resource_uid :: string
  bd_runner_ns :: string
  bd_runner_uid :: string
  bd_job_uid :: string
  bd_pod_uid :: string
  bd_ledger_sha :: string

record signer_policy =
  sp_revision :: string
  sp_issuer :: string
  sp_identity :: string
  sp_trust_root :: string
  sp_cosign :: string
  sp_signing_config :: string

text \<open>\<open>Objects\<close> and \<open>LogObjects\<close> may be nil, which the validator distinguishes from empty.\<close>

record receipt =
  rc_kind :: string
  rc_identity :: identity
  rc_binding :: binding
  rc_finalizer :: signer_policy
  rc_started :: time
  rc_completed :: time
  rc_finalized :: time
  rc_evidence :: string
  rc_coverage :: "observation gomap"
  rc_objects :: "aref gomap option"
  rc_logs :: "aref list option"
  rc_verdict :: string

record outcome =
  \<comment> \<open>\<open>Result\<close>\<close>
  oc_kind :: string
  oc_identity :: identity
  oc_receipt :: aref
  oc_bundle :: aref
  oc_signature :: string

record expected =
  ex_identity :: identity
  ex_binding :: binding
  ex_policy :: signer_policy

record snapshot =
  sn_sha :: string
  sn_size :: int
  sn_status :: string

record retry =
  \<comment> \<open>\<open>retryState\<close>\<close>
  rt_kind :: string
  rt_identity :: identity
  rt_policy :: signer_policy
  rt_input :: string
  rt_snapshots :: "snapshot gomap"
  rt_finalized :: time
  rt_attempts :: int
  rt_stage :: string
  rt_status :: string
  rt_next :: "time option"
  rt_error :: string
  rt_objects :: "aref gomap option"
  rt_receipt_sha :: string
  rt_bundle_sha :: string

definition zero_snapshot :: snapshot where
  "zero_snapshot = \<lparr>sn_sha = [], sn_size = 0, sn_status = []\<rparr>"

definition entries :: "'a list option \<Rightarrow> 'a list" where
  \<comment> \<open>the entries of a map or slice that may be nil\<close>
  "entries m = (case m of None \<Rightarrow> [] | Some xs \<Rightarrow> xs)"

lemma entries_simps [simp]: "entries None = []" "entries (Some xs) = xs"
  by (simp_all add: entries_def)

text \<open>The documents of the finalizer, on top of those of the coordinator.\<close>

record fwire =
  fw_base :: wire
  fw_receipt :: "receipt codec"
  fw_outcome :: "outcome codec"
  fw_retry :: "retry codec"
  fw_snapshots :: "snapshot gomap \<Rightarrow> gerr + bytes"
  fw_key :: "identity \<Rightarrow> bytes"

definition max_receipt :: int where "max_receipt = 1048576"
definition max_bundle :: int where "max_bundle = 2097152"

section \<open>Validation\<close>

definition validate_ref :: "aref \<Rightarrow> gerr option" where
  "validate_ref r = first_err [
     check (\<not> (\<not> safe_text (rf_store r) 80 False \<or> contains_any (rf_store r) [CHR ''/'', CHR '':'', CHR 0x5C] \<or>
        \<not> safe_text (rf_bucket r) 63 False \<or> contains_any (rf_bucket r) [CHR ''/'', CHR '':'', CHR 0x5C] \<or>
        \<not> safe_text (rf_key r) 1024 False \<or> has_prefix (rf_key r) ''/'' \<or> contains (rf_key r) ''://'' \<or>
        \<not> safe_text (rf_version r) 1024 False \<or> rf_version r = ''null'' \<or> \<not> hex_n 64 (rf_sha r) \<or>
        rf_size r < 0 \<or> rf_size r > 104857600)) ''invalid immutable archive reference'',
     first_err (map (\<lambda>p. check (\<not> (p = ''..'' \<or> p = ''.'' \<or> p = [])) ''invalid archive key segment'')
       (split_on (CHR ''/'') (rf_key r)))]"

definition coverage_entry :: "observation gomap \<Rightarrow> string \<Rightarrow> gerr option" where
  "coverage_entry c k = first_err [
     check (has_key c k \<and> safe_text (o_reason (cov c k)) 512 False) (''invalid coverage: '' @ k),
     check (List.member [''verified'', ''failed'', ''unsupported'', ''unobservable''] (o_status (cov c k))) ''invalid coverage status'',
     check (List.member [''trusted'', ''job'', ''none''] (o_observer (cov c k))) ''invalid observer'',
     check (\<not> (o_observer (cov c k) = ''none'' \<and> o_status (cov c k) \<noteq> ''unobservable'')) ''absent observer cannot attest'']"

definition validate_coverage :: "observation gomap \<Rightarrow> gerr option" where
  "validate_coverage c = first_err
     (check (length c = length components) ''coverage must contain exactly five components'' #
      map (coverage_entry c) components)"

fun verdict_from :: "bool \<Rightarrow> observation gomap \<Rightarrow> string list \<Rightarrow> string" where
  \<comment> \<open>the loop of \<open>Verdict\<close> with its accumulator \<open>all\<close>\<close>
  "verdict_from al c [] = (if al then ''pass'' else ''partial'')"
| "verdict_from al c (k # ks) =
     (if o_status (cov c k) = ''failed'' then ''fail''
      else verdict_from (al \<and> o_status (cov c k) = ''verified'' \<and> o_observer (cov c k) = ''trusted'') c ks)"

definition verdict :: "observation gomap \<Rightarrow> string" where
  "verdict c = verdict_from True c components"

definition receipt_identity_ok :: "receipt \<Rightarrow> gerr option" where
  "receipt_identity_ok r = first_err [
     check (rc_kind r = ''cleanup-receipt/v1'') ''unsupported receipt kind'',
     identity_validate (rc_identity r),
     first_err (map (\<lambda>t. check (safe_text t 255 False) ''invalid identity text'')
       [i_repository (rc_identity r), i_run (rc_identity r), i_job (rc_identity r)]),
     check (\<not> (i_provider (rc_identity r) \<noteq> ''local'' \<or> \<not> hex_n 32 (i_run (rc_identity r)) \<or>
        bd_resource_ns (rc_binding r) \<noteq> ''proof-'' @ i_run (rc_identity r) \<or>
        bd_runner_ns (rc_binding r) \<noteq> ''proof-runner-'' @ i_run (rc_identity r))) ''invalid local assignment'',
     first_err (map (\<lambda>t. check (safe_text t 255 True) ''invalid UID'')
       [bd_cluster_uid (rc_binding r), bd_resource_uid (rc_binding r), bd_runner_uid (rc_binding r),
        bd_job_uid (rc_binding r), bd_pod_uid (rc_binding r)]),
     check (hex_n 64 (bd_ledger_sha (rc_binding r)) \<and> revision_pattern (sp_revision (rc_finalizer r)) \<and>
        hex_n 64 (sp_trust_root (rc_finalizer r)) \<and> hex_n 64 (sp_cosign (rc_finalizer r)) \<and>
        hex_n 64 (sp_signing_config (rc_finalizer r)) \<and> safe_text (sp_issuer (rc_finalizer r)) 1024 False \<and>
        safe_text (sp_identity (rc_finalizer r)) 1024 False) ''invalid finalizer binding'',
     check (\<not> (rc_started r = 0 \<or> rc_completed r < rc_started r \<or> rc_finalized r < rc_completed r)) ''invalid chronology'']"

definition receipt_object_ok :: "string \<times> aref \<Rightarrow> gerr option" where
  "receipt_object_ok kr = (case kr of (k, ref) \<Rightarrow> first_err [
     check (\<not> (k \<noteq> ''run.json'' \<and> k \<noteq> ''observations.json'' \<and> k \<noteq> ''cleanup-evidence.json'')) ''unknown archived artifact'',
     validate_ref ref,
     check (rf_size ref \<le> max_receipt) ''oversized JSON object''])"

definition receipt_archive_ok :: "receipt \<Rightarrow> gerr option" where
  "receipt_archive_ok r =
     (let objs = entries (rc_objects r); logs = entries (rc_logs r) in first_err [
        check (\<not> (rc_objects r = None \<or> rc_logs r = None \<or> length objs > 3 \<or> length logs > 1)) ''invalid archive collections'',
        check (has_key objs ''run.json'') ''ledger archive required'',
        first_err (map receipt_object_ok objs),
        check (rf_sha (lookup_or zero_aref objs ''run.json'') = bd_ledger_sha (rc_binding r)) ''ledger archive digest mismatch'',
        check (\<not> (rc_evidence r = ''accepted-untrusted'' \<and> \<not> has_key objs ''cleanup-evidence.json'')) ''accepted evidence needs archive'',
        first_err (map validate_ref logs),
        check (\<not> (o_status (cov (rc_coverage r) ''logs'') = ''verified'' \<and> length logs = 0)) ''verified logs need archive'',
        check (\<not> (rc_verdict r = ''pass'' \<and> (rc_evidence r \<noteq> ''accepted-untrusted'' \<or> length logs = 0 \<or>
           bd_cluster_uid (rc_binding r) = [] \<or> bd_resource_uid (rc_binding r) = [] \<or> bd_runner_uid (rc_binding r) = [] \<or>
           bd_job_uid (rc_binding r) = [] \<or> bd_pod_uid (rc_binding r) = []))) ''pass lacks evidence or allocation binding'',
        check (\<not> (rc_verdict r = ''pass'' \<and> \<not> has_key objs ''observations.json'')) ''pass needs trusted observation archive''])"

definition receipt_validate :: "receipt \<Rightarrow> gerr option" where
  "receipt_validate r = first_err [
     receipt_identity_ok r,
     check (List.member [''accepted-untrusted'', ''missing'', ''invalid''] (rc_evidence r)) ''invalid evidence status'',
     validate_coverage (rc_coverage r),
     check (rc_verdict r = verdict (rc_coverage r)) ''verdict does not match coverage'',
     receipt_archive_ok r]"

section \<open>Reading and writing documents\<close>

definition strict_canonical :: "'a codec \<Rightarrow> int \<Rightarrow> bytes \<Rightarrow> gerr + 'a" where
  "strict_canonical C limit data =
     (if length data = 0 \<or> int (length data) > limit \<or> \<not> utf8_valid data
      then Inl (EMsg ''JSON exceeds bounds or is not UTF-8'')
      else case dec C data of Inl e \<Rightarrow> Inl e | Inr x \<Rightarrow>
        (case enc C x of Inl e \<Rightarrow> Inl e | Inr canonical \<Rightarrow>
          (if data \<noteq> canonical then Inl (EMsg ''JSON must have exact required canonical shape'') else Inr x)))"

definition parse_receipt :: "fwire \<Rightarrow> bytes \<Rightarrow> gerr + receipt" where
  "parse_receipt F data = (case strict_canonical (fw_receipt F) max_receipt data of Inl e \<Rightarrow> Inl e | Inr r \<Rightarrow>
     (case receipt_validate r of Some e \<Rightarrow> Inl e | None \<Rightarrow> Inr r))"

definition receipt_canonical :: "fwire \<Rightarrow> receipt \<Rightarrow> gerr + bytes" where
  "receipt_canonical F r = (case receipt_validate r of Some e \<Rightarrow> Inl e | None \<Rightarrow>
     (case enc (fw_receipt F) r of Inl e \<Rightarrow> Inl e | Inr b \<Rightarrow>
       (if int (length b) > max_receipt then Inl (EMsg ''receipt exceeds 1 MiB'') else Inr b)))"

definition verify_receipt :: "fwire \<Rightarrow> bytes \<Rightarrow> bytes \<Rightarrow> expected \<Rightarrow> (bytes \<Rightarrow> bytes \<Rightarrow> gerr option) option \<Rightarrow> gerr + receipt" where
  "verify_receipt F data bundle ex signer = (case parse_receipt F data of Inl e \<Rightarrow> Inl e | Inr r \<Rightarrow>
     (if rc_identity r \<noteq> ex_identity ex \<or> rc_binding r \<noteq> ex_binding ex \<or> rc_finalizer r \<noteq> ex_policy ex
      then Inl (EMsg ''receipt identity, UID, source revision or signer policy mismatch'')
      else case signer of None \<Rightarrow> Inl (EMsg ''signature verifier required'')
        | Some verify \<Rightarrow> (case verify data bundle of Some e \<Rightarrow> Inl e | None \<Rightarrow> Inr r)))"

definition outcome_ok :: "outcome \<Rightarrow> bool" where
  "outcome_ok r \<longleftrightarrow> \<not> (oc_kind r \<noteq> ''cleanup-finalization-result/v1'' \<or> oc_signature r \<noteq> ''verified'' \<or>
     identity_validate (oc_identity r) \<noteq> None \<or> aref_validate (oc_receipt r) \<noteq> None \<or> aref_validate (oc_bundle r) \<noteq> None \<or>
     rf_size (oc_receipt r) < 1 \<or> rf_size (oc_receipt r) > max_receipt \<or> rf_size (oc_bundle r) < 1 \<or>
     rf_size (oc_bundle r) > max_bundle)"

definition parse_result :: "fwire \<Rightarrow> bytes \<Rightarrow> gerr + outcome" where
  "parse_result F data = (case strict_canonical (fw_outcome F) 16384 data of Inl e \<Rightarrow> Inl e | Inr r \<Rightarrow>
     (if outcome_ok r then Inr r else Inl (EMsg ''invalid finalization result'')))"

section \<open>Building a receipt\<close>

fun bounded_runes :: "nat list \<Rightarrow> nat list \<Rightarrow> nat list" where
  \<comment> \<open>the loop of \<open>boundedReason\<close> over the runes of its argument, with its buffer \<open>out\<close>\<close>
  "bounded_runes out [] = out"
| "bounded_runes out (r # rs) =
     (let out' = (if \<not> is_control r then out @ [r] else out)
      in if length (runes_str out') > 480 then butlast out' else bounded_runes out' rs)"

definition bounded_reason :: "string \<Rightarrow> string" where
  "bounded_reason s =
     (let out = bounded_runes [] (str_runes s)
      in if out = [] then ''Observation recorded; see archived evidence'' else runes_str out)"

definition bounded_obs :: "observation \<Rightarrow> observation" where
  "bounded_obs ob = ob\<lparr>o_reason := bounded_reason (o_reason ob)\<rparr>"

definition no_observation :: observation where
  "no_observation = obs ''unobservable'' ''none'' ''No valid independent observation available''"

text \<open>The loop over the coverage of accepted job evidence.\<close>

fun merge_evidence :: "observation gomap \<Rightarrow> observation gomap \<Rightarrow> observation gomap" where
  "merge_evidence [] c = c"
| "merge_evidence ((k, ob) # es) c = merge_evidence es (AList.update k (bounded_obs ob) c)"

text \<open>The loop over the components of validated trusted observations.\<close>

fun merge_observed :: "observation gomap \<Rightarrow> string list \<Rightarrow> observation gomap \<Rightarrow> observation gomap" where
  "merge_observed oc [] c = c"
| "merge_observed oc (k # ks) c =
     (let v = bounded_obs (cov oc k)
      in if o_status (cov c k) = ''failed'' then merge_observed oc ks c
         else if o_observer v = ''trusted'' \<or> o_observer (cov c k) = ''none''
         then merge_observed oc ks (AList.update k v c)
         else merge_observed oc ks c)"

definition receipt_evidence :: "wire \<Rightarrow> time \<Rightarrow> ledger \<Rightarrow> bytes gomap \<Rightarrow> snapshot gomap \<Rightarrow> gerr + string \<times> observation gomap" where
  \<comment> \<open>the evidence status and the coverage after the job's evidence\<close>
  "receipt_evidence W now l input snaps =
     (let c0 = map (\<lambda>k. (k, no_observation)) components;
          st0 = (if sn_status (lookup_or zero_snapshot snaps ''cleanup-evidence.json'') = ''unreadable''
                 then ''invalid'' else ''missing'')
      in case map_of input ''cleanup-evidence.json'' of None \<Rightarrow> Inr (st0, c0)
         | Some evidence \<Rightarrow>
             (if l_evidence_status l = ''accepted-untrusted'' \<and> digest evidence = l_evidence_digest l \<and>
                 validate_evidence W now evidence l = None
              then case dec (w_evidence W) evidence of Inl e \<Rightarrow> Inl e
                   | Inr p \<Rightarrow> Inr (''accepted-untrusted'', merge_evidence (p_coverage p) c0)
              else Inr (''invalid'', c0)))"

definition receipt_observed :: "wire \<Rightarrow> ledger \<Rightarrow> bytes gomap \<Rightarrow> observation gomap \<Rightarrow> observation gomap" where
  "receipt_observed W l input c = (case map_of input ''observations.json'' of None \<Rightarrow> c
     | Some observed \<Rightarrow>
         (case validate_observations W observed l (lookup_or [] input ''run.json'') of
            Inl e \<Rightarrow> c
          | Inr ob \<Rightarrow> merge_observed (v_coverage ob) components c))"

definition receipt_objects :: "aref gomap \<Rightarrow> aref gomap" where
  "receipt_objects refs = filter (\<lambda>(k, r). List.member [''run.json'', ''observations.json'', ''cleanup-evidence.json''] k) refs"

definition receipt_log_objects :: "aref gomap \<Rightarrow> aref list" where
  "receipt_log_objects refs = map snd (filter (\<lambda>(k, r). k = ''job.log'') refs)"

definition settle_logs :: "ledger \<Rightarrow> bytes gomap \<Rightarrow> aref list \<Rightarrow> observation gomap \<Rightarrow> observation gomap" where
  "settle_logs l input logs c =
     (if (case map_of input ''job.log'' of None \<Rightarrow> True
          | Some b \<Rightarrow> digest b \<noteq> l_logs_digest l \<or> int (length b) \<noteq> l_logs_bytes l) \<or> length logs = 0
      then (if o_status (cov c ''logs'') \<noteq> ''failed''
            then AList.update ''logs'' (obs ''unobservable'' ''none'' ''Log snapshot missing or does not match coordinator digest and size'') c
            else c)
      else c)"

definition settle_workspace :: "string \<Rightarrow> observation gomap \<Rightarrow> observation gomap" where
  "settle_workspace status c =
     (if status \<noteq> ''accepted-untrusted'' \<and> o_status (cov c ''workspace'') \<noteq> ''failed''
      then AList.update ''workspace'' (obs ''unobservable'' ''none'' (''Preliminary cleanup evidence is '' @ status)) c
      else c)"

definition receipt_binding :: "ledger \<Rightarrow> bytes gomap \<Rightarrow> binding" where
  "receipt_binding l input = \<lparr>bd_cluster_uid = l_cluster_uid l, bd_resource_ns = l_resource_ns l,
     bd_resource_uid = l_resource_uid l, bd_runner_ns = l_runner_ns l, bd_runner_uid = l_runner_uid l,
     bd_job_uid = l_job_uid l, bd_pod_uid = l_pod_uid l, bd_ledger_sha = digest (lookup_or [] input ''run.json'')\<rparr>"

definition receipt_draft :: "ledger \<Rightarrow> bytes gomap \<Rightarrow> retry \<Rightarrow> string \<Rightarrow> observation gomap \<Rightarrow> receipt" where
  "receipt_draft l input s status c = \<lparr>rc_kind = ''cleanup-receipt/v1'', rc_identity = l_identity l,
     rc_binding = receipt_binding l input, rc_finalizer = rt_policy s, rc_started = l_created l,
     rc_completed = l_updated l, rc_finalized = rt_finalized s, rc_evidence = status, rc_coverage = c,
     rc_objects = Some (receipt_objects (entries (rt_objects s))),
     rc_logs = Some (receipt_log_objects (entries (rt_objects s))), rc_verdict = verdict c\<rparr>"

definition final_coverage :: "wire \<Rightarrow> ledger \<Rightarrow> bytes gomap \<Rightarrow> retry \<Rightarrow> string \<Rightarrow> observation gomap \<Rightarrow> observation gomap" where
  "final_coverage W l input s status c =
     settle_workspace status
       (settle_logs l input (receipt_log_objects (entries (rt_objects s))) (receipt_observed W l input c))"

definition build_receipt :: "wire \<Rightarrow> time \<Rightarrow> ledger \<Rightarrow> bytes gomap \<Rightarrow> retry \<Rightarrow> gerr + receipt" where
  "build_receipt W now l input s = (case receipt_evidence W now l input (rt_snapshots s) of
     Inl e \<Rightarrow> Inl e
   | Inr (status, c) \<Rightarrow>
       (let r = receipt_draft l input s status (final_coverage W l input s status c)
        in case receipt_validate r of Some e \<Rightarrow> Inl e | None \<Rightarrow> Inr r))"

section \<open>Re-deriving an archived receipt\<close>

definition archived_refs :: "receipt \<Rightarrow> aref gomap" where
  "archived_refs r = (case entries (rc_logs r) of
     [log] \<Rightarrow> AList.update ''job.log'' log (entries (rc_objects r))
   | _ \<Rightarrow> entries (rc_objects r))"

definition archived_state :: "receipt \<Rightarrow> bytes gomap \<Rightarrow> retry" where
  "archived_state r files = \<lparr>rt_kind = [], rt_identity = \<lparr>i_provider = [], i_repository = [], i_run = [], i_attempt = 0,
       i_job = [], i_revision = []\<rparr>, rt_policy = rc_finalizer r, rt_input = [],
     rt_snapshots = (if \<not> has_key files ''cleanup-evidence.json'' \<and> rc_evidence r = ''invalid''
        then [(''cleanup-evidence.json'', zero_snapshot\<lparr>sn_status := ''unreadable''\<rparr>)] else []),
     rt_finalized = rc_finalized r, rt_attempts = 0, rt_stage = [], rt_status = [], rt_next = None, rt_error = [],
     rt_objects = Some (archived_refs r), rt_receipt_sha = [], rt_bundle_sha = []\<rparr>"

definition or_nil :: "gerr + bytes \<Rightarrow> bytes" where
  \<comment> \<open>\<open>b, _ := f()\<close>: nil when it fails\<close>
  "or_nil r = (case r of Inl _ \<Rightarrow> [] | Inr b \<Rightarrow> b)"

definition validate_archived :: "fwire \<Rightarrow> time \<Rightarrow> receipt \<Rightarrow> bytes gomap \<Rightarrow> gerr option" where
  "validate_archived F now r files =
     (case strict_canonical (w_ledger (fw_base F)) max_receipt (lookup_or [] files ''run.json'') of
        Inl e \<Rightarrow> Some e
      | Inr l \<Rightarrow> (case first_err [
            check (\<not> (l_kind l \<noteq> ''local-ci-run/v1'' \<or> l_phase l \<noteq> ''complete'' \<or> l_token l \<noteq> i_run (rc_identity r) \<or>
               l_identity l \<noteq> rc_identity r)) ''archived ledger identity mismatch'',
            check (length (archived_refs r) = length files) ''archived file set mismatch'',
            first_err (map (\<lambda>(k, ref). check (case map_of files k of None \<Rightarrow> False
               | Some b \<Rightarrow> int (length b) = rf_size ref \<and> digest b = rf_sha ref) ''archived bytes mismatch'') (archived_refs r))]
          of Some e \<Rightarrow> Some e
           | None \<Rightarrow> (case build_receipt (fw_base F) now l files (archived_state r files) of
                Inl e \<Rightarrow> Some e
              | Inr ex \<Rightarrow> check (or_nil (receipt_canonical F r) = or_nil (receipt_canonical F ex))
                   ''receipt disagrees with archived observations'')))"

section \<open>Verdicts\<close>

lemma verdict_from_spec:
  "verdict_from al c ks =
     (if \<exists>k \<in> set ks. o_status (cov c k) = ''failed'' then ''fail''
      else if al \<and> (\<forall>k \<in> set ks. o_status (cov c k) = ''verified'' \<and> o_observer (cov c k) = ''trusted'') then ''pass''
      else ''partial'')"
  by (induction al c ks rule: verdict_from.induct) auto

lemma verdict_pass_iff:
  "verdict c = ''pass'' \<longleftrightarrow> (\<forall>k \<in> set components. o_status (cov c k) = ''verified'' \<and> o_observer (cov c k) = ''trusted'')"
  by (auto simp: verdict_def verdict_from_spec)

lemma verdict_fail_iff: "verdict c = ''fail'' \<longleftrightarrow> (\<exists>k \<in> set components. o_status (cov c k) = ''failed'')"
  by (auto simp: verdict_def verdict_from_spec)

section \<open>Bounded reasons\<close>

lemma length_encode_rune: "length (encode_rune r) \<le> 4" "0 < length (encode_rune r)"
  by (auto simp: encode_rune_def)

lemma runes_str_append [simp]: "runes_str (xs @ ys) = runes_str xs @ runes_str ys"
  by (simp add: runes_str_def)

lemma runes_str_Nil_iff [simp]: "runes_str rs = [] \<longleftrightarrow> rs = []"
proof (cases rs)
  case (Cons r rs')
  have "encode_rune r \<noteq> []" using length_encode_rune(2)[of r] by auto
  with Cons show ?thesis by (simp add: runes_str_def)
qed (simp add: runes_str_def)

lemma bounded_runes_inv:
  assumes "length (runes_str out) \<le> 480" "\<forall>r \<in> set out. \<not> is_control r \<and> valid_rune r" "\<forall>r \<in> set rs. valid_rune r"
  shows "length (runes_str (bounded_runes out rs)) \<le> 480 \<and>
    (\<forall>r \<in> set (bounded_runes out rs). \<not> is_control r \<and> valid_rune r)"
  using assms
proof (induction out rs rule: bounded_runes.induct)
  case (2 out r rs)
  show ?case
  proof (cases "is_control r")
    case True
    with 2 show ?thesis by (simp add: Let_def)
  next
    case False
    with 2 show ?thesis by (auto simp: Let_def)
  qed
qed simp

lemma runes_str_Cons: "runes_str (r # rs) = runes_str [r] @ runes_str rs"
  using runes_str_append[of "[r]" rs] by simp

lemma bounded_runes_id:
  assumes "length (runes_str (out @ rs)) \<le> 480" "\<forall>r \<in> set rs. \<not> is_control r"
  shows "bounded_runes out rs = out @ rs"
  using assms
proof (induction out rs rule: bounded_runes.induct)
  case (2 out r rs)
  then have "length (runes_str (out @ [r])) \<le> 480"
    using runes_str_Cons[of r rs] by simp
  with 2 show ?case by (simp add: Let_def)
qed simp

lemma ascii_runes:
  assumes "\<forall>c \<in> set s. (of_char c :: nat) < 128"
  shows "str_runes s = map of_char s" "runes_str (map of_char s) = s"
proof -
  have "runes (map of_char s) = map (Pair True) (map of_char s)" using assms by (intro runes_ascii) auto
  then show "str_runes s = map of_char s" by (simp add: str_runes_def comp_def)
  show "runes_str (map of_char s) = s"
    using assms by (induction s) (auto simp: runes_str_def encode_rune_def)
qed

lemma bounded_reason_ascii:
  assumes "\<forall>c \<in> set s. (32::nat) \<le> of_char c \<and> (of_char c::nat) < 127" "s \<noteq> []" "length s \<le> 480"
  shows "bounded_reason s = s"
proof -
  have a: "\<forall>c \<in> set s. (of_char c :: nat) < 128" using assms(1) by auto
  have c: "\<forall>r \<in> set (map of_char s). \<not> is_control r" using assms(1) by (auto simp: is_control_def in_rng_def)
  have "bounded_runes [] (str_runes s) = map of_char s"
    using bounded_runes_id[of "[]" "map of_char s"] c assms(3) ascii_runes[OF a] by simp
  with assms(2) ascii_runes(2)[OF a] show ?thesis by (simp add: bounded_reason_def Let_def)
qed

lemma bounded_reason_safe: "safe_text (bounded_reason s) 480 False"
proof -
  define out where "out = bounded_runes [] (str_runes s)"
  have inv: "length (runes_str out) \<le> 480" "\<forall>r \<in> set out. \<not> is_control r" "\<forall>r \<in> set out. valid_rune r"
    using bounded_runes_inv[of "[]" "str_runes s"] str_runes_valid[of _ s]
    by (auto simp: out_def runes_str_def)
  show ?thesis
  proof (cases "out = []")
    case True
    have "safe_text ''Observation recorded; see archived evidence'' 480 False"
      by (rule safe_text_ascii) auto
    with True show ?thesis by (simp add: bounded_reason_def flip: out_def)
  next
    case False
    with inv show ?thesis
      by (simp add: bounded_reason_def safe_text_def utf8_valid_runes_str str_runes_runes_str list_all_iff flip: out_def)
  qed
qed

lemma bounded_reason_idem: "bounded_reason (bounded_reason s) = bounded_reason s"
proof -
  define out where "out = bounded_runes [] (str_runes s)"
  have inv: "length (runes_str out) \<le> 480" "\<forall>r \<in> set out. \<not> is_control r" "\<forall>r \<in> set out. valid_rune r"
    using bounded_runes_inv[of "[]" "str_runes s"] str_runes_valid[of _ s]
    by (auto simp: out_def runes_str_def)
  show ?thesis
  proof (cases "out = []")
    case True
    then have "bounded_reason s = ''Observation recorded; see archived evidence''"
      by (simp add: bounded_reason_def flip: out_def)
    moreover have "bounded_reason ''Observation recorded; see archived evidence'' = ''Observation recorded; see archived evidence''"
      by (rule bounded_reason_ascii) auto
    ultimately show ?thesis by simp
  next
    case False
    with inv have "bounded_reason s = runes_str out" by (simp add: bounded_reason_def flip: out_def)
    with inv False show ?thesis
      by (simp add: bounded_reason_def str_runes_runes_str bounded_runes_id)
  qed
qed

section \<open>Coverage of a built receipt\<close>

lemma bounded_obs_simps [simp]:
  "o_status (bounded_obs ob) = o_status ob" "o_observer (bounded_obs ob) = o_observer ob"
  "o_reason (bounded_obs ob) = bounded_reason (o_reason ob)"
  by (simp_all add: bounded_obs_def)

lemma merge_evidence_cov:
  assumes "distinct_keys es"
  shows "cov (merge_evidence es c) k = (if has_key es k then bounded_obs (cov es k) else cov c k)"
  using assms
proof (induction es c rule: merge_evidence.induct)
  case (2 k' ob es c)
  then show ?case by (auto simp: has_key_iff image_iff)
qed simp

lemma merge_observed_skip: "k \<notin> set ks \<Longrightarrow> cov (merge_observed oc ks c) k = cov c k"
  by (induction oc ks c rule: merge_observed.induct) (simp_all add: Let_def)

lemma merge_observed_cov:
  assumes "distinct ks"
  shows "cov (merge_observed oc ks c) k =
    (if k \<notin> set ks \<or> o_status (cov c k) = ''failed'' then cov c k
     else if o_observer (cov oc k) = ''trusted'' \<or> o_observer (cov c k) = ''none'' then bounded_obs (cov oc k)
     else cov c k)"
  using assms
proof (induction ks arbitrary: c)
  case (Cons k' ks)
  define c' where "c' = (if o_status (cov c k') = ''failed'' then c
    else if o_observer (cov oc k') = ''trusted'' \<or> o_observer (cov c k') = ''none''
    then AList.update k' (bounded_obs (cov oc k')) c else c)"
  have step: "merge_observed oc (k' # ks) c = merge_observed oc ks c'"
    by (simp add: Let_def c'_def)
  have d: "distinct ks" "k' \<notin> set ks" using Cons.prems by simp_all
  show ?case
  proof (cases "k = k'")
    case True
    with d show ?thesis by (simp only: step) (simp add: merge_observed_skip c'_def)
  next
    case False
    then have "cov c' k = cov c k" by (simp add: c'_def)
    with False Cons.IH[OF d(1), of c'] show ?thesis by (simp only: step) simp
  qed
qed simp

lemma no_observation_cov: "cov (map (\<lambda>k. (k, no_observation)) components) k = (if k \<in> set components then no_observation else zero_obs)"
  by (simp add: map_pair_lookup)

lemma length5_distinct_keys:
  assumes "length (m :: 'v gomap) = 5" "\<forall>k \<in> set components. has_key m k"
  shows "distinct_keys m" "\<And>k. has_key m k \<Longrightarrow> k \<in> set components"
proof -
  have card: "card (set components) = 5" by (simp add: components_def)
  have sub: "set components \<subseteq> set (map fst m)" using assms(2) by (auto simp: has_key_iff)
  have le: "card (set (map fst m)) \<le> 5" using card_length[of "map fst m"] assms(1) by simp
  have eq: "set components = set (map fst m)"
    by (rule card_subset_eq) (use sub le card card_mono[OF _ sub] in auto)
  then show "distinct_keys m" using card assms(1) by (intro card_distinct) simp
  show "k \<in> set components" if "has_key m k" for k using that eq by (auto simp: has_key_iff)
qed

text \<open>What accepted evidence contributes: only observations made by the job, never trusted ones.\<close>

lemma receipt_evidence_cases:
  assumes "receipt_evidence W now l input snaps = Inr (status, c)"
  obtains (rejected) "status \<in> {''missing'', ''invalid''}" "c = map (\<lambda>k. (k, no_observation)) components"
  | (accepted) evidence p where "status = ''accepted-untrusted''" "map_of input ''cleanup-evidence.json'' = Some evidence"
      "l_evidence_status l = ''accepted-untrusted''" "digest evidence = l_evidence_digest l"
      "validate_evidence W now evidence l = None" "dec (w_evidence W) evidence = Inr p"
      "\<And>k. cov c k = (if k \<in> set components then bounded_obs (cov (p_coverage p) k) else zero_obs)"
      "\<And>k. k \<in> set components \<Longrightarrow> evidence_obs_check k (p_coverage p) = None"
proof (cases "status = ''accepted-untrusted''")
  case False
  then show ?thesis using assms
    by (intro rejected) (auto simp: receipt_evidence_def Let_def split: option.splits if_splits sum.splits)
next
  case True
  then obtain evidence p where e: "map_of input ''cleanup-evidence.json'' = Some evidence"
      "l_evidence_status l = ''accepted-untrusted''" "digest evidence = l_evidence_digest l"
      "validate_evidence W now evidence l = None" "dec (w_evidence W) evidence = Inr p"
      "c = merge_evidence (p_coverage p) (map (\<lambda>k. (k, no_observation)) components)"
    using assms by (auto simp: receipt_evidence_def Let_def split: option.splits if_splits sum.splits)
  from validate_evidence_None[OF e(4)] e(5)
  have len: "length (p_coverage p) = 5" and chk: "\<forall>k \<in> set components. evidence_obs_check k (p_coverage p) = None"
    by auto
  have keys: "\<forall>k \<in> set components. has_key (p_coverage p) k" using chk evidence_obs_check_None(1) by blast
  note d = length5_distinct_keys[OF len keys]
  have "cov c k = (if k \<in> set components then bounded_obs (cov (p_coverage p) k) else zero_obs)" for k
    using d keys by (auto simp: e(6) merge_evidence_cov no_observation_cov)
  with True e chk show ?thesis by (intro accepted) auto
qed

lemma receipt_evidence_untrusted:
  assumes "receipt_evidence W now l input snaps = Inr (status, c)" "k \<in> set components"
  shows "o_observer (cov c k) \<in> {''job'', ''none''}"
  using assms(1)
proof (cases rule: receipt_evidence_cases)
  case rejected
  with assms(2) have "cov c k = no_observation" by (simp add: no_observation_cov)
  then show ?thesis by (simp add: no_observation_def)
next
  case (accepted evidence p)
  with assms(2) evidence_obs_check_None(2)[OF accepted(8)[OF assms(2)]] show ?thesis by auto
qed

lemma receipt_observed_cases:
  obtains (none) "receipt_observed W l input c = c"
    "\<And>observed. map_of input ''observations.json'' = Some observed \<Longrightarrow>
       \<exists>e. validate_observations W observed l (lookup_or [] input ''run.json'') = Inl e"
  | (some) observed ob where "map_of input ''observations.json'' = Some observed"
      "validate_observations W observed l (lookup_or [] input ''run.json'') = Inr ob"
      "receipt_observed W l input c = merge_observed (v_coverage ob) components c"
  by (cases "map_of input ''observations.json''";
      cases "validate_observations W (the (map_of input ''observations.json'')) l (lookup_or [] input ''run.json'')")
    (auto simp: receipt_observed_def)

lemma settle_logs_cov:
  "cov (settle_logs l input logs c) k = cov c k \<or>
   k = ''logs'' \<and> o_status (cov c k) \<noteq> ''failed'' \<and> o_status (cov (settle_logs l input logs c) k) = ''unobservable''"
  by (simp add: settle_logs_def)

lemma settle_workspace_cov:
  "cov (settle_workspace status c) k = cov c k \<or>
   k = ''workspace'' \<and> status \<noteq> ''accepted-untrusted'' \<and> o_status (cov c k) \<noteq> ''failed'' \<and>
     o_status (cov (settle_workspace status c) k) = ''unobservable''"
  by (simp add: settle_workspace_def)

lemma final_coverage_verified:
  assumes "o_status (cov (final_coverage W l input s status c) k) = ''verified''"
  shows "cov (final_coverage W l input s status c) k = cov (receipt_observed W l input c) k"
  using assms settle_workspace_cov[of status "settle_logs l input (receipt_log_objects (entries (rt_objects s))) (receipt_observed W l input c)" k]
    settle_logs_cov[of l input "receipt_log_objects (entries (rt_objects s))" "receipt_observed W l input c" k]
  by (auto simp: final_coverage_def)

lemma final_coverage_failed:
  "o_status (cov (final_coverage W l input s status c) k) = ''failed'' \<longleftrightarrow>
   o_status (cov (receipt_observed W l input c) k) = ''failed''"
  using settle_workspace_cov[of status "settle_logs l input (receipt_log_objects (entries (rt_objects s))) (receipt_observed W l input c)" k]
    settle_logs_cov[of l input "receipt_log_objects (entries (rt_objects s))" "receipt_observed W l input c" k]
  by (auto simp: final_coverage_def)

lemma final_coverage_logs:
  assumes "o_status (cov (final_coverage W l input s status c) ''logs'') = ''verified''"
  shows "\<exists>b. map_of input ''job.log'' = Some b \<and> digest b = l_logs_digest l \<and> int (length b) = l_logs_bytes l"
  using assms
  by (auto simp: final_coverage_def settle_workspace_def settle_logs_def split: if_splits option.splits)

lemma build_receipt_Inr:
  assumes "build_receipt W now l input s = Inr r"
  obtains status c where "receipt_evidence W now l input (rt_snapshots s) = Inr (status, c)"
    "r = receipt_draft l input s status (final_coverage W l input s status c)" "receipt_validate r = None"
  using assms by (auto simp: build_receipt_def Let_def split: sum.splits option.splits)

text \<open>A component of the receipt is verified and trusted only on a trusted observation of it.\<close>

lemma built_trusted:
  assumes ev: "receipt_evidence W now l input snaps = Inr (status, c)" and k: "k \<in> set components"
    and v: "o_status (cov (final_coverage W l input s status c) k) = ''verified''"
      "o_observer (cov (final_coverage W l input s status c) k) = ''trusted''"
  obtains observed ob where "map_of input ''observations.json'' = Some observed"
    "validate_observations W observed l (lookup_or [] input ''run.json'') = Inr ob"
    "o_status (cov (v_coverage ob) k) = ''verified''" "o_observer (cov (v_coverage ob) k) = ''trusted''"
proof -
  note untrusted = receipt_evidence_untrusted[OF ev k]
  have same: "cov (final_coverage W l input s status c) k = cov (receipt_observed W l input c) k"
    by (rule final_coverage_verified[OF v(1)])
  show ?thesis
  proof (cases rule: receipt_observed_cases[of W l input c])
    case none
    with v same untrusted show ?thesis by auto
  next
    case (some observed ob)
    with v same untrusted k show ?thesis
      by (intro that[of observed ob]) (auto simp: merge_observed_cov split: if_splits)
  qed
qed

section \<open>What a receipt rests on\<close>

lemma derived_failed:
  assumes d: "derive_observations W l data res = Inr ob" and k: "k \<in> set components"
  shows "o_observer (cov (v_coverage ob) k) = ''trusted'' \<or>
    o_observer (cov (v_coverage ob) k) = ''none'' \<and> o_status (cov (v_coverage ob) k) = ''unobservable''"
proof -
  note c = derive_observations_Inr[OF d]
  from k have k: "k = ''workspace'' \<or> k = ''credentials'' \<or> k = ''resources'' \<or> k = ''logs'' \<or> k = ''runner_disposal''"
    by (auto simp: components_def)
  show ?thesis
  proof (cases res)
    case None
    with k c(7) show ?thesis by (elim disjE) (simp_all add: base_coverage_simps)
  next
    case (Some x)
    with k c(7) show ?thesis by (elim disjE) (simp_all add: collector_coverage_simps base_coverage_simps)
  qed
qed

definition job_reported :: "wire \<Rightarrow> time \<Rightarrow> ledger \<Rightarrow> bytes gomap \<Rightarrow> string \<Rightarrow> bool" where
  \<comment> \<open>the accepted job evidence says that the component failed\<close>
  "job_reported W now l input k \<longleftrightarrow> (case map_of input ''cleanup-evidence.json'' of None \<Rightarrow> False | Some evidence \<Rightarrow>
     l_evidence_status l = ''accepted-untrusted'' \<and> digest evidence = l_evidence_digest l \<and>
     validate_evidence W now evidence l = None \<and>
     (case dec (w_evidence W) evidence of Inl _ \<Rightarrow> False | Inr p \<Rightarrow> o_status (cov (p_coverage p) k) = ''failed''))"

definition observer_reported :: "wire \<Rightarrow> ledger \<Rightarrow> bytes gomap \<Rightarrow> string \<Rightarrow> bool" where
  \<comment> \<open>the validated trusted observations say that the component failed\<close>
  "observer_reported W l input k \<longleftrightarrow> (case map_of input ''observations.json'' of None \<Rightarrow> False | Some observed \<Rightarrow>
     (case validate_observations W observed l (lookup_or [] input ''run.json'') of Inl _ \<Rightarrow> False
      | Inr ob \<Rightarrow> o_status (cov (v_coverage ob) k) = ''failed''))"

lemma evidence_failed_iff:
  assumes "receipt_evidence W now l input snaps = Inr (status, c)" "k \<in> set components"
  shows "o_status (cov c k) = ''failed'' \<longleftrightarrow> job_reported W now l input k"
  using assms(1)
proof (cases rule: receipt_evidence_cases)
  case rejected
  with assms(2) have "cov c k = no_observation" by (simp add: no_observation_cov)
  moreover have "\<not> job_reported W now l input k"
    using assms(1) rejected(1)
    by (auto simp: receipt_evidence_def job_reported_def Let_def split: option.splits if_splits sum.splits)
  ultimately show ?thesis by (simp add: no_observation_def)
next
  case (accepted evidence p)
  with assms(2) show ?thesis by (simp add: job_reported_def)
qed

lemma observed_failed_iff:
  assumes W: "sound_codec (w_observations W)" and k: "k \<in> set components"
  shows "o_status (cov (receipt_observed W l input c) k) = ''failed'' \<longleftrightarrow>
    o_status (cov c k) = ''failed'' \<or> observer_reported W l input k"
proof (cases rule: receipt_observed_cases[of W l input c])
  case none
  then have "\<not> observer_reported W l input k"
    by (auto simp: observer_reported_def split: option.splits sum.splits)
  with none show ?thesis by simp
next
  case (some observed ob)
  have rep: "observer_reported W l input k \<longleftrightarrow> o_status (cov (v_coverage ob) k) = ''failed''"
    using some by (simp add: observer_reported_def)
  have tr: "o_observer (cov (v_coverage ob) k) = ''trusted''" if "o_status (cov (v_coverage ob) k) = ''failed''"
    using derived_failed[OF validate_observations_derived[OF some(2) W] k] that by auto
  show ?thesis unfolding rep some(3) using k tr by (auto simp: merge_observed_cov)
qed

lemma built_verdict_fail:
  assumes "build_receipt W now l input s = Inr r" and "sound_codec (w_observations W)"
  shows "rc_verdict r = ''fail'' \<longleftrightarrow>
    (\<exists>k \<in> set components. job_reported W now l input k \<or> observer_reported W l input k)"
  using assms(1)
proof (rule build_receipt_Inr)
  fix status c
  assume ev: "receipt_evidence W now l input (rt_snapshots s) = Inr (status, c)"
    and r: "r = receipt_draft l input s status (final_coverage W l input s status c)"
  have "rc_verdict r = verdict (final_coverage W l input s status c)" by (simp add: r receipt_draft_def)
  then show ?thesis
    using evidence_failed_iff[OF ev] observed_failed_iff[OF assms(2)]
    by (simp add: verdict_fail_iff final_coverage_failed)
qed

lemma validate_observations_fun:
  assumes "map_of input k = Some a" "map_of input k = Some b"
    "validate_observations W a l d = Inr x" "validate_observations W b l d = Inr y"
  shows "x = y"
  using assms by simp

lemma built_verdict_pass:
  assumes b: "build_receipt W now l input s = Inr r" and v: "rc_verdict r = ''pass''"
    and W: "sound_codec (w_observations W)"
  shows "\<exists>observed ob x evidence log.
    map_of input ''observations.json'' = Some observed \<and>
    validate_observations W observed l (lookup_or [] input ''run.json'') = Inr ob \<and>
    v_collector ob = Some x \<and> collector_matches W l x = None \<and> result_validate x = None \<and>
    x_start_proven x \<and> x_termination_proven x \<and> unix_nano (x_armed x) \<le> x_started x \<and>
    f_status (x_workspace x) = ''verified'' \<and> f_status (x_credentials x) = ''verified'' \<and>
    l_phase l = ''complete'' \<and> l_resource_absent l \<and> runner_disposed l \<and>
    map_of input ''job.log'' = Some log \<and> digest log = l_logs_digest l \<and>
    map_of input ''cleanup-evidence.json'' = Some evidence \<and> digest evidence = l_evidence_digest l \<and>
    validate_evidence W now evidence l = None"
  using b
proof (rule build_receipt_Inr)
  fix status c
  assume ev: "receipt_evidence W now l input (rt_snapshots s) = Inr (status, c)"
    and r: "r = receipt_draft l input s status (final_coverage W l input s status c)"
    and valid: "receipt_validate r = None"
  let ?c = "final_coverage W l input s status c"
  have pass: "\<forall>k \<in> set components. o_status (cov ?c k) = ''verified'' \<and> o_observer (cov ?c k) = ''trusted''"
    using v by (simp add: r receipt_draft_def verdict_pass_iff)
  have ws: "''workspace'' \<in> set components" by (simp add: components_def)
  obtain observed ob where ob: "map_of input ''observations.json'' = Some observed"
    "validate_observations W observed l (lookup_or [] input ''run.json'') = Inr ob"
    using built_trusted[OF ev ws] bspec[OF pass ws] by blast
  have all: "o_status (cov (v_coverage ob) k) = ''verified''" if "k \<in> set components" for k
  proof -
    have "o_status (cov ?c k) = ''verified''" "o_observer (cov ?c k) = ''trusted''" using pass that by auto
    from built_trusted[OF ev that this] obtain observed' ob' where
      "map_of input ''observations.json'' = Some observed'"
      "validate_observations W observed' l (lookup_or [] input ''run.json'') = Inr ob'"
      "o_status (cov (v_coverage ob') k) = ''verified''" by blast
    with ob show ?thesis by simp
  qed
  have d: "derive_observations W l (lookup_or [] input ''run.json'') (v_collector ob) = Inr ob"
    by (rule validate_observations_derived[OF ob(2) W])
  have "o_status (cov (v_coverage ob) ''workspace'') = ''verified''" "o_status (cov (v_coverage ob) ''logs'') = ''verified''"
    "o_status (cov (v_coverage ob) ''resources'') = ''verified''" "o_status (cov (v_coverage ob) ''credentials'') = ''verified''"
    "o_status (cov (v_coverage ob) ''runner_disposal'') = ''verified''"
    using all by (auto simp: components_def)
  note st = this
  have "\<exists>x. v_collector ob = Some x \<and> f_status (x_workspace x) = ''verified''" using derived_verified[OF d st(1)] by simp
  moreover have "\<exists>x. v_collector ob = Some x \<and> f_status (x_logs x) = ''verified''" using derived_verified[OF d st(2)] by simp
  moreover have "\<exists>x. v_collector ob = Some x \<and> f_status (x_credentials x) = ''verified''" using derived_verified[OF d st(4)] by simp
  ultimately obtain x where x: "v_collector ob = Some x" "f_status (x_workspace x) = ''verified''" "f_status (x_logs x) = ''verified''"
    "f_status (x_credentials x) = ''verified''" by fastforce
  have disposed: "l_resource_absent l" "runner_disposed l"
    using derived_verified[OF d st(3)] derived_verified[OF d st(5)] by simp_all
  have match: "collector_matches W l x = None" by (rule derive_observations_Inr(8)[OF d x(1)])
  have rv: "result_validate x = None" by (rule collector_matches_None(1)[OF match])
  have "o_status (cov ?c ''logs'') = ''verified''" using pass by (simp add: components_def)
  then obtain log where log: "map_of input ''job.log'' = Some log" "digest log = l_logs_digest l"
    using final_coverage_logs by blast
  have "rc_evidence r = ''accepted-untrusted''"
    using valid v by (auto simp: receipt_validate_def receipt_archive_ok_def Let_def)
  then have sta: "status = ''accepted-untrusted''" by (simp add: r receipt_draft_def)
  from ev obtain evidence where e: "map_of input ''cleanup-evidence.json'' = Some evidence"
    "digest evidence = l_evidence_digest l" "validate_evidence W now evidence l = None"
    by (rule receipt_evidence_cases) (use sta in auto)
  show ?thesis
    using ob x disposed match rv result_verified_logs[OF rv x(3)] log e derive_observations_Inr(2)[OF d] by blast
qed

section \<open>Archived receipts\<close>

definition artifact_names :: "string list" where
  "artifact_names = [''run.json'', ''observations.json'', ''cleanup-evidence.json'', ''job.log'']"

definition archived_part :: "'v gomap \<Rightarrow> 'v gomap" where
  \<comment> \<open>the artifacts a receipt refers to\<close>
  "archived_part m = filter (\<lambda>(k, v). List.member artifact_names k) m"

lemma map_of_archived_part: "map_of (archived_part m) k = (if k \<in> set artifact_names then map_of m k else None)"
  by (simp add: archived_part_def map_of_filter_key)

lemma lookup_archived_part: "k \<in> set artifact_names \<Longrightarrow> lookup_or z (archived_part m) k = lookup_or z m k"
  by (simp add: lookup_or_def map_of_archived_part)

lemma distinct_archived_part: "distinct_keys m \<Longrightarrow> distinct_keys (archived_part m)"
  unfolding archived_part_def by (rule distinct_filter_key)

lemma receipt_objects_update [simp]: "receipt_objects (AList.update ''job.log'' x m) = receipt_objects m"
  by (induction m) (auto simp: receipt_objects_def)

lemma receipt_objects_idem [simp]: "receipt_objects (receipt_objects m) = receipt_objects m"
  by (simp add: receipt_objects_def)

lemma receipt_log_objects_idem [simp]: "receipt_log_objects (receipt_objects m) = []"
  by (induction m) (auto simp: receipt_log_objects_def receipt_objects_def)

lemma objects_no_log: "\<not> has_key (receipt_objects m) ''job.log''"
  by (auto simp: receipt_objects_def has_key_iff)

lemma log_objects_distinct:
  assumes "distinct_keys m"
  shows "receipt_log_objects m = (case map_of m ''job.log'' of None \<Rightarrow> [] | Some x \<Rightarrow> [x])"
  using assms
proof (induction m)
  case (Cons kr m)
  obtain k r where kr: "kr = (k, r)" by (cases kr)
  show ?case
  proof (cases "k = ''job.log''")
    case True
    with Cons.prems kr have "''job.log'' \<notin> fst ` set m" by simp
    then have "filter (\<lambda>(k, r). k = ''job.log'') m = []"
      by (auto simp: filter_empty_conv) (metis fst_conv image_eqI)
    with True kr show ?thesis by (simp add: receipt_log_objects_def)
  next
    case False
    with Cons kr show ?thesis by (simp add: receipt_log_objects_def)
  qed
qed (simp add: receipt_log_objects_def)

text \<open>The references an archived receipt stands for are those of the state it was built from.\<close>

lemma archived_refs_draft:
  assumes "distinct_keys objs" "rt_objects s = Some objs"
  shows "archived_refs (receipt_draft l input s st c) =
    receipt_objects objs @ map (Pair ''job.log'') (receipt_log_objects objs)"
  using update_new[OF objects_no_log] assms(2)
  by (simp add: archived_refs_def receipt_draft_def log_objects_distinct[OF assms(1)] split: option.split)

lemma map_of_archived_refs:
  assumes "distinct_keys objs"
  shows "map_of (receipt_objects objs @ map (Pair ''job.log'') (receipt_log_objects objs)) = map_of (archived_part objs)"
proof
  fix k
  have ro: "map_of (receipt_objects objs) k =
      (if List.member [''run.json'', ''observations.json'', ''cleanup-evidence.json''] k then map_of objs k else None)" for k
    unfolding receipt_objects_def by (rule map_of_filter_key)
  have jl: "map_of (map (Pair ''job.log'') (receipt_log_objects objs)) k =
      (if k = ''job.log'' then map_of objs k else None)"
    by (simp add: log_objects_distinct[OF assms] split: option.split)
  show "map_of (receipt_objects objs @ map (Pair ''job.log'') (receipt_log_objects objs)) k = map_of (archived_part objs) k"
    unfolding map_of_append map_add_def ro jl map_of_archived_part artifact_names_def
    by (simp split: option.split)
qed

lemma receipt_objects_append [simp]: "receipt_objects (xs @ ys) = receipt_objects xs @ receipt_objects ys"
  by (simp add: receipt_objects_def)

lemma receipt_log_objects_append [simp]: "receipt_log_objects (xs @ ys) = receipt_log_objects xs @ receipt_log_objects ys"
  by (simp add: receipt_log_objects_def)

lemma receipt_parts_logs [simp]:
  "receipt_objects (map (Pair ''job.log'') ls) = []" "receipt_log_objects (map (Pair ''job.log'') ls) = ls"
  by (induction ls) (simp_all add: receipt_objects_def receipt_log_objects_def)

lemma distinct_archived_refs:
  assumes "distinct_keys objs"
  shows "distinct_keys (receipt_objects objs @ map (Pair ''job.log'') (receipt_log_objects objs))"
proof -
  have "distinct_keys (receipt_objects objs)" unfolding receipt_objects_def by (rule distinct_filter_key[OF assms])
  then show ?thesis using objects_no_log[of objs]
    by (auto simp: log_objects_distinct[OF assms] has_key_iff split: option.split)
qed

lemma validate_evidence_mono:
  assumes "validate_evidence W now data l = None" "now \<le> now'"
  shows "validate_evidence W now' data l = None"
proof -
  from assms(1) obtain p where p: "dec (w_evidence W) data = Inr p" "enc (w_evidence W) p = Inr data"
    by (auto simp: validate_evidence_def split: if_splits sum.splits)
  have "evidence_times_ok now l p" using assms(1) by (simp add: validate_evidence_def p split: if_splits)
  then have "evidence_times_ok now' l p" using assms(2) by (auto simp: evidence_times_ok_def split: option.splits)
  with \<open>evidence_times_ok now l p\<close> have "validate_evidence W now' data l = validate_evidence W now data l"
    by (simp add: validate_evidence_def p)
  with assms(1) show ?thesis by simp
qed

lemma receipt_evidence_archived:
  assumes e: "receipt_evidence W now l input snaps = Inr (status, c)"
    and later: "now' = now \<or> now \<le> now' \<and> status \<noteq> ''invalid''"
    and r: "rc_evidence r = status"
  shows "receipt_evidence W now' l (archived_part input) (rt_snapshots (archived_state r (archived_part input))) = Inr (status, c)"
proof -
  have k: "map_of (archived_part input) ''cleanup-evidence.json'' = map_of input ''cleanup-evidence.json''"
    by (simp add: map_of_archived_part artifact_names_def)
  show ?thesis
  proof (cases "map_of input ''cleanup-evidence.json''")
    case None
    then show ?thesis using e r
      by (auto simp: receipt_evidence_def archived_state_def k has_key_def Let_def zero_snapshot_def split: if_splits)
  next
    case (Some ev)
    show ?thesis
    proof (cases "now' = now")
      case True
      with e Some show ?thesis by (simp add: receipt_evidence_def k Let_def split: if_splits)
    next
      case False
      with later e Some have acc: "l_evidence_status l = ''accepted-untrusted'' \<and> digest ev = l_evidence_digest l \<and>
          validate_evidence W now ev l = None"
        by (auto simp: receipt_evidence_def Let_def split: if_splits)
      with later False have "validate_evidence W now' ev l = None"
        using validate_evidence_mono[of W now ev l now'] by simp
      with acc e Some show ?thesis by (simp add: receipt_evidence_def k Let_def)
    qed
  qed
qed

lemma final_coverage_archived:
  assumes "receipt_log_objects (entries (rt_objects s)) = receipt_log_objects (entries (rt_objects s'))"
  shows "final_coverage W l (archived_part input) s status c = final_coverage W l input s' status c"
proof -
  have m: "map_of (archived_part input) ''observations.json'' = map_of input ''observations.json''"
    "map_of (archived_part input) ''job.log'' = map_of input ''job.log''"
    "lookup_or [] (archived_part input) ''run.json'' = lookup_or [] input ''run.json''"
    by (simp_all add: map_of_archived_part lookup_archived_part artifact_names_def)
  have "receipt_observed W l (archived_part input) c = receipt_observed W l input c"
    by (simp only: receipt_observed_def m)
  then show ?thesis by (simp only: final_coverage_def settle_logs_def m assms)
qed

lemma build_receipt_archived:
  assumes b: "build_receipt W now l input s = Inr r"
    and objs: "rt_objects s = Some objs" "distinct_keys objs"
    and later: "now' = now \<or> now \<le> now' \<and> rc_evidence r \<noteq> ''invalid''"
  shows "build_receipt W now' l (archived_part input) (archived_state r (archived_part input)) = Inr r"
  using b
proof (rule build_receipt_Inr)
  fix status c
  assume ev: "receipt_evidence W now l input (rt_snapshots s) = Inr (status, c)"
    and r: "r = receipt_draft l input s status (final_coverage W l input s status c)"
    and valid: "receipt_validate r = None"
  have st: "rc_evidence r = status" by (simp add: r receipt_draft_def)
  define s' where "s' = archived_state r (archived_part input)"
  have refs: "rt_objects s' = Some (receipt_objects objs @ map (Pair ''job.log'') (receipt_log_objects objs))"
    unfolding s'_def archived_state_def using archived_refs_draft[OF objs(2,1)] by (simp add: r)
  have ev': "receipt_evidence W now' l (archived_part input) (rt_snapshots s') = Inr (status, c)"
    unfolding s'_def by (rule receipt_evidence_archived[OF ev _ st]) (use later st in auto)
  have "final_coverage W l (archived_part input) s' status c = final_coverage W l input s status c"
    by (rule final_coverage_archived) (simp add: refs objs(1))
  moreover have "rt_policy s' = rc_finalizer r" "rt_finalized s' = rc_finalized r"
    by (simp_all add: s'_def archived_state_def)
  ultimately have "receipt_draft l (archived_part input) s' status (final_coverage W l (archived_part input) s' status c) = r"
    by (simp add: r receipt_draft_def refs objs(1) receipt_binding_def lookup_archived_part artifact_names_def)
  with ev' valid show ?thesis by (simp add: build_receipt_def Let_def flip: s'_def)
qed

text \<open>
  The receipt the engine builds from a snapshot validates again, now or later, from the archived
  bytes alone.
\<close>

lemma validate_archived_complete:
  assumes b: "build_receipt (fw_base F) now l input s = Inr r"
    and objs: "rt_objects s = Some objs" "distinct_keys objs" "distinct_keys input"
    and later: "now' = now \<or> now \<le> now' \<and> rc_evidence r \<noteq> ''invalid''"
    and led: "strict_canonical (w_ledger (fw_base F)) max_receipt (lookup_or [] input ''run.json'') = Inr l"
    and l: "l_kind l = ''local-ci-run/v1''" "l_phase l = ''complete''" "l_token l = i_run (l_identity l)"
    and refs: "\<And>k. k \<in> set artifact_names \<Longrightarrow> (case map_of input k of None \<Rightarrow> \<not> has_key objs k
      | Some b \<Rightarrow> \<exists>ref. map_of objs k = Some ref \<and> rf_size ref = int (length b) \<and> rf_sha ref = digest b)"
  shows "validate_archived F now' r (archived_part input) = None"
proof -
  have id: "rc_identity r = l_identity l" using b by (rule build_receipt_Inr) (simp add: receipt_draft_def)
  have arefs: "archived_refs r = receipt_objects objs @ map (Pair ''job.log'') (receipt_log_objects objs)"
    using b by (rule build_receipt_Inr) (use archived_refs_draft[OF objs(2,1)] in simp)
  have look: "map_of (archived_refs r) k = (if k \<in> set artifact_names then map_of objs k else None)" for k
    by (simp only: arefs map_of_archived_refs[OF objs(2)] map_of_archived_part)
  have dist: "distinct_keys (archived_refs r)" unfolding arefs by (rule distinct_archived_refs[OF objs(2)])
  have len: "length (archived_refs r) = length (archived_part input)"
  proof (rule same_keys_length[OF dist distinct_archived_part[OF objs(3)]])
    fix k
    show "has_key (archived_refs r) k \<longleftrightarrow> has_key (archived_part input) k"
      using refs[of k] by (auto simp: has_key_def look map_of_archived_part split: option.splits)
  qed
  have bytes: "first_err (map (\<lambda>(k, ref). check (case map_of (archived_part input) k of None \<Rightarrow> False
      | Some b \<Rightarrow> int (length b) = rf_size ref \<and> digest b = rf_sha ref) ''archived bytes mismatch'') (archived_refs r)) = None"
  proof -
    have "case map_of (archived_part input) k of None \<Rightarrow> False | Some b \<Rightarrow> int (length b) = rf_size ref \<and> digest b = rf_sha ref"
      if kr: "(k, ref) \<in> set (archived_refs r)" for k ref
    proof -
      have "map_of (archived_refs r) k = Some ref" by (rule map_of_distinct_in[OF dist kr])
      then have "k \<in> set artifact_names" "map_of objs k = Some ref" by (auto simp: look split: if_splits)
      with refs[of k] show ?thesis by (auto simp: map_of_archived_part has_key_def split: option.splits)
    qed
    then show ?thesis by auto
  qed
  have led': "strict_canonical (w_ledger (fw_base F)) max_receipt (lookup_or [] (archived_part input) ''run.json'') = Inr l"
    using led by (simp add: lookup_archived_part artifact_names_def)
  show ?thesis
    unfolding validate_archived_def led' sum.case first_err_Cons bytes len id
    using build_receipt_archived[OF b objs(1,2) later] l by (simp add: check_def len)
qed

lemma validate_archived_sound:
  assumes v: "validate_archived F now r files = None" and p: "parse_receipt F data = Inr r"
    and F: "sound_codec (fw_receipt F)"
  shows "\<exists>l s. strict_canonical (w_ledger (fw_base F)) max_receipt (lookup_or [] files ''run.json'') = Inr l \<and>
    l_identity l = rc_identity r \<and> build_receipt (fw_base F) now l files s = Inr r"
proof -
  have rv: "receipt_validate r = None" and enc: "enc (fw_receipt F) r = Inr data" and len: "int (length data) \<le> max_receipt" "data \<noteq> []"
    using p by (auto simp: parse_receipt_def strict_canonical_def split: sum.splits if_splits option.splits)
  then have canon: "receipt_canonical F r = Inr data" by (simp add: receipt_canonical_def)
  obtain l ex where l: "strict_canonical (w_ledger (fw_base F)) max_receipt (lookup_or [] files ''run.json'') = Inr l"
      "l_identity l = rc_identity r" and ex: "build_receipt (fw_base F) now l files (archived_state r files) = Inr ex"
      and eq: "or_nil (receipt_canonical F ex) = data"
    using v canon by (auto simp: validate_archived_def or_nil_def split: sum.splits option.splits)
  have "receipt_canonical F ex = Inr data" using eq len by (auto simp: or_nil_def split: sum.splits)
  then have "enc (fw_receipt F) ex = Inr data"
    by (auto simp: receipt_canonical_def split: option.splits sum.splits if_splits)
  then have "ex = r" using F enc by (metis sound_codec_def sum.inject(2))
  with l ex show ?thesis by blast
qed

end
