(* ===== verification/Finalizer.thy ===== *)
theory Finalizer
  imports Receipt "HOL-Library.List_Lexorder" "HOL-Library.Char_ord"
begin

text \<open>
  The finalization engine, internal/finalizer/core.go: it freezes a coordinator snapshot in a
  private directory, archives it, builds, signs, verifies and publishes the receipt, and persists
  its progress before every effect so that a restart continues where the last one stopped.
\<close>

section \<open>The world of the engine\<close>

text \<open>The \<open>Archiver\<close> and \<open>Signer\<close> interfaces, over a state of their own.\<close>

record 'x archiver =
  ar_put :: "string \<Rightarrow> bytes \<Rightarrow> ('x, aref) io"
  ar_verify :: "aref \<Rightarrow> ('x, unit) io"
  ar_protect :: "aref \<Rightarrow> ('x, unit) io"

record 'x signer =
  sn_sign :: "bytes \<Rightarrow> ('x, bytes) io"
  sn_verify :: "bytes \<Rightarrow> bytes \<Rightarrow> ('x, unit) io"

text \<open>
  \<open>fd_state\<close> and \<open>fd_out\<close> hold the private and the published directory of each deduplication key,
  \<open>fd_mem\<close> is the \<open>retryState\<close> in memory, \<open>fd_ext\<close> is the state of the archive and the signer.
  \<open>fd_tick\<close> counts the calls to the operating system: the environment says for each tick how a
  durable write ends, what the coordinator's directory holds and what the clock shows, so it may
  change between any two steps of a run.
\<close>

record 'x fworld =
  fd_state :: "string \<Rightarrow> dir"
  fd_out :: "string \<Rightarrow> dir"
  fd_mem :: retry
  fd_ext :: 'x
  fd_tick :: nat

record fenv =
  fe_durable :: "nat \<Rightarrow> durable_io"
  fe_input :: "nat \<Rightarrow> dir"
  fe_fault :: "nat \<Rightarrow> bool"
  fe_now :: "nat \<Rightarrow> time"
  fe_sync :: "nat \<Rightarrow> gerr option"
  fe_private :: "nat \<Rightarrow> gerr option"
  fe_lock :: "nat \<Rightarrow> gerr option"

record fconfig =
  fc_input :: path
  fc_state :: path
  fc_output :: path
  fc_policy :: signer_policy

definition tick_io :: "(nat \<Rightarrow> 'a) \<Rightarrow> ('x fworld, 'a) io" where
  "tick_io f w = (Inr (f (fd_tick w)), w\<lparr>fd_tick := Suc (fd_tick w)\<rparr>)"

definition sys_io :: "(nat \<Rightarrow> gerr option) \<Rightarrow> ('x fworld, unit) io" where
  "sys_io f = bind_io (tick_io f) (\<lambda>r. lift_io (to_res r))"

definition ext_io :: "('x, 'a) io \<Rightarrow> ('x fworld, 'a) io" where
  "ext_io m w = (case m (fd_ext w) of (r, x) \<Rightarrow> (r, w\<lparr>fd_ext := x\<rparr>))"

definition write_state :: "fenv \<Rightarrow> string \<Rightarrow> string \<Rightarrow> bytes \<Rightarrow> ('x fworld, unit) io" where
  \<comment> \<open>\<open>durable(filepath.Join(dir, name), data)\<close>\<close>
  "write_state E key name data w =
     (case durable (fe_durable E (fd_tick w)) (Regular data) (fd_state w key name) of
        (r, n) \<Rightarrow> (to_res r, w\<lparr>fd_state := (fd_state w)(key := (fd_state w key)(name := n)), fd_tick := Suc (fd_tick w)\<rparr>))"

definition write_out :: "fenv \<Rightarrow> string \<Rightarrow> string \<Rightarrow> bytes \<Rightarrow> ('x fworld, unit) io" where
  "write_out E key name data w =
     (case durable (fe_durable E (fd_tick w)) (Regular data) (fd_out w key name) of
        (r, n) \<Rightarrow> (to_res r, w\<lparr>fd_out := (fd_out w)(key := (fd_out w key)(name := n)), fd_tick := Suc (fd_tick w)\<rparr>))"

definition read_state :: "fenv \<Rightarrow> string \<Rightarrow> string \<Rightarrow> int \<Rightarrow> ('x fworld, gerr + bytes) io" where
  \<comment> \<open>\<open>proof.ReadBounded(filepath.Join(dir, name), limit)\<close>; any read may fail\<close>
  "read_state E key name limit w =
     (Inr (read_bounded (if fe_fault E (fd_tick w) then Unreadable ''io'' else fd_state w key name) limit),
      w\<lparr>fd_tick := Suc (fd_tick w)\<rparr>)"

definition set_mem :: "(retry \<Rightarrow> retry) \<Rightarrow> ('x fworld, unit) io" where
  "set_mem f = mod_io (\<lambda>w. w\<lparr>fd_mem := f (fd_mem w)\<rparr>)"

definition save_state :: "fwire \<Rightarrow> fenv \<Rightarrow> string \<Rightarrow> ('x fworld, unit) io" where
  "save_state F E key = bind_io (get_io fd_mem) (\<lambda>s. bind_io (lift_io (enc (fw_retry F) s)) (\<lambda>data.
     write_state E key ''state.json'' data))"

section \<open>Reading the coordinator's directory\<close>

definition artifact_limits :: "(string \<times> int) list" where
  "artifact_limits = [(''run.json'', max_receipt), (''observations.json'', max_receipt),
     (''cleanup-evidence.json'', max_receipt), (''job.log'', 104857600), (''finalization-ready.json'', 16384)]"

definition read_input :: "fenv \<Rightarrow> string \<Rightarrow> int \<Rightarrow> ('x fworld, gerr + bytes) io" where
  "read_input E name limit = tick_io (\<lambda>t. read_bounded (fe_input E t name) limit)"

fun read_artifacts :: "fenv \<Rightarrow> (string \<times> int) list \<Rightarrow> bytes gomap \<Rightarrow> snapshot gomap
    \<Rightarrow> ('x fworld, bytes gomap \<times> snapshot gomap) io" where
  "read_artifacts E [] data snaps = ret (data, snaps)"
| "read_artifacts E ((name, limit) # as) data snaps = bind_io (read_input E name limit) (\<lambda>r. case r of
     Inl e \<Rightarrow> if name = ''run.json'' then throw (EMsg ''trusted coordinator ledger unavailable'')
       else read_artifacts E as data (AList.update name
         (zero_snapshot\<lparr>sn_status := if e = ENotExist then ''missing'' else ''unreadable''\<rparr>) snaps)
   | Inr b \<Rightarrow> read_artifacts E as (AList.update name b data)
         (AList.update name \<lparr>sn_sha = digest b, sn_size = int (length b), sn_status = ''present''\<rparr> snaps))"

definition check_inputs :: "fwire \<Rightarrow> string \<Rightarrow> bytes \<Rightarrow> bytes gomap \<Rightarrow> snapshot gomap \<Rightarrow> gerr + ledger \<times> string" where
  \<comment> \<open>the checks of \<open>readInputs\<close> on what was read: the ledger and the digest of the snapshots\<close>
  "check_inputs F run rdy data snaps =
     (case strict_canonical (w_ledger (fw_base F)) max_receipt (lookup_or [] data ''run.json'') of
        Inl e \<Rightarrow> Inl (EMsg ''invalid trusted ledger'')
      | Inr l \<Rightarrow> (case first_err [
          check (\<not> (l_kind l \<noteq> ''local-ci-run/v1'' \<or> l_token l \<noteq> run \<or> i_run (l_identity l) \<noteq> run \<or>
             i_provider (l_identity l) \<noteq> ''local'' \<or> l_resource_ns l \<noteq> ''proof-'' @ run \<or>
             l_runner_ns l \<noteq> ''proof-runner-'' @ run \<or> l_phase l \<noteq> ''complete'' \<or> l_created l = 0 \<or>
             l_updated l < l_created l)) ''coordinator must publish a complete bound ledger'',
          identity_validate (l_identity l),
          (if rdy \<noteq> lookup_or [] data ''finalization-ready.json'' then Some ECoordinatorNotReady else None),
          (if validate_ready (fw_base F) rdy (lookup_or [] data ''run.json'') (lookup_or [] data ''observations.json'') \<noteq> None
           then Some ECoordinatorNotReady else None)]
         of Some e \<Rightarrow> Inl e
          | None \<Rightarrow> (case fw_snapshots F snaps of Inl e \<Rightarrow> Inl e | Inr b \<Rightarrow> Inr (l, digest b))))"

definition read_inputs :: "fwire \<Rightarrow> fenv \<Rightarrow> string \<Rightarrow> ('x fworld, ledger \<times> bytes gomap \<times> snapshot gomap \<times> string) io" where
  "read_inputs F E run =
     then_io (sys_io (fe_private E))
     (bind_io (read_input E ''finalization-ready.json'' 16384) (\<lambda>r. case r of
        Inl e \<Rightarrow> throw ECoordinatorNotReady
      | Inr rdy \<Rightarrow> bind_io (read_artifacts E artifact_limits [] []) (\<lambda>(data, snaps).
          bind_io (lift_io (check_inputs F run rdy data snaps)) (\<lambda>(l, dg). ret (l, data, snaps, dg)))))"

section \<open>Archiving and publishing\<close>

definition ref_matches :: "aref \<Rightarrow> bytes \<Rightarrow> bool" where
  "ref_matches ref data \<longleftrightarrow> rf_sha ref = digest data \<and> rf_size ref = int (length data)"

definition fin_put :: "fwire \<Rightarrow> fenv \<Rightarrow> 'x archiver \<Rightarrow> string \<Rightarrow> string \<Rightarrow> bytes \<Rightarrow> ('x fworld, aref) io" where
  \<comment> \<open>\<open>Engine.put\<close>\<close>
  "fin_put F E A key name data = bind_io (get_io (\<lambda>w. map_of (entries (rt_objects (fd_mem w))) name)) (\<lambda>known.
     case known of
       Some ref \<Rightarrow>
         then_io (lift_io (to_res (validate_ref ref)))
         (then_io (require (ref_matches ref data) (EMsg ''archived reference conflicts with snapshot''))
         (then_io (ext_io (ar_verify A ref))
         (then_io (ext_io (ar_protect A ref)) (ret ref))))
     | None \<Rightarrow> bind_io (ext_io (ar_put A name data)) (\<lambda>ref.
         then_io (lift_io (to_res (validate_ref ref)))
         (then_io (require (ref_matches ref data) (EMsg ''archiver returned different bytes''))
         (then_io (ext_io (ar_verify A ref))
         (then_io (set_mem (\<lambda>s. s\<lparr>rt_objects := Some (AList.update name ref (entries (rt_objects s)))\<rparr>))
         (then_io (save_state F E key) (ret ref)))))))"

definition fin_protect :: "'x archiver \<Rightarrow> ('x fworld, unit) io" where
  "fin_protect A = bind_io (get_io fd_mem) (\<lambda>s. for_io (entries (rt_objects s)) (\<lambda>(name, ref). ext_io (ar_protect A ref)))"

definition fin_publish :: "fwire \<Rightarrow> fenv \<Rightarrow> string \<Rightarrow> outcome \<Rightarrow> bytes \<Rightarrow> bytes \<Rightarrow> ('x fworld, unit) io" where
  "fin_publish F E key res rcpt bundle =
     then_io (sys_io (fe_private E))
     (then_io (for_io [(''receipt.json'', rcpt), (''receipt.bundle.json'', bundle)] (\<lambda>(name, b). write_out E key name b))
     (bind_io (lift_io (enc (fw_outcome F) res)) (\<lambda>b.
      then_io (write_out E key ''result.json'' b) (sys_io (fe_sync E)))))"

definition fin_result :: "retry \<Rightarrow> outcome" where
  "fin_result s = \<lparr>oc_kind = ''cleanup-finalization-result/v1'', oc_identity = rt_identity s,
     oc_receipt = lookup_or zero_aref (entries (rt_objects s)) ''receipt.json'',
     oc_bundle = lookup_or zero_aref (entries (rt_objects s)) ''receipt.bundle.json'', oc_signature = ''verified''\<rparr>"

definition read_exact :: "fenv \<Rightarrow> string \<Rightarrow> string \<Rightarrow> int \<Rightarrow> string \<Rightarrow> string \<Rightarrow> ('x fworld, bytes) io" where
  \<comment> \<open>a bounded read whose digest must be the recorded one\<close>
  "read_exact E key name limit dg msg = bind_io (read_state E key name limit) (\<lambda>r. case r of
     Inl e \<Rightarrow> throw (EMsg msg)
   | Inr b \<Rightarrow> then_io (require (digest b = dg) (EMsg msg)) (ret b))"

definition check_object :: "'x archiver \<Rightarrow> retry \<Rightarrow> string \<times> aref \<Rightarrow> ('x fworld, unit) io" where
  "check_object A s nr = (case nr of (name, ref) \<Rightarrow>
     then_io (lift_io (to_res (validate_ref ref)))
     (then_io (require (\<not> (name = ''receipt.json'' \<and> rf_sha ref \<noteq> rt_receipt_sha s)) EConflict)
     (then_io (require (\<not> (name = ''receipt.bundle.json'' \<and> rf_sha ref \<noteq> rt_bundle_sha s)) EConflict)
     (ext_io (ar_verify A ref)))))"

definition fin_completed :: "fwire \<Rightarrow> fenv \<Rightarrow> 'x archiver \<Rightarrow> 'x signer \<Rightarrow> string \<Rightarrow> bool \<Rightarrow> ('x fworld, outcome) io" where
  "fin_completed F E A S key admitting = bind_io (get_io fd_mem) (\<lambda>s.
     bind_io (read_exact E key ''receipt.json'' max_receipt (rt_receipt_sha s) ''completed receipt tampered'') (\<lambda>rcpt.
     bind_io (read_exact E key ''receipt.bundle.json'' max_bundle (rt_bundle_sha s) ''completed bundle tampered'') (\<lambda>bundle.
     bind_io (lift_io (parse_receipt F rcpt)) (\<lambda>r.
     then_io (require (rc_identity r = rt_identity s \<and> rc_finalizer r = rt_policy s) EConflict)
     (then_io (ext_io (sn_verify S rcpt bundle))
     (then_io (for_io (entries (rt_objects s)) (check_object A s))
     (then_io (lift_io (to_res (validate_ref (oc_receipt (fin_result s)))))
     (then_io (lift_io (to_res (validate_ref (oc_bundle (fin_result s)))))
     (then_io (if admitting then fin_protect A else ret ())
     (then_io (fin_publish F E key (fin_result s) rcpt bundle) (ret (fin_result s))))))))))))"

section \<open>One attempt and one run\<close>

definition set_stage :: "fwire \<Rightarrow> fenv \<Rightarrow> string \<Rightarrow> string \<Rightarrow> ('x fworld, unit) io" where
  "set_stage F E key stage = then_io (set_mem (\<lambda>s. s\<lparr>rt_stage := stage\<rparr>)) (save_state F E key)"

definition fin_sign :: "fwire \<Rightarrow> fenv \<Rightarrow> 'x signer \<Rightarrow> string \<Rightarrow> bytes \<Rightarrow> ('x fworld, bytes) io" where
  \<comment> \<open>the bundle of an attempt: the one already signed, or a new signature\<close>
  "fin_sign F E S key rcpt = bind_io (get_io fd_mem) (\<lambda>s.
     if rt_bundle_sha s \<noteq> [] then read_exact E key ''receipt.bundle.json'' max_bundle (rt_bundle_sha s) ''durable bundle tampered''
     else bind_io (ext_io (sn_sign S rcpt)) (\<lambda>bundle.
       then_io (require (\<not> (length bundle = 0 \<or> int (length bundle) > max_bundle)) (EMsg ''invalid bundle size''))
       (then_io (write_state E key ''receipt.bundle.json'' bundle)
       (then_io (set_mem (\<lambda>s. s\<lparr>rt_bundle_sha := digest bundle\<rparr>))
       (then_io (save_state F E key) (ret bundle))))))"

definition fin_build :: "fwire \<Rightarrow> fenv \<Rightarrow> ledger \<Rightarrow> bytes gomap \<Rightarrow> ('x fworld, bytes) io" where
  \<comment> \<open>the canonical bytes of the receipt built from the snapshot and the archived references\<close>
  "fin_build F E l input = bind_io (get_io fd_mem) (\<lambda>s. bind_io (tick_io (fe_now E)) (\<lambda>now.
     bind_io (lift_io (build_receipt (fw_base F) now l input s)) (\<lambda>r.
     bind_io (lift_io (receipt_canonical F r)) (\<lambda>rcpt.
     then_io (require (\<not> (rt_receipt_sha s \<noteq> [] \<and> rt_receipt_sha s \<noteq> digest rcpt)) EConflict) (ret rcpt)))))"

definition artifact_order :: "bytes gomap \<Rightarrow> string list" where
  "artifact_order input = sort (filter (\<lambda>name. name \<noteq> ''finalization-ready.json'') (map fst input))"

definition fin_complete :: "fwire \<Rightarrow> fenv \<Rightarrow> string \<Rightarrow> ('x fworld, unit) io" where
  "fin_complete F E key =
     then_io (set_mem (\<lambda>s. s\<lparr>rt_stage := ''complete'', rt_status := ''complete'', rt_next := None, rt_error := []\<rparr>))
     (save_state F E key)"

definition fin_finish :: "fwire \<Rightarrow> fenv \<Rightarrow> 'x archiver \<Rightarrow> string \<Rightarrow> bytes \<Rightarrow> bytes \<Rightarrow> ('x fworld, outcome) io" where
  \<comment> \<open>archival of the signed pair, protection, publication and completion\<close>
  "fin_finish F E A key rcpt bundle =
     then_io (set_stage F E key ''archive_signed'')
     (bind_io (fin_put F E A key ''receipt.json'' rcpt) (\<lambda>_.
      bind_io (fin_put F E A key ''receipt.bundle.json'' bundle) (\<lambda>_.
      then_io (set_stage F E key ''publish'')
      (bind_io (get_io fd_mem) (\<lambda>s.
       then_io (fin_protect A)
       (then_io (fin_publish F E key (fin_result s) rcpt bundle)
       (then_io (fin_complete F E key) (ret (fin_result s)))))))))"

definition fin_attempt :: "fwire \<Rightarrow> fenv \<Rightarrow> 'x archiver \<Rightarrow> 'x signer \<Rightarrow> string \<Rightarrow> ledger \<Rightarrow> bytes gomap
    \<Rightarrow> ('x fworld, outcome) io" where
  "fin_attempt F E A S key l input =
     then_io (set_stage F E key ''archive'')
     (then_io (for_io (artifact_order input)
        (\<lambda>name. then_io (fin_put F E A key name (lookup_or [] input name)) (ret ())))
     (bind_io (fin_build F E l input) (\<lambda>rcpt.
      then_io (write_state E key ''receipt.json'' rcpt)
      (then_io (set_mem (\<lambda>s. s\<lparr>rt_receipt_sha := digest rcpt, rt_stage := ''sign''\<rparr>))
      (then_io (save_state F E key)
      (bind_io (fin_sign F E S key rcpt) (\<lambda>bundle.
       then_io (set_stage F E key ''verify'')
       (then_io (ext_io (sn_verify S rcpt bundle))
       (fin_finish F E A key rcpt bundle)))))))))"

definition fresh_state :: "signer_policy \<Rightarrow> identity \<Rightarrow> string \<Rightarrow> snapshot gomap \<Rightarrow> time \<Rightarrow> retry" where
  "fresh_state policy i dg snaps now = \<lparr>rt_kind = ''cleanup-finalization-state/v1'', rt_identity = i,
     rt_policy = policy, rt_input = dg, rt_snapshots = snaps, rt_finalized = now, rt_attempts = 0,
     rt_stage = ''archive'', rt_status = ''pending'', rt_next = None, rt_error = [], rt_objects = Some [],
     rt_receipt_sha = [], rt_bundle_sha = []\<rparr>"

definition loaded_ok :: "fconfig \<Rightarrow> ledger \<Rightarrow> string \<Rightarrow> retry \<Rightarrow> gerr option" where
  "loaded_ok C l dg s =
     (if rt_kind s \<noteq> ''cleanup-finalization-state/v1'' \<or> rt_identity s \<noteq> l_identity l \<or> rt_policy s \<noteq> fc_policy C \<or>
         rt_input s \<noteq> dg then Some EConflict
      else check (\<not> (rt_attempts s < 0 \<or> rt_attempts s > 6 \<or> rt_objects s = None \<or> length (entries (rt_objects s)) > 6 \<or>
         length (rt_snapshots s) \<noteq> length artifact_limits)) ''invalid retry state'')"

definition freeze :: "fwire \<Rightarrow> fenv \<Rightarrow> fconfig \<Rightarrow> string \<Rightarrow> ledger \<Rightarrow> bytes gomap \<Rightarrow> snapshot gomap \<Rightarrow> string
    \<Rightarrow> ('x fworld, unit) io" where
  \<comment> \<open>the first run: the state starts, the snapshot is copied, then the state is saved\<close>
  "freeze F E C key l input snaps dg = bind_io (tick_io (fe_now E)) (\<lambda>now.
     then_io (set_mem (\<lambda>_. fresh_state (fc_policy C) (l_identity l) dg snaps now))
     (then_io (require (\<not> now < l_updated l) (EMsg ''coordinator chronology is in the future''))
     (then_io (for_io input (\<lambda>(name, data). write_state E key name data))
     (then_io (save_state F E key) (sys_io (fe_sync E))))))"

definition load_or_freeze :: "fwire \<Rightarrow> fenv \<Rightarrow> fconfig \<Rightarrow> string \<Rightarrow> ledger \<Rightarrow> bytes gomap \<Rightarrow> snapshot gomap \<Rightarrow> string
    \<Rightarrow> ('x fworld, unit) io" where
  "load_or_freeze F E C key l input snaps dg = bind_io (read_state E key ''state.json'' max_receipt) (\<lambda>r. case r of
     Inl e \<Rightarrow> if e = ENotExist then freeze F E C key l input snaps dg else throw e
   | Inr b \<Rightarrow> bind_io (lift_io (strict_canonical (fw_retry F) max_receipt b)) (\<lambda>s.
       then_io (lift_io (to_res (loaded_ok C l dg s))) (set_mem (\<lambda>_. s))))"

fun reread :: "fenv \<Rightarrow> string \<Rightarrow> snapshot gomap \<Rightarrow> snapshot gomap \<Rightarrow> bytes gomap \<Rightarrow> ('x fworld, bytes gomap) io" where
  \<comment> \<open>the loop over the frozen snapshots; the file contents it accumulates are the input of the attempt\<close>
  "reread E key snaps [] input = ret input"
| "reread E key snaps ((name, sn) # ss) input =
     (case map_of artifact_limits name of None \<Rightarrow> throw EConflict | Some limit \<Rightarrow>
        (if sn \<noteq> lookup_or zero_snapshot snaps name then throw EConflict
         else if sn_status sn = ''present'' then
           bind_io (read_state E key name limit) (\<lambda>r. case r of
             Inl e \<Rightarrow> throw (EMsg ''durable snapshot tampered'')
           | Inr b \<Rightarrow> (if digest b \<noteq> sn_sha sn \<or> int (length b) \<noteq> sn_size sn
                       then throw (EMsg ''durable snapshot tampered'')
                       else reread E key snaps ss (AList.update name b input)))
         else reread E key snaps ss input))"

definition delays :: "duration list" where
  "delays = [minute, 5 * minute, 15 * minute, hour, hour]"

definition retry_due :: "fenv \<Rightarrow> ('x fworld, unit) io" where
  \<comment> \<open>\<open>if state.NextRetryAt != nil && e.now().Before(*state.NextRetryAt)\<close>\<close>
  "retry_due E = bind_io (get_io (\<lambda>w. rt_next (fd_mem w))) (\<lambda>next. case next of
     None \<Rightarrow> ret ()
   | Some due \<Rightarrow> bind_io (tick_io (fe_now E)) (\<lambda>now. require (\<not> now < due) ERetryNotDue))"

definition save_failure :: "fwire \<Rightarrow> fenv \<Rightarrow> string \<Rightarrow> gerr \<Rightarrow> ('x fworld, 'a) io" where
  \<comment> \<open>\<open>return nil, errors.Join(err, saveState(dir, &state))\<close>\<close>
  "save_failure F E key e = bind_io (catch_io (save_state F E key)) (\<lambda>r. case r of
     Inl e' \<Rightarrow> throw (EJoin e e') | Inr _ \<Rightarrow> throw e)"

definition reconcile :: "fwire \<Rightarrow> fenv \<Rightarrow> 'x archiver \<Rightarrow> 'x signer \<Rightarrow> string \<Rightarrow> ('x fworld, outcome) io" where
  "reconcile F E A S key = then_io (retry_due E)
     (bind_io (catch_io (fin_completed F E A S key True)) (\<lambda>r. case r of
        Inl e \<Rightarrow> bind_io (tick_io (fe_now E)) (\<lambda>now.
          then_io (set_mem (\<lambda>s. s\<lparr>rt_status := ''recovering'', rt_error := ''reconcile_failed'', rt_next := Some (now + minute)\<rparr>))
          (save_failure F E key e))
      | Inr res \<Rightarrow> then_io (fin_complete F E key) (ret res)))"

definition fail_attempt :: "fenv \<Rightarrow> ('x fworld, unit) io" where
  \<comment> \<open>the bookkeeping after a failed attempt\<close>
  "fail_attempt E =
     then_io (set_mem (\<lambda>s. s\<lparr>rt_error := rt_stage s @ ''_failed'', rt_status := ''retry''\<rparr>))
     (bind_io (get_io (\<lambda>w. rt_attempts (fd_mem w))) (\<lambda>n.
      if n \<ge> 6 then set_mem (\<lambda>s. s\<lparr>rt_status := ''exhausted''\<rparr>)
      else bind_io (tick_io (fe_now E)) (\<lambda>now. set_mem (\<lambda>s. s\<lparr>rt_next := Some (now + delays ! nat (n - 1))\<rparr>))))"

definition run_attempt :: "fwire \<Rightarrow> fenv \<Rightarrow> 'x archiver \<Rightarrow> 'x signer \<Rightarrow> string \<Rightarrow> ledger \<Rightarrow> bytes gomap
    \<Rightarrow> ('x fworld, outcome) io" where
  "run_attempt F E A S key l input =
     then_io (set_mem (\<lambda>s. s\<lparr>rt_attempts := rt_attempts s + 1, rt_status := ''running'', rt_next := None, rt_error := []\<rparr>))
     (then_io (save_state F E key)
     (bind_io (catch_io (fin_attempt F E A S key l input)) (\<lambda>r. case r of
        Inl e \<Rightarrow> then_io (fail_attempt E) (save_failure F E key e)
      | Inr res \<Rightarrow> ret res)))"

definition both_archived :: "retry \<Rightarrow> bool" where
  "both_archived s \<longleftrightarrow> has_key (entries (rt_objects s)) ''receipt.json'' \<and>
     has_key (entries (rt_objects s)) ''receipt.bundle.json'' \<and> rt_receipt_sha s \<noteq> [] \<and> rt_bundle_sha s \<noteq> []"

definition fin_continue :: "fwire \<Rightarrow> fenv \<Rightarrow> 'x archiver \<Rightarrow> 'x signer \<Rightarrow> string \<Rightarrow> ledger \<Rightarrow> bytes gomap
    \<Rightarrow> ('x fworld, outcome) io" where
  "fin_continue F E A S key l input = bind_io (get_io fd_mem) (\<lambda>s.
     if rt_status s = ''complete'' then fin_completed F E A S key False
     else if both_archived s then reconcile F E A S key
     else if rt_status s = ''exhausted'' \<or> rt_attempts s \<ge> 6 then
       then_io (set_mem (\<lambda>s. s\<lparr>rt_status := ''exhausted'', rt_next := None\<rparr>))
       (then_io (save_state F E key) (throw EExhausted))
     else then_io (retry_due E) (run_attempt F E A S key l input))"

text \<open>
  \<open>filepath.Clean\<close> of an absolute path as its components, and the overlap of a writable
  directory with the coordinator's inputs, which the code computes with \<open>filepath.Rel\<close>.
\<close>

fun clean_parts :: "string list \<Rightarrow> string list \<Rightarrow> string list" where
  "clean_parts acc [] = rev acc"
| "clean_parts acc (p # ps) =
     (if p = [] \<or> p = ''.'' then clean_parts acc ps
      else if p = ''..'' then clean_parts (case acc of [] \<Rightarrow> [] | _ # acc' \<Rightarrow> acc') ps
      else clean_parts (p # acc) ps)"

definition path_parts :: "path \<Rightarrow> string list" where
  "path_parts p = clean_parts [] (split_on (CHR ''/'') p)"

definition overlaps :: "path \<Rightarrow> path \<Rightarrow> bool" where
  "overlaps base target \<longleftrightarrow> take (length (path_parts base)) (path_parts target) = path_parts base"

definition dedup_key :: "fwire \<Rightarrow> identity \<Rightarrow> string" where
  \<comment> \<open>the source revision is deliberately left out\<close>
  "dedup_key F i = digest (fw_key F (i\<lparr>i_revision := []\<rparr>))"

definition fin_prepare :: "fenv \<Rightarrow> fconfig \<Rightarrow> string \<Rightarrow> ('x fworld, unit) io" where
  "fin_prepare E C run =
     then_io (require (hex_n 32 run) (EMsg ''run, archive and signer required''))
     (then_io (require (is_abs (fc_input C)) (EMsg ''coordinator root must be absolute''))
     (then_io (for_io [fc_state C, fc_output C] (\<lambda>dir.
        then_io (require (is_abs dir) (EMsg ''finalizer directories must be absolute'')) (sys_io (fe_private E))))
     (then_io (for_io [fc_state C, fc_output C] (\<lambda>dir.
        require (\<not> overlaps (fc_input C) dir) (EMsg ''writable finalizer directory overlaps coordinator inputs'')))
     (sys_io (fe_lock E)))))"

definition fin_run :: "fwire \<Rightarrow> fenv \<Rightarrow> fconfig \<Rightarrow> 'x archiver \<Rightarrow> 'x signer \<Rightarrow> string \<Rightarrow> ('x fworld, outcome) io" where
  \<comment> \<open>\<open>Engine.Run\<close>\<close>
  "fin_run F E C A S run =
     then_io (fin_prepare E C run)
     (bind_io (read_inputs F E run) (\<lambda>(l, input, snaps, dg).
      let key = dedup_key F (l_identity l) in
      then_io (sys_io (fe_private E))
      (then_io (load_or_freeze F E C key l input snaps dg)
      (bind_io (get_io fd_mem) (\<lambda>s.
       bind_io (reread E key snaps (rt_snapshots s) []) (\<lambda>frozen.
       fin_continue F E A S key l frozen))))))"

end
