(* ===== verification/Progress.thy ===== *)
theory Progress
  imports Finalizer
begin

text \<open>
  Invariants of the finalization engine: whatever faults and crashes occur, what a state file has
  recorded is never lost or changed, and the phases of a run touch only what they should.
\<close>

section \<open>Progress is never lost\<close>

text \<open>
  \<open>later s s'\<close>: \<open>s'\<close> is a state of the same finalization that has kept everything \<open>s\<close> recorded.
\<close>

definition later :: "retry \<Rightarrow> retry \<Rightarrow> bool" where
  "later s s' \<longleftrightarrow> rt_kind s' = rt_kind s \<and> rt_identity s' = rt_identity s \<and> rt_policy s' = rt_policy s \<and>
     rt_input s' = rt_input s \<and> rt_snapshots s' = rt_snapshots s \<and> rt_finalized s' = rt_finalized s \<and>
     rt_attempts s \<le> rt_attempts s' \<and> (rt_attempts s \<le> 6 \<longrightarrow> rt_attempts s' \<le> 6) \<and>
     (rt_receipt_sha s \<noteq> [] \<longrightarrow> rt_receipt_sha s' = rt_receipt_sha s) \<and>
     (rt_bundle_sha s \<noteq> [] \<longrightarrow> rt_bundle_sha s' = rt_bundle_sha s) \<and>
     (\<forall>k ref. map_of (entries (rt_objects s)) k = Some ref \<longrightarrow> map_of (entries (rt_objects s')) k = Some ref)"

lemma later_refl [simp]: "later s s"
  by (simp add: later_def)

lemma later_trans: "later s t \<Longrightarrow> later t u \<Longrightarrow> later s u"
  by (auto simp: later_def)

definition state_file :: "'x fworld \<Rightarrow> string \<Rightarrow> node" where
  "state_file w key = fd_state w key ''state.json''"

definition progress :: "fwire \<Rightarrow> string \<Rightarrow> 'x fworld \<Rightarrow> 'x fworld \<Rightarrow> bool" where
  "progress F key w w' \<longleftrightarrow> later (fd_mem w) (fd_mem w') \<and>
     (\<forall>k. k \<noteq> key \<longrightarrow> fd_state w' k = fd_state w k) \<and>
     (state_file w' key = state_file w key \<or>
      (\<exists>b s. state_file w' key = Regular b \<and> dec (fw_retry F) b = Inr s \<and> later (fd_mem w) s))"

interpretation prog: two_state "progress F key"
proof
  show "progress F key s s" for s :: "'b fworld" by (simp add: progress_def)
  show "progress F key s u" if "progress F key s t" "progress F key t u" for s t u :: "'b fworld"
  proof -
    from that have l: "later (fd_mem s) (fd_mem t)" by (simp add: progress_def)
    have "later (fd_mem s) (fd_mem u)" using later_trans[OF l] that(2) by (simp add: progress_def)
    moreover have "\<forall>k. k \<noteq> key \<longrightarrow> fd_state u k = fd_state s k" using that by (simp add: progress_def)
    moreover have "state_file u key = state_file s key \<or>
        (\<exists>b st. state_file u key = Regular b \<and> dec (fw_retry F) b = Inr st \<and> later (fd_mem s) st)"
      using that later_trans[OF l] by (auto simp: progress_def)
    ultimately show ?thesis by (simp add: progress_def)
  qed
qed

lemma keeps_tick [io_keeps]: "keeps (progress F key) (tick_io f)"
  by (simp add: keeps_def tick_io_def progress_def state_file_def)

lemma keeps_sys [io_keeps]: "keeps (progress F key) (sys_io f)"
  unfolding sys_io_def by (intro io_keeps)

lemma keeps_ext [io_keeps]: "keeps (progress F key) (ext_io m)"
  by (simp add: keeps_def ext_io_def progress_def state_file_def split: prod.split)

lemma keeps_read [io_keeps]: "keeps (progress F key) (read_state E k name limit)"
  by (simp add: keeps_def read_state_def progress_def state_file_def)

lemma keeps_out [io_keeps]: "keeps (progress F key) (write_out E k name data)"
  by (simp add: keeps_def write_out_def progress_def state_file_def split: prod.split)

lemma keeps_write [io_keeps]: "name \<noteq> ''state.json'' \<Longrightarrow> keeps (progress F key) (write_state E key name data)"
  by (simp add: keeps_def write_state_def progress_def state_file_def split: prod.split)

lemma keeps_set_mem: "(\<And>s. later s (f s)) \<Longrightarrow> keeps (progress F key) (set_mem f)"
  by (simp add: keeps_def set_mem_def io_apply progress_def state_file_def)

lemma save_state_effect:
  assumes F: "sound_codec (fw_retry F)" and s: "save_state F E key w = (r, w')"
  shows "fd_mem w' = fd_mem w" "fd_ext w' = fd_ext w" "\<And>k. k \<noteq> key \<Longrightarrow> fd_state w' k = fd_state w k"
    "state_file w' key = state_file w key \<or>
      (\<exists>b. state_file w' key = Regular b \<and> dec (fw_retry F) b = Inr (fd_mem w))"
    "r = Inr u \<Longrightarrow> \<exists>b. state_file w' key = Regular b \<and> dec (fw_retry F) b = Inr (fd_mem w)"
proof -
  have *: "fd_mem w' = fd_mem w \<and> fd_ext w' = fd_ext w \<and> (\<forall>k. k \<noteq> key \<longrightarrow> fd_state w' k = fd_state w k) \<and>
    (state_file w' key = state_file w key \<or> (\<exists>b. state_file w' key = Regular b \<and> dec (fw_retry F) b = Inr (fd_mem w))) \<and>
    (r = Inr u \<longrightarrow> (\<exists>b. state_file w' key = Regular b \<and> dec (fw_retry F) b = Inr (fd_mem w)))" for u
  proof (cases "enc (fw_retry F) (fd_mem w)")
    case (Inl e)
    with s show ?thesis by (auto simp: save_state_def io_apply)
  next
    case (Inr b)
    then have d: "dec (fw_retry F) b = Inr (fd_mem w)" using F by (simp add: sound_codec_def)
    with Inr s show ?thesis
      by (cases rule: durable_cases[where io = "fe_durable E (fd_tick w)" and v = "Regular b" and t = "fd_state w key ''state.json''"])
        (auto simp: save_state_def io_apply write_state_def state_file_def)
  qed
  then show "fd_mem w' = fd_mem w" "fd_ext w' = fd_ext w" "\<And>k. k \<noteq> key \<Longrightarrow> fd_state w' k = fd_state w k"
    "state_file w' key = state_file w key \<or>
      (\<exists>b. state_file w' key = Regular b \<and> dec (fw_retry F) b = Inr (fd_mem w))"
    "r = Inr u \<Longrightarrow> \<exists>b. state_file w' key = Regular b \<and> dec (fw_retry F) b = Inr (fd_mem w)"
    by blast+
qed

lemma keeps_save [io_keeps]:
  assumes F: "sound_codec (fw_retry F)"
  shows "keeps (progress F key) (save_state F E key)"
proof (rule prog.keepsI)
  fix w :: "'a fworld"
  obtain r w' where s: "save_state F E key w = (r, w')" by fastforce
  show "progress F key w (snd (save_state F E key w))"
    using save_state_effect[OF F s] by (auto simp: s progress_def)
qed

lemma keeps_stage [io_keeps]:
  assumes F: "sound_codec (fw_retry F)"
  shows "keeps (progress F key) (set_stage F E key stage)"
  unfolding set_stage_def by (intro io_keeps keeps_set_mem F) (simp add: later_def)

lemma keeps_complete [io_keeps]:
  assumes F: "sound_codec (fw_retry F)"
  shows "keeps (progress F key) (fin_complete F E key)"
  unfolding fin_complete_def by (intro io_keeps keeps_set_mem F) (simp add: later_def)

lemma keeps_read_exact [io_keeps]: "keeps (progress F key) (read_exact E k name limit dg msg)"
  unfolding read_exact_def by (intro io_keeps)

lemma keeps_protect [io_keeps]: "keeps (progress F key) (fin_protect A)"
  unfolding fin_protect_def by (intro io_keeps) (auto intro: io_keeps)

lemma keeps_publish [io_keeps]: "keeps (progress F key) (fin_publish F E k res rcpt bundle)"
  unfolding fin_publish_def by (intro io_keeps) (auto intro: io_keeps)

lemma keeps_check_object [io_keeps]: "keeps (progress F key) (check_object A s nr)"
  unfolding check_object_def by (cases nr) (auto intro!: io_keeps)

lemma keeps_completed [io_keeps]: "keeps (progress F key) (fin_completed F E A S k adm)"
  unfolding fin_completed_def by (intro io_keeps)

lemma keeps_retry_due [io_keeps]: "keeps (progress F key) (retry_due E)"
  unfolding retry_due_def by (intro io_keeps)

text \<open>Recording an archived object or a signature never replaces one.\<close>

text \<open>A step that only runs under a condition on the state in memory, which the steps before it keep.\<close>

definition guarded :: "fwire \<Rightarrow> string \<Rightarrow> (retry \<Rightarrow> bool) \<Rightarrow> ('x fworld, 'a) io \<Rightarrow> bool" where
  "guarded F key P m \<longleftrightarrow> (\<forall>w. P (fd_mem w) \<longrightarrow> progress F key w (snd (m w)))"

lemma guarded_keeps: "keeps (progress F key) m \<Longrightarrow> guarded F key P m"
  by (simp add: guarded_def keeps_def)

lemma guarded_bind:
  assumes "\<And>w. fd_mem (snd (m w)) = fd_mem w" "keeps (progress F key) m" "\<And>x. guarded F key P (f x)"
  shows "guarded F key P (bind_io m f)"
proof -
  have mem: "fd_mem t = fd_mem w" if "m w = (Inr x, t)" for w x t using assms(1)[of w] that by simp
  show ?thesis
    unfolding guarded_def
    by (auto intro!: prog.at_bind simp: prog.at_keeps[OF assms(2)] mem assms(3)[unfolded guarded_def])
qed

lemma guarded_then:
  assumes "\<And>w. fd_mem (snd (m w)) = fd_mem w" "keeps (progress F key) m" "guarded F key P n"
  shows "guarded F key P (then_io m n)"
  unfolding then_io_def by (rule guarded_bind[OF assms(1,2)]) (rule assms(3))

lemma guarded_set_mem:
  assumes "\<And>s. P s \<Longrightarrow> later s (f s)" "keeps (progress F key) n"
  shows "guarded F key P (then_io (set_mem f) n)"
  unfolding guarded_def
proof (intro allI impI)
  fix w :: "'a fworld"
  assume "P (fd_mem w)"
  then have "progress F key w (snd (set_mem f w))"
    using assms(1) by (simp add: set_mem_def io_apply progress_def state_file_def)
  then show "progress F key w (snd (then_io (set_mem f) n w))"
    by (rule prog.at_then) (rule prog.at_keeps[OF assms(2)])
qed

lemma mem_simps [simp]:
  "fd_mem (snd (ext_io m w)) = fd_mem w" "fd_mem (snd (lift_io r w)) = fd_mem w"
  "fd_mem (snd (require ok e w)) = fd_mem w" "fd_mem (snd (tick_io f w)) = fd_mem w"
  "fd_mem (snd (write_state E k name data w)) = fd_mem w" "fd_mem (snd (get_io g w)) = fd_mem w"
  by (simp_all add: ext_io_def lift_io_def require_def tick_io_def write_state_def get_io_def split: prod.split)

text \<open>Recording an archived object or a signature never replaces one.\<close>

lemma later_object:
  "map_of (entries (rt_objects s)) name = None \<Longrightarrow>
   later s (s\<lparr>rt_objects := Some (AList.update name ref (entries (rt_objects s)))\<rparr>)"
  by (auto simp: later_def update_conv)

lemma keeps_get_bind:
  assumes "\<And>w. progress F key w (snd (f (g w) w))"
  shows "keeps (progress F key) (bind_io (get_io g) f)"
  using assms by (simp add: keeps_def io_apply)

lemma keeps_put [io_keeps]:
  assumes F: "sound_codec (fw_retry F)"
  shows "keeps (progress F key) (fin_put F E A key name data)"
  unfolding fin_put_def
proof (rule keeps_get_bind)
  fix w :: "'a fworld"
  let ?P = "\<lambda>s. map_of (entries (rt_objects s)) name = None"
  have new: "guarded F key ?P (bind_io (ext_io (ar_put A name data)) (\<lambda>ref.
         then_io (lift_io (to_res (validate_ref ref)))
         (then_io (require (ref_matches ref data) (EMsg ''archiver returned different bytes''))
         (then_io (ext_io (ar_verify A ref))
         (then_io (set_mem (\<lambda>s. s\<lparr>rt_objects := Some (AList.update name ref (entries (rt_objects s)))\<rparr>))
         (then_io (save_state F E key) (ret ref)))))))" (is "guarded F key _ ?new")
    by (intro guarded_bind guarded_then guarded_set_mem io_keeps F mem_simps) (rule later_object)
  show "progress F key w (snd ((case map_of (entries (rt_objects (fd_mem w))) name of
       Some ref \<Rightarrow>
         then_io (lift_io (to_res (validate_ref ref)))
         (then_io (require (ref_matches ref data) (EMsg ''archived reference conflicts with snapshot''))
         (then_io (ext_io (ar_verify A ref))
         (then_io (ext_io (ar_protect A ref)) (ret ref))))
     | None \<Rightarrow> ?new) w))"
  proof (cases "map_of (entries (rt_objects (fd_mem w))) name")
    case None
    with new show ?thesis by (simp add: guarded_def)
  next
    case (Some ref)
    then show ?thesis by (auto intro!: prog.at_keeps io_keeps)
  qed
qed

lemma keeps_sign [io_keeps]:
  assumes F: "sound_codec (fw_retry F)"
  shows "keeps (progress F key) (fin_sign F E S key rcpt)"
  unfolding fin_sign_def
proof (rule keeps_get_bind)
  fix w :: "'a fworld"
  have new: "guarded F key (\<lambda>s. rt_bundle_sha s = []) (bind_io (ext_io (sn_sign S rcpt)) (\<lambda>bundle.
       then_io (require (\<not> (length bundle = 0 \<or> int (length bundle) > max_bundle)) (EMsg ''invalid bundle size''))
       (then_io (write_state E key ''receipt.bundle.json'' bundle)
       (then_io (set_mem (\<lambda>s. s\<lparr>rt_bundle_sha := digest bundle\<rparr>))
       (then_io (save_state F E key) (ret bundle))))))"
    by (intro guarded_bind guarded_then guarded_set_mem io_keeps F mem_simps) (simp_all add: later_def)
  show "progress F key w (snd ((if rt_bundle_sha (fd_mem w) \<noteq> []
      then read_exact E key ''receipt.bundle.json'' max_bundle (rt_bundle_sha (fd_mem w)) ''durable bundle tampered''
      else bind_io (ext_io (sn_sign S rcpt)) (\<lambda>bundle.
       then_io (require (\<not> (length bundle = 0 \<or> int (length bundle) > max_bundle)) (EMsg ''invalid bundle size''))
       (then_io (write_state E key ''receipt.bundle.json'' bundle)
       (then_io (set_mem (\<lambda>s. s\<lparr>rt_bundle_sha := digest bundle\<rparr>))
       (then_io (save_state F E key) (ret bundle)))))) w))"
    using new by (cases "rt_bundle_sha (fd_mem w) = []")
      (simp_all only: guarded_def not_True_eq_False not_False_eq_True if_True if_False simp_thms prog.at_keeps[OF keeps_read_exact])
qed

lemma keeps_build [io_keeps]: "keeps (progress F key) (fin_build F E l input)"
  unfolding fin_build_def by (intro io_keeps)

lemma fin_build_Inr:
  assumes "fin_build F E l input w = (Inr rcpt, t)"
  shows "fd_mem t = fd_mem w" "fd_ext t = fd_ext w" "fd_state t = fd_state w" "fd_out t = fd_out w"
    "rt_receipt_sha (fd_mem w) = [] \<or> rt_receipt_sha (fd_mem w) = digest rcpt"
    "\<exists>r now. build_receipt (fw_base F) now l input (fd_mem w) = Inr r \<and> receipt_canonical F r = Inr rcpt"
  using assms by (auto simp: fin_build_def Inr_iffs tick_io_def get_io_def)

lemma keeps_finish [io_keeps]:
  assumes F: "sound_codec (fw_retry F)"
  shows "keeps (progress F key) (fin_finish F E A key rcpt bundle)"
  unfolding fin_finish_def by (intro io_keeps F)

lemma keeps_attempt [io_keeps]:
  assumes F: "sound_codec (fw_retry F)"
  shows "keeps (progress F key) (fin_attempt F E A S key l input)"
proof -
  have tail: "progress F key t (snd (then_io (write_state E key ''receipt.json'' rcpt)
      (then_io (set_mem (\<lambda>s. s\<lparr>rt_receipt_sha := digest rcpt, rt_stage := ''sign''\<rparr>)) n) t))"
    if "rt_receipt_sha (fd_mem t) = [] \<or> rt_receipt_sha (fd_mem t) = digest rcpt" "keeps (progress F key) n"
    for t :: "'a fworld" and rcpt n
  proof -
    have "guarded F key (\<lambda>s. rt_receipt_sha s = [] \<or> rt_receipt_sha s = digest rcpt)
       (then_io (write_state E key ''receipt.json'' rcpt)
       (then_io (set_mem (\<lambda>s. s\<lparr>rt_receipt_sha := digest rcpt, rt_stage := ''sign''\<rparr>)) n))"
      by (intro guarded_then guarded_set_mem that(2) mem_simps keeps_write) (auto simp: later_def)
    with that(1) show ?thesis unfolding guarded_def by blast
  qed
  show ?thesis
    unfolding fin_attempt_def
    apply (intro prog.keeps_then prog.keeps_for prog.keeps_ret keeps_stage keeps_put F)
    apply (rule prog.keepsI)
    apply (rule prog.at_bind)
     apply (rule prog.at_keeps[OF keeps_build])
    apply (rule tail)
     apply (simp add: fin_build_Inr(1) fin_build_Inr(5))
    apply (intro io_keeps F)
    done
qed

lemma keeps_save_failure [io_keeps]:
  assumes F: "sound_codec (fw_retry F)"
  shows "keeps (progress F key) (save_failure F E key e)"
  unfolding save_failure_def by (intro io_keeps F)

lemma keeps_reconcile [io_keeps]:
  assumes F: "sound_codec (fw_retry F)"
  shows "keeps (progress F key) (reconcile F E A S key)"
  unfolding reconcile_def by (intro io_keeps keeps_set_mem F) (simp add: later_def)

lemma keeps_fail_attempt [io_keeps]: "keeps (progress F key) (fail_attempt E)"
  unfolding fail_attempt_def by (intro io_keeps keeps_set_mem) (simp_all add: later_def)

lemma guarded_run_attempt:
  assumes F: "sound_codec (fw_retry F)"
  shows "guarded F key (\<lambda>s. rt_attempts s < 6) (run_attempt F E A S key l input)"
  unfolding run_attempt_def
  by (intro guarded_set_mem io_keeps F) (simp add: later_def)

lemma keeps_continue [io_keeps]:
  assumes F: "sound_codec (fw_retry F)"
  shows "keeps (progress F key) (fin_continue F E A S key l input)"
  unfolding fin_continue_def
proof (rule keeps_get_bind)
  fix w :: "'a fworld"
  have due: "fd_mem (snd (retry_due E w)) = fd_mem w" for w :: "'a fworld"
    by (simp add: retry_due_def io_apply tick_io_def split: option.split)
  have att: "guarded F key (\<lambda>s. rt_attempts s < 6) (then_io (retry_due E) (run_attempt F E A S key l input))"
    by (intro guarded_then guarded_run_attempt io_keeps F due)
  have exh: "keeps (progress F key) (then_io (set_mem (\<lambda>s. s\<lparr>rt_status := ''exhausted'', rt_next := None\<rparr>))
       (then_io (save_state F E key) (throw EExhausted)))"
    by (intro io_keeps keeps_set_mem F) (simp add: later_def)
  show "progress F key w (snd ((if rt_status (fd_mem w) = ''complete'' then fin_completed F E A S key False
     else if both_archived (fd_mem w) then reconcile F E A S key
     else if rt_status (fd_mem w) = ''exhausted'' \<or> rt_attempts (fd_mem w) \<ge> 6 then
       then_io (set_mem (\<lambda>s. s\<lparr>rt_status := ''exhausted'', rt_next := None\<rparr>))
       (then_io (save_state F E key) (throw EExhausted))
     else then_io (retry_due E) (run_attempt F E A S key l input)) w))"
    using att by (simp add: guarded_def prog.at_keeps[OF exh] prog.at_keeps[OF keeps_completed]
        prog.at_keeps[OF keeps_reconcile[OF F]])
qed

section \<open>The phases of a run\<close>

text \<open>Steps that leave the directories, the archive and the state in memory alone.\<close>

definition quiet :: "'x fworld \<Rightarrow> 'x fworld \<Rightarrow> bool" where
  "quiet w w' \<longleftrightarrow> fd_state w' = fd_state w \<and> fd_out w' = fd_out w \<and> fd_mem w' = fd_mem w \<and> fd_ext w' = fd_ext w"

interpretation qt: two_state quiet
  by unfold_locales (auto simp: quiet_def)

lemma quiet_tick [io_keeps]: "keeps quiet (tick_io f)"
  by (simp add: keeps_def tick_io_def quiet_def)

lemma quiet_sys [io_keeps]: "keeps quiet (sys_io f)"
  unfolding sys_io_def by (intro io_keeps)

lemma quiet_read_state [io_keeps]: "keeps quiet (read_state E k name limit)"
  by (simp add: keeps_def read_state_def quiet_def)

lemma quiet_read_input [io_keeps]: "keeps quiet (read_input E name limit)"
  unfolding read_input_def by (intro io_keeps)

lemma quiet_read_artifacts [io_keeps]: "keeps quiet (read_artifacts E as data snaps)"
  by (induction E as data snaps rule: read_artifacts.induct) (auto intro!: io_keeps)

lemma quiet_prepare [io_keeps]: "keeps quiet (fin_prepare E C run)"
  unfolding fin_prepare_def by (intro io_keeps)

lemma quiet_case_prod: "(\<And>a b. keeps quiet (f a b)) \<Longrightarrow> keeps quiet (case p of (a, b) \<Rightarrow> f a b)"
  by (cases p) simp

lemma quiet_read_inputs [io_keeps]: "keeps quiet (read_inputs F E run)"
  unfolding read_inputs_def by (intro io_keeps quiet_case_prod)

lemma quiet_reread [io_keeps]: "keeps quiet (reread E key snaps ss input)"
  by (induction E key snaps ss input rule: reread.induct) (auto intro!: io_keeps split: option.split)

lemma quiet_retry_due [io_keeps]: "keeps quiet (retry_due E)"
  unfolding retry_due_def by (intro io_keeps)

lemma quietD: "keeps quiet m \<Longrightarrow> m w = (r, t) \<Longrightarrow> quiet w t"
  by (rule qt.keepsD)

lemma bind_cases:
  assumes "bind_io m f w = (r, w')"
  obtains (fails) e where "m w = (Inl e, w')" "r = Inl e" | (goes) x t where "m w = (Inr x, t)" "f x t = (r, w')"
  using assms by (auto simp: io_apply split: prod.splits sum.splits)

lemma then_cases:
  assumes "then_io m n w = (r, w')"
  obtains (fails) e where "m w = (Inl e, w')" "r = Inl e" | (goes) x t where "m w = (Inr x, t)" "n t = (r, w')"
  using assms by (auto simp: io_apply split: prod.splits sum.splits)

lemma read_artifacts_keys:
  assumes "read_artifacts E as data snaps w = (Inr (data', snaps'), w')"
  shows "fst ` set data' \<subseteq> fst ` set data \<union> fst ` set as"
  using assms
proof (induction E as data snaps arbitrary: w rule: read_artifacts.induct)
  case (2 E name limit as data snaps)
  from 2(3) show ?case unfolding read_artifacts.simps
  proof (cases rule: bind_cases)
    case (goes r t)
    show ?thesis
    proof (cases r)
      case (Inl e)
      with goes have "name \<noteq> ''run.json''" by (auto simp: io_apply)
      with goes Inl 2(1)[of e t] show ?thesis by (auto simp: keys_update)
    next
      case (Inr b)
      with goes 2(2)[of b t] show ?thesis by (auto simp: keys_update)
    qed
  qed simp
qed (simp add: io_apply)

lemma read_inputs_Inr:
  fixes w w' :: "'x fworld"
  assumes "read_inputs F E run w = (Inr (l, input, snaps, dg), w')"
  shows "fst ` set input \<subseteq> fst ` set artifact_limits" "quiet w w'"
    "\<exists>rdy. check_inputs F run rdy input snaps = Inr (l, dg)"
proof -
  show "quiet w w'" by (rule quietD[OF quiet_read_inputs assms])
  obtain t t' :: "'x fworld" and rdy where "read_artifacts E artifact_limits [] [] t = (Inr (input, snaps), t')"
      and "check_inputs F run rdy input snaps = Inr (l, dg)"
    using assms unfolding read_inputs_def
  proof (cases rule: then_cases)
    case (goes u t)
    from goes(2) show ?thesis
    proof (cases rule: bind_cases)
      case (goes rd t1)
      with that show ?thesis by (cases rd) (auto simp: Inr_iffs split: prod.splits)
    qed simp
  qed simp
  then show "\<exists>rdy. check_inputs F run rdy input snaps = Inr (l, dg)" by blast
  show "fst ` set input \<subseteq> fst ` set artifact_limits"
    using read_artifacts_keys[OF \<open>read_artifacts E artifact_limits [] [] t = _\<close>] by simp
qed

lemma fin_run_cases:
  assumes "fin_run F E C A S run w = (r, w')"
  obtains (early) e where "r = Inl e" "quiet w w'"
  | (load) l input snaps dg w1 e where "quiet w w1" "fst ` set input \<subseteq> fst ` set artifact_limits"
      "load_or_freeze F E C (dedup_key F (l_identity l)) l input snaps dg w1 = (Inl e, w')" "r = Inl e"
  | (tampered) l input snaps dg w1 w2 e where "quiet w w1" "fst ` set input \<subseteq> fst ` set artifact_limits"
      "load_or_freeze F E C (dedup_key F (l_identity l)) l input snaps dg w1 = (Inr (), w2)"
      "quiet w2 w'" "r = Inl e"
  | (continue) l input snaps dg w1 w2 w3 frozen where "quiet w w1" "fst ` set input \<subseteq> fst ` set artifact_limits"
      "load_or_freeze F E C (dedup_key F (l_identity l)) l input snaps dg w1 = (Inr (), w2)"
      "reread E (dedup_key F (l_identity l)) snaps (rt_snapshots (fd_mem w2)) [] w2 = (Inr frozen, w3)" "quiet w2 w3"
      "fin_continue F E A S (dedup_key F (l_identity l)) l frozen w3 = (r, w')"
  using assms unfolding fin_run_def
proof (cases rule: then_cases)
  case (fails e)
  then show ?thesis by (intro early) (auto intro: quietD[OF quiet_prepare])
next
  case (goes u t)
  have q: "quiet w t" by (rule quietD[OF quiet_prepare goes(1)])
  from goes(2) show ?thesis
  proof (cases rule: bind_cases)
    case (fails e)
    then show ?thesis using qt.trans_R[OF q quietD[OF quiet_read_inputs]] by (intro early) auto
  next
    case (goes x t1)
    obtain l input snaps dg where x: "x = (l, input, snaps, dg)" by (cases x)
    note ri = read_inputs_Inr[OF goes(1)[unfolded x]]
    have q1: "quiet w t1" by (rule qt.trans_R[OF q ri(2)])
    let ?key = "dedup_key F (l_identity l)"
    from goes(2) have "then_io (sys_io (fe_private E)) (then_io (load_or_freeze F E C ?key l input snaps dg)
      (bind_io (get_io fd_mem) (\<lambda>s. bind_io (reread E ?key snaps (rt_snapshots s) []) (\<lambda>frozen.
       fin_continue F E A S ?key l frozen)))) t1 = (r, w')" by (simp add: x Let_def)
    then show ?thesis
    proof (cases rule: then_cases)
      case (fails e)
      then show ?thesis using qt.trans_R[OF q1 quietD[OF quiet_sys]] by (intro early) auto
    next
      case (goes u t2)
      have q2: "quiet w t2" by (rule qt.trans_R[OF q1 quietD[OF quiet_sys goes(1)]])
      from goes(2) show ?thesis
      proof (cases rule: then_cases)
        case (fails e)
        with q2 ri show ?thesis by (intro load)
      next
        case (goes u t3)
        then have lf: "load_or_freeze F E C ?key l input snaps dg t2 = (Inr (), t3)" by simp
        from goes(2) have "bind_io (reread E ?key snaps (rt_snapshots (fd_mem t3)) []) (\<lambda>frozen.
          fin_continue F E A S ?key l frozen) t3 = (r, w')" by (simp add: io_apply)
        then show ?thesis
        proof (cases rule: bind_cases)
          case (fails e)
          with q2 ri lf quietD[OF quiet_reread fails(1)] show ?thesis by (intro tampered)
        next
          case (goes frozen t4)
          with q2 ri lf quietD[OF quiet_reread goes(1)] show ?thesis by (intro continue)
        qed
      qed
    qed
  qed
qed

section \<open>Loading\<close>

lemma write_inputs_state:
  assumes "\<forall>x \<in> set xs. fst x \<noteq> ''state.json''"
  shows "state_file (snd (for_io xs (\<lambda>(name, data). write_state E key name data) w)) key = state_file w key \<and>
    fd_mem (snd (for_io xs (\<lambda>(name, data). write_state E key name data) w)) = fd_mem w \<and>
    fd_ext (snd (for_io xs (\<lambda>(name, data). write_state E key name data) w)) = fd_ext w \<and>
    (\<forall>k. k \<noteq> key \<longrightarrow> fd_state (snd (for_io xs (\<lambda>(name, data). write_state E key name data) w)) k = fd_state w k)"
  using assms
proof (induction xs arbitrary: w)
  case (Cons x xs)
  obtain name data where x: "x = (name, data)" by (cases x)
  obtain r t where t: "write_state E key name data w = (r, t)" by fastforce
  have 1: "state_file t key = state_file w key \<and> fd_mem t = fd_mem w \<and> fd_ext t = fd_ext w \<and>
      (\<forall>k. k \<noteq> key \<longrightarrow> fd_state t k = fd_state w k)"
    using t Cons.prems x by (auto simp: write_state_def state_file_def split: prod.splits)
  have 2: "\<forall>x \<in> set xs. fst x \<noteq> ''state.json''" using Cons.prems by simp
  show ?case using 1 Cons.IH[OF 2, of t] t by (cases r) (simp_all add: x io_apply)
qed (simp add: io_apply)

lemma no_state_file:
  assumes "fst ` set input \<subseteq> fst ` set artifact_limits"
  shows "\<forall>x \<in> set input. fst x \<noteq> ''state.json''"
proof
  fix x assume "x \<in> set input"
  with assms have "fst x \<in> fst ` set artifact_limits" by blast
  then show "fst x \<noteq> ''state.json''" by (auto simp: artifact_limits_def)
qed

definition stored :: "fwire \<Rightarrow> 'x fworld \<Rightarrow> string \<Rightarrow> retry \<Rightarrow> bool" where
  \<comment> \<open>the state file of the key holds \<open>s\<close>\<close>
  "stored F w key s \<longleftrightarrow> (\<exists>b. state_file w key = Regular b \<and> dec (fw_retry F) b = Inr s)"

lemma stored_fun: "stored F w key s \<Longrightarrow> stored F w key s' \<Longrightarrow> s = s'"
  by (auto simp: stored_def)

lemma freeze_result:
  assumes F: "sound_codec (fw_retry F)" and i: "fst ` set input \<subseteq> fst ` set artifact_limits"
    and f: "freeze F E C key l input snaps dg w = (r, w')"
  shows "(state_file w' key = state_file w key \<or> (\<exists>now. stored F w' key (fresh_state (fc_policy C) (l_identity l) dg snaps now)))
    \<and> (\<forall>k. k \<noteq> key \<longrightarrow> fd_state w' k = fd_state w k) \<and> fd_ext w' = fd_ext w \<and>
    (r = Inr () \<longrightarrow> stored F w' key (fd_mem w') \<and> (\<exists>now. fd_mem w' = fresh_state (fc_policy C) (l_identity l) dg snaps now))"
proof -
  define now where "now = fe_now E (fd_tick w)"
  define s where "s = fresh_state (fc_policy C) (l_identity l) dg snaps now"
  define w1 where "w1 = w\<lparr>fd_tick := Suc (fd_tick w), fd_mem := s\<rparr>"
  have w1: "state_file w1 k = state_file w k" "fd_mem w1 = s" "fd_ext w1 = fd_ext w" "fd_state w1 k = fd_state w k" for k
    by (simp_all add: w1_def state_file_def)
  have f1: "then_io (require (\<not> now < l_updated l) (EMsg ''coordinator chronology is in the future''))
     (then_io (for_io input (\<lambda>(name, data). write_state E key name data))
     (then_io (save_state F E key) (sys_io (fe_sync E)))) w1 = (r, w')"
    using f by (simp add: freeze_def io_apply tick_io_def set_mem_def w1_def s_def now_def)
  show ?thesis
  proof (cases "now < l_updated l")
    case True
    with f1 w1 show ?thesis by (auto simp: io_apply)
  next
    case False
    obtain q t where t: "for_io input (\<lambda>(name, data). write_state E key name data) w1 = (q, t)" by fastforce
    have t1: "state_file t key = state_file w key \<and> fd_mem t = s \<and> fd_ext t = fd_ext w \<and> (\<forall>k. k \<noteq> key \<longrightarrow> fd_state t k = fd_state w k)"
      using write_inputs_state[OF no_state_file[OF i], of E key w1] t w1 by simp
    show ?thesis
    proof (cases q)
      case (Inl e)
      with f1 False t t1 show ?thesis by (auto simp: io_apply)
    next
      case (Inr u)
      obtain q' t' where t': "save_state F E key t = (q', t')" by fastforce
      note sv = save_state_effect[OF F t']
      have f2: "then_io (save_state F E key) (sys_io (fe_sync E)) t = (r, w')"
        using f1 False t Inr by (simp add: io_apply)
      from f2 show ?thesis
      proof (cases rule: then_cases)
        case (fails e)
        with t' sv t1 show ?thesis by (auto simp: stored_def s_def)
      next
        case (goes x t2)
        have q: "quiet t2 w'" by (rule quietD[OF quiet_sys goes(2)])
        from goes(1) t' have eq: "q' = Inr x" "t2 = t'" by simp_all
        have "stored F t' key s" using sv(5)[OF eq(1)] t1 by (simp add: stored_def)
        with q sv t1 eq show ?thesis by (auto simp: quiet_def stored_def state_file_def s_def)
      qed
    qed
  qed
qed

lemma strict_canonical_Inr:
  assumes "strict_canonical C limit b = Inr x"
  shows "dec C b = Inr x" "enc C x = Inr b" "int (length b) \<le> limit" "utf8_valid b" "b \<noteq> []"
  using assms by (auto simp: strict_canonical_def split: if_splits sum.splits)

lemma load_result:
  assumes F: "sound_codec (fw_retry F)" and i: "fst ` set input \<subseteq> fst ` set artifact_limits"
    and f: "load_or_freeze F E C key l input snaps dg w = (r, w')"
  obtains (frozen) "state_file w key = Missing"
      "state_file w' key = Missing \<or> (\<exists>now. stored F w' key (fresh_state (fc_policy C) (l_identity l) dg snaps now))"
      "\<forall>k. k \<noteq> key \<longrightarrow> fd_state w' k = fd_state w k" "fd_ext w' = fd_ext w"
      "r = Inr () \<Longrightarrow> stored F w' key (fd_mem w') \<and> (\<exists>now. fd_mem w' = fresh_state (fc_policy C) (l_identity l) dg snaps now)"
  | (loaded) "fd_state w' = fd_state w" "fd_ext w' = fd_ext w" "fd_out w' = fd_out w"
      "r = Inr () \<Longrightarrow> stored F w' key (fd_mem w') \<and> loaded_ok C l dg (fd_mem w') = None"
  using f unfolding load_or_freeze_def
proof (cases rule: bind_cases)
  case (fails e)
  then show ?thesis by (simp add: read_state_def)
next
  case (goes x t)
  have q: "quiet w t" by (rule quietD[OF quiet_read_state goes(1)])
  have x: "x = read_bounded (if fe_fault E (fd_tick w) then Unreadable ''io'' else state_file w key) max_receipt"
    using goes(1) by (auto simp: read_state_def state_file_def)
  show ?thesis
  proof (cases x)
    case (Inl e)
    show ?thesis
    proof (cases "e = ENotExist")
      case True
      with x Inl have m: "state_file w key = Missing"
        using read_bounded_not_exist_iff by (metis node.distinct(5))
      have "freeze F E C key l input snaps dg t = (r, w')" using goes(2) Inl True by simp
      from freeze_result[OF F i this] q m show ?thesis by (intro frozen) (auto simp: quiet_def state_file_def)
    next
      case False
      with goes(2) Inl q show ?thesis by (intro loaded) (auto simp: io_apply quiet_def)
    qed
  next
    case (Inr b)
    with x have b: "state_file w key = Regular b" by (auto simp: read_bounded_Inr_iff split: if_splits dest!: sym[of "Inr b"])
    then have b': "state_file t key = Regular b" using q by (simp add: quiet_def state_file_def)
    from goes(2) Inr have "bind_io (lift_io (strict_canonical (fw_retry F) max_receipt b)) (\<lambda>s.
       then_io (lift_io (to_res (loaded_ok C l dg s))) (set_mem (\<lambda>_. s))) t = (r, w')" by simp
    then show ?thesis using q b'
      by (intro loaded)
        (auto simp: io_apply set_mem_def quiet_def stored_def state_file_def dest: strict_canonical_Inr(1)
          split: sum.splits option.splits prod.splits)
  qed
qed

section \<open>Runs\<close>

lemma continue_stored:
  assumes F: "sound_codec (fw_retry F)" and c: "fin_continue F E A S key l input w = (r, w')"
    and st: "stored F w key (fd_mem w)"
  shows "(\<exists>s. stored F w' key s \<and> later (fd_mem w) s) \<and> (\<forall>k. k \<noteq> key \<longrightarrow> fd_state w' k = fd_state w k)"
proof -
  have "progress F key w w'" using prog.at_keeps[OF keeps_continue[OF F], of key w E A S l input] c by simp
  with st show ?thesis by (auto simp: progress_def stored_def)
qed

text \<open>A run never loses the progress of a key: what its state file recorded stays recorded.\<close>

lemma fin_run_later:
  assumes F: "sound_codec (fw_retry F)" and run: "fin_run F E C A S run w = (r, w')" and s: "stored F w key s"
  shows "\<exists>s'. stored F w' key s' \<and> later s s'"
  using run
proof (cases rule: fin_run_cases)
  case (early e)
  with s show ?thesis by (intro exI[of _ s]) (simp add: stored_def state_file_def quiet_def)
next
  case (load l input snaps dg w1 e)
  have s1: "stored F w1 key s" using s load(1) by (simp add: stored_def state_file_def quiet_def)
  from load_result[OF F load(2,3)] have "stored F w' key s"
    by cases (use s1 in \<open>cases "key = dedup_key F (l_identity l)"; auto simp: stored_def state_file_def\<close>)+
  then show ?thesis by (intro exI[of _ s]) simp
next
  case (tampered l input snaps dg w1 w2 e)
  have s1: "stored F w1 key s" using s tampered(1) by (simp add: stored_def state_file_def quiet_def)
  from load_result[OF F tampered(2,3)] have "stored F w2 key s"
    by cases (use s1 in \<open>cases "key = dedup_key F (l_identity l)"; auto simp: stored_def state_file_def\<close>)+
  with tampered(4) show ?thesis by (intro exI[of _ s]) (simp add: stored_def state_file_def quiet_def)
next
  case (continue l input snaps dg w1 w2 w3 frozen)
  have s1: "stored F w1 key s" using s continue(1) by (simp add: stored_def state_file_def quiet_def)
  let ?key = "dedup_key F (l_identity l)"
  have lr: "stored F w2 key s \<and> stored F w2 ?key (fd_mem w2)"
    using load_result[OF F continue(2,3)]
    by cases (use s1 in \<open>cases "key = ?key"; auto simp: stored_def state_file_def\<close>)+
  then have s3: "stored F w3 key s" "stored F w3 ?key (fd_mem w3)"
    using continue(5) by (auto simp: stored_def state_file_def quiet_def)
  note cs = continue_stored[OF F continue(6) s3(2)]
  show ?thesis
  proof (cases "key = ?key")
    case True
    with s3 have "fd_mem w3 = s" using stored_fun by metis
    with cs True show ?thesis by simp
  next
    case False
    with cs s3(1) show ?thesis by (intro exI[of _ s]) (auto simp: stored_def state_file_def)
  qed
qed

definition attempts_ok :: "fwire \<Rightarrow> 'x fworld \<Rightarrow> bool" where
  "attempts_ok F w \<longleftrightarrow> (\<forall>key s. stored F w key s \<longrightarrow> 0 \<le> rt_attempts s \<and> rt_attempts s \<le> 6)"

lemma attempts_later: "later s s' \<Longrightarrow> 0 \<le> rt_attempts s \<Longrightarrow> rt_attempts s \<le> 6 \<Longrightarrow> 0 \<le> rt_attempts s' \<and> rt_attempts s' \<le> 6"
  by (auto simp: later_def)

lemma fresh_attempts [simp]: "rt_attempts (fresh_state p i dg snaps now) = 0"
  by (simp add: fresh_state_def)

lemma load_attempts:
  assumes F: "sound_codec (fw_retry F)" and i: "fst ` set input \<subseteq> fst ` set artifact_limits"
    and f: "load_or_freeze F E C key l input snaps dg w = (r, w')" and ok: "attempts_ok F w"
  shows "attempts_ok F w' \<and> (r = Inr () \<longrightarrow> stored F w' key (fd_mem w'))"
  using F i f
proof (cases rule: load_result)
  case frozen
  have "0 \<le> rt_attempts s \<and> rt_attempts s \<le> 6" if s: "stored F w' k s" for k s
  proof (cases "k = key")
    case True
    with frozen(2) s obtain now where "stored F w' key (fresh_state (fc_policy C) (l_identity l) dg snaps now)"
      by (auto simp: stored_def)
    with s True have "s = fresh_state (fc_policy C) (l_identity l) dg snaps now" using stored_fun by metis
    then show ?thesis by simp
  next
    case False
    with frozen(3) s have "stored F w k s" by (simp add: stored_def state_file_def)
    with ok show ?thesis by (auto simp: attempts_ok_def)
  qed
  with frozen(5) show ?thesis by (auto simp: attempts_ok_def)
next
  case loaded
  with ok show ?thesis by (auto simp: attempts_ok_def stored_def state_file_def)
qed

lemma attempts_ok_quiet: "quiet w w' \<Longrightarrow> attempts_ok F w \<Longrightarrow> attempts_ok F w'"
  by (simp add: attempts_ok_def stored_def state_file_def quiet_def)

lemma fin_run_attempts:
  assumes F: "sound_codec (fw_retry F)" and run: "fin_run F E C A S run w = (r, w')" and ok: "attempts_ok F w"
  shows "attempts_ok F w'"
  using run
proof (cases rule: fin_run_cases)
  case (early e)
  with ok attempts_ok_quiet show ?thesis by blast
next
  case (load l input snaps dg w1 e)
  show ?thesis using load_attempts[OF F load(2,3) attempts_ok_quiet[OF load(1) ok]] by simp
next
  case (tampered l input snaps dg w1 w2 e)
  show ?thesis
    using load_attempts[OF F tampered(2,3) attempts_ok_quiet[OF tampered(1) ok]] attempts_ok_quiet[OF tampered(4)] by blast
next
  case (continue l input snaps dg w1 w2 w3 frozen)
  let ?key = "dedup_key F (l_identity l)"
  have 2: "attempts_ok F w2" "stored F w2 ?key (fd_mem w2)"
    using load_attempts[OF F continue(2,3) attempts_ok_quiet[OF continue(1) ok]] by simp_all
  have 3: "attempts_ok F w3" "stored F w3 ?key (fd_mem w3)"
    using attempts_ok_quiet[OF continue(5) 2(1)] 2(2) continue(5) by (simp_all add: stored_def state_file_def quiet_def)
  obtain s where s: "stored F w' ?key s" "later (fd_mem w3) s" and other: "\<And>k. k \<noteq> ?key \<Longrightarrow> fd_state w' k = fd_state w3 k"
    using continue_stored[OF F continue(6) 3(2)] by blast
  have "0 \<le> rt_attempts s \<and> rt_attempts s \<le> 6"
    using attempts_later[OF s(2)] 3 by (auto simp: attempts_ok_def)
  moreover have "s' = s" if "stored F w' ?key s'" for s' using stored_fun[OF s(1) that] by simp
  moreover have "0 \<le> rt_attempts s' \<and> rt_attempts s' \<le> 6" if "stored F w' k s'" "k \<noteq> ?key" for k s'
    using that other[OF that(2)] 3(1) by (auto simp: attempts_ok_def stored_def state_file_def)
  ultimately show ?thesis unfolding attempts_ok_def by blast
qed

text \<open>
  Histories of the engine: any number of runs, of any coordinator runs, each in its own
  environment, with its own archive and signer, from a world without state files.
\<close>

inductive history :: "fwire \<Rightarrow> 'x fworld \<Rightarrow> 'x fworld \<Rightarrow> bool" for F where
  start: "history F w w"
| step: "history F w v \<Longrightarrow> fin_run F E C A S run v = (r, u) \<Longrightarrow> history F w u"

inductive_cases history_cases: "history F w u"

lemma history_attempts:
  assumes "history F w u" "sound_codec (fw_retry F)" "\<forall>key. state_file w key = Missing"
  shows "attempts_ok F u"
  using assms
proof (induction rule: history.induct)
  case (start w)
  then show ?case by (simp add: attempts_ok_def stored_def)
next
  case (step w v E C A S run r u)
  then show ?case using fin_run_attempts by blast
qed

lemma history_later:
  assumes "history F w u" "sound_codec (fw_retry F)" "stored F w key s"
  shows "\<exists>s'. stored F u key s' \<and> later s s'"
  using assms
proof (induction rule: history.induct)
  case (start w)
  then show ?case using later_refl by blast
next
  case (step w v E C A S run r u)
  then obtain s1 where "stored F v key s1" "later s s1" by blast
  with fin_run_later[OF step.prems(1) step.hyps(2)] show ?case using later_trans by blast
qed

section \<open>Retries\<close>

text \<open>An exhausted finalization runs no archive operation and no signature.\<close>

lemma continue_exhausted:
  assumes "rt_status (fd_mem w) \<noteq> ''complete''" "\<not> both_archived (fd_mem w)" "rt_attempts (fd_mem w) \<ge> 6"
    and c: "fin_continue F E A S key l input w = (r, w')"
  shows "(\<exists>e. r = Inl e) \<and> fd_ext w' = fd_ext w \<and> fd_out w' = fd_out w"
proof -
  have sv: "fd_ext (snd (save_state F E key w)) = fd_ext w \<and> fd_out (snd (save_state F E key w)) = fd_out w" for w :: "'a fworld"
    by (auto simp: save_state_def io_apply write_state_def split: sum.split prod.split)
  from c assms(1-3) have "then_io (set_mem (\<lambda>s. s\<lparr>rt_status := ''exhausted'', rt_next := None\<rparr>))
       (then_io (save_state F E key) (throw EExhausted)) w = (r, w')"
    by (simp add: fin_continue_def bind_io_def get_io_def)
  then show ?thesis
  proof (cases rule: then_cases)
    case (goes u t)
    have t: "fd_ext t = fd_ext w" "fd_out t = fd_out w" using goes(1) by (auto simp: set_mem_def io_apply)
    from goes(2) show ?thesis
    proof (cases rule: then_cases)
      case (fails e)
      with t sv[of t] show ?thesis by simp
    next
      case (goes u' t')
      with t sv[of t] show ?thesis by (auto simp: io_apply)
    qed
  qed (simp add: set_mem_def io_apply)
qed

text \<open>Before the time of the next retry a run does nothing.\<close>

lemma continue_not_due:
  assumes "rt_status (fd_mem w) \<noteq> ''complete''" "rt_status (fd_mem w) \<noteq> ''exhausted''" "rt_attempts (fd_mem w) < 6"
    and "rt_next (fd_mem w) = Some due" "\<And>t. fe_now E t < due"
    and c: "fin_continue F E A S key l input w = (r, w')"
  shows "r = Inl ERetryNotDue \<and> quiet w w'"
proof -
  have due: "retry_due E w = (Inl ERetryNotDue, w\<lparr>fd_tick := Suc (fd_tick w)\<rparr>)"
    using assms(4,5) by (simp add: retry_due_def io_apply tick_io_def)
  have "r = Inl ERetryNotDue" "w' = w\<lparr>fd_tick := Suc (fd_tick w)\<rparr>"
    using c assms(1-3) by (auto simp: fin_continue_def reconcile_def bind_io_def get_io_def then_io_def due split: if_splits)
  then show ?thesis by (simp add: quiet_def)
qed

end
