(* ===== verification/Signing.thy ===== *)
theory Signing
  imports Receipt
begin

text \<open>
  Keyless signing, internal/finalizer/signing.go: the operator's token endpoint and the pinned
  Cosign subprocess. The TLS and X.509 libraries, the HTTP exchange and the subprocess are
  parameters; which inputs they get, and what is checked before and after, is the code's.
\<close>

section \<open>The identity token\<close>

record token_response =
  tr_id :: string
  tr_expires :: int
  tr_type :: string

record token_env =
  te_url :: "gerr + url"
  te_ca :: node
  te_cert :: node
  te_key :: node
  te_keypair :: "bytes \<Rightarrow> bytes \<Rightarrow> gerr option"
  te_uris :: "bytes \<Rightarrow> gerr + string list"
  te_roots :: "bytes \<Rightarrow> bool"
  te_request :: "gerr option"
  te_post :: "gerr + int"
  te_body :: "gerr + bytes"
  te_transform :: "bytes \<Rightarrow> gerr option"
  te_decode :: "bytes \<Rightarrow> gerr + token_response"

definition token_response_ok :: "token_response \<Rightarrow> bool" where
  "token_response_ok r \<longleftrightarrow> \<not> (tr_expires r \<noteq> 120 \<or> tr_type r \<noteq> ''Bearer'' \<or> length (tr_id r) < 16 \<or> length (tr_id r) > 12000 \<or>
     length (split_on (CHR ''.'') (tr_id r)) \<noteq> 3 \<or> contains_any (tr_id r) [CHR 0x0D, CHR 0x0A, CHR 0x20, CHR 0x09])"

definition token_client :: "token_env \<Rightarrow> gerr option" where
  \<comment> \<open>everything checked before the request is sent\<close>
  "token_client T = first_err [
     check (case te_url T of Inl _ \<Rightarrow> False | Inr u \<Rightarrow> \<not> (u_scheme u \<noteq> ''https'' \<or> u_host u = [] \<or> u_user u \<or>
       u_query u \<noteq> [] \<or> u_fragment u \<noteq> [] \<or> u_path u \<noteq> ''/token'')) ''invalid operator token endpoint'',
     (case read_bounded (te_ca T) max_receipt of Inl _ \<Rightarrow> Some (EMsg ''cannot load token CA'') | Inr ca \<Rightarrow>
      (case read_bounded (te_cert T) max_receipt of Inl _ \<Rightarrow> Some (EMsg ''cannot load identity certificate'') | Inr cert \<Rightarrow>
       (case read_bounded (te_key T) max_receipt of Inl _ \<Rightarrow> Some (EMsg ''cannot load identity key'') | Inr key \<Rightarrow>
         first_err [
           check (te_keypair T cert key = None) ''invalid identity keypair'',
           check (case te_uris T cert of Inl _ \<Rightarrow> False | Inr _ \<Rightarrow> True) ''invalid identity certificate'',
           check (te_uris T cert = Inr [''spiffe://cleanup-receipt.local/finalizer'']) ''incorrect finalizer client identity'',
           check (te_roots T ca) ''invalid token CA'']))),
     check (te_request T = None) ''cannot construct token request'']"

definition mtls_token :: "token_env \<Rightarrow> gerr + bytes" where
  "mtls_token T = (case token_client T of Some e \<Rightarrow> Inl e | None \<Rightarrow>
     (case te_post T of Inl _ \<Rightarrow> Inl (EMsg ''token endpoint unavailable'') | Inr status \<Rightarrow>
       (if status \<noteq> 200 then Inl (EMsg ''token endpoint rejected identity'')
        else case te_body T of Inl _ \<Rightarrow> Inl (EMsg ''invalid token response size'') | Inr body \<Rightarrow>
          (if length body > 16384 then Inl (EMsg ''invalid token response size'')
           else if te_transform T body \<noteq> None then Inl (EMsg ''invalid token response JSON'')
           else case te_decode T body of Inl _ \<Rightarrow> Inl (EMsg ''invalid token response'') | Inr r \<Rightarrow>
             (if token_response_ok r then Inr (tr_id r) else Inl (EMsg ''invalid token response''))))))"

section \<open>The subprocess\<close>

record cosign =
  cs_binary :: path
  cs_config :: path
  cs_trust :: path
  cs_tls_ca :: path
  cs_policy :: signer_policy

text \<open>
  The environment of one operation: what the pinned paths hold, the temporary directory, which
  private file a write fails for, the token, and the subprocess. The subprocess gets its
  arguments and the files of the private directory, and may leave files there.
\<close>

record 's cosign_env =
  ce_binary :: node
  ce_config :: node
  ce_trust :: node
  ce_ca :: node
  ce_tmp :: "gerr + path"
  ce_write :: "string \<Rightarrow> gerr option"
  ce_token :: "(gerr + bytes) option"
  ce_run :: "string list \<Rightarrow> bytes gomap \<Rightarrow> ('s, bytes gomap) io"

definition cosign_inputs :: "cosign \<Rightarrow> 's cosign_env \<Rightarrow> gerr + bytes \<times> bytes" where
  "cosign_inputs c E =
     (if \<not> is_abs (cs_binary c) \<or> \<not> is_abs (cs_config c) \<or> \<not> is_abs (cs_trust c)
      then Inl (EMsg ''operator signing paths must be absolute'')
      else case read_bounded (ce_binary E) 268435456 of Inl _ \<Rightarrow> Inl (EMsg ''approved Cosign binary digest mismatch'') | Inr bin \<Rightarrow>
        (if digest bin \<noteq> sp_cosign (cs_policy c) then Inl (EMsg ''approved Cosign binary digest mismatch'')
         else case read_bounded (ce_config E) max_receipt of Inl _ \<Rightarrow> Inl (EMsg ''operator signing configuration digest mismatch'') | Inr config \<Rightarrow>
           (if digest config \<noteq> sp_signing_config (cs_policy c) then Inl (EMsg ''operator signing configuration digest mismatch'')
            else case read_bounded (ce_trust E) max_receipt of Inl _ \<Rightarrow> Inl (EMsg ''operator trust root digest mismatch'') | Inr trust \<Rightarrow>
              (if digest trust \<noteq> sp_trust_root (cs_policy c) then Inl (EMsg ''operator trust root digest mismatch'')
               else Inr (config, trust)))))"

fun write_private :: "'s cosign_env \<Rightarrow> bytes gomap \<Rightarrow> gerr option" where
  "write_private E [] = None"
| "write_private E ((name, b) # fs) = (case ce_write E name of Some e \<Rightarrow> Some e | None \<Rightarrow> write_private E fs)"

definition private_inputs :: "cosign \<Rightarrow> 's cosign_env \<Rightarrow> bytes \<Rightarrow> gerr + path \<times> bytes gomap" where
  "private_inputs c E data =
     (if int (length data) > max_receipt then Inl (EMsg ''signing artifact exceeds bound'')
      else case cosign_inputs c E of Inl e \<Rightarrow> Inl e | Inr (config, trust) \<Rightarrow>
        (case ce_tmp E of Inl e \<Rightarrow> Inl e | Inr dir \<Rightarrow>
          (let fs = [(''receipt.json'', data), (''signing.json'', config), (''trust.json'', trust)] in
           case write_private E fs of Some e \<Rightarrow> Inl e | None \<Rightarrow>
             (if cs_tls_ca c = [] then Inr (dir, fs)
              else case read_bounded (ce_ca E) max_receipt of Inl e \<Rightarrow> Inl e | Inr ca \<Rightarrow>
                (case ce_write E ''ca.pem'' of Some e \<Rightarrow> Inl e | None \<Rightarrow> Inr (dir, fs @ [(''ca.pem'', ca)]))))))"

definition in_dir :: "path \<Rightarrow> string \<Rightarrow> path" where
  "in_dir d name = d @ ''/'' @ name"

definition cosign_command :: "'s cosign_env \<Rightarrow> string list \<Rightarrow> bytes gomap \<Rightarrow> ('s, bytes gomap) io" where
  "cosign_command E args fs = bind_io (catch_io (ce_run E args fs)) (\<lambda>r. case r of
     Inl _ \<Rightarrow> throw (EMsg ''Cosign operation failed (diagnostics withheld to protect credentials)'')
   | Inr out \<Rightarrow> ret out)"

definition policy_receipt :: "fwire \<Rightarrow> cosign \<Rightarrow> bytes \<Rightarrow> gerr + receipt" where
  \<comment> \<open>the parsed receipt, which must carry the pinned policy\<close>
  "policy_receipt F c data = (case parse_receipt F data of Inl e \<Rightarrow> Inl e | Inr r \<Rightarrow>
     (if rc_finalizer r \<noteq> cs_policy c then Inl (EMsg ''receipt does not match pinned finalizer policy'') else Inr r))"

definition sign_args :: "path \<Rightarrow> string list" where
  "sign_args dir = [''sign-blob'', ''--yes'', ''--oidc-disable-ambient-providers'', ''--identity-token'',
     in_dir dir ''identity.token'', ''--signing-config'', in_dir dir ''signing.json'', ''--trusted-root'',
     in_dir dir ''trust.json'', ''--bundle'', in_dir dir ''receipt.bundle.json'', in_dir dir ''receipt.json'']"

definition verify_args :: "signer_policy \<Rightarrow> path \<Rightarrow> string list" where
  "verify_args p dir = [''verify-blob'', ''--offline'', ''--trusted-root'', in_dir dir ''trust.json'', ''--bundle'',
     in_dir dir ''receipt.bundle.json'', ''--certificate-identity'', sp_identity p, ''--certificate-oidc-issuer'',
     sp_issuer p, in_dir dir ''receipt.json'']"

definition file_node :: "bytes gomap \<Rightarrow> string \<Rightarrow> node" where
  "file_node fs name = (case map_of fs name of None \<Rightarrow> Missing | Some b \<Rightarrow> Regular b)"

definition cosign_sign :: "fwire \<Rightarrow> cosign \<Rightarrow> 's cosign_env \<Rightarrow> bytes \<Rightarrow> ('s, bytes) io" where
  "cosign_sign F c E data = (case ce_token E of None \<Rightarrow> throw (EMsg ''operator token provider required'') | Some tok \<Rightarrow>
     bind_io (lift_io (policy_receipt F c data)) (\<lambda>_.
     bind_io (lift_io (private_inputs c E data)) (\<lambda>(dir, fs).
     bind_io (lift_io tok) (\<lambda>token.
     then_io (require (\<not> (length token < 16 \<or> length token > 12000)) (EMsg ''token exceeds bounds''))
     (then_io (lift_io (to_res (ce_write E ''identity.token'')))
     (bind_io (cosign_command E (sign_args dir) (fs @ [(''identity.token'', token)])) (\<lambda>out.
      lift_io (read_bounded (file_node out ''receipt.bundle.json'') max_bundle))))))))"

definition cosign_verify :: "fwire \<Rightarrow> cosign \<Rightarrow> 's cosign_env \<Rightarrow> bytes \<Rightarrow> bytes \<Rightarrow> ('s, unit) io" where
  "cosign_verify F c E data bdl =
     bind_io (lift_io (policy_receipt F c data)) (\<lambda>_.
     then_io (require (\<not> (length bdl = 0 \<or> int (length bdl) > max_bundle)) (EMsg ''bundle exceeds bounds''))
     (bind_io (lift_io (private_inputs c E data)) (\<lambda>(dir, fs).
      then_io (lift_io (to_res (ce_write E ''receipt.bundle.json'')))
      (then_io (cosign_command E (verify_args (cs_policy c) dir) (fs @ [(''receipt.bundle.json'', bdl)])) (ret ())))))"

section \<open>What an accepted operation implies\<close>

lemma policy_receipt_Inr:
  "policy_receipt F c data = Inr r \<Longrightarrow> parse_receipt F data = Inr r \<and> rc_finalizer r = cs_policy c"
  by (auto simp: policy_receipt_def split: sum.splits if_splits)

lemma parse_receipt_Inr:
  assumes "parse_receipt F data = Inr r"
  shows "receipt_validate r = None" "data \<noteq> []" "int (length data) \<le> max_receipt" "enc (fw_receipt F) r = Inr data"
  using assms by (auto simp: parse_receipt_def strict_canonical_def split: sum.splits if_splits option.splits)

lemma cosign_inputs_Inr:
  assumes "cosign_inputs c E = Inr (config, trust)"
  shows "\<exists>bin. ce_binary E = Regular bin \<and> digest bin = sp_cosign (cs_policy c)"
    "digest config = sp_signing_config (cs_policy c)" "digest trust = sp_trust_root (cs_policy c)"
  using assms by (auto simp: cosign_inputs_def read_bounded_Inr_iff split: if_splits sum.splits)

lemma private_inputs_Inr:
  assumes "private_inputs c E data = Inr (dir, fs)"
  shows "\<exists>config trust rest. cosign_inputs c E = Inr (config, trust) \<and>
    fs = [(''receipt.json'', data), (''signing.json'', config), (''trust.json'', trust)] @ rest"
  using assms by (auto simp: private_inputs_def Let_def split: if_splits sum.splits option.splits prod.splits)

lemma cosign_command_Inr:
  "cosign_command E args fs s = (Inr out, s') \<Longrightarrow> ce_run E args fs s = (Inr out, s')"
  by (auto simp: cosign_command_def io_apply split: prod.splits sum.splits)

text \<open>
  A verification that succeeds was made by the approved binary, against the pinned trust root, for
  the pinned identity and issuer, on exactly these bytes, and the receipt carries the policy.
\<close>

lemma cosign_verify_Inr:
  assumes "cosign_verify F c E data bdl s = (Inr u, s')"
  shows "\<exists>r. parse_receipt F data = Inr r \<and> rc_finalizer r = cs_policy c"
    "bdl \<noteq> []" "int (length bdl) \<le> max_bundle"
    "\<exists>dir config trust bin rest out. ce_binary E = Regular bin \<and> digest bin = sp_cosign (cs_policy c) \<and>
       digest trust = sp_trust_root (cs_policy c) \<and>
       ce_run E (verify_args (cs_policy c) dir)
         ([(''receipt.json'', data), (''signing.json'', config), (''trust.json'', trust)] @ rest @ [(''receipt.bundle.json'', bdl)]) s
         = (Inr out, s')"
proof -
  from assms obtain r dir fs out where *: "policy_receipt F c data = Inr r" "bdl \<noteq> []" "int (length bdl) \<le> max_bundle"
      "private_inputs c E data = Inr (dir, fs)"
      "cosign_command E (verify_args (cs_policy c) dir) (fs @ [(''receipt.bundle.json'', bdl)]) s = (Inr out, s')"
    by (auto simp: cosign_verify_def Inr_iffs)
  then show "bdl \<noteq> []" "int (length bdl) \<le> max_bundle" by simp_all
  show "\<exists>r. parse_receipt F data = Inr r \<and> rc_finalizer r = cs_policy c" using policy_receipt_Inr[OF *(1)] by blast
  obtain config trust rest where fs: "cosign_inputs c E = Inr (config, trust)"
      "fs = [(''receipt.json'', data), (''signing.json'', config), (''trust.json'', trust)] @ rest"
    using private_inputs_Inr[OF *(4)] by blast
  from cosign_inputs_Inr[OF fs(1)] cosign_command_Inr[OF *(5)] fs(2)
  show "\<exists>dir config trust bin rest out. ce_binary E = Regular bin \<and> digest bin = sp_cosign (cs_policy c) \<and>
       digest trust = sp_trust_root (cs_policy c) \<and>
       ce_run E (verify_args (cs_policy c) dir)
         ([(''receipt.json'', data), (''signing.json'', config), (''trust.json'', trust)] @ rest @ [(''receipt.bundle.json'', bdl)]) s
         = (Inr out, s')"
    unfolding append_assoc[symmetric] by blast
qed

lemma cosign_sign_Inr:
  assumes "cosign_sign F c E data s = (Inr bdl, s')"
  shows "\<exists>r. parse_receipt F data = Inr r \<and> rc_finalizer r = cs_policy c" "int (length bdl) \<le> max_bundle"
    "\<exists>token. ce_token E = Some (Inr token) \<and> 16 \<le> length token \<and> length token \<le> 12000"
  using assms by (auto simp: cosign_sign_def Inr_iffs file_node_def read_bounded_Inr_iff dest!: policy_receipt_Inr
      split: option.splits)

lemma mtls_token_Inr:
  assumes "mtls_token T = Inr tok"
  shows "token_client T = None" "16 \<le> length tok" "length tok \<le> 12000" "length (split_on (CHR ''.'') tok) = 3"
  using assms by (auto simp: mtls_token_def token_response_ok_def split: option.splits sum.splits if_splits)

end
