(* ===== verification/Publication.thy ===== *)
theory Publication
  imports Progress Signing
begin

text \<open>
  What a successful run of the finalization engine has published, and that the published result is
  one the consumers of the archive accept.
\<close>

section \<open>The output directory\<close>

definition same_out :: "'x fworld \<Rightarrow> 'x fworld \<Rightarrow> bool" where
  "same_out w w' \<longleftrightarrow> fd_out w' = fd_out w"

interpretation so: two_state same_out
  by unfold_locales (simp_all add: same_out_def)

lemma out_set_mem [io_keeps]: "keeps same_out (set_mem f)"
  by (simp add: keeps_def set_mem_def io_apply same_out_def)

lemma out_tick [io_keeps]: "keeps same_out (tick_io f)"
  by (simp add: keeps_def tick_io_def same_out_def)

lemma out_sys [io_keeps]: "keeps same_out (sys_io f)"
  unfolding sys_io_def by (intro io_keeps)

lemma out_ext [io_keeps]: "keeps same_out (ext_io m)"
  by (simp add: keeps_def ext_io_def same_out_def split: prod.split)

lemma out_write [io_keeps]: "keeps same_out (write_state E key name data)"
  by (simp add: keeps_def write_state_def same_out_def split: prod.split)

lemma out_read [io_keeps]: "keeps same_out (read_state E key name limit)"
  by (simp add: keeps_def read_state_def same_out_def)

lemma out_save [io_keeps]: "keeps same_out (save_state F E key)"
  unfolding save_state_def by (intro io_keeps)

lemma out_stage [io_keeps]: "keeps same_out (set_stage F E key stage)"
  unfolding set_stage_def by (intro io_keeps)

lemma out_complete [io_keeps]: "keeps same_out (fin_complete F E key)"
  unfolding fin_complete_def by (intro io_keeps)

lemma out_read_exact [io_keeps]: "keeps same_out (read_exact E key name limit dg msg)"
  unfolding read_exact_def by (intro io_keeps)

lemma out_put [io_keeps]: "keeps same_out (fin_put F E A key name data)"
  unfolding fin_put_def by (intro io_keeps)

lemma out_protect [io_keeps]: "keeps same_out (fin_protect A)"
  unfolding fin_protect_def by (intro io_keeps) (auto intro: io_keeps)

lemma out_check_object [io_keeps]: "keeps same_out (check_object A s nr)"
  unfolding check_object_def by (cases nr) (auto intro!: io_keeps)

lemma out_sign [io_keeps]: "keeps same_out (fin_sign F E S key rcpt)"
  unfolding fin_sign_def by (intro io_keeps)

lemma out_build [io_keeps]: "keeps same_out (fin_build F E l input)"
  unfolding fin_build_def by (intro io_keeps)

lemma out_freeze [io_keeps]: "keeps same_out (freeze F E C key l input snaps dg)"
  unfolding freeze_def by (intro io_keeps) (auto intro: io_keeps)

lemma out_load [io_keeps]: "keeps same_out (load_or_freeze F E C key l input snaps dg)"
  unfolding load_or_freeze_def by (intro io_keeps)

lemma out_save_failure [io_keeps]: "keeps same_out (save_failure F E key e)"
  unfolding save_failure_def by (intro io_keeps)

lemma out_retry_due [io_keeps]: "keeps same_out (retry_due E)"
  unfolding retry_due_def by (intro io_keeps)

lemma out_fail_attempt [io_keeps]: "keeps same_out (fail_attempt E)"
  unfolding fail_attempt_def by (intro io_keeps)

lemma outD: "keeps same_out m \<Longrightarrow> m w = (r, t) \<Longrightarrow> fd_out t = fd_out w"
  using so.keepsD by (fastforce simp: same_out_def)

section \<open>Publication\<close>

lemma write_out_cases:
  assumes "write_out E key name data w = (r, w')"
  shows "(fd_out w' key name = Regular data \<or> fd_out w' = fd_out w) \<and> (r = Inr u \<longrightarrow> fd_out w' key name = Regular data) \<and>
    (\<forall>k n. (k, n) \<noteq> (key, name) \<longrightarrow> fd_out w' k n = fd_out w k n) \<and> fd_state w' = fd_state w \<and> fd_mem w' = fd_mem w \<and>
    fd_ext w' = fd_ext w"
  using assms
  by (cases rule: durable_cases[where io = "fe_durable E (fd_tick w)" and v = "Regular data" and t = "fd_out w key name"])
    (auto simp: write_out_def)

lemma fin_publish_result:
  assumes "fin_publish F E key res rcpt bundle w = (r, w')"
  shows "(fd_out w' key ''result.json'' = fd_out w key ''result.json'' \<or>
     (fd_out w' key ''receipt.json'' = Regular rcpt \<and> fd_out w' key ''receipt.bundle.json'' = Regular bundle \<and>
      (\<exists>b. enc (fw_outcome F) res = Inr b \<and> fd_out w' key ''result.json'' = Regular b))) \<and>
    (\<forall>k. k \<noteq> key \<longrightarrow> fd_out w' k = fd_out w k) \<and> fd_mem w' = fd_mem w \<and>
    (r = Inr u \<longrightarrow> fd_out w' key ''receipt.json'' = Regular rcpt \<and> fd_out w' key ''receipt.bundle.json'' = Regular bundle \<and>
      (\<exists>b. enc (fw_outcome F) res = Inr b \<and> fd_out w' key ''result.json'' = Regular b))"
proof -
  have sys: "fd_out t = fd_out w \<and> fd_mem t = fd_mem w" if "sys_io f w = (q, t)" for f q w and t :: "'a fworld"
    using quietD[OF quiet_sys that] by (simp add: quiet_def)
  from assms show ?thesis unfolding fin_publish_def
  proof (cases rule: then_cases)
    case (fails e)
    with sys show ?thesis by fastforce
  next
    case (goes x0 t0)
    note t0 = sys[OF goes(1)]
    obtain q1 t1 where w1: "write_out E key ''receipt.json'' rcpt t0 = (q1, t1)" by fastforce
    note c1 = write_out_cases[OF w1]
    show ?thesis
    proof (cases q1)
      case (Inl e)
      then show ?thesis using goes(2) w1 c1 t0 by (auto simp: io_apply fun_eq_iff)
    next
      case (Inr x1)
      obtain q2 t2 where w2: "write_out E key ''receipt.bundle.json'' bundle t1 = (q2, t2)" by fastforce
      note c2 = write_out_cases[OF w2]
      show ?thesis
      proof (cases q2)
        case (Inl e)
        then show ?thesis using goes(2) w1 w2 Inr c1 c2 t0 by (auto simp: io_apply fun_eq_iff)
      next
        case q2: (Inr x2)
        show ?thesis
        proof (cases "enc (fw_outcome F) res")
          case (Inl e)
          then show ?thesis using goes(2) w1 w2 Inr q2 c1 c2 t0 by (auto simp: io_apply fun_eq_iff)
        next
          case b: (Inr b)
          obtain q3 t3 where w3: "write_out E key ''result.json'' b t2 = (q3, t3)" by fastforce
          note c3 = write_out_cases[OF w3]
          have rest: "then_io (write_out E key ''result.json'' b) (sys_io (fe_sync E)) t2 = (r, w')"
            using goes(2) w1 w2 Inr q2 b by (simp add: io_apply)
          have r12: "fd_out t2 key ''receipt.json'' = Regular rcpt" "fd_out t2 key ''receipt.bundle.json'' = Regular bundle"
            using c1 c2 Inr q2 by simp_all
          from rest show ?thesis
          proof (cases rule: then_cases)
            case (fails e)
            with w3 c1 c2 c3 t0 r12 b show ?thesis by (auto simp: fun_eq_iff)
          next
            case (goes x3 t4)
            with w3 c3 have "fd_out w' = fd_out t3" "fd_mem w' = fd_mem t3" "q3 = Inr x3" using sys[OF goes(2)] by simp_all
            with c1 c2 c3 t0 r12 b show ?thesis by (auto simp: fun_eq_iff)
          qed
        qed
      qed
    qed
  qed
qed

text \<open>
  \<open>signed_pair\<close>: the published pair is one the signer has accepted. The readers' marker
  \<open>result.json\<close> appears, or changes, only beside such a pair, even in a run that fails.
\<close>

definition signed_pair :: "'x signer \<Rightarrow> 'x fworld \<Rightarrow> string \<Rightarrow> bool" where
  "signed_pair S w key \<longleftrightarrow> (\<exists>rcpt bundle x x'. fd_out w key ''receipt.json'' = Regular rcpt \<and>
     fd_out w key ''receipt.bundle.json'' = Regular bundle \<and> sn_verify S rcpt bundle x = (Inr (), x'))"

definition marker :: "'x signer \<Rightarrow> string \<Rightarrow> 'x fworld \<Rightarrow> 'x fworld \<Rightarrow> bool" where
  "marker S key w w' \<longleftrightarrow> fd_out w' key ''result.json'' = fd_out w key ''result.json'' \<or> signed_pair S w' key"

lemma marker_same_before: "same_out w t \<Longrightarrow> marker S key t u \<Longrightarrow> marker S key w u"
  by (simp add: same_out_def marker_def)

lemma marker_same_after: "marker S key w t \<Longrightarrow> same_out t u \<Longrightarrow> marker S key w u"
  by (simp add: same_out_def marker_def signed_pair_def)

lemma marker_same: "same_out w t \<Longrightarrow> marker S key w t"
  by (simp add: same_out_def marker_def)

lemma marker_bind:
  assumes "keeps same_out m" "\<And>x t. m w = (Inr x, t) \<Longrightarrow> marker S key t (snd (f x t))"
  shows "marker S key w (snd (bind_io m f w))"
proof -
  obtain r t where m: "m w = (r, t)" by fastforce
  have s: "same_out w t" by (rule so.keepsD[OF assms(1) m])
  show ?thesis
  proof (cases r)
    case (Inl e)
    with m s show ?thesis by (simp add: io_apply marker_same)
  next
    case (Inr x)
    with m s assms(2)[of x t] show ?thesis by (simp add: io_apply marker_same_before)
  qed
qed

lemma marker_then:
  assumes "keeps same_out m" "\<And>x t. m w = (Inr x, t) \<Longrightarrow> marker S key t (snd (n t))"
  shows "marker S key w (snd (then_io m n w))"
  unfolding then_io_def by (rule marker_bind) (use assms in auto)

lemma marker_last:
  assumes "marker S key w (snd (m w))" "\<And>x. keeps same_out (f x)"
  shows "marker S key w (snd (bind_io m f w))"
proof -
  obtain r t where m: "m w = (r, t)" by fastforce
  then have s: "marker S key w t" using assms(1) by simp
  show ?thesis
  proof (cases r)
    case (Inl e)
    with m s show ?thesis by (simp add: io_apply)
  next
    case (Inr x)
    have "same_out t (snd (f x t))" using so.at_keeps[OF assms(2)] .
    with m s Inr show ?thesis by (simp add: io_apply marker_same_after)
  qed
qed

lemma marker_last_then:
  assumes "marker S key w (snd (m w))" "keeps same_out n"
  shows "marker S key w (snd (then_io m n w))"
  unfolding then_io_def by (rule marker_last) (use assms in auto)

lemma verified_pair:
  assumes "ext_io (sn_verify S rcpt bundle) w = (Inr u, t)"
  shows "\<exists>x x'. sn_verify S rcpt bundle x = (Inr (), x')"
  using assms by (auto simp: ext_io_def split: prod.splits)

lemma marker_publish:
  assumes "\<exists>x x'. sn_verify S rcpt bundle x = (Inr (), x')"
  shows "marker S k w (snd (fin_publish F E key res rcpt bundle w))"
proof -
  obtain r w' where p: "fin_publish F E key res rcpt bundle w = (r, w')" by fastforce
  note fp = fin_publish_result[OF p]
  show ?thesis
  proof (cases "k = key")
    case True
    with fp assms show ?thesis by (auto simp: p marker_def signed_pair_def)
  next
    case False
    with fp show ?thesis by (simp add: p marker_def)
  qed
qed

lemma marker_completed: "marker S k w (snd (fin_completed F E A S key adm w))"
  unfolding fin_completed_def
  apply (rule marker_bind, (intro io_keeps)[1])+
  apply (rule marker_then, (intro io_keeps)[1])
  apply (rule marker_then, (intro io_keeps)[1])
  apply (drule verified_pair)
  apply (rule marker_then, (intro io_keeps)[1])+
  apply (rule marker_last_then)
   apply (erule marker_publish)
  apply (intro io_keeps)
  done

lemma marker_finish:
  assumes "\<exists>x x'. sn_verify S rcpt bundle x = (Inr (), x')"
  shows "marker S k w (snd (fin_finish F E A key rcpt bundle w))"
  unfolding fin_finish_def
  apply (rule marker_then, (intro io_keeps)[1])
  apply (rule marker_bind, (intro io_keeps)[1])+
  apply (rule marker_then, (intro io_keeps)[1])
  apply (rule marker_bind, (intro io_keeps)[1])
  apply (rule marker_then, (intro io_keeps)[1])
  apply (rule marker_last_then)
   apply (rule marker_publish[OF assms])
  apply (intro io_keeps)
  done

lemma marker_attempt: "marker S k w (snd (fin_attempt F E A S key l input w))"
  unfolding fin_attempt_def
  apply (rule marker_then, (intro io_keeps)[1])
  apply (rule marker_then, (intro io_keeps)[1])
  apply (rule marker_bind, (intro io_keeps)[1])
  apply (rule marker_then, (intro io_keeps)[1])
  apply (rule marker_then, (intro io_keeps)[1])
  apply (rule marker_then, (intro io_keeps)[1])
  apply (rule marker_bind, (intro io_keeps)[1])
  apply (rule marker_then, (intro io_keeps)[1])
  apply (rule marker_then, (intro io_keeps)[1])
  apply (drule verified_pair)
  apply (erule marker_finish)
  done

lemma marker_catch: "marker S k w (snd (m w)) \<Longrightarrow> marker S k w (snd (catch_io m w))"
  by (simp add: io_apply split_beta)

lemma marker_continue:
  fixes w :: "'a fworld"
  shows "marker S k w (snd (fin_continue F E A S key l input w))"
proof -
  have rec: "marker S k w (snd (reconcile F E A S key w))" for w
    unfolding reconcile_def
    apply (rule marker_then, (intro io_keeps)[1])
    apply (rule marker_last)
     apply (rule marker_catch, rule marker_completed)
    apply (intro io_keeps)
    done
  have att: "marker S k w (snd (then_io (retry_due E) (run_attempt F E A S key l input) w))" for w
    unfolding run_attempt_def
    apply (rule marker_then, (intro io_keeps)[1])
    apply (rule marker_then, (intro io_keeps)[1])
    apply (rule marker_then, (intro io_keeps)[1])
    apply (rule marker_last)
     apply (rule marker_catch, rule marker_attempt)
    apply (intro io_keeps)
    done
  have exh: "marker S k w (snd (then_io (set_mem (\<lambda>s. s\<lparr>rt_status := ''exhausted'', rt_next := None\<rparr>))
       (then_io (save_state F E key) (throw EExhausted :: ('a fworld, outcome) io)) w))" for w
    by (intro marker_same so.at_keeps io_keeps)
  have branch: "marker S k w (snd ((if c then a else b) w))"
    if "marker S k w (snd (a w))" "marker S k w (snd (b w))" for c and a b :: "('a fworld, outcome) io"
    using that by simp
  have get: "snd (bind_io (get_io g) f v) = snd (f (g v) v)" for g f and v :: "'a fworld"
    by (simp add: io_apply)
  show ?thesis
    unfolding fin_continue_def get
    by (intro branch rec att exh marker_completed)
qed

lemma quiet_out: "quiet w t \<Longrightarrow> same_out w t"
  by (simp add: quiet_def same_out_def)

lemma fin_run_marker:
  assumes "fin_run F E C A S run w = (r, w')"
  shows "marker S key w w'"
  using assms
proof (cases rule: fin_run_cases)
  case (early e)
  then show ?thesis by (intro marker_same quiet_out)
next
  case (load l input snaps dg w1 e)
  have "same_out w1 w'" by (rule so.keepsD[OF out_load load(3)])
  with quiet_out[OF load(1)] show ?thesis by (blast intro: marker_same so.trans_R)
next
  case (tampered l input snaps dg w1 w2 e)
  have "same_out w1 w2" by (rule so.keepsD[OF out_load tampered(3)])
  with quiet_out[OF tampered(1)] quiet_out[OF tampered(4)] show ?thesis by (blast intro: marker_same so.trans_R)
next
  case (continue l input snaps dg w1 w2 w3 frozen)
  have "same_out w1 w2" by (rule so.keepsD[OF out_load continue(3)])
  with quiet_out[OF continue(1)] quiet_out[OF continue(5)] have "same_out w w3" by (blast intro: so.trans_R)
  moreover have "marker S key w3 w'" using marker_continue[of S key w3] continue(6) by (metis snd_conv)
  ultimately show ?thesis by (rule marker_same_before)
qed

section \<open>Successful runs\<close>

definition accepted :: "'x archiver \<Rightarrow> aref \<Rightarrow> bytes \<Rightarrow> bool" where
  \<comment> \<open>the archive has verified a reference to these bytes\<close>
  "accepted A ref data \<longleftrightarrow> validate_ref ref = None \<and> rf_sha ref = digest data \<and> (\<exists>x x'. ar_verify A ref x = (Inr (), x'))"

definition published :: "fwire \<Rightarrow> 'x archiver \<Rightarrow> 'x signer \<Rightarrow> 'x fworld \<Rightarrow> string \<Rightarrow> outcome \<Rightarrow> bool" where
  "published F A S w key res \<longleftrightarrow> (\<exists>rcpt bundle b.
     fd_out w key ''receipt.json'' = Regular rcpt \<and> fd_out w key ''receipt.bundle.json'' = Regular bundle \<and>
     fd_out w key ''result.json'' = Regular b \<and> enc (fw_outcome F) res = Inr b \<and>
     accepted A (oc_receipt res) rcpt \<and> accepted A (oc_bundle res) bundle \<and>
     (\<exists>x x'. sn_verify S rcpt bundle x = (Inr (), x')) \<and> oc_signature res = ''verified'')"

lemma for_io_Inr:
  assumes "for_io xs f w = (Inr u, w')" "x \<in> set xs"
  shows "\<exists>t t'. f x t = (Inr (), t')"
  using assms
proof (induction xs arbitrary: w)
  case (Cons y ys)
  from Cons.prems(1) obtain t where y: "f y w = (Inr (), t)" and ys: "for_io ys f t = (Inr u, w')"
    by (auto simp: then_Inr_iff)
  from Cons.prems(2) show ?case
  proof (cases "x = y")
    case True
    with y show ?thesis by blast
  next
    case False
    with Cons.prems(2) Cons.IH[OF ys] show ?thesis by simp
  qed
qed simp

lemma ext_Inr: "ext_io m w = (Inr y, t) \<Longrightarrow> \<exists>x'. m (fd_ext w) = (Inr y, x') \<and> t = w\<lparr>fd_ext := x'\<rparr>"
  by (auto simp: ext_io_def split: prod.splits)

lemma lookup_in_set: "map_of m k = Some v \<Longrightarrow> (k, v) \<in> set m"
  by (rule map_of_SomeD)

lemma zero_ref_invalid: "validate_ref zero_aref \<noteq> None"
  by (simp add: validate_ref_def zero_aref_def safe_text_def)

lemma read_exact_Inr:
  assumes "read_exact E key name limit dg msg w = (Inr b, t)"
  shows "digest b = dg \<and> quiet w t"
proof -
  from assms show ?thesis unfolding read_exact_def
  proof (cases rule: bind_cases)
    case (goes x t1)
    have "quiet w t1" by (rule quietD[OF quiet_read_state goes(1)])
    with goes(2) show ?thesis by (cases x) (auto simp: Inr_iffs)
  qed simp
qed

lemma fin_completed_Inr:
  assumes c: "fin_completed F E A S key adm w = (Inr res, w')"
  shows "published F A S w' key res"
proof -
  let ?s = "fd_mem w"
  from c have res: "res = fin_result ?s" by (auto simp: fin_completed_def Inr_iffs get_io_def)
  from c obtain rcpt bdl t1 t2 t3 t4 where
      rd: "read_exact E key ''receipt.json'' max_receipt (rt_receipt_sha ?s) ''completed receipt tampered'' w = (Inr rcpt, t1)"
        "read_exact E key ''receipt.bundle.json'' max_bundle (rt_bundle_sha ?s) ''completed bundle tampered'' t1 = (Inr bdl, t2)"
      and rest: "bind_io (lift_io (parse_receipt F rcpt)) (\<lambda>r.
     then_io (require (rc_identity r = rt_identity ?s \<and> rc_finalizer r = rt_policy ?s) EConflict)
     (then_io (ext_io (sn_verify S rcpt bdl))
     (then_io (for_io (entries (rt_objects ?s)) (check_object A ?s))
     (then_io (lift_io (to_res (validate_ref (oc_receipt (fin_result ?s)))))
     (then_io (lift_io (to_res (validate_ref (oc_bundle (fin_result ?s)))))
     (then_io (if adm then fin_protect A else ret ())
     (then_io (fin_publish F E key (fin_result ?s) rcpt bdl) (ret (fin_result ?s))))))))) t2 = (Inr res, w')"
    by (auto simp: fin_completed_def bind_Inr_iff get_io_def)
  have dg: "digest rcpt = rt_receipt_sha ?s" "digest bdl = rt_bundle_sha ?s"
    using read_exact_Inr[OF rd(1)] read_exact_Inr[OF rd(2)] by simp_all
  from rest obtain u1 u2 u3 u4 u5 where
      ver: "ext_io (sn_verify S rcpt bdl) u1 = (Inr (), u2)"
      and objs: "for_io (entries (rt_objects ?s)) (check_object A ?s) u2 = (Inr (), u3)"
      and vr: "validate_ref (oc_receipt (fin_result ?s)) = None" "validate_ref (oc_bundle (fin_result ?s)) = None"
      and pub: "fin_publish F E key (fin_result ?s) rcpt bdl u4 = (Inr (), w')"
    by (auto simp: Inr_iffs)
  have obj: "lookup_or zero_aref (entries (rt_objects ?s)) name \<noteq> zero_aref \<Longrightarrow>
      \<exists>t t'. check_object A ?s (name, lookup_or zero_aref (entries (rt_objects ?s)) name) t = (Inr (), t')" for name
    using for_io_Inr[OF objs] lookup_in_set by (fastforce simp: lookup_or_def split: option.splits)
  have acc: "accepted A (oc_receipt (fin_result ?s)) rcpt"
  proof -
    have "oc_receipt (fin_result ?s) \<noteq> zero_aref" using vr(1) zero_ref_invalid by metis
    then obtain t t' where "check_object A ?s (''receipt.json'', oc_receipt (fin_result ?s)) t = (Inr (), t')"
      using obj[of "''receipt.json''"] by (auto simp: fin_result_def)
    then show ?thesis using vr(1) dg by (auto simp: accepted_def check_object_def Inr_iffs dest!: ext_Inr)
  qed
  have acc': "accepted A (oc_bundle (fin_result ?s)) bdl"
  proof -
    have "oc_bundle (fin_result ?s) \<noteq> zero_aref" using vr(2) zero_ref_invalid by metis
    then obtain t t' where "check_object A ?s (''receipt.bundle.json'', oc_bundle (fin_result ?s)) t = (Inr (), t')"
      using obj[of "''receipt.bundle.json''"] by (auto simp: fin_result_def)
    then show ?thesis using vr(2) dg by (auto simp: accepted_def check_object_def Inr_iffs dest!: ext_Inr)
  qed
  from fin_publish_result[OF pub, of "()"] acc acc' verified_pair[OF ver] show ?thesis
    by (auto simp: published_def res fin_result_def)
qed

lemma fin_put_Inr:
  assumes p: "fin_put F E A key name data w = (Inr ref, w')" and F: "sound_codec (fw_retry F)"
  shows "map_of (entries (rt_objects (fd_mem w'))) name = Some ref \<and> accepted A ref data \<and> ref_matches ref data"
proof (cases "map_of (entries (rt_objects (fd_mem w))) name")
  case (Some r)
  with p obtain t t1 t2 where "ref = r" "validate_ref r = None" "ref_matches r data" "ext_io (ar_verify A r) w = (Inr (), t1)"
      "ext_io (ar_protect A r) t1 = (Inr (), w')"
    by (auto simp: fin_put_def Inr_iffs get_io_def)
  then show ?thesis using Some by (auto simp: accepted_def ref_matches_def dest!: ext_Inr)
next
  case None
  with p obtain t1 t2 t3 t4 where put: "ext_io (ar_put A name data) w = (Inr ref, t1)" "validate_ref ref = None"
      "ref_matches ref data" "ext_io (ar_verify A ref) t1 = (Inr (), t2)"
      "set_mem (\<lambda>s. s\<lparr>rt_objects := Some (AList.update name ref (entries (rt_objects s)))\<rparr>) t2 = (Inr (), t3)"
      "save_state F E key t3 = (Inr (), w')"
    by (auto simp: fin_put_def Inr_iffs get_io_def)
  have "fd_mem w' = fd_mem t3" by (rule save_state_effect(1)[OF F put(6)])
  with put show ?thesis
    by (auto simp: set_mem_def io_apply accepted_def ref_matches_def update_conv dest!: ext_Inr)
qed

lemma fin_finish_Inr:
  assumes f: "fin_finish F E A key rcpt bundle w = (Inr res, w')" and F: "sound_codec (fw_retry F)"
    and ver: "\<exists>x x'. sn_verify S rcpt bundle x = (Inr (), x')"
  shows "published F A S w' key res \<and> ref_matches (oc_receipt res) rcpt \<and> ref_matches (oc_bundle res) bundle"
proof -
  from f obtain t1 t2 t3 t4 t5 t6 r1 r2 where
      p1: "fin_put F E A key ''receipt.json'' rcpt t1 = (Inr r1, t2)"
      and p2: "fin_put F E A key ''receipt.bundle.json'' bundle t2 = (Inr r2, t3)"
      and st: "set_stage F E key ''publish'' t3 = (Inr (), t4)"
      and pr: "fin_protect A t4 = (Inr (), t5)"
      and pub: "fin_publish F E key (fin_result (fd_mem t4)) rcpt bundle t5 = (Inr (), t6)"
      and fin: "fin_complete F E key t6 = (Inr (), w')" and res: "res = fin_result (fd_mem t4)"
    by (auto simp: fin_finish_def Inr_iffs get_io_def)
  note a1 = fin_put_Inr[OF p1 F] and a2 = fin_put_Inr[OF p2 F]
  have l1: "later (fd_mem t2) (fd_mem t3)"
    using prog.keepsD[OF keeps_put[OF F] p2] by (simp add: progress_def)
  have l2: "later (fd_mem t3) (fd_mem t4)"
    using prog.keepsD[OF keeps_stage[OF F] st] by (simp add: progress_def)
  have "map_of (entries (rt_objects (fd_mem t4))) ''receipt.json'' = Some r1"
    "map_of (entries (rt_objects (fd_mem t4))) ''receipt.bundle.json'' = Some r2"
    using a1 a2 l1 l2 by (auto simp: later_def)
  then have refs: "oc_receipt res = r1" "oc_bundle res = r2" by (simp_all add: res fin_result_def)
  have out: "fd_out w' = fd_out t6" by (rule outD[OF out_complete fin])
  from fin_publish_result[OF pub, of "()"] a1 a2 ver show ?thesis
    by (auto simp: published_def out res[symmetric] refs) (simp_all add: res fin_result_def)
qed

lemma fin_attempt_Inr:
  fixes w w' :: "'x fworld"
  assumes a: "fin_attempt F E A S key l input w = (Inr res, w')" and F: "sound_codec (fw_retry F)"
  obtains rcpt bdl and u :: "'x fworld" where "fin_finish F E A key rcpt bdl u = (Inr res, w')"
    "\<exists>x x'. sn_verify S rcpt bdl x = (Inr (), x')" "rt_identity (fd_mem u) = rt_identity (fd_mem w)"
proof -
  from a obtain rcpt bdl t1 t2 t3 t4 t5 t6 t7 t8 where
      s1: "set_stage F E key ''archive'' w = (Inr (), t1)"
      and s2: "for_io (artifact_order input) (\<lambda>name. then_io (fin_put F E A key name (lookup_or [] input name)) (ret ())) t1 = (Inr (), t2)"
      and s3: "fin_build F E l input t2 = (Inr rcpt, t3)"
      and s4: "write_state E key ''receipt.json'' rcpt t3 = (Inr (), t4)"
      and s5: "set_mem (\<lambda>s. s\<lparr>rt_receipt_sha := digest rcpt, rt_stage := ''sign''\<rparr>) t4 = (Inr (), t5)"
      and s6: "save_state F E key t5 = (Inr (), t6)"
      and s7: "fin_sign F E S key rcpt t6 = (Inr bdl, t7)"
      and s8: "set_stage F E key ''verify'' t7 = (Inr (), t8)"
    and rest: "then_io (ext_io (sn_verify S rcpt bdl)) (fin_finish F E A key rcpt bdl) t8 = (Inr res, w')"
    by (auto simp: fin_attempt_def Inr_iffs)
  from rest obtain u where v: "ext_io (sn_verify S rcpt bdl) t8 = (Inr (), u)" and f: "fin_finish F E A key rcpt bdl u = (Inr res, w')"
    by (auto simp: then_Inr_iff)
  have "rt_identity (fd_mem t1) = rt_identity (fd_mem w)"
    using prog.keepsD[OF keeps_stage[OF F] s1] by (simp add: progress_def later_def)
  moreover have "rt_identity (fd_mem t2) = rt_identity (fd_mem t1)"
    using prog.keepsD[OF prog.keeps_for[OF prog.keeps_then[OF keeps_put[OF F] prog.keeps_ret]] s2]
    by (simp add: progress_def later_def)
  moreover have "rt_identity (fd_mem t5) = rt_identity (fd_mem t2)"
    using fin_build_Inr(1)[OF s3] mem_simps(5)[of E key "''receipt.json''" rcpt t3] s4 s5 by (auto simp: set_mem_def io_apply)
  moreover have "rt_identity (fd_mem t6) = rt_identity (fd_mem t5)"
    using save_state_effect(1)[OF F s6] by simp
  moreover have "rt_identity (fd_mem t7) = rt_identity (fd_mem t6)"
    using prog.keepsD[OF keeps_sign[OF F] s7] by (simp add: progress_def later_def)
  moreover have "rt_identity (fd_mem t8) = rt_identity (fd_mem t7)"
    using prog.keepsD[OF keeps_stage[OF F] s8] by (simp add: progress_def later_def)
  moreover have "fd_mem u = fd_mem t8" using v by (auto dest: ext_Inr)
  ultimately show ?thesis using that[OF f verified_pair[OF v]] by simp
qed

lemma fin_finish_identity:
  assumes f: "fin_finish F E A key rcpt bdl w = (Inr res, w')" and F: "sound_codec (fw_retry F)"
  shows "oc_identity res = rt_identity (fd_mem w) \<and> oc_kind res = ''cleanup-finalization-result/v1'' \<and> oc_signature res = ''verified''"
proof -
  from f obtain t1 t2 t3 t4 r1 r2 where
      p0: "set_stage F E key ''archive_signed'' w = (Inr (), t1)"
      and p1: "fin_put F E A key ''receipt.json'' rcpt t1 = (Inr r1, t2)"
      and p2: "fin_put F E A key ''receipt.bundle.json'' bdl t2 = (Inr r2, t3)"
      and st: "set_stage F E key ''publish'' t3 = (Inr (), t4)" and res: "res = fin_result (fd_mem t4)"
    by (auto simp: fin_finish_def Inr_iffs get_io_def)
  have "later (fd_mem w) (fd_mem t1)" "later (fd_mem t1) (fd_mem t2)" "later (fd_mem t2) (fd_mem t3)" "later (fd_mem t3) (fd_mem t4)"
    using prog.keepsD[OF keeps_stage[OF F] p0] prog.keepsD[OF keeps_put[OF F] p1] prog.keepsD[OF keeps_put[OF F] p2]
      prog.keepsD[OF keeps_stage[OF F] st] by (simp_all add: progress_def)
  then show ?thesis by (simp add: res fin_result_def later_def)
qed

lemma save_failure_Inl [simp]: "save_failure F E key e u \<noteq> (Inr x, t)"
  by (auto simp: save_failure_def io_apply split: prod.splits sum.splits)

lemma fin_continue_published:
  assumes c: "fin_continue F E A S key l input w = (Inr res, w')" and F: "sound_codec (fw_retry F)"
  shows "published F A S w' key res"
proof -
  have pub_out: "published F A S u key res" if "published F A S t key res" "fd_out u = fd_out t" for t u
    using that by (simp add: published_def)
  consider (completed) "fin_completed F E A S key False w = (Inr res, w')"
    | (reconciled) "reconcile F E A S key w = (Inr res, w')"
    | (stopped) "then_io (set_mem (\<lambda>s. s\<lparr>rt_status := ''exhausted'', rt_next := None\<rparr>))
       (then_io (save_state F E key) (throw EExhausted)) w = (Inr res, w')"
    | (attempted) "then_io (retry_due E) (run_attempt F E A S key l input) w = (Inr res, w')"
    using c by (auto simp: fin_continue_def bind_io_def get_io_def split: if_splits)
  then show ?thesis
  proof cases
    case completed
    then show ?thesis by (rule fin_completed_Inr)
  next
    case reconciled
    then obtain t where "bind_io (catch_io (fin_completed F E A S key True)) (\<lambda>r. case r of
        Inl e \<Rightarrow> bind_io (tick_io (fe_now E)) (\<lambda>now.
          then_io (set_mem (\<lambda>s. s\<lparr>rt_status := ''recovering'', rt_error := ''reconcile_failed'', rt_next := Some (now + minute)\<rparr>))
          (save_failure F E key e))
      | Inr res \<Rightarrow> then_io (fin_complete F E key) (ret res)) t = (Inr res, w')"
      unfolding reconcile_def then_Inr_iff by blast
    then obtain r t' where r: "fin_completed F E A S key True t = (r, t')"
      and k: "(case r of Inl e \<Rightarrow> bind_io (tick_io (fe_now E)) (\<lambda>now.
          then_io (set_mem (\<lambda>s. s\<lparr>rt_status := ''recovering'', rt_error := ''reconcile_failed'', rt_next := Some (now + minute)\<rparr>))
          (save_failure F E key e))
      | Inr res \<Rightarrow> then_io (fin_complete F E key) (ret res)) t' = (Inr res, w')"
      by (auto simp: bind_Inr_iff catch_io_def split: prod.splits)
    show ?thesis
    proof (cases r)
      case (Inl e)
      with k Inl show ?thesis by (auto simp: Inr_iffs)
    next
      case (Inr res')
      with k have "fin_complete F E key t' = (Inr (), w')" "res' = res" by (auto simp: Inr_iffs)
      moreover have "published F A S t' key res"
        using fin_completed_Inr[of F E A S key True t res t'] r Inr \<open>res' = res\<close> by simp
      ultimately show ?thesis using pub_out outD[OF out_complete] by blast
    qed
  next
    case stopped
    then show ?thesis by (auto simp: Inr_iffs)
  next
    case attempted
    then obtain t where "bind_io (catch_io (fin_attempt F E A S key l input)) (\<lambda>r. case r of
        Inl e \<Rightarrow> then_io (fail_attempt E) (save_failure F E key e) | Inr res \<Rightarrow> ret res) t = (Inr res, w')"
      unfolding run_attempt_def then_Inr_iff by blast
    then obtain r t' where r: "fin_attempt F E A S key l input t = (r, t')"
      and k: "(case r of Inl e \<Rightarrow> then_io (fail_attempt E) (save_failure F E key e) | Inr res \<Rightarrow> ret res) t' = (Inr res, w')"
      by (auto simp: bind_Inr_iff catch_io_def split: prod.splits)
    show ?thesis
    proof (cases r)
      case (Inl e)
      with k Inl show ?thesis by (auto simp: then_Inr_iff)
    next
      case (Inr res')
      with k r have "fin_attempt F E A S key l input t = (Inr res, w')" by (simp add: io_apply)
      then show ?thesis
      proof (rule fin_attempt_Inr[OF _ F])
        fix rcpt bdl and u :: "'a fworld"
        assume f: "fin_finish F E A key rcpt bdl u = (Inr res, w')" and v: "\<exists>x x'. sn_verify S rcpt bdl x = (Inr (), x')"
        show ?thesis using fin_finish_Inr[OF f F v] by simp
      qed
    qed
  qed
qed

lemma fin_run_published:
  assumes run: "fin_run F E C A S run w = (Inr res, w')" and F: "sound_codec (fw_retry F)"
  shows "\<exists>key. published F A S w' key res"
  using run
proof (cases rule: fin_run_cases)
  case (continue l input snaps dg w1 w2 w3 frozen)
  show ?thesis using fin_continue_published[OF continue(6) F] by blast
qed simp_all

section \<open>The contracts of the archive and the signer\<close>

text \<open>
  What the engine needs of an archiver and of a signer for its result to be accepted by the
  readers of the archive: verified references are well-formed, stored objects are the ones given,
  and a verified pair is a receipt under the pinned policy with a bounded bundle.
\<close>

locale archive_contract =
  fixes A :: "'x archiver"
  assumes verify_ref: "ar_verify A r x = (Inr (), x') \<Longrightarrow> aref_validate r = None"
    and protect_ref: "ar_protect A r x = (Inr (), x') \<Longrightarrow> aref_validate r = None"
    and put_ref: "ar_put A name data x = (Inr r, x') \<Longrightarrow> aref_validate r = None \<and> ref_matches r data"

locale signer_contract =
  fixes F :: fwire and S :: "'x signer" and policy :: signer_policy
  assumes verify_pair: "sn_verify S data bdl x = (Inr (), x') \<Longrightarrow>
    (\<exists>r. parse_receipt F data = Inr r \<and> rc_finalizer r = policy) \<and> bdl \<noteq> [] \<and> int (length bdl) \<le> max_bundle"

locale services = archive_contract A + signer_contract F S policy
  for A :: "'x archiver" and F :: fwire and S :: "'x signer" and policy :: signer_policy
begin

lemma published_policy:
  assumes "published F A S w key res"
  shows "\<exists>rcpt r. fd_out w key ''receipt.json'' = Regular rcpt \<and> parse_receipt F rcpt = Inr r \<and> rc_finalizer r = policy \<and>
    aref_validate (oc_receipt res) = None \<and> aref_validate (oc_bundle res) = None"
  using assms verify_pair verify_ref unfolding published_def accepted_def by blast

lemma finish_outcome:
  assumes f: "fin_finish F E A key rcpt bdl w = (Inr res, w')" and F: "sound_codec (fw_retry F)"
    and v: "sn_verify S rcpt bdl x = (Inr (), x')" and i: "identity_validate (rt_identity (fd_mem w)) = None"
  shows "outcome_ok res"
proof -
  obtain r where p: "parse_receipt F rcpt = Inr r" and b: "bdl \<noteq> []" "int (length bdl) \<le> max_bundle"
    using verify_pair[OF v] by blast
  have "published F A S w' key res" "ref_matches (oc_receipt res) rcpt" "ref_matches (oc_bundle res) bdl"
    using fin_finish_Inr[OF f F] v by blast+
  moreover have "rcpt \<noteq> []" "int (length rcpt) \<le> max_receipt" using parse_receipt_Inr[OF p] by simp_all
  ultimately show ?thesis
    using published_policy fin_finish_identity[OF f F] b i
    by (auto simp: outcome_ok_def ref_matches_def Suc_le_eq max_receipt_def max_bundle_def)
qed

lemma attempt_outcome:
  assumes a: "fin_attempt F E A S key l input w = (Inr res, w')" and F: "sound_codec (fw_retry F)"
    and i: "identity_validate (rt_identity (fd_mem w)) = None"
  shows "outcome_ok res \<and> published F A S w' key res"
proof -
  from a show ?thesis
  proof (rule fin_attempt_Inr[OF _ F])
    fix rcpt bdl u
    assume f: "fin_finish F E A key rcpt bdl u = (Inr res, w')" and v: "\<exists>x x'. sn_verify S rcpt bdl x = (Inr (), x')"
      and id: "rt_identity (fd_mem u) = rt_identity (fd_mem w)"
    from v obtain x x' where "sn_verify S rcpt bdl x = (Inr (), x')" by blast
    with f have "outcome_ok res" by (rule finish_outcome[OF _ F]) (use i id in simp)
    with fin_finish_Inr[OF f F v] show ?thesis by simp
  qed
qed

end

section \<open>The engine over the archive client and Cosign\<close>

definition client_archiver :: "archive_config \<Rightarrow> 's s3 \<Rightarrow> ('s \<Rightarrow> time) \<Rightarrow> 's archiver" where
  "client_archiver c S3 clock = \<lparr>ar_put = (\<lambda>name data s. archive_put c S3 (clock s) name data s),
     ar_verify = archive_verify c S3, ar_protect = (\<lambda>r s. archive_protect c S3 (clock s) r s)\<rparr>"

definition cosign_signer :: "fwire \<Rightarrow> cosign \<Rightarrow> ('s \<Rightarrow> 's cosign_env) \<Rightarrow> 's signer" where
  "cosign_signer F c E = \<lparr>sn_sign = (\<lambda>data s. cosign_sign F c (E s) data s),
     sn_verify = (\<lambda>data bdl s. cosign_verify F c (E s) data bdl s)\<rparr>"

lemma archive_verify_valid: "archive_verify c S r s = (Inr u, s') \<Longrightarrow> aref_validate r = None"
  using archive_verify_Inr archive_read_Inr client_validate_None(1) by metis

lemma archive_protect_valid: "archive_protect c S now r s = (Inr u, s') \<Longrightarrow> aref_validate r = None"
  using archive_protect_Inr archive_read_Inr client_validate_None(1) by metis

interpretation client: archive_contract "client_archiver c S3 clock" for c S3 clock
proof
  fix r name data and x x' :: 'a
  show "aref_validate r = None" if "ar_verify (client_archiver c S3 clock) r x = (Inr (), x')"
    using that archive_verify_valid by (simp add: client_archiver_def)
  show "aref_validate r = None" if "ar_protect (client_archiver c S3 clock) r x = (Inr (), x')"
    using that archive_protect_valid by (simp add: client_archiver_def)
  show "aref_validate r = None \<and> ref_matches r data" if "ar_put (client_archiver c S3 clock) name data x = (Inr r, x')"
    using that archive_put_Inr[of c S3 "clock x" name data x r x'] archive_protect_valid
    by (auto simp: client_archiver_def ref_matches_def)
qed

interpretation cosigned: signer_contract F "cosign_signer F c E" "cs_policy c" for F c E
  by unfold_locales (auto simp: cosign_signer_def dest: cosign_verify_Inr)

interpretation engine: services "client_archiver c S3 clock" F "cosign_signer F cs E" "cs_policy cs" for c S3 clock F cs E
  by unfold_locales

end
