(* ===== verification/Completion.thy ===== *)
theory Completion
  imports Publication
begin

text \<open>
  Completion: from an accepted coordinator snapshot the receipt builder cannot fail, and a run of the
  engine without faults ends with a published receipt in its first attempt.
\<close>

section \<open>The builder is total on accepted snapshots\<close>

definition receipt_texts_ok :: "ledger \<Rightarrow> signer_policy \<Rightarrow> bool" where
  \<comment> \<open>what the receipt schema asks of texts that the coordinator and the operator supply\<close>
  "receipt_texts_ok l p \<longleftrightarrow>
     (\<forall>t \<in> set [i_repository (l_identity l), i_job (l_identity l)]. safe_text t 255 False) \<and>
     (\<forall>t \<in> set [l_cluster_uid l, l_resource_uid l, l_runner_uid l, l_job_uid l, l_pod_uid l]. safe_text t 255 True) \<and>
     revision_pattern (sp_revision p) \<and> hex_n 64 (sp_trust_root p) \<and> hex_n 64 (sp_cosign p) \<and>
     hex_n 64 (sp_signing_config p) \<and> safe_text (sp_issuer p) 1024 False \<and> safe_text (sp_identity p) 1024 False"

definition accepted_ledger :: "string \<Rightarrow> ledger \<Rightarrow> bool" where
  \<comment> \<open>what \<open>readInputs\<close> establishes of the ledger\<close>
  "accepted_ledger run l \<longleftrightarrow> hex_n 32 run \<and> l_kind l = ''local-ci-run/v1'' \<and> l_token l = run \<and> i_run (l_identity l) = run \<and>
     i_provider (l_identity l) = ''local'' \<and> l_resource_ns l = ''proof-'' @ run \<and>
     l_runner_ns l = ''proof-runner-'' @ run \<and> l_phase l = ''complete'' \<and> l_created l \<noteq> 0 \<and>
     l_created l \<le> l_updated l \<and> identity_validate (l_identity l) = None"

definition snapshot_archived :: "bytes gomap \<Rightarrow> aref gomap \<Rightarrow> bool" where
  \<comment> \<open>every artifact of the snapshot, and no other, has a valid reference to its bytes\<close>
  "snapshot_archived input objs \<longleftrightarrow> distinct_keys objs \<and>
     (\<forall>k \<in> set artifact_names. case map_of input k of
        None \<Rightarrow> \<not> has_key objs k
      | Some b \<Rightarrow> (\<exists>ref. map_of objs k = Some ref \<and> validate_ref ref = None \<and> rf_sha ref = digest b \<and>
          rf_size ref = int (length b) \<and> (k \<noteq> ''job.log'' \<longrightarrow> int (length b) \<le> max_receipt)))"

text \<open>The coverage under construction always has the five components, each well formed.\<close>

definition entry_ok :: "observation \<Rightarrow> bool" where
  "entry_ok ob \<longleftrightarrow> safe_text (o_reason ob) 512 False \<and>
     o_status ob \<in> {''verified'', ''failed'', ''unsupported'', ''unobservable''} \<and>
     o_observer ob \<in> {''trusted'', ''job'', ''none''} \<and> (o_observer ob = ''none'' \<longrightarrow> o_status ob = ''unobservable'')"

definition coverage_ok :: "observation gomap \<Rightarrow> bool" where
  "coverage_ok c \<longleftrightarrow> map fst c = components \<and> (\<forall>k \<in> set components. entry_ok (cov c k))"

lemma coverage_ok_update:
  assumes "coverage_ok c" "k \<in> set components" "entry_ok ob"
  shows "coverage_ok (AList.update k ob c)"
proof -
  have "has_key c k" using assms(1,2) by (simp add: coverage_ok_def has_key_iff flip: set_map)
  with assms show ?thesis by (simp add: coverage_ok_def)
qed

lemma coverage_ok_valid:
  assumes "coverage_ok c"
  shows "validate_coverage c = None"
proof -
  have keys: "map fst c = components" using assms by (simp add: coverage_ok_def)
  then have "length c = length components" by (metis length_map)
  moreover have "coverage_entry c k = None" if "k \<in> set components" for k
  proof -
    have "has_key c k" using that keys by (simp add: has_key_iff flip: set_map)
    moreover have "entry_ok (cov c k)" using assms that by (simp add: coverage_ok_def)
    ultimately show ?thesis by (auto simp: coverage_entry_def entry_ok_def)
  qed
  ultimately show ?thesis by (auto simp: validate_coverage_def)
qed

lemma safe_text_weaken: "safe_text s n e \<Longrightarrow> n \<le> m \<Longrightarrow> safe_text s m e"
  by (auto simp: safe_text_def split: if_splits)

lemma bounded_entry: "entry_ok (bounded_obs ob) \<longleftrightarrow>
    o_status ob \<in> {''verified'', ''failed'', ''unsupported'', ''unobservable''} \<and>
    o_observer ob \<in> {''trusted'', ''job'', ''none''} \<and> (o_observer ob = ''none'' \<longrightarrow> o_status ob = ''unobservable'')"
  using safe_text_weaken[OF bounded_reason_safe[of "o_reason ob"], of 512] by (auto simp: entry_ok_def)

lemma fixed_entry:
  assumes "\<forall>c \<in> set m. (32::nat) \<le> of_char c \<and> (of_char c::nat) < 127" "m \<noteq> []" "length m \<le> 512"
  shows "entry_ok (obs ''unobservable'' ''none'' m)"
  using safe_text_ascii[of m 512 False] assms by (simp add: entry_ok_def)

lemma no_observation_ok: "coverage_ok (map (\<lambda>k. (k, no_observation)) components)"
proof -
  have "entry_ok no_observation" unfolding no_observation_def by (rule fixed_entry) simp_all
  then show ?thesis by (simp add: coverage_ok_def map_pair_lookup comp_def)
qed

lemma merge_evidence_keys:
  "\<forall>k \<in> set (map fst es). has_key c k \<Longrightarrow> map fst (merge_evidence es c) = map fst c"
  by (induction es c rule: merge_evidence.induct) simp_all

lemma evidence_coverage_ok:
  assumes "receipt_evidence W now l input snaps = Inr (status, c)"
  shows "coverage_ok c"
  using assms
proof (cases rule: receipt_evidence_cases)
  case rejected
  then show ?thesis by (simp add: no_observation_ok)
next
  case (accepted evidence p)
  let ?c0 = "map (\<lambda>k. (k, no_observation)) components"
  have c: "c = merge_evidence (p_coverage p) ?c0"
    using assms accepted(1-6) by (simp add: receipt_evidence_def Let_def)
  have len: "length (p_coverage p) = 5"
    using validate_evidence_None[OF accepted(5)] accepted(6) by auto
  have checks: "\<forall>k \<in> set components. has_key (p_coverage p) k"
    using accepted(8) evidence_obs_check_None(1) by blast
  have "\<forall>k \<in> set (map fst (p_coverage p)). has_key ?c0 k"
  proof
    fix k assume "k \<in> set (map fst (p_coverage p))"
    then have "has_key (p_coverage p) k" by (simp add: has_key_iff)
    from length5_distinct_keys(2)[OF len checks this] show "has_key ?c0 k" by (simp add: map_pair_has_key)
  qed
  then have keys: "map fst c = components" unfolding c by (simp only: merge_evidence_keys) (simp add: comp_def)
  moreover have "entry_ok (cov c k)" if "k \<in> set components" for k
  proof -
    note ck = evidence_obs_check_None[OF accepted(8)[OF that]]
    show ?thesis using that ck(2,5,6) by (auto simp: accepted(7) bounded_entry)
  qed
  ultimately show ?thesis by (simp add: coverage_ok_def)
qed

lemma derived_entry:
  assumes d: "derive_observations W l data res = Inr ob" and k: "k \<in> set components"
  shows "entry_ok (bounded_obs (cov (v_coverage ob) k))"
proof -
  note di = derive_observations_Inr[OF d]
  have base: "entry_ok (bounded_obs (cov (base_coverage l) k))"
  proof -
    have "cov (base_coverage l) k \<in> {unavailable, obs_resources, obs_disposal}"
      using k by (auto simp: components_def base_coverage_simps)
    then show ?thesis by (auto simp: bounded_entry)
  qed
  show ?thesis
  proof (cases res)
    case None
    with di(7) base show ?thesis by simp
  next
    case (Some x)
    note rv = result_validate_None[OF collector_matches_None(1)[OF di(8)[OF Some]]]
    have f: "entry_ok (bounded_obs (trusted_finding f))" if "finding_ok f" for f
      using that by (auto simp: bounded_entry finding_ok_def)
    have creds: "entry_ok (bounded_obs obs_credentials)" "entry_ok (bounded_obs obs_credentials_open)"
      by (simp_all add: bounded_entry)
    consider "k = ''workspace''" | "k = ''logs''" | "k = ''credentials''" | "k \<notin> {''workspace'', ''credentials'', ''logs''}"
      by blast
    then have "entry_ok (bounded_obs (cov (collector_coverage l x (base_coverage l)) k))"
    proof cases
      case 1
      show ?thesis unfolding 1 collector_coverage_simps by (rule f[OF rv(6)])
    next
      case 2
      show ?thesis unfolding 2 collector_coverage_simps by (rule f[OF rv(5)])
    next
      case 3
      show ?thesis unfolding 3 collector_coverage_simps using f[OF rv(7)] creds by presburger
    next
      case 4
      show ?thesis unfolding collector_coverage_simps(4)[OF 4] by (rule base)
    qed
    with di(7) Some show ?thesis by simp
  qed
qed

lemma merge_observed_ok:
  assumes "\<forall>k \<in> set components. entry_ok (bounded_obs (cov oc k))"
  shows "coverage_ok c \<Longrightarrow> set ks \<subseteq> set components \<Longrightarrow> coverage_ok (merge_observed oc ks c)"
proof (induction ks arbitrary: c)
  case (Cons k ks)
  have k: "k \<in> set components" "set ks \<subseteq> set components" using Cons.prems(2) by simp_all
  then have "coverage_ok (AList.update k (bounded_obs (cov oc k)) c)"
    using assms by (blast intro: coverage_ok_update[OF Cons.prems(1)])
  with Cons.IH[OF _ k(2)] Cons.prems(1) show ?case by (simp add: Let_def)
qed simp

lemma observed_coverage_ok:
  assumes c: "coverage_ok c" and W: "sound_codec (w_observations W)"
  shows "coverage_ok (receipt_observed W l input c)"
proof (cases rule: receipt_observed_cases[of W l input c])
  case none
  with c show ?thesis by simp
next
  case (some observed ob)
  from validate_observations_derived[OF some(2) W]
  have "\<forall>k \<in> set components. entry_ok (bounded_obs (cov (v_coverage ob) k))" by (blast intro: derived_entry)
  with c some(3) show ?thesis by (simp only: merge_observed_ok subset_refl)
qed

lemma settled_coverage_ok:
  assumes "coverage_ok c" "status \<in> {''accepted-untrusted'', ''missing'', ''invalid''}"
  shows "coverage_ok (settle_workspace status (settle_logs l input logs c))"
proof -
  have "coverage_ok (settle_logs l input logs c)"
    using assms(1) unfolding settle_logs_def
    by (auto intro!: coverage_ok_update fixed_entry simp: components_def)
  moreover have "entry_ok (obs ''unobservable'' ''none'' (''Preliminary cleanup evidence is '' @ status))"
    using assms(2) by (intro fixed_entry) auto
  ultimately show ?thesis
    unfolding settle_workspace_def by (auto intro!: coverage_ok_update simp: components_def)
qed

lemma final_coverage_ok:
  assumes ev: "receipt_evidence W now l input (rt_snapshots s) = Inr (status, c)"
    and W: "sound_codec (w_observations W)"
  shows "coverage_ok (final_coverage W l input s status c)"
proof -
  have "status \<in> {''accepted-untrusted'', ''missing'', ''invalid''}"
    using ev by (cases rule: receipt_evidence_cases) auto
  with evidence_coverage_ok[OF ev] W show ?thesis
    unfolding final_coverage_def by (intro settled_coverage_ok observed_coverage_ok)
qed

lemma evidence_total: "\<exists>status c. receipt_evidence W now l input snaps = Inr (status, c)"
proof (cases "map_of input ''cleanup-evidence.json''")
  case None
  then show ?thesis by (simp add: receipt_evidence_def Let_def)
next
  case (Some e)
  have "\<exists>p. dec (w_evidence W) e = Inr p" if "validate_evidence W now e l = None"
    using validate_evidence_None[OF that] by blast
  with Some show ?thesis by (cases "validate_evidence W now e l = None") (auto simp: receipt_evidence_def Let_def)
qed

lemma hex_safe: "hex_n n s \<Longrightarrow> 0 < n \<Longrightarrow> n \<le> m \<Longrightarrow> safe_text s m False"
  by (rule safe_text_ascii) (auto simp: hex_n_def list_all_iff lower_hex_def in_rng_def)

lemma draft_identity_ok:
  assumes l: "accepted_ledger run l" and texts: "receipt_texts_ok l (rt_policy s)" and fin: "l_updated l \<le> rt_finalized s"
  shows "receipt_identity_ok (receipt_draft l input s status c) = None"
proof -
  have run: "safe_text run 255 False" using l by (auto simp: accepted_ledger_def intro: hex_safe)
  show ?thesis
    using l texts fin run
    by (simp add: receipt_identity_ok_def receipt_draft_def receipt_binding_def accepted_ledger_def receipt_texts_ok_def)
qed

lemma receipt_objects_lookup:
  "map_of (receipt_objects objs) ''run.json'' = map_of objs ''run.json''"
  "map_of (receipt_objects objs) ''observations.json'' = map_of objs ''observations.json''"
  "map_of (receipt_objects objs) ''cleanup-evidence.json'' = map_of objs ''cleanup-evidence.json''"
  by (simp_all add: receipt_objects_def map_of_filter_key)

lemma archived_case:
  assumes "snapshot_archived input objs" "k \<in> set artifact_names"
  shows "case map_of input k of
        None \<Rightarrow> \<not> has_key objs k
      | Some b \<Rightarrow> (\<exists>ref. map_of objs k = Some ref \<and> validate_ref ref = None \<and> rf_sha ref = digest b \<and>
          rf_size ref = int (length b) \<and> (k \<noteq> ''job.log'' \<longrightarrow> int (length b) \<le> max_receipt))"
  using assms unfolding snapshot_archived_def by blast

lemma archived_lookup:
  assumes "snapshot_archived input objs" "k \<in> set artifact_names" "map_of input k = Some b"
  shows "\<exists>ref. map_of objs k = Some ref \<and> validate_ref ref = None \<and> rf_sha ref = digest b \<and>
    rf_size ref = int (length b) \<and> (k \<noteq> ''job.log'' \<longrightarrow> int (length b) \<le> max_receipt)"
  using archived_case[OF assms(1,2)] unfolding assms(3) option.case .

lemma archived_member:
  assumes a: "snapshot_archived input objs" and k: "k \<in> set artifact_names" and r: "(k, ref) \<in> set objs"
  shows "validate_ref ref = None \<and> (k \<noteq> ''job.log'' \<longrightarrow> rf_size ref \<le> max_receipt)"
proof -
  have m: "map_of objs k = Some ref" using a r by (simp add: snapshot_archived_def)
  then obtain b where "map_of input k = Some b"
    using archived_case[OF a k] by (cases "map_of input k") (simp_all add: has_key_def)
  from archived_lookup[OF a k this] m show ?thesis by auto
qed

lemma length_receipt_objects:
  assumes "distinct_keys objs"
  shows "length (receipt_objects objs) \<le> 3"
proof -
  have d: "distinct_keys (receipt_objects objs)" unfolding receipt_objects_def by (rule distinct_filter_key[OF assms])
  have "set (map fst (receipt_objects objs)) \<subseteq> set [''run.json'', ''observations.json'', ''cleanup-evidence.json'']"
    by (auto simp: receipt_objects_def)
  then have "card (set (map fst (receipt_objects objs))) \<le> card (set [''run.json'', ''observations.json'', ''cleanup-evidence.json''])"
    by (rule card_mono[rotated]) simp
  moreover have "card (set [''run.json'', ''observations.json'', ''cleanup-evidence.json'']) = 3" by simp
  ultimately show ?thesis using distinct_card[OF d] by simp
qed

lemma log_objects_short: "distinct_keys objs \<Longrightarrow> length (receipt_log_objects objs) \<le> 1"
  by (simp add: log_objects_distinct split: option.split)

lemma receipt_object_valid:
  assumes a: "snapshot_archived input objs" and r: "kr \<in> set (receipt_objects objs)"
  shows "receipt_object_ok kr = None"
proof -
  obtain k ref where kr: "kr = (k, ref)" by (cases kr)
  have "(k, ref) \<in> set objs" and k: "k = ''run.json'' \<or> k = ''observations.json'' \<or> k = ''cleanup-evidence.json''"
    using r kr by (simp_all add: receipt_objects_def)
  moreover have "k \<in> set artifact_names" "k \<noteq> ''job.log''" using k by (elim disjE; simp add: artifact_names_def)+
  ultimately have "validate_ref ref = None" "rf_size ref \<le> max_receipt" using archived_member[OF a] by blast+
  with k kr show ?thesis by (simp add: receipt_object_ok_def)
qed

text \<open>The parts of the coverage a passing or log-verified draft rests on.\<close>

lemma draft_verified_logs:
  assumes a: "snapshot_archived input objs" and s: "rt_objects s = Some objs"
    and v: "o_status (cov (final_coverage W l input s status c) ''logs'') = ''verified''"
  shows "receipt_log_objects objs \<noteq> []"
proof -
  from final_coverage_logs[OF v] obtain b where "map_of input ''job.log'' = Some b" by blast
  from archived_lookup[OF a _ this] obtain ref where "map_of objs ''job.log'' = Some ref"
    by (auto simp: artifact_names_def)
  then show ?thesis using a by (simp add: snapshot_archived_def log_objects_distinct)
qed

lemma draft_pass:
  assumes ev: "receipt_evidence W now l input (rt_snapshots s) = Inr (status, c)" and W: "sound_codec (w_observations W)"
    and p: "verdict (final_coverage W l input s status c) = ''pass''"
  shows "status = ''accepted-untrusted''" "runner_disposed l" "l_resource_uid l \<noteq> []"
    "\<exists>observed. map_of input ''observations.json'' = Some observed"
proof -
  let ?c = "final_coverage W l input s status c"
  have all: "o_status (cov ?c k) = ''verified'' \<and> o_observer (cov ?c k) = ''trusted''" if "k \<in> set components" for k
    using p that by (simp only: verdict_pass_iff)
  have names: "''workspace'' \<in> set components" "''resources'' \<in> set components" "''runner_disposal'' \<in> set components"
    by (simp_all add: components_def)
  show "status = ''accepted-untrusted''"
  proof (rule ccontr)
    assume "status \<noteq> ''accepted-untrusted''"
    then show False using all[OF names(1)] final_coverage_failed[of W l input s status c "''workspace''"]
      by (auto simp: final_coverage_def settle_workspace_def split: if_splits)
  qed
  have via: "k = ''resources'' \<and> l_resource_absent l \<and> l_resource_uid l \<noteq> [] \<or>
      k = ''runner_disposal'' \<and> runner_disposed l \<or> k \<noteq> ''resources'' \<and> k \<noteq> ''runner_disposal''"
    and obs: "\<exists>observed. map_of input ''observations.json'' = Some observed"
    if k: "k \<in> set components" for k
  proof -
    obtain observed ob where ob: "map_of input ''observations.json'' = Some observed"
      "validate_observations W observed l (lookup_or [] input ''run.json'') = Inr ob"
      "o_status (cov (v_coverage ob) k) = ''verified''"
      using built_trusted[OF ev k] all[OF k] by metis
    from derived_verified[OF validate_observations_derived[OF ob(2) W] ob(3)]
    show "k = ''resources'' \<and> l_resource_absent l \<and> l_resource_uid l \<noteq> [] \<or>
      k = ''runner_disposal'' \<and> runner_disposed l \<or> k \<noteq> ''resources'' \<and> k \<noteq> ''runner_disposal''" by auto
    from ob(1) show "\<exists>observed. map_of input ''observations.json'' = Some observed" by blast
  qed
  show "runner_disposed l" using via[OF names(3)] by simp
  show "l_resource_uid l \<noteq> []" using via[OF names(2)] by simp
  show "\<exists>observed. map_of input ''observations.json'' = Some observed" by (rule obs[OF names(1)])
qed

lemma draft_archive_ok:
  assumes a: "snapshot_archived input objs" and s: "rt_objects s = Some objs"
    and led: "map_of input ''run.json'' = Some led"
    and ev: "receipt_evidence W now l input (rt_snapshots s) = Inr (status, c)" and W: "sound_codec (w_observations W)"
  shows "receipt_archive_ok (receipt_draft l input s status (final_coverage W l input s status c)) = None"
proof -
  let ?c = "final_coverage W l input s status c"
  have d: "distinct_keys objs" using a by (simp add: snapshot_archived_def)
  have names: "''run.json'' \<in> set artifact_names" "''observations.json'' \<in> set artifact_names"
    "''cleanup-evidence.json'' \<in> set artifact_names" "''job.log'' \<in> set artifact_names"
    by (simp_all add: artifact_names_def)
  from archived_lookup[OF a names(1) led] obtain rref where
    r: "map_of objs ''run.json'' = Some rref" "rf_sha rref = digest led" by blast
  have evidence: "has_key (receipt_objects objs) ''cleanup-evidence.json''" if st: "status = ''accepted-untrusted''"
  proof -
    obtain evidence where "map_of input ''cleanup-evidence.json'' = Some evidence"
      using ev by (cases rule: receipt_evidence_cases) (use st in auto)
    from archived_lookup[OF a names(3) this] show ?thesis by (auto simp: has_key_def receipt_objects_lookup)
  qed
  have observed: "has_key (receipt_objects objs) ''observations.json''" if pass: "verdict ?c = ''pass''"
  proof -
    obtain observed where "map_of input ''observations.json'' = Some observed" using draft_pass(4)[OF ev W pass] by blast
    from archived_lookup[OF a names(2) this] show ?thesis by (auto simp: has_key_def receipt_objects_lookup)
  qed
  have passlogs: "receipt_log_objects objs \<noteq> []" if pass: "verdict ?c = ''pass''"
    by (rule draft_verified_logs[OF a s, of W l status c]) (use pass[unfolded verdict_pass_iff] in \<open>simp add: components_def\<close>)
  have logs_valid: "\<forall>ref \<in> set (receipt_log_objects objs). validate_ref ref = None"
  proof -
    have "validate_ref ref = None" if "map_of objs ''job.log'' = Some ref" for ref
      using archived_member[OF a names(4) map_of_SomeD[OF that]] by simp
    then show ?thesis by (auto simp: log_objects_distinct[OF d] split: option.splits)
  qed
  have objects_valid: "\<forall>kr \<in> set (receipt_objects objs). receipt_object_ok kr = None"
    using receipt_object_valid[OF a] by blast
  show ?thesis
    unfolding receipt_archive_ok_def receipt_draft_def receipt.select_convs s entries_simps Let_def first_err_None_iff
    using r led evidence observed passlogs logs_valid objects_valid draft_verified_logs[OF a s] draft_pass(1-3)[OF ev W]
      length_receipt_objects[OF d] log_objects_short[OF d]
    by (auto simp: has_key_def receipt_objects_lookup receipt_binding_def lookup_or_def runner_disposed_def)
qed

text \<open>
  From a ledger the finalizer accepted and an archived snapshot of it, a receipt is always built:
  no execution can be stuck between archival and signing.
\<close>

lemma build_receipt_total:
  assumes l: "accepted_ledger run l" and texts: "receipt_texts_ok l (rt_policy s)" and fin: "l_updated l \<le> rt_finalized s"
    and a: "snapshot_archived input objs" and s: "rt_objects s = Some objs"
    and led: "map_of input ''run.json'' = Some led" and W: "sound_codec (w_observations W)"
  shows "\<exists>r. build_receipt W now l input s = Inr r"
proof -
  obtain status c where ev: "receipt_evidence W now l input (rt_snapshots s) = Inr (status, c)" using evidence_total by blast
  let ?r = "receipt_draft l input s status (final_coverage W l input s status c)"
  have st: "status \<in> {''accepted-untrusted'', ''missing'', ''invalid''}"
    using ev by (cases rule: receipt_evidence_cases) auto
  have fields: "rc_evidence ?r = status" "rc_coverage ?r = final_coverage W l input s status c"
    "rc_verdict ?r = verdict (final_coverage W l input s status c)" by (simp_all add: receipt_draft_def)
  have "receipt_validate ?r = None"
    unfolding receipt_validate_def first_err_None_iff
    using draft_identity_ok[OF l texts fin] draft_archive_ok[OF a s led ev W] coverage_ok_valid[OF final_coverage_ok[OF ev W]] st
    by (auto simp: fields)
  then show ?thesis by (simp add: build_receipt_def ev Let_def)
qed

section \<open>Total correctness over the state in memory\<close>

text \<open>
  \<open>live s m Q\<close>: from every world whose state in memory is \<open>s\<close>, the method \<open>m\<close> returns normally and
  its value and the state in memory satisfy \<open>Q\<close>.
\<close>

definition live :: "retry \<Rightarrow> ('x fworld, 'a) io \<Rightarrow> ('a \<Rightarrow> retry \<Rightarrow> bool) \<Rightarrow> bool" where
  "live s m Q \<longleftrightarrow> (\<forall>w. fd_mem w = s \<longrightarrow> (\<exists>x w'. m w = (Inr x, w') \<and> Q x (fd_mem w')))"

lemma liveI: "(\<And>w. fd_mem w = s \<Longrightarrow> \<exists>x w'. m w = (Inr x, w') \<and> Q x (fd_mem w')) \<Longrightarrow> live s m Q"
  by (simp add: live_def)

lemma liveD: "live (fd_mem w) m Q \<Longrightarrow> \<exists>x w'. m w = (Inr x, w') \<and> Q x (fd_mem w')"
  by (simp add: live_def)

lemma live_bind:
  assumes m: "live s m R" and f: "\<And>x s'. R x s' \<Longrightarrow> live s' (f x) Q"
  shows "live s (bind_io m f) Q"
proof (rule liveI)
  fix w :: "'a fworld" assume "fd_mem w = s"
  with m obtain x v where mv: "m w = (Inr x, v)" "R x (fd_mem v)" unfolding live_def by blast
  from liveD[OF f[OF mv(2)]] mv(1) show "\<exists>y u. bind_io m f w = (Inr y, u) \<and> Q y (fd_mem u)" by (simp add: io_apply)
qed

lemma live_then: "live s m R \<Longrightarrow> (\<And>x s'. R x s' \<Longrightarrow> live s' n Q) \<Longrightarrow> live s (then_io m n) Q"
  unfolding then_io_def by (rule live_bind)

lemma live_post: "live s m R \<Longrightarrow> (\<And>x s'. R x s' \<Longrightarrow> Q x s') \<Longrightarrow> live s m Q"
  unfolding live_def by blast

lemma live_ret: "Q x s \<Longrightarrow> live s (ret x) Q"
  by (simp add: live_def io_apply)

lemma live_get: "live s (get_io (\<lambda>w. g (fd_mem w))) (\<lambda>x s'. x = g s \<and> s' = s)"
  by (simp add: live_def io_apply)

lemma live_set: "live s (set_mem f) (\<lambda>_ s'. s' = f s)"
  by (simp add: live_def io_apply set_mem_def)

lemma live_lift: "r = Inr x \<Longrightarrow> live s (lift_io r) (\<lambda>y s'. y = x \<and> s' = s)"
  by (simp add: live_def io_apply)

lemma live_require: "b \<Longrightarrow> live s (require b e) (\<lambda>_ s'. s' = s)"
  by (simp add: live_def io_apply)

lemma live_for:
  assumes "\<And>x. x \<in> set xs \<Longrightarrow> live s (f x) (\<lambda>_ s'. s' = s)"
  shows "live s (for_io xs f) (\<lambda>_ s'. s' = s)"
  using assms
proof (induction xs)
  case (Cons x xs)
  have "live s (f x) (\<lambda>_ s'. s' = s)" by (rule Cons.prems) simp
  moreover have "live s (for_io xs f) (\<lambda>_ s'. s' = s)" by (rule Cons.IH) (simp add: Cons.prems)
  ultimately show ?case by (auto intro: live_then)
qed (simp add: live_ret)

lemma live_ext:
  assumes "\<And>x. \<exists>y x'. m x = (Inr y, x') \<and> R y"
  shows "live s (ext_io m) (\<lambda>y s'. R y \<and> s' = s)"
proof (rule liveI)
  fix w :: "'a fworld" assume s: "fd_mem w = s"
  from assms[of "fd_ext w"] obtain y x' where "m (fd_ext w) = (Inr y, x')" "R y" by blast
  with s show "\<exists>x w'. ext_io m w = (Inr x, w') \<and> R x \<and> fd_mem w' = s" by (simp add: ext_io_def)
qed

subsection \<open>A run without faults\<close>

definition calm :: "fenv \<Rightarrow> dir \<Rightarrow> time \<Rightarrow> bool" where
  \<comment> \<open>no operation of the system fails and neither the coordinator's directory nor the clock changes\<close>
  "calm E D now \<longleftrightarrow> (\<forall>t. fe_durable E t = durable_ok \<and> fe_input E t = D \<and> \<not> fe_fault E t \<and> fe_now E t = now \<and>
     fe_sync E t = None \<and> fe_private E t = None \<and> fe_lock E t = None)"

definition working_archive :: "'x archiver \<Rightarrow> bool" where
  "working_archive A \<longleftrightarrow>
     (\<forall>name data x. int (length data) \<le> 104857600 \<longrightarrow>
        (\<exists>ref x'. ar_put A name data x = (Inr ref, x') \<and> validate_ref ref = None \<and> ref_matches ref data)) \<and>
     (\<forall>ref x. \<exists>x'. ar_verify A ref x = (Inr (), x')) \<and> (\<forall>ref x. \<exists>x'. ar_protect A ref x = (Inr (), x'))"

definition working_signer :: "'x signer \<Rightarrow> bool" where
  "working_signer S \<longleftrightarrow> (\<forall>data x. \<exists>bdl x'. sn_sign S data x = (Inr bdl, x') \<and> bdl \<noteq> [] \<and> int (length bdl) \<le> max_bundle \<and>
     (\<forall>y. \<exists>y'. sn_verify S data bdl y = (Inr (), y')))"

definition year_10000 :: time where "year_10000 = 315537897600 * second"

definition encodes :: "fwire \<Rightarrow> bool" where
  \<comment> \<open>encoding succeeds: a valid receipt of representable times takes less than 1 MiB\<close>
  "encodes F \<longleftrightarrow> (\<forall>s. \<exists>b. enc (fw_retry F) s = Inr b) \<and> (\<forall>res. \<exists>b. enc (fw_outcome F) res = Inr b) \<and>
     (\<forall>r. receipt_validate r = None \<longrightarrow> 0 \<le> rc_started r \<longrightarrow> rc_finalized r < year_10000 \<longrightarrow>
        (\<exists>b. enc (fw_receipt F) r = Inr b \<and> int (length b) \<le> max_receipt))"

lemma live_tick: "live s (tick_io f) (\<lambda>x s'. s' = s \<and> (\<exists>t. x = f t))"
  by (auto simp: live_def tick_io_def)

lemma live_sys: "(\<And>t. f t = None) \<Longrightarrow> live s (sys_io f) (\<lambda>_ s'. s' = s)"
  by (simp add: live_def sys_io_def io_apply tick_io_def)

lemma live_write_state: "calm E D now \<Longrightarrow> live s (write_state E key name data) (\<lambda>_ s'. s' = s)"
  by (simp add: live_def write_state_def calm_def)

lemma live_write_out: "calm E D now \<Longrightarrow> live s (write_out E key name data) (\<lambda>_ s'. s' = s)"
  by (simp add: live_def write_out_def calm_def)

lemma live_save:
  assumes E: "calm E D now" and F: "encodes F"
  shows "live s (save_state F E key) (\<lambda>_ s'. s' = s)"
proof -
  obtain b where b: "enc (fw_retry F) s = Inr b" using F unfolding encodes_def by blast
  show ?thesis
    unfolding save_state_def
    by (rule live_bind[OF live_get[where g = "\<lambda>s. s"]], elim conjE, hypsubst, rule live_bind[OF live_lift[OF b]])
      (auto intro: live_write_state[OF E])
qed

lemma live_stage:
  assumes E: "calm E D now" and F: "encodes F"
  shows "live s (set_stage F E key st) (\<lambda>_ s'. s' = s\<lparr>rt_stage := st\<rparr>)"
  unfolding set_stage_def by (rule live_then[OF live_set]) (auto intro: live_save[OF E F])

lemma live_put:
  assumes E: "calm E D now" and F: "encodes F" and A: "working_archive A"
    and s: "rt_objects s = Some objs" and new: "\<not> has_key objs name" and len: "int (length data) \<le> 104857600"
  shows "live s (fin_put F E A key name data) (\<lambda>ref s'. validate_ref ref = None \<and> ref_matches ref data \<and>
    s' = s\<lparr>rt_objects := Some (AList.update name ref objs)\<rparr>)"
proof -
  have put: "live s (ext_io (ar_put A name data)) (\<lambda>ref s'. (validate_ref ref = None \<and> ref_matches ref data) \<and> s' = s)"
    using A len by (intro live_ext) (auto simp: working_archive_def)
  have verify: "live s (ext_io (ar_verify A ref)) (\<lambda>_ s'. True \<and> s' = s)" for ref
    using A by (intro live_ext) (auto simp: working_archive_def)
  have known: "map_of (entries (rt_objects s)) name = None" using s new by (simp add: has_key_def)
  have rest: "live s (then_io (lift_io (to_res (validate_ref ref)))
         (then_io (require (ref_matches ref data) (EMsg ''archiver returned different bytes''))
         (then_io (ext_io (ar_verify A ref))
         (then_io (set_mem (\<lambda>s. s\<lparr>rt_objects := Some (AList.update name ref (entries (rt_objects s)))\<rparr>))
         (then_io (save_state F E key) (ret ref))))))
      (\<lambda>ref s'. validate_ref ref = None \<and> ref_matches ref data \<and> s' = s\<lparr>rt_objects := Some (AList.update name ref objs)\<rparr>)"
    if r: "validate_ref ref = None" "ref_matches ref data" for ref
  proof (rule live_then[OF live_lift[of _ "()"]], simp add: r(1), elim conjE, hypsubst)
    show "live s (then_io (require (ref_matches ref data) (EMsg ''archiver returned different bytes''))
         (then_io (ext_io (ar_verify A ref))
         (then_io (set_mem (\<lambda>s. s\<lparr>rt_objects := Some (AList.update name ref (entries (rt_objects s)))\<rparr>))
         (then_io (save_state F E key) (ret ref)))))
      (\<lambda>ref s'. validate_ref ref = None \<and> ref_matches ref data \<and> s' = s\<lparr>rt_objects := Some (AList.update name ref objs)\<rparr>)"
      by (rule live_then[OF live_require[OF r(2)]], hypsubst, rule live_then[OF verify], elim conjE, hypsubst,
          rule live_then[OF live_set], hypsubst, rule live_then[OF live_save[OF E F]], hypsubst, rule live_ret)
        (use r s in simp)
  qed
  show ?thesis
    unfolding fin_put_def
    by (rule live_bind[OF live_get[where g = "\<lambda>s. map_of (entries (rt_objects s)) name"]], elim conjE, hypsubst,
        unfold known option.case, rule live_bind[OF put], elim conjE, hypsubst, rule rest)
qed

definition archives :: "string list \<Rightarrow> bytes gomap \<Rightarrow> aref gomap \<Rightarrow> aref gomap \<Rightarrow> bool" where
  \<comment> \<open>\<open>objs'\<close> extends \<open>objs\<close> by valid references to the named artifacts\<close>
  "archives names input objs objs' \<longleftrightarrow> (distinct_keys objs \<longrightarrow> distinct_keys objs') \<and>
     (\<forall>k. k \<notin> set names \<longrightarrow> map_of objs' k = map_of objs k) \<and>
     (\<forall>n \<in> set names. \<exists>ref. map_of objs' n = Some ref \<and> validate_ref ref = None \<and> ref_matches ref (lookup_or [] input n))"

lemma archives_Cons:
  assumes "archives ns input (AList.update n ref objs) objs'" "n \<notin> set ns"
    "validate_ref ref = None" "ref_matches ref (lookup_or [] input n)"
  shows "archives (n # ns) input objs objs'"
proof -
  have "map_of objs' n = Some ref" using assms(1,2) by (simp add: archives_def update_conv)
  with assms show ?thesis by (simp add: archives_def update_conv distinct_update)
qed

lemma live_put_all:
  assumes E: "calm E D now" and F: "encodes F" and A: "working_archive A"
  shows "rt_objects s = Some objs \<Longrightarrow> distinct names \<Longrightarrow>
    \<forall>n \<in> set names. \<not> has_key objs n \<and> int (length (lookup_or [] input n)) \<le> 104857600 \<Longrightarrow>
    live s (for_io names (\<lambda>name. then_io (fin_put F E A key name (lookup_or [] input name)) (ret ())))
      (\<lambda>_ s'. \<exists>objs'. s' = s\<lparr>rt_objects := Some objs'\<rparr> \<and> archives names input objs objs')"
proof (induction names arbitrary: s objs)
  case Nil
  have "s = s\<lparr>rt_objects := Some objs\<rparr>" using Nil.prems(1) by simp
  moreover have "archives [] input objs objs" by (simp add: archives_def)
  ultimately show ?case unfolding for_io.simps by (intro live_ret) blast
next
  case (Cons n ns)
  have n: "\<not> has_key objs n" "int (length (lookup_or [] input n)) \<le> 104857600" using Cons.prems(3) by simp_all
  have head: "live s (then_io (fin_put F E A key n (lookup_or [] input n)) (ret ()))
      (\<lambda>_ s'. \<exists>ref. validate_ref ref = None \<and> ref_matches ref (lookup_or [] input n) \<and>
        s' = s\<lparr>rt_objects := Some (AList.update n ref objs)\<rparr>)"
    by (rule live_then[OF live_put[OF E F A Cons.prems(1) n]]) (auto intro!: live_ret)
  show ?case
    unfolding for_io.simps
  proof (rule live_then[OF head], elim exE conjE, hypsubst)
    fix ref
    assume ref: "validate_ref ref = None" "ref_matches ref (lookup_or [] input n)"
    let ?s = "s\<lparr>rt_objects := Some (AList.update n ref objs)\<rparr>"
    have "live ?s (for_io ns (\<lambda>name. then_io (fin_put F E A key name (lookup_or [] input name)) (ret ())))
      (\<lambda>_ s'. \<exists>objs'. s' = ?s\<lparr>rt_objects := Some objs'\<rparr> \<and> archives ns input (AList.update n ref objs) objs')"
      using Cons.prems(2,3) by (intro Cons.IH) auto
    then show "live ?s (for_io ns (\<lambda>name. then_io (fin_put F E A key name (lookup_or [] input name)) (ret ())))
      (\<lambda>_ s'. \<exists>objs'. s' = s\<lparr>rt_objects := Some objs'\<rparr> \<and> archives (n # ns) input objs objs')"
      using archives_Cons[OF _ _ ref] Cons.prems(2) by (auto elim!: live_post)
  qed
qed

lemma live_build:
  assumes F: "encodes F" and l: "accepted_ledger run l" and texts: "receipt_texts_ok l (rt_policy s)"
    and fin: "l_updated l \<le> rt_finalized s" "0 \<le> l_created l" "rt_finalized s < year_10000"
    and a: "snapshot_archived input objs" and s: "rt_objects s = Some objs" "rt_receipt_sha s = []"
    and led: "map_of input ''run.json'' = Some led" and W: "sound_codec (w_observations (fw_base F))"
  shows "live s (fin_build F E l input) (\<lambda>rcpt s'. s' = s \<and> int (length rcpt) \<le> max_receipt)"
proof (rule liveI)
  fix w :: "'a fworld" assume m: "fd_mem w = s"
  obtain r where r: "build_receipt (fw_base F) (fe_now E (fd_tick w)) l input s = Inr r"
    using build_receipt_total[OF l texts fin(1) a s(1) led W] by blast
  have "receipt_validate r = None" "rc_started r = l_created l" "rc_finalized r = rt_finalized s"
    using r by (rule build_receipt_Inr; simp add: receipt_draft_def)+
  then obtain b where b: "enc (fw_receipt F) r = Inr b" "int (length b) \<le> max_receipt"
    using F fin unfolding encodes_def by metis
  then have "receipt_canonical F r = Inr b" using \<open>receipt_validate r = None\<close> by (simp add: receipt_canonical_def)
  with m r b s(2) show "\<exists>x w'. fin_build F E l input w = (Inr x, w') \<and> fd_mem w' = s \<and> int (length x) \<le> max_receipt"
    by (simp add: fin_build_def io_apply tick_io_def)
qed

lemma live_sign:
  assumes E: "calm E D now" and F: "encodes F" and S: "working_signer S" and s: "rt_bundle_sha s = []"
  shows "live s (fin_sign F E S key rcpt) (\<lambda>bdl s'. s' = s\<lparr>rt_bundle_sha := digest bdl\<rparr> \<and> bdl \<noteq> [] \<and>
    int (length bdl) \<le> max_bundle \<and> (\<forall>y. \<exists>y'. sn_verify S rcpt bdl y = (Inr (), y')))"
proof -
  have sg: "live s (ext_io (sn_sign S rcpt)) (\<lambda>bdl s'. (bdl \<noteq> [] \<and> int (length bdl) \<le> max_bundle \<and>
      (\<forall>y. \<exists>y'. sn_verify S rcpt bdl y = (Inr (), y'))) \<and> s' = s)"
    using S unfolding working_signer_def by (intro live_ext) metis
  have rest: "live s (then_io (require (\<not> (length bdl = 0 \<or> int (length bdl) > max_bundle)) (EMsg ''invalid bundle size''))
       (then_io (write_state E key ''receipt.bundle.json'' bdl)
       (then_io (set_mem (\<lambda>s. s\<lparr>rt_bundle_sha := digest bdl\<rparr>))
       (then_io (save_state F E key) (ret bdl))))) (\<lambda>b s'. b = bdl \<and> s' = s\<lparr>rt_bundle_sha := digest bdl\<rparr>)"
    if "bdl \<noteq> []" "int (length bdl) \<le> max_bundle" for bdl
    by (rule live_then[OF live_require], use that in simp, hypsubst, rule live_then[OF live_write_state[OF E]], hypsubst,
        rule live_then[OF live_set], hypsubst, rule live_then[OF live_save[OF E F]], hypsubst, rule live_ret) simp
  show ?thesis
    unfolding fin_sign_def
    by (rule live_bind[OF live_get[where g = "\<lambda>s. s"]], elim conjE, hypsubst, simp only: s if_False not_True_eq_False simp_thms,
        rule live_bind[OF sg], elim conjE, hypsubst, rule live_post[OF rest]) auto
qed

lemma live_publish:
  assumes E: "calm E D now" and F: "encodes F"
  shows "live s (fin_publish F E key res rcpt bdl) (\<lambda>_ s'. s' = s)"
proof -
  obtain b where b: "enc (fw_outcome F) res = Inr b" using F unfolding encodes_def by blast
  have out: "live s (case x of (name, b) \<Rightarrow> write_out E key name b) (\<lambda>_ s'. s' = s)" for x
    by (cases x) (simp add: live_write_out[OF E])
  have sys: "fe_private E t = None" "fe_sync E t = None" for t using E by (simp_all add: calm_def)
  show ?thesis
    unfolding fin_publish_def
    by (rule live_then[OF live_sys[OF sys(1)]], hypsubst, rule live_then[OF live_for[OF out]], hypsubst,
        rule live_bind[OF live_lift[OF b]], elim conjE, hypsubst, rule live_then[OF live_write_out[OF E]], hypsubst,
        rule live_sys[OF sys(2)])
qed

lemma live_protect:
  assumes A: "working_archive A"
  shows "live s (fin_protect A) (\<lambda>_ s'. s' = s)"
proof -
  have "live s (case x of (name, ref) \<Rightarrow> ext_io (ar_protect A ref)) (\<lambda>_ s'. True \<and> s' = s)" for x
  proof (cases x)
    case (Pair name ref)
    show ?thesis unfolding Pair prod.case by (rule live_ext) (use A in \<open>auto simp: working_archive_def\<close>)
  qed
  then have p: "live s (case x of (name, ref) \<Rightarrow> ext_io (ar_protect A ref)) (\<lambda>_ s'. s' = s)" for x by simp
  show ?thesis
    unfolding fin_protect_def
    by (rule live_bind[OF live_get[where g = "\<lambda>s. s"]], elim conjE, hypsubst, rule live_for[OF p])
qed

lemma live_finish:
  assumes E: "calm E D now" and F: "encodes F" and A: "working_archive A"
    and s: "rt_objects s = Some objs" "\<not> has_key objs ''receipt.json''" "\<not> has_key objs ''receipt.bundle.json''"
    and len: "int (length rcpt) \<le> max_receipt" "int (length bdl) \<le> max_bundle"
  shows "live s (fin_finish F E A key rcpt bdl) (\<lambda>res s'. rt_status s' = ''complete'' \<and> rt_attempts s' = rt_attempts s \<and>
    rt_identity s' = rt_identity s \<and> oc_identity res = rt_identity s)"
proof -
  let ?s = "s\<lparr>rt_stage := ''archive_signed''\<rparr>"
  have p1: "live ?s (fin_put F E A key ''receipt.json'' rcpt) (\<lambda>ref s'. validate_ref ref = None \<and> ref_matches ref rcpt \<and>
      s' = ?s\<lparr>rt_objects := Some (AList.update ''receipt.json'' ref objs)\<rparr>)"
    by (rule live_put[OF E F A]) (use s len in \<open>simp_all add: max_receipt_def\<close>)
  have p2: "live (?s\<lparr>rt_objects := Some (AList.update ''receipt.json'' ref objs)\<rparr>) (fin_put F E A key ''receipt.bundle.json'' bdl)
      (\<lambda>ref2 s'. validate_ref ref2 = None \<and> ref_matches ref2 bdl \<and>
      s' = ?s\<lparr>rt_objects := Some (AList.update ''receipt.json'' ref objs)\<rparr>
             \<lparr>rt_objects := Some (AList.update ''receipt.bundle.json'' ref2 (AList.update ''receipt.json'' ref objs))\<rparr>)" for ref
    by (rule live_put[OF E F A]) (use s len in \<open>simp_all add: max_bundle_def\<close>)
  have compl: "live u (fin_complete F E key) (\<lambda>_ s'. s' = u\<lparr>rt_stage := ''complete'', rt_status := ''complete'', rt_next := None, rt_error := []\<rparr>)" for u
    unfolding fin_complete_def by (rule live_then[OF live_set]) (auto intro: live_save[OF E F])
  show ?thesis
    unfolding fin_finish_def
    by (rule live_then[OF live_stage[OF E F]], hypsubst, rule live_bind[OF p1], elim conjE, hypsubst, rule live_bind[OF p2],
        elim conjE, hypsubst, rule live_then[OF live_stage[OF E F]], hypsubst, rule live_bind[OF live_get[where g = "\<lambda>s. s"]],
        elim conjE, hypsubst, rule live_then[OF live_protect[OF A]], hypsubst, rule live_then[OF live_publish[OF E F]], hypsubst,
        rule live_then[OF compl], hypsubst, rule live_ret) (simp add: fin_result_def)
qed

definition frozen_input :: "bytes gomap \<Rightarrow> bool" where
  \<comment> \<open>what a snapshot of the coordinator's directory satisfies by the bounds it was read with\<close>
  "frozen_input input \<longleftrightarrow> distinct_keys input \<and> (\<exists>led. map_of input ''run.json'' = Some led) \<and>
     (\<forall>(k, b) \<in> set input. \<exists>limit. map_of artifact_limits k = Some limit \<and> int (length b) \<le> limit)"

lemma artifact_limit_cases:
  assumes "map_of artifact_limits k = Some limit"
  shows "limit \<le> 104857600" "k \<noteq> ''job.log'' \<Longrightarrow> limit \<le> max_receipt"
    "k \<in> set artifact_names \<or> k = ''finalization-ready.json''"
  using assms by (auto simp: artifact_limits_def max_receipt_def artifact_names_def split: if_splits)

lemma artifact_order_set: "set (artifact_order input) = {k. has_key input k} - {''finalization-ready.json''}"
  by (auto simp: artifact_order_def has_key_iff)

lemma archives_snapshot:
  assumes f: "frozen_input input" and a: "archives (artifact_order input) input [] objs"
  shows "snapshot_archived input objs"
proof -
  have member: "int (length b) \<le> 104857600 \<and> (k \<noteq> ''job.log'' \<longrightarrow> int (length b) \<le> max_receipt)"
    if "map_of input k = Some b" for k b
  proof -
    from map_of_SomeD[OF that] f obtain limit where "map_of artifact_limits k = Some limit" "int (length b) \<le> limit"
      unfolding frozen_input_def by blast
    with artifact_limit_cases(1,2)[OF this(1)] show ?thesis by linarith
  qed
  have entry: "case map_of input k of None \<Rightarrow> \<not> has_key objs k
      | Some b \<Rightarrow> (\<exists>ref. map_of objs k = Some ref \<and> validate_ref ref = None \<and> rf_sha ref = digest b \<and>
          rf_size ref = int (length b) \<and> (k \<noteq> ''job.log'' \<longrightarrow> int (length b) \<le> max_receipt))"
    if k: "k \<in> set artifact_names" for k
  proof (cases "map_of input k")
    case None
    then have "k \<notin> set (artifact_order input)" by (simp add: artifact_order_set has_key_def)
    with a have "map_of objs k = map_of [] k" unfolding archives_def by blast
    with None show ?thesis by (simp add: has_key_def)
  next
    case (Some b)
    have "''finalization-ready.json'' \<notin> set artifact_names" by (simp add: artifact_names_def)
    with k have "k \<noteq> ''finalization-ready.json''" by blast
    with Some have "k \<in> set (artifact_order input)" by (simp add: artifact_order_set has_key_def)
    with a obtain ref where "map_of objs k = Some ref" "validate_ref ref = None" "ref_matches ref (lookup_or [] input k)"
      unfolding archives_def by blast
    with Some member[OF Some] show ?thesis by (simp add: ref_matches_def)
  qed
  have "distinct_keys objs" using a by (simp add: archives_def)
  with entry show ?thesis unfolding snapshot_archived_def by blast
qed

lemma archives_has_key:
  assumes "archives names input [] objs" "k \<notin> set names"
  shows "\<not> has_key objs k"
  using assms by (simp add: archives_def has_key_def)

lemma order_no_receipt:
  assumes "frozen_input input"
  shows "''receipt.json'' \<notin> set (artifact_order input)" "''receipt.bundle.json'' \<notin> set (artifact_order input)"
proof -
  have "map_of artifact_limits k \<noteq> None" if "has_key input k" for k
    using assms that unfolding frozen_input_def has_key_def by (force dest: map_of_SomeD)
  from this[of "''receipt.json''"] this[of "''receipt.bundle.json''"]
  show "''receipt.json'' \<notin> set (artifact_order input)" "''receipt.bundle.json'' \<notin> set (artifact_order input)"
    by (auto simp: artifact_order_set artifact_limits_def)
qed

lemma live_attempt:
  assumes E: "calm E D now" and F: "encodes F" and A: "working_archive A" and S: "working_signer S"
    and W: "sound_codec (w_observations (fw_base F))"
    and l: "accepted_ledger run l" and texts: "receipt_texts_ok l (rt_policy s)"
    and fin: "l_updated l \<le> rt_finalized s" "0 \<le> l_created l" "rt_finalized s < year_10000"
    and i: "frozen_input input" and s: "rt_objects s = Some []" "rt_receipt_sha s = []" "rt_bundle_sha s = []"
  shows "live s (fin_attempt F E A S key l input) (\<lambda>res s'. rt_status s' = ''complete'' \<and> rt_attempts s' = rt_attempts s \<and>
    rt_identity s' = rt_identity s \<and> oc_identity res = rt_identity s)"
proof -
  let ?s = "s\<lparr>rt_stage := ''archive''\<rparr>"
  obtain led where led: "map_of input ''run.json'' = Some led" using i by (auto simp: frozen_input_def)
  have len: "int (length (lookup_or [] input n)) \<le> 104857600" for n
  proof (cases "map_of input n")
    case (Some b)
    from map_of_SomeD[OF this] i obtain limit where "map_of artifact_limits n = Some limit" "int (length b) \<le> limit"
      unfolding frozen_input_def by blast
    with artifact_limit_cases(1)[OF this(1)] Some show ?thesis by simp
  qed (simp add: lookup_or_def)
  have dist: "distinct (artifact_order input)" using i by (simp add: artifact_order_def frozen_input_def)
  have puts: "live ?s (for_io (artifact_order input) (\<lambda>name. then_io (fin_put F E A key name (lookup_or [] input name)) (ret ())))
      (\<lambda>_ s'. \<exists>objs. s' = ?s\<lparr>rt_objects := Some objs\<rparr> \<and> archives (artifact_order input) input [] objs)"
    by (rule live_put_all[OF E F A]) (use s dist len in simp_all)
  have rest: "live (?s\<lparr>rt_objects := Some objs\<rparr>) (bind_io (fin_build F E l input) (\<lambda>rcpt.
      then_io (write_state E key ''receipt.json'' rcpt)
      (then_io (set_mem (\<lambda>s. s\<lparr>rt_receipt_sha := digest rcpt, rt_stage := ''sign''\<rparr>))
      (then_io (save_state F E key)
      (bind_io (fin_sign F E S key rcpt) (\<lambda>bdl.
       then_io (set_stage F E key ''verify'')
       (then_io (ext_io (sn_verify S rcpt bdl))
       (fin_finish F E A key rcpt bdl))))))))
    (\<lambda>res s'. rt_status s' = ''complete'' \<and> rt_attempts s' = rt_attempts s \<and> rt_identity s' = rt_identity s \<and> oc_identity res = rt_identity s)"
    if a: "archives (artifact_order input) input [] objs" for objs
  proof -
    note snap = archives_snapshot[OF i a]
    have build: "live (?s\<lparr>rt_objects := Some objs\<rparr>) (fin_build F E l input)
        (\<lambda>rcpt s'. s' = ?s\<lparr>rt_objects := Some objs\<rparr> \<and> int (length rcpt) \<le> max_receipt)"
      by (rule live_build[OF F l _ _ _ _ snap _ _ led W]) (use texts fin s in simp_all)
    have sign: "live (?s\<lparr>rt_objects := Some objs\<rparr>\<lparr>rt_receipt_sha := digest rcpt, rt_stage := ''sign''\<rparr>) (fin_sign F E S key rcpt)
        (\<lambda>bdl s'. s' = ?s\<lparr>rt_objects := Some objs\<rparr>\<lparr>rt_receipt_sha := digest rcpt, rt_stage := ''sign''\<rparr>\<lparr>rt_bundle_sha := digest bdl\<rparr> \<and>
          bdl \<noteq> [] \<and> int (length bdl) \<le> max_bundle \<and> (\<forall>y. \<exists>y'. sn_verify S rcpt bdl y = (Inr (), y')))" for rcpt
      by (rule live_sign[OF E F S]) (use s in simp)
    have verify: "live u (ext_io (sn_verify S rcpt bdl)) (\<lambda>_ s'. True \<and> s' = u)"
      if "\<forall>y. \<exists>y'. sn_verify S rcpt bdl y = (Inr (), y')" for u rcpt bdl
      by (rule live_ext) (use that in auto)
    have fresh: "\<not> has_key objs ''receipt.json''" "\<not> has_key objs ''receipt.bundle.json''"
      using archives_has_key[OF a] order_no_receipt[OF i] by blast+
    show ?thesis
      apply (rule live_bind[OF build], elim conjE, hypsubst)
      apply (rule live_then[OF live_write_state[OF E]], hypsubst, rule live_then[OF live_set], hypsubst)
      apply (rule live_then[OF live_save[OF E F]], hypsubst, rule live_bind[OF sign], elim conjE, hypsubst)
      apply (rule live_then[OF live_stage[OF E F]], hypsubst, rule live_then[OF verify], assumption, elim conjE, hypsubst)
      apply (rule live_post[OF live_finish[OF E F A _ fresh]])
      by simp_all
  qed
  show ?thesis
    unfolding fin_attempt_def
    by (rule live_then[OF live_stage[OF E F]], hypsubst, rule live_then[OF puts], elim exE conjE, hypsubst, rule rest)
qed

lemma live_run_attempt:
  assumes E: "calm E D now" and F: "encodes F" and A: "working_archive A" and S: "working_signer S"
    and W: "sound_codec (w_observations (fw_base F))"
    and l: "accepted_ledger run l" and texts: "receipt_texts_ok l (rt_policy s)"
    and fin: "l_updated l \<le> rt_finalized s" "0 \<le> l_created l" "rt_finalized s < year_10000"
    and i: "frozen_input input" and s: "rt_objects s = Some []" "rt_receipt_sha s = []" "rt_bundle_sha s = []"
  shows "live s (run_attempt F E A S key l input) (\<lambda>res s'. rt_status s' = ''complete'' \<and> rt_attempts s' = rt_attempts s + 1 \<and>
    oc_identity res = rt_identity s)"
proof -
  let ?s = "s\<lparr>rt_attempts := rt_attempts s + 1, rt_status := ''running'', rt_next := None, rt_error := []\<rparr>"
  have att: "live ?s (fin_attempt F E A S key l input) (\<lambda>res s'. rt_status s' = ''complete'' \<and> rt_attempts s' = rt_attempts ?s \<and>
    rt_identity s' = rt_identity ?s \<and> oc_identity res = rt_identity ?s)"
    by (rule live_attempt[OF E F A S W l _ _ _ _ i]) (use texts fin s in simp_all)
  have catch: "live ?s (catch_io (fin_attempt F E A S key l input)) (\<lambda>r s'. \<exists>res. r = Inr res \<and> rt_status s' = ''complete'' \<and>
      rt_attempts s' = rt_attempts s + 1 \<and> oc_identity res = rt_identity s)"
    using att by (fastforce simp: live_def io_apply)
  show ?thesis
    unfolding run_attempt_def
    by (rule live_then[OF live_set], hypsubst, rule live_then[OF live_save[OF E F]], hypsubst, rule live_bind[OF catch],
        elim exE conjE, hypsubst, unfold sum.case, rule live_ret) simp
qed

lemma live_continue:
  assumes E: "calm E D now" and F: "encodes F" and A: "working_archive A" and S: "working_signer S"
    and W: "sound_codec (w_observations (fw_base F))"
    and l: "accepted_ledger run l" and texts: "receipt_texts_ok l p"
    and fin: "l_updated l \<le> now" "0 \<le> l_created l" "now < year_10000"
    and i: "frozen_input input"
  shows "live (fresh_state p ident dg snaps now) (fin_continue F E A S key l input)
    (\<lambda>res s'. rt_status s' = ''complete'' \<and> rt_attempts s' = 1 \<and> oc_identity res = ident)"
proof -
  let ?s = "fresh_state p ident dg snaps now"
  have s: "rt_objects ?s = Some []" "rt_receipt_sha ?s = []" "rt_bundle_sha ?s = []" "rt_policy ?s = p" "rt_finalized ?s = now"
    "rt_status ?s = ''pending''" "rt_attempts ?s = 0" "rt_next ?s = None" "rt_identity ?s = ident" "\<not> both_archived ?s"
    by (simp_all add: fresh_state_def both_archived_def)
  have due: "live ?s (retry_due E) (\<lambda>_ s'. s' = ?s)" by (simp add: live_def retry_due_def io_apply s)
  have run: "live ?s (run_attempt F E A S key l input) (\<lambda>res s'. rt_status s' = ''complete'' \<and> rt_attempts s' = rt_attempts ?s + 1 \<and>
    oc_identity res = rt_identity ?s)"
    by (rule live_run_attempt[OF E F A S W l _ _ _ _ i]) (use texts fin s in simp_all)
  then have go: "live ?s (then_io (retry_due E) (run_attempt F E A S key l input))
      (\<lambda>res s'. rt_status s' = ''complete'' \<and> rt_attempts s' = 1 \<and> oc_identity res = ident)"
    by (intro live_then[OF due]) (simp add: s)
  show ?thesis
    unfolding fin_continue_def
    by (rule live_bind[OF live_get[where g = "\<lambda>s. s"]], elim conjE, hypsubst) (simp add: s go)
qed

subsection \<open>The snapshot\<close>

definition read_inv :: "bytes gomap \<Rightarrow> snapshot gomap \<Rightarrow> bool" where
  "read_inv data snaps \<longleftrightarrow> distinct_keys data \<and> distinct_keys snaps \<and>
     (\<forall>n b. map_of data n = Some b \<longrightarrow> (\<exists>sn. map_of snaps n = Some sn \<and> sn_status sn = ''present'')) \<and>
     (\<forall>n sn. map_of snaps n = Some sn \<longrightarrow> (\<exists>limit. map_of artifact_limits n = Some limit \<and>
        (sn_status sn = ''present'' \<longrightarrow> (\<exists>b. map_of data n = Some b \<and> int (length b) \<le> limit \<and> sn_sha sn = digest b \<and>
           sn_size sn = int (length b)))))"

lemma read_inv_missing:
  assumes "read_inv data snaps" "map_of artifact_limits n = Some limit" "map_of data n = None" "sn_status sn \<noteq> ''present''"
  shows "read_inv data (AList.update n sn snaps)"
  using assms unfolding read_inv_def update_conv
  by (auto simp: distinct_update simp del: map_of_eq_Some_iff split: if_splits)

lemma read_inv_present:
  assumes "read_inv data snaps" "map_of artifact_limits n = Some limit" "int (length b) \<le> limit"
  shows "read_inv (AList.update n b data) (AList.update n \<lparr>sn_sha = digest b, sn_size = int (length b), sn_status = ''present''\<rparr> snaps)"
  using assms unfolding read_inv_def update_conv
  by (auto simp: distinct_update simp del: map_of_eq_Some_iff split: if_splits)

lemma read_artifacts_inv:
  "read_artifacts E as data snaps w = (Inr (data', snaps'), w') \<Longrightarrow> read_inv data snaps \<Longrightarrow>
   \<forall>(n, limit) \<in> set as. map_of artifact_limits n = Some limit \<and> \<not> has_key data n \<Longrightarrow> distinct (map fst as) \<Longrightarrow>
   read_inv data' snaps'"
proof (induction as arbitrary: data snaps w)
  case Nil
  then show ?case by (simp add: io_apply)
next
  case (Cons nl as)
  obtain n limit where nl: "nl = (n, limit)" by (cases nl)
  have n: "map_of artifact_limits n = Some limit" "map_of data n = None" using Cons.prems(3) nl by (auto simp: has_key_def)
  obtain r v where r: "read_input E n limit w = (Inr r, v)" by (simp add: read_input_def tick_io_def)
  show ?case
  proof (cases r)
    case (Inl e)
    let ?snaps = "AList.update n (zero_snapshot\<lparr>sn_status := if e = ENotExist then ''missing'' else ''unreadable''\<rparr>) snaps"
    have go: "read_artifacts E as data ?snaps v = (Inr (data', snaps'), w')"
      using Cons.prems(1) by (simp add: nl io_apply r Inl split: if_splits)
    have "read_inv data ?snaps" by (rule read_inv_missing[OF Cons.prems(2) n]) simp
    from Cons.IH[OF go this] Cons.prems(3,4) show ?thesis by simp
  next
    case (Inr b)
    let ?snaps = "AList.update n \<lparr>sn_sha = digest b, sn_size = int (length b), sn_status = ''present''\<rparr> snaps"
    have go: "read_artifacts E as (AList.update n b data) ?snaps v = (Inr (data', snaps'), w')"
      using Cons.prems(1) by (simp add: nl io_apply r Inr)
    have "int (length b) \<le> limit" using r Inr by (auto simp: read_input_def tick_io_def read_bounded_Inr_iff)
    then have "read_inv (AList.update n b data) ?snaps" by (rule read_inv_present[OF Cons.prems(2) n(1)])
    moreover have "\<forall>(n', limit) \<in> set as. map_of artifact_limits n' = Some limit \<and> \<not> has_key (AList.update n b data) n'"
      using Cons.prems(3,4) nl by force
    ultimately show ?thesis using Cons.IH[OF go] Cons.prems(4) by simp
  qed
qed

lemma read_inputs_inv:
  fixes w w' :: "'x fworld"
  assumes "read_inputs F E run w = (Inr (l, input, snaps, dg), w')"
  shows "read_inv input snaps" "\<exists>rdy. check_inputs F run rdy input snaps = Inr (l, dg)"
proof -
  obtain rdy and u v :: "'x fworld" where ra: "read_artifacts E artifact_limits [] [] u = (Inr (input, snaps), v)"
    and ci: "check_inputs F run rdy input snaps = Inr (l, dg)"
  proof -
    from assms obtain x s1 s2 where k: "(case x of Inl e \<Rightarrow> throw ECoordinatorNotReady
      | Inr rdy \<Rightarrow> bind_io (read_artifacts E artifact_limits [] []) (\<lambda>(data, snaps).
          bind_io (lift_io (check_inputs F run rdy data snaps)) (\<lambda>(l, dg). ret (l, data, snaps, dg)))) s2
        = (Inr (l, input, snaps, dg), w')" and "read_input E ''finalization-ready.json'' 16384 s1 = (Inr x, s2)"
      by (auto simp: read_inputs_def then_Inr_iff bind_Inr_iff[of "read_input E ''finalization-ready.json'' 16384"])
    then show ?thesis using that by (cases x) (auto simp: Inr_iffs split: prod.splits)
  qed
  have "read_inv [] []" by (simp add: read_inv_def)
  moreover have "\<forall>(n, limit) \<in> set artifact_limits. map_of artifact_limits n = Some limit \<and> \<not> has_key [] n"
    "distinct (map fst artifact_limits)" by (simp_all add: artifact_limits_def)
  ultimately show "read_inv input snaps" using read_artifacts_inv[OF ra] by blast
  from ci show "\<exists>rdy. check_inputs F run rdy input snaps = Inr (l, dg)" by blast
qed

lemma check_inputs_accepted:
  assumes "check_inputs F run rdy input snaps = Inr (l, dg)" "hex_n 32 run"
  shows "accepted_ledger run l" "\<exists>led. map_of input ''run.json'' = Some led"
proof -
  have c: "strict_canonical (w_ledger (fw_base F)) max_receipt (lookup_or [] input ''run.json'') = Inr l"
    using assms(1) by (auto simp: check_inputs_def split: sum.splits option.splits)
  with assms show "accepted_ledger run l"
    by (auto simp: check_inputs_def accepted_ledger_def split: sum.splits option.splits if_splits)
  from c have "lookup_or [] input ''run.json'' \<noteq> []" by (auto simp: strict_canonical_def split: if_splits)
  then show "\<exists>led. map_of input ''run.json'' = Some led" by (auto simp: lookup_or_def split: option.splits)
qed

subsection \<open>A first run completes\<close>

definition oblivious :: "('s, 'a) io \<Rightarrow> bool" where
  \<comment> \<open>what the method returns does not depend on the state\<close>
  "oblivious m \<longleftrightarrow> (\<forall>s t. fst (m s) = fst (m t))"

lemma oblivious_bind: "oblivious m \<Longrightarrow> (\<And>x. oblivious (f x)) \<Longrightarrow> oblivious (bind_io m f)"
  unfolding oblivious_def
proof (intro allI)
  fix s t
  assume m: "\<forall>s t. fst (m s) = fst (m t)" and f: "\<And>x. \<forall>s t. fst (f x s) = fst (f x t)"
  obtain r s' where 1: "m s = (r, s')" by fastforce
  obtain t' where 2: "m t = (r, t')" using m[rule_format, of s t] 1 by (metis fst_conv surj_pair)
  show "fst (bind_io m f s) = fst (bind_io m f t)" using 1 2 f by (cases r) (auto simp: io_apply)
qed

lemma oblivious_then: "oblivious m \<Longrightarrow> oblivious n \<Longrightarrow> oblivious (then_io m n)"
  unfolding then_io_def by (rule oblivious_bind)

lemma oblivious_leaf: "oblivious (ret x)" "oblivious (throw e)" "oblivious (lift_io r)" "oblivious (require b e)"
  by (simp_all add: oblivious_def io_apply)

lemma oblivious_tick: "(\<And>t t'. f t = f t') \<Longrightarrow> oblivious (tick_io f)"
  unfolding oblivious_def tick_io_def by auto

lemma oblivious_read_inputs:
  assumes E: "calm E D now"
  shows "oblivious (read_inputs F E run :: ('x fworld, _) io)"
proof -
  have i: "oblivious (read_input E name limit :: ('x fworld, _) io)" for name limit
    unfolding read_input_def by (rule oblivious_tick) (use E in \<open>simp add: calm_def\<close>)
  have s: "oblivious (sys_io (fe_private E))"
    unfolding sys_io_def by (intro oblivious_bind oblivious_tick oblivious_leaf) (use E in \<open>simp add: calm_def\<close>)
  have a: "oblivious (read_artifacts E as data snaps :: ('x fworld, _) io)" for as data snaps
  proof (induction as arbitrary: data snaps)
    case (Cons nl as)
    then show ?case by (cases nl) (auto intro!: oblivious_bind oblivious_leaf i split: sum.split)
  qed (simp add: oblivious_leaf)
  have c: "oblivious (case p of (a, b) \<Rightarrow> f a b)" if "\<And>a b. oblivious (f a b)" for p :: "'p \<times> 'q" and f :: "'p \<Rightarrow> 'q \<Rightarrow> ('x fworld, 'c) io"
    using that by (cases p) simp
  show ?thesis
    unfolding read_inputs_def
    by (auto intro!: oblivious_then oblivious_bind oblivious_leaf i s a split: sum.split prod.split)
qed

lemma calm_writes:
  assumes E: "calm E D now"
  shows "distinct_keys input \<Longrightarrow>
    \<exists>w'. for_io input (\<lambda>(name, data). write_state E key name data) w = (Inr (), w') \<and> fd_mem w' = fd_mem w \<and>
      (\<forall>k. map_of input k \<noteq> None \<longrightarrow> fd_state w' key k = Regular (the (map_of input k))) \<and>
      (\<forall>k. map_of input k = None \<longrightarrow> fd_state w' key k = fd_state w key k)"
proof (induction input arbitrary: w)
  case (Cons nd input)
  obtain n d where nd: "nd = (n, d)" by (cases nd)
  let ?w = "w\<lparr>fd_state := (fd_state w)(key := (fd_state w key)(n := Regular d)), fd_tick := Suc (fd_tick w)\<rparr>"
  have 1: "write_state E key n d w = (Inr (), ?w)" using E by (simp add: write_state_def calm_def)
  have n: "map_of input n = None" using Cons.prems nd by (simp add: map_of_eq_None_iff)
  obtain w' where w': "for_io input (\<lambda>(name, data). write_state E key name data) ?w = (Inr (), w')" "fd_mem w' = fd_mem w"
    "\<forall>k. map_of input k \<noteq> None \<longrightarrow> fd_state w' key k = Regular (the (map_of input k))"
    "\<forall>k. map_of input k = None \<longrightarrow> fd_state w' key k = fd_state ?w key k"
    using Cons.IH[of ?w] Cons.prems by auto
  have "fd_state w' key n = Regular d" using w'(4) n by simp
  with w' n nd 1 show ?case by (intro exI[of _ w']) (auto simp: io_apply)
qed (simp add: io_apply)

lemma calm_freeze:
  assumes E: "calm E D now" and F: "encodes F" and i: "distinct_keys input" and now: "l_updated l \<le> now"
    and names: "map_of input ''state.json'' = None"
  shows "\<exists>w'. freeze F E C key l input snaps dg w = (Inr (), w') \<and>
    fd_mem w' = fresh_state (fc_policy C) (l_identity l) dg snaps now \<and>
    (\<forall>k b. map_of input k = Some b \<longrightarrow> fd_state w' key k = Regular b)"
proof -
  let ?s = "fresh_state (fc_policy C) (l_identity l) dg snaps now"
  let ?w = "w\<lparr>fd_tick := Suc (fd_tick w), fd_mem := ?s\<rparr>"
  obtain w1 where w1: "for_io input (\<lambda>(name, data). write_state E key name data) ?w = (Inr (), w1)" "fd_mem w1 = ?s"
    "\<forall>k. map_of input k \<noteq> None \<longrightarrow> fd_state w1 key k = Regular (the (map_of input k))"
    using calm_writes[OF E i, of key ?w] by auto
  obtain b where b: "enc (fw_retry F) ?s = Inr b" using F unfolding encodes_def by blast
  let ?w2 = "w1\<lparr>fd_state := (fd_state w1)(key := (fd_state w1 key)(''state.json'' := Regular b)), fd_tick := Suc (fd_tick w1)\<rparr>"
  have save: "save_state F E key w1 = (Inr (), ?w2)"
    using E b w1(2) by (simp add: save_state_def io_apply write_state_def calm_def)
  have "freeze F E C key l input snaps dg w = (Inr (), ?w2\<lparr>fd_tick := Suc (Suc (fd_tick w1))\<rparr>)"
    using E now w1(1) save by (simp add: freeze_def io_apply tick_io_def set_mem_def calm_def sys_io_def)
  moreover have "fd_state ?w2 key k = Regular b'" if "map_of input k = Some b'" for k b'
    using w1(3) that names by auto
  ultimately show ?thesis using w1(2) by (intro exI) auto
qed

lemma calm_reread:
  assumes E: "calm E D now"
  shows "\<forall>(n, sn) \<in> set ss. lookup_or zero_snapshot snaps n = sn \<and> (\<exists>limit. map_of artifact_limits n = Some limit \<and>
      (sn_status sn = ''present'' \<longrightarrow> (\<exists>b. fd_state w key n = Regular b \<and> int (length b) \<le> limit \<and> sn_sha sn = digest b \<and>
        sn_size sn = int (length b)))) \<Longrightarrow>
    distinct_keys acc \<Longrightarrow> \<forall>(k, b) \<in> set acc. \<exists>limit. map_of artifact_limits k = Some limit \<and> int (length b) \<le> limit \<Longrightarrow>
    \<exists>out w'. reread E key snaps ss acc w = (Inr out, w') \<and> fd_mem w' = fd_mem w \<and> distinct_keys out \<and>
      (\<forall>(k, b) \<in> set out. \<exists>limit. map_of artifact_limits k = Some limit \<and> int (length b) \<le> limit) \<and>
      (\<forall>k. has_key acc k \<or> (\<exists>sn. (k, sn) \<in> set ss \<and> sn_status sn = ''present'') \<longrightarrow> has_key out k)"
proof (induction ss arbitrary: acc w)
  case Nil
  then show ?case by (auto simp: io_apply)
next
  case (Cons x ss)
  obtain n sn where x: "x = (n, sn)" by (cases x)
  obtain limit where lim: "map_of artifact_limits n = Some limit" and sn: "lookup_or zero_snapshot snaps n = sn"
    and pres: "sn_status sn = ''present'' \<Longrightarrow> \<exists>b. fd_state w key n = Regular b \<and> int (length b) \<le> limit \<and> sn_sha sn = digest b \<and>
        sn_size sn = int (length b)"
    using Cons.prems(1) x by auto
  show ?case
  proof (cases "sn_status sn = ''present''")
    case False
    have go: "reread E key snaps (x # ss) acc w = reread E key snaps ss acc w" using x lim sn False by simp
    have no: "k \<noteq> n \<or> sn' \<noteq> sn" if "sn_status sn' = ''present''" for k sn' using False that by blast
    obtain out w' where out: "reread E key snaps ss acc w = (Inr out, w')" "fd_mem w' = fd_mem w" "distinct_keys out"
      "\<forall>(k, b) \<in> set out. \<exists>limit. map_of artifact_limits k = Some limit \<and> int (length b) \<le> limit"
      "\<forall>k. has_key acc k \<or> (\<exists>sn. (k, sn) \<in> set ss \<and> sn_status sn = ''present'') \<longrightarrow> has_key out k"
      using Cons.IH[OF _ Cons.prems(2,3), of w] Cons.prems(1) by auto
    have "has_key out k" if "has_key acc k \<or> (\<exists>sn. (k, sn) \<in> set (x # ss) \<and> sn_status sn = ''present'')" for k
      using that out(5) no x by auto
    with out show ?thesis unfolding go by blast
  next
    case True
    from pres[OF this] obtain b where b: "fd_state w key n = Regular b" "int (length b) \<le> limit" "sn_sha sn = digest b"
      "sn_size sn = int (length b)" by blast
    let ?w = "w\<lparr>fd_tick := Suc (fd_tick w)\<rparr>" and ?acc = "AList.update n b acc"
    have step: "reread E key snaps (x # ss) acc w = reread E key snaps ss ?acc ?w"
      using x lim sn True b E by (simp add: io_apply read_state_def read_bounded_def calm_def)
    have acc: "distinct_keys ?acc" using Cons.prems(2) by (rule distinct_update)
    have ok: "\<forall>(k, b) \<in> set ?acc. \<exists>limit. map_of artifact_limits k = Some limit \<and> int (length b) \<le> limit"
    proof -
      have "\<exists>limit. map_of artifact_limits k = Some limit \<and> int (length c) \<le> limit" if "(k, c) \<in> set ?acc" for k c
      proof -
        have "map_of ?acc k = Some c" by (rule map_of_is_SomeI[OF acc that])
        then show ?thesis using lim b(2) Cons.prems(3) by (auto simp: update_conv dest!: map_of_SomeD split: if_splits)
      qed
      then show ?thesis by blast
    qed
    obtain out w' where out: "reread E key snaps ss ?acc ?w = (Inr out, w')" "fd_mem w' = fd_mem w" "distinct_keys out"
      "\<forall>(k, b) \<in> set out. \<exists>limit. map_of artifact_limits k = Some limit \<and> int (length b) \<le> limit"
      "\<forall>k. has_key ?acc k \<or> (\<exists>sn. (k, sn) \<in> set ss \<and> sn_status sn = ''present'') \<longrightarrow> has_key out k"
      using Cons.IH[OF _ acc ok, of ?w] Cons.prems(1) by auto
    with step x show ?thesis by (intro exI[of _ out] exI[of _ w']) auto
  qed
qed

lemma calm_prepare:
  assumes E: "calm E D now" and run: "hex_n 32 run" and C: "is_abs (fc_input C)" "is_abs (fc_state C)" "is_abs (fc_output C)"
    "\<not> overlaps (fc_input C) (fc_state C)" "\<not> overlaps (fc_input C) (fc_output C)"
  shows "\<exists>w'. fin_prepare E C run w = (Inr (), w')"
  using assms by (auto simp: fin_prepare_def io_apply sys_io_def tick_io_def calm_def)

lemma calm_sys: "calm E D now \<Longrightarrow> sys_io (fe_private E) w = (Inr (), w\<lparr>fd_tick := Suc (fd_tick w)\<rparr>)"
  by (simp add: sys_io_def io_apply tick_io_def calm_def)

lemma reread_frozen:
  assumes "distinct_keys out" "has_key out ''run.json''"
    "\<forall>(k, b) \<in> set out. \<exists>limit. map_of artifact_limits k = Some limit \<and> int (length b) \<le> limit"
  shows "frozen_input out"
  using assms by (auto simp: frozen_input_def has_key_def)

lemma fresh_continue:
  fixes w :: "'x fworld"
  assumes E: "calm E D now" and F: "encodes F" and A: "working_archive A" and S: "working_signer S"
    and W: "sound_codec (w_observations (fw_base F))" and inv: "read_inv input snaps"
    and l: "accepted_ledger run l" and led: "map_of input ''run.json'' = Some led" and texts: "receipt_texts_ok l (fc_policy C)"
    and times: "l_updated l \<le> now" "0 \<le> l_created l" "now < year_10000"
    and w: "fd_state w key = (\<lambda>_. Missing)"
  shows "\<exists>res w'. then_io (load_or_freeze F E C key l input snaps dg)
      (bind_io (get_io fd_mem) (\<lambda>s. bind_io (reread E key snaps (rt_snapshots s) []) (\<lambda>frozen.
       fin_continue F E A S key l frozen))) w = (Inr res, w') \<and>
    rt_status (fd_mem w') = ''complete'' \<and> rt_attempts (fd_mem w') = 1 \<and> oc_identity res = l_identity l"
proof -
  let ?s = "fresh_state (fc_policy C) (l_identity l) dg snaps now"
  have "map_of input ''state.json'' = None"
    using inv unfolding read_inv_def artifact_limits_def by (cases "map_of input ''state.json''") force+
  with calm_freeze[OF E F _ times(1)] inv obtain w1 where w1: "freeze F E C key l input snaps dg (w\<lparr>fd_tick := Suc (fd_tick w)\<rparr>) = (Inr (), w1)"
    "fd_mem w1 = ?s" "\<And>k b. map_of input k = Some b \<Longrightarrow> fd_state w1 key k = Regular b"
    unfolding read_inv_def by blast
  have load: "load_or_freeze F E C key l input snaps dg w = (Inr (), w1)"
    using w1(1) w E by (simp add: load_or_freeze_def io_apply read_state_def read_bounded_def calm_def)
  have snap: "\<forall>(n, sn) \<in> set snaps. lookup_or zero_snapshot snaps n = sn \<and> (\<exists>limit. map_of artifact_limits n = Some limit \<and>
      (sn_status sn = ''present'' \<longrightarrow> (\<exists>b. fd_state w1 key n = Regular b \<and> int (length b) \<le> limit \<and> sn_sha sn = digest b \<and>
        sn_size sn = int (length b))))"
  proof -
    have "lookup_or zero_snapshot snaps n = sn \<and> (\<exists>limit. map_of artifact_limits n = Some limit \<and>
      (sn_status sn = ''present'' \<longrightarrow> (\<exists>b. fd_state w1 key n = Regular b \<and> int (length b) \<le> limit \<and> sn_sha sn = digest b \<and>
        sn_size sn = int (length b))))" if "(n, sn) \<in> set snaps" for n sn
    proof -
      from inv that have m: "map_of snaps n = Some sn" unfolding read_inv_def by (metis map_of_is_SomeI)
      with inv obtain limit where limit: "map_of artifact_limits n = Some limit"
        and p: "sn_status sn = ''present'' \<longrightarrow> (\<exists>b. map_of input n = Some b \<and> int (length b) \<le> limit \<and> sn_sha sn = digest b \<and>
           sn_size sn = int (length b))" unfolding read_inv_def by blast
      from p have "sn_status sn = ''present'' \<longrightarrow> (\<exists>b. fd_state w1 key n = Regular b \<and> int (length b) \<le> limit \<and> sn_sha sn = digest b \<and>
        sn_size sn = int (length b))" using w1(3) by blast
      with m limit show ?thesis by (simp add: lookup_or_def)
    qed
    then show ?thesis by blast
  qed
  obtain out w2 where out: "reread E key snaps snaps [] w1 = (Inr out, w2)" "fd_mem w2 = fd_mem w1" "distinct_keys out"
      "\<forall>(k, b) \<in> set out. \<exists>limit. map_of artifact_limits k = Some limit \<and> int (length b) \<le> limit"
      "\<And>k. has_key [] k \<or> (\<exists>sn. (k, sn) \<in> set snaps \<and> sn_status sn = ''present'') \<Longrightarrow> has_key out k"
    using calm_reread[OF E snap, of "[]"] by auto
  from inv led obtain sn where "map_of snaps ''run.json'' = Some sn" "sn_status sn = ''present''" unfolding read_inv_def by blast
  then have "has_key out ''run.json''" by (intro out(5)) (auto dest: map_of_SomeD)
  note frozen = reread_frozen[OF out(3) this out(4)]
  have "live (fd_mem w2) (fin_continue F E A S key l out)
    (\<lambda>res s'. rt_status s' = ''complete'' \<and> rt_attempts s' = 1 \<and> oc_identity res = l_identity l)"
    unfolding out(2) w1(2) by (rule live_continue[OF E F A S W l texts times frozen])
  from liveD[OF this] obtain res w3 where "fin_continue F E A S key l out w2 = (Inr res, w3)"
    "rt_status (fd_mem w3) = ''complete''" "rt_attempts (fd_mem w3) = 1" "oc_identity res = l_identity l" by blast
  with load out(1) w1(2) show ?thesis by (simp add: io_apply fresh_state_def)
qed

lemma fresh_run_completes:
  fixes w :: "'x fworld"
  assumes E: "calm E D now" and F: "encodes F" and A: "working_archive A" and S: "working_signer S"
    and W: "sound_codec (w_observations (fw_base F))" and run: "hex_n 32 run"
    and C: "is_abs (fc_input C)" "is_abs (fc_state C)" "is_abs (fc_output C)"
    "\<not> overlaps (fc_input C) (fc_state C)" "\<not> overlaps (fc_input C) (fc_output C)"
    and inp: "fst (read_inputs F E run w) = Inr (l, input, snaps, dg)" and texts: "receipt_texts_ok l (fc_policy C)"
    and times: "l_updated l \<le> now" "0 \<le> l_created l" "now < year_10000"
    and fresh: "fd_state w (dedup_key F (l_identity l)) = (\<lambda>_. Missing)"
  shows "\<exists>res w'. fin_run F E C A S run w = (Inr res, w') \<and>
    rt_status (fd_mem w') = ''complete'' \<and> rt_attempts (fd_mem w') = 1 \<and> oc_identity res = l_identity l"
proof -
  let ?k = "dedup_key F (l_identity l)"
  obtain w1 where w1: "fin_prepare E C run w = (Inr (), w1)" using calm_prepare[OF E run C] by blast
  have 1: "fd_state w1 = fd_state w" using quietD[OF quiet_prepare w1] by (simp add: quiet_def)
  have "fst (read_inputs F E run w1) = Inr (l, input, snaps, dg)"
    using oblivious_read_inputs[OF E, where F = F and run = run and 'x = 'x] inp unfolding oblivious_def by metis
  then obtain w2 where w2: "read_inputs F E run w1 = (Inr (l, input, snaps, dg), w2)" by (cases "read_inputs F E run w1") auto
  have 2: "fd_state w2 = fd_state w1" using quietD[OF quiet_read_inputs w2] by (simp add: quiet_def)
  obtain rdy where ci: "check_inputs F run rdy input snaps = Inr (l, dg)" using read_inputs_inv(2)[OF w2] by blast
  obtain led where led: "map_of input ''run.json'' = Some led" using check_inputs_accepted(2)[OF ci run] by blast
  let ?w = "w2\<lparr>fd_tick := Suc (fd_tick w2)\<rparr>"
  have "fd_state ?w ?k = (\<lambda>_. Missing)" using fresh 1 2 by simp
  from fresh_continue[OF E F A S W read_inputs_inv(1)[OF w2] check_inputs_accepted(1)[OF ci run] led texts times this, of dg]
  obtain res w' where "then_io (load_or_freeze F E C ?k l input snaps dg)
      (bind_io (get_io fd_mem) (\<lambda>s. bind_io (reread E ?k snaps (rt_snapshots s) []) (\<lambda>frozen.
       fin_continue F E A S ?k l frozen))) ?w = (Inr res, w')"
    "rt_status (fd_mem w') = ''complete''" "rt_attempts (fd_mem w') = 1" "oc_identity res = l_identity l" by blast
  moreover from this(1) have "fin_run F E C A S run w = (Inr res, w')"
    unfolding fin_run_def by (simp add: then_io_def[of "fin_prepare E C run"] bind_io_def[of "fin_prepare E C run"] w1
        bind_io_def[of "read_inputs F E run"] w2 Let_def then_io_def[of "sys_io _"] bind_io_def[of "sys_io _"] calm_sys[OF E])
  ultimately show ?thesis by blast
qed

end
