(* ===== verification/Documents.thy ===== *)
theory Documents
  imports Completion
begin

text \<open>
  A concrete wire format for the documents, in which every encoder is total and every decoder
  inverts it: an instance of the third-party JSON canonicalizer that the development takes as a
  parameter, on which its hypotheses hold together. The decoders return the text that is left, so
  that they compose.
\<close>

section \<open>Codecs that compose\<close>

record 'a part =
  put :: "'a \<Rightarrow> string"
  get :: "string \<Rightarrow> ('a \<times> string) option"

definition part_ok :: "'a part \<Rightarrow> bool" where
  "part_ok P \<longleftrightarrow> (\<forall>x r. get P (put P x @ r) = Some (x, r)) \<and> (\<forall>x. \<forall>c \<in> set (put P x). (of_char c :: nat) < 128)"

lemma part_okI:
  "(\<And>x r. get P (put P x @ r) = Some (x, r)) \<Longrightarrow> (\<And>x c. c \<in> set (put P x) \<Longrightarrow> (of_char c :: nat) < 128) \<Longrightarrow> part_ok P"
  by (simp add: part_ok_def)

lemma part_get: "part_ok P \<Longrightarrow> get P (put P x @ r) = Some (x, r)"
  by (simp add: part_ok_def)

lemma part_ascii: "part_ok P \<Longrightarrow> c \<in> set (put P x) \<Longrightarrow> (of_char c :: nat) < 128"
  by (simp add: part_ok_def)

fun put_nat :: "nat \<Rightarrow> string" where
  "put_nat n = (if n = 0 then ''.'' else (if odd n then CHR ''1'' else CHR ''0'') # put_nat (n div 2))"

fun get_nat :: "string \<Rightarrow> (nat \<times> string) option" where
  "get_nat [] = None"
| "get_nat (c # s) = (if c = CHR ''.'' then Some (0, s)
     else map_option (\<lambda>(n, r). (2 * n + (if c = CHR ''1'' then 1 else 0), r)) (get_nat s))"

declare put_nat.simps [simp del]

definition nat_part :: "nat part" where
  "nat_part = \<lparr>put = put_nat, get = get_nat\<rparr>"

lemma nat_part_ok: "part_ok nat_part"
proof (rule part_okI)
  show "get nat_part (put nat_part n @ r) = Some (n, r)" for n r
    unfolding nat_part_def part.simps
  proof (induction n rule: put_nat.induct)
    case (1 n)
    show ?case
    proof (cases "n = 0")
      case False
      with 1 have i: "get_nat (put_nat (n div 2) @ r) = Some (n div 2, r)" by blast
      show ?thesis using False i by (subst put_nat.simps) (auto simp: odd_two_times_div_two_succ)
    qed (simp add: put_nat.simps)
  qed
  show "c \<in> set (put nat_part n) \<Longrightarrow> (of_char c :: nat) < 128" for n c
    unfolding nat_part_def part.simps
  proof (induction n rule: put_nat.induct)
    case (1 n)
    then show ?case by (subst (asm) put_nat.simps) (auto split: if_splits)
  qed
qed

lemma put_nat_length: "n < 2 ^ k \<Longrightarrow> length (put nat_part n) \<le> Suc k"
  unfolding nat_part_def part.simps
proof (induction k arbitrary: n)
  case (Suc k)
  then have "n div 2 < 2 ^ k" by (simp add: less_mult_imp_div_less mult.commute)
  with Suc.IH show ?case by (subst put_nat.simps) simp
qed (simp add: put_nat.simps)

definition map_part :: "('a \<Rightarrow> 'b) \<Rightarrow> ('b \<Rightarrow> 'a) \<Rightarrow> 'b part \<Rightarrow> 'a part" where
  "map_part f g P = \<lparr>put = \<lambda>x. put P (f x), get = \<lambda>s. map_option (map_prod g id) (get P s)\<rparr>"

lemma map_part_ok: "part_ok P \<Longrightarrow> (\<And>x. g (f x) = x) \<Longrightarrow> part_ok (map_part f g P)"
  by (simp add: part_ok_def map_part_def)

definition pair_part :: "'a part \<Rightarrow> 'b part \<Rightarrow> ('a \<times> 'b) part" where
  "pair_part P Q = \<lparr>put = \<lambda>(a, b). put P a @ put Q b,
     get = \<lambda>s. case get P s of None \<Rightarrow> None | Some (a, t) \<Rightarrow> map_option (map_prod (Pair a) id) (get Q t)\<rparr>"

lemma pair_part_ok: "part_ok P \<Longrightarrow> part_ok Q \<Longrightarrow> part_ok (pair_part P Q)"
  by (auto simp: part_ok_def pair_part_def)

definition option_part :: "'a part \<Rightarrow> 'a option part" where
  "option_part P = \<lparr>put = \<lambda>x. case x of None \<Rightarrow> ''-'' | Some a \<Rightarrow> CHR ''+'' # put P a,
     get = \<lambda>s. case s of [] \<Rightarrow> None | c # t \<Rightarrow> if c = CHR ''-'' then Some (None, t) else map_option (map_prod Some id) (get P t)\<rparr>"

lemma option_part_ok: "part_ok P \<Longrightarrow> part_ok (option_part P)"
  by (auto simp: part_ok_def option_part_def split: option.splits)

fun put_list :: "'a part \<Rightarrow> 'a list \<Rightarrow> string" where
  "put_list P [] = ''-''"
| "put_list P (x # xs) = CHR ''+'' # put P x @ put_list P xs"

fun get_list :: "nat \<Rightarrow> 'a part \<Rightarrow> string \<Rightarrow> ('a list \<times> string) option" where
  \<comment> \<open>every element takes at least one character, so the length of the text bounds the recursion\<close>
  "get_list 0 P s = None"
| "get_list (Suc n) P [] = None"
| "get_list (Suc n) P (c # s) = (if c = CHR ''-'' then Some ([], s) else case get P s of
     None \<Rightarrow> None | Some (x, t) \<Rightarrow> map_option (map_prod ((#) x) id) (get_list n P t))"

definition list_part :: "'a part \<Rightarrow> 'a list part" where
  "list_part P = \<lparr>put = put_list P, get = \<lambda>s. get_list (length s) P s\<rparr>"

lemma get_put_list: "part_ok P \<Longrightarrow> length xs < n \<Longrightarrow> get_list n P (put_list P xs @ r) = Some (xs, r)"
proof (induction xs arbitrary: n)
  case (Cons x xs)
  then obtain m where "n = Suc m" by (cases n) auto
  with Cons show ?case by (simp add: part_get)
next
  case Nil
  then obtain m where "n = Suc m" by (cases n) auto
  then show ?case by simp
qed

lemma put_list_length_ge: "length xs < length (put_list P xs)"
  by (induction xs) auto

lemma put_list_length: "(\<And>x. x \<in> set xs \<Longrightarrow> length (put P x) \<le> k) \<Longrightarrow> length (put_list P xs) \<le> length xs * Suc k + 1"
proof (induction xs)
  case (Cons x xs)
  have "length (put P x) \<le> k" using Cons.prems by simp
  moreover have "length (put_list P xs) \<le> length xs * Suc k + 1" using Cons by simp
  ultimately show ?case by simp
qed simp

lemma list_part_ok: "part_ok P \<Longrightarrow> part_ok (list_part P)"
proof (rule part_okI)
  assume P: "part_ok P"
  show "get (list_part P) (put (list_part P) xs @ r) = Some (xs, r)" for xs r
    using get_put_list[OF P] put_list_length_ge[of xs P] by (simp add: list_part_def)
  show "c \<in> set (put (list_part P) xs) \<Longrightarrow> (of_char c :: nat) < 128" for xs c
    unfolding list_part_def part.simps using P by (induction xs) (auto simp: part_ascii)
qed

definition int_part :: "int part" where
  "int_part = map_part (\<lambda>i. (if i < 0 then 1 else 0, nat \<bar>i\<bar>)) (\<lambda>(s, n). if s = (0::nat) then int n else - int n)
     (pair_part nat_part nat_part)"

definition string_part :: "string part" where
  "string_part = list_part (map_part of_char char_of nat_part)"

lemmas part_intros = nat_part_ok pair_part_ok option_part_ok list_part_ok

lemma int_part_ok: "part_ok int_part"
  unfolding int_part_def by (rule map_part_ok[OF pair_part_ok[OF nat_part_ok nat_part_ok]]) auto

lemma string_part_ok: "part_ok string_part"
  unfolding string_part_def by (intro list_part_ok map_part_ok nat_part_ok) simp

lemma put_string_length: "length (put string_part s) \<le> 10 * length s + 1"
proof -
  have "(of_char c :: nat) < 2 ^ 8" for c :: char
    using mod_less_divisor[of 256 "of_char c"] by (simp add: of_char_mod_256)
  then have "length (put (map_part of_char char_of nat_part) c) \<le> 9" for c :: char
    using put_nat_length[of "of_char c" 8] by (simp add: map_part_def)
  then show ?thesis using put_list_length[of s "map_part of_char char_of nat_part" 9] by (simp add: string_part_def list_part_def)
qed

lemma put_int_length: "\<bar>i\<bar> < 2 ^ k \<Longrightarrow> length (put int_part i) \<le> k + 3"
proof -
  assume i: "\<bar>i\<bar> < 2 ^ k"
  have "nat \<bar>i\<bar> < 2 ^ k" using i by (metis nat_less_iff abs_ge_zero of_nat_numeral of_nat_power)
  moreover have "length (put nat_part (if i < 0 then 1 else 0)) \<le> 2"
    using put_nat_length[of 1 1] put_nat_length[of 0 1] by (simp split: if_split)
  ultimately show ?thesis using put_nat_length[of "nat \<bar>i\<bar>" k]
    unfolding int_part_def map_part_def pair_part_def by (simp del: abs_if)
qed

section \<open>Documents\<close>

definition document :: "'a part \<Rightarrow> 'a codec" where
  "document P = \<lparr>enc = \<lambda>x. Inr (put P x), dec = \<lambda>s. case get P s of
     Some (x, []) \<Rightarrow> Inr x | _ \<Rightarrow> Inl (EMsg ''not a document'')\<rparr>"

lemma document_sound: "part_ok P \<Longrightarrow> sound_codec (document P)"
  using part_get[of P _ "[]"] by (auto simp: sound_codec_def document_def)

definition only :: "'a \<Rightarrow> bytes \<Rightarrow> 'a codec" where
  \<comment> \<open>the format of a single document\<close>
  "only x b = \<lparr>enc = \<lambda>y. if y = x then Inr b else Inl (EMsg ''not the document''),
     dec = \<lambda>s. if s = b then Inr x else Inl (EMsg ''not the document'')\<rparr>"

lemma only_sound: "sound_codec (only x b)"
  by (simp add: sound_codec_def only_def)

definition identity_part :: "identity part" where
  "identity_part = map_part
     (\<lambda>i. (i_provider i, i_repository i, i_run i, i_attempt i, i_job i, i_revision i))
     (\<lambda>(a, b, c, d, e, f). \<lparr>i_provider = a, i_repository = b, i_run = c, i_attempt = d, i_job = e, i_revision = f\<rparr>)
     (pair_part string_part (pair_part string_part (pair_part string_part (pair_part int_part (pair_part string_part string_part)))))"

definition binding_part :: "binding part" where
  "binding_part = map_part
     (\<lambda>b. [bd_cluster_uid b, bd_resource_ns b, bd_resource_uid b, bd_runner_ns b, bd_runner_uid b, bd_job_uid b, bd_pod_uid b,
        bd_ledger_sha b])
     (\<lambda>xs. \<lparr>bd_cluster_uid = xs ! 0, bd_resource_ns = xs ! 1, bd_resource_uid = xs ! 2, bd_runner_ns = xs ! 3,
        bd_runner_uid = xs ! 4, bd_job_uid = xs ! 5, bd_pod_uid = xs ! 6, bd_ledger_sha = xs ! 7\<rparr>)
     (list_part string_part)"

definition policy_part :: "signer_policy part" where
  "policy_part = map_part
     (\<lambda>p. [sp_revision p, sp_issuer p, sp_identity p, sp_trust_root p, sp_cosign p, sp_signing_config p])
     (\<lambda>xs. \<lparr>sp_revision = xs ! 0, sp_issuer = xs ! 1, sp_identity = xs ! 2, sp_trust_root = xs ! 3, sp_cosign = xs ! 4,
        sp_signing_config = xs ! 5\<rparr>)
     (list_part string_part)"

definition obs_part :: "observation part" where
  "obs_part = map_part (\<lambda>b. (o_status b, o_observer b, o_reason b)) (\<lambda>(a, b, c). obs a b c)
     (pair_part string_part (pair_part string_part string_part))"

definition aref_part :: "aref part" where
  "aref_part = map_part (\<lambda>r. (rf_store r, rf_bucket r, rf_key r, rf_version r, rf_sha r, rf_size r))
     (\<lambda>(a, b, c, d, e, f). \<lparr>rf_store = a, rf_bucket = b, rf_key = c, rf_version = d, rf_sha = e, rf_size = f\<rparr>)
     (pair_part string_part (pair_part string_part (pair_part string_part (pair_part string_part (pair_part string_part int_part)))))"

definition snapshot_part :: "snapshot part" where
  "snapshot_part = map_part (\<lambda>s. (sn_sha s, sn_size s, sn_status s)) (\<lambda>(a, b, c). \<lparr>sn_sha = a, sn_size = b, sn_status = c\<rparr>)
     (pair_part string_part (pair_part int_part string_part))"

definition gomap_part :: "'v part \<Rightarrow> 'v gomap part" where
  "gomap_part P = list_part (pair_part string_part P)"

definition receipt_part :: "receipt part" where
  "receipt_part = map_part
     (\<lambda>r. (rc_kind r, rc_identity r, rc_binding r, rc_finalizer r, rc_started r, rc_completed r, rc_finalized r, rc_evidence r,
        rc_coverage r, rc_objects r, rc_logs r, rc_verdict r))
     (\<lambda>(a, b, c, d, e, f, g, h, i, j, k, l). \<lparr>rc_kind = a, rc_identity = b, rc_binding = c, rc_finalizer = d, rc_started = e,
        rc_completed = f, rc_finalized = g, rc_evidence = h, rc_coverage = i, rc_objects = j, rc_logs = k, rc_verdict = l\<rparr>)
     (pair_part string_part (pair_part identity_part (pair_part binding_part (pair_part policy_part (pair_part int_part
       (pair_part int_part (pair_part int_part (pair_part string_part (pair_part (gomap_part obs_part)
       (pair_part (option_part (gomap_part aref_part)) (pair_part (option_part (list_part aref_part)) string_part)))))))))))"

definition outcome_part :: "outcome part" where
  "outcome_part = map_part (\<lambda>r. (oc_kind r, oc_identity r, oc_receipt r, oc_bundle r, oc_signature r))
     (\<lambda>(a, b, c, d, e). \<lparr>oc_kind = a, oc_identity = b, oc_receipt = c, oc_bundle = d, oc_signature = e\<rparr>)
     (pair_part string_part (pair_part identity_part (pair_part aref_part (pair_part aref_part string_part))))"

definition retry_part :: "retry part" where
  "retry_part = map_part
     (\<lambda>r. (rt_kind r, rt_identity r, rt_policy r, rt_input r, rt_snapshots r, rt_finalized r, rt_attempts r, rt_stage r,
        rt_status r, rt_next r, rt_error r, rt_objects r, rt_receipt_sha r, rt_bundle_sha r))
     (\<lambda>(a, b, c, d, e, f, g, h, i, j, k, l, m, n). \<lparr>rt_kind = a, rt_identity = b, rt_policy = c, rt_input = d,
        rt_snapshots = e, rt_finalized = f, rt_attempts = g, rt_stage = h, rt_status = i, rt_next = j, rt_error = k,
        rt_objects = l, rt_receipt_sha = m, rt_bundle_sha = n\<rparr>)
     (pair_part string_part (pair_part identity_part (pair_part policy_part (pair_part string_part
       (pair_part (gomap_part snapshot_part) (pair_part int_part (pair_part int_part (pair_part string_part
       (pair_part string_part (pair_part (option_part int_part) (pair_part string_part
       (pair_part (option_part (gomap_part aref_part)) (pair_part string_part string_part)))))))))))))"

lemma record_parts_ok:
  "part_ok identity_part" "part_ok binding_part" "part_ok policy_part" "part_ok obs_part" "part_ok aref_part" "part_ok snapshot_part"
  unfolding identity_part_def binding_part_def policy_part_def obs_part_def aref_part_def snapshot_part_def
  by (intro map_part_ok part_intros string_part_ok int_part_ok, simp)+

lemma gomap_part_ok: "part_ok P \<Longrightarrow> part_ok (gomap_part P)"
  unfolding gomap_part_def by (intro part_intros string_part_ok)

lemma document_parts_ok: "part_ok receipt_part" "part_ok outcome_part" "part_ok retry_part"
  unfolding receipt_part_def outcome_part_def retry_part_def
  by (intro map_part_ok part_intros gomap_part_ok record_parts_ok string_part_ok int_part_ok, simp)+

section \<open>Lengths\<close>

lemma put_map: "put (map_part f g P) x = put P (f x)"
  by (simp add: map_part_def)

lemma put_pair: "put (pair_part P Q) (a, b) = put P a @ put Q b"
  by (simp add: pair_part_def)

lemma put_option_length: "(\<And>a. x = Some a \<Longrightarrow> length (put P a) \<le> k) \<Longrightarrow> length (put (option_part P) x) \<le> Suc k"
  by (auto simp: option_part_def split: option.split)

lemma put_list_le:
  assumes "\<And>x. x \<in> set xs \<Longrightarrow> length (put P x) \<le> k" "length xs \<le> n" "n * Suc k + 1 \<le> m"
  shows "length (put (list_part P) xs) \<le> m"
proof -
  have "length (put (list_part P) xs) \<le> length xs * Suc k + 1"
    using put_list_length[OF assms(1)] by (simp add: list_part_def)
  also have "\<dots> \<le> n * Suc k + 1" using mult_le_mono1[OF assms(2), of "Suc k"] by linarith
  finally show ?thesis using assms(3) by simp
qed

lemma put_string_le: "length s \<le> n \<Longrightarrow> 10 * n + 1 \<le> m \<Longrightarrow> length (put string_part s) \<le> m"
  using put_string_length[of s] by simp

lemma safe_text_length: "safe_text s n b \<Longrightarrow> length s \<le> n"
  by (auto simp: safe_text_def split: if_splits)

lemma revision_length: "revision_pattern s \<Longrightarrow> length s \<le> 64"
  by (auto simp: revision_pattern_def dest: hex_n_length)

lemma identity_length:
  assumes "identity_validate i = None"
  shows "length (put identity_part i) \<le> 9000"
proof -
  from assms have v: "i_provider i \<in> {''local'', ''github''}" "length (i_repository i) \<le> 255" "length (i_run i) \<le> 255"
    "length (i_job i) \<le> 255" "1 \<le> i_attempt i" "i_attempt i \<le> 2147483647" "length (i_revision i) \<le> 64"
    unfolding identity_validate_None_iff by (auto dest: revision_length)
  have "length (i_provider i) \<le> 6" using v(1) by auto
  then have "length (put string_part (i_provider i)) \<le> 61" by (rule put_string_le) simp
  moreover have "length (put string_part (i_repository i)) \<le> 2551" by (rule put_string_le[OF v(2)]) simp
  moreover have "length (put string_part (i_run i)) \<le> 2551" by (rule put_string_le[OF v(3)]) simp
  moreover have "length (put string_part (i_job i)) \<le> 2551" by (rule put_string_le[OF v(4)]) simp
  moreover have "length (put int_part (i_attempt i)) \<le> 31 + 3" by (rule put_int_length) (use v(5,6) in simp)
  moreover have "length (put string_part (i_revision i)) \<le> 641" by (rule put_string_le[OF v(7)]) simp
  ultimately show ?thesis by (simp add: identity_part_def put_map put_pair)
qed

lemma aref_length:
  assumes "validate_ref r = None"
  shows "length (put aref_part r) \<le> 23000"
proof -
  from assms have v: "length (rf_store r) \<le> 80" "length (rf_bucket r) \<le> 63" "length (rf_key r) \<le> 1024" "length (rf_version r) \<le> 1024"
    "length (rf_sha r) = 64" "0 \<le> rf_size r" "rf_size r \<le> 104857600"
    by (auto simp: validate_ref_def not_less dest: safe_text_length hex_n_length)
  have "length (put string_part (rf_store r)) \<le> 801" by (rule put_string_le[OF v(1)]) simp
  moreover have "length (put string_part (rf_bucket r)) \<le> 631" by (rule put_string_le[OF v(2)]) simp
  moreover have "length (put string_part (rf_key r)) \<le> 10241" by (rule put_string_le[OF v(3)]) simp
  moreover have "length (put string_part (rf_version r)) \<le> 10241" by (rule put_string_le[OF v(4)]) simp
  moreover have "length (put string_part (rf_sha r)) \<le> 641" by (rule put_string_le[of _ 64]) (simp_all add: v(5))
  moreover have "length (put int_part (rf_size r)) \<le> 27 + 3" by (rule put_int_length) (use v(6,7) in simp)
  ultimately show ?thesis by (simp add: aref_part_def put_map put_pair)
qed

lemma covered_components:
  assumes "length c = length components" "\<And>k. k \<in> set components \<Longrightarrow> has_key c k"
  shows "distinct_keys c \<and> fst ` set c = set components"
proof -
  have sub: "set components \<subseteq> set (map fst c)" using assms(2) by (auto simp: has_key_iff)
  have "card (set components) = length (map fst c)" using assms(1) by (simp add: distinct_card)
  with sub have "card (set (map fst c)) = length (map fst c)"
    by (metis List.finite_set card_length card_mono le_antisym)
  then have d: "distinct (map fst c)" by (rule card_distinct)
  have "set components = set (map fst c)"
    by (rule card_subset_eq[OF _ sub]) (use assms(1) d in \<open>simp_all add: distinct_card[OF d] distinct_card del: set_map\<close>)
  with d show ?thesis by simp
qed

lemma coverage_length:
  assumes "validate_coverage c = None"
  shows "length (put (gomap_part obs_part) c) \<le> 30000"
proof -
  have len: "length c = length components" and e: "\<And>k. k \<in> set components \<Longrightarrow> coverage_entry c k = None"
    using assms by (simp_all add: validate_coverage_def)
  have key: "has_key c k" if "k \<in> set components" for k using e[OF that] by (simp add: coverage_entry_def)
  note keys = covered_components[OF len key]
  have "length (put (pair_part string_part obs_part) (k, ob)) \<le> 5550" if "(k, ob) \<in> set c" for k ob
  proof -
    have k: "k \<in> set components" using keys that by force
    have ob: "cov c k = ob" using that keys by (simp add: lookup_or_def)
    have v: "length (o_reason ob) \<le> 512" "o_status ob \<in> {''verified'', ''failed'', ''unsupported'', ''unobservable''}"
      "o_observer ob \<in> {''trusted'', ''job'', ''none''}"
      using e[OF k] ob by (auto simp: coverage_entry_def dest: safe_text_length)
    have "length k \<le> 15" using k by (auto simp: components_def)
    then have "length (put string_part k) \<le> 151" by (rule put_string_le) simp
    moreover have "length (o_status ob) \<le> 12" using v(2) by (elim insertE emptyE) simp_all
    then have "length (put string_part (o_status ob)) \<le> 121" by (rule put_string_le) simp
    moreover have "length (o_observer ob) \<le> 7" using v(3) by (elim insertE emptyE) simp_all
    then have "length (put string_part (o_observer ob)) \<le> 71" by (rule put_string_le) simp
    moreover have "length (put string_part (o_reason ob)) \<le> 5121" by (rule put_string_le[OF v(1)]) simp
    ultimately show ?thesis by (simp add: obs_part_def put_map put_pair)
  qed
  then show ?thesis unfolding gomap_part_def by (intro put_list_le[of _ _ 5550 5]) (auto simp: len components_def)
qed

lemma policy_length:
  assumes "receipt_identity_ok r = None"
  shows "length (put policy_part (rc_finalizer r)) \<le> 62000" "length (put binding_part (rc_binding r)) \<le> 21000"
proof -
  from assms have v: "length (sp_revision (rc_finalizer r)) \<le> 64" "length (sp_trust_root (rc_finalizer r)) = 64"
    "length (sp_cosign (rc_finalizer r)) = 64" "length (sp_signing_config (rc_finalizer r)) = 64"
    "length (sp_issuer (rc_finalizer r)) \<le> 1024" "length (sp_identity (rc_finalizer r)) \<le> 1024"
    and b: "length (bd_ledger_sha (rc_binding r)) = 64" "length (i_run (rc_identity r)) = 32"
    "bd_resource_ns (rc_binding r) = ''proof-'' @ i_run (rc_identity r)"
    "bd_runner_ns (rc_binding r) = ''proof-runner-'' @ i_run (rc_identity r)"
    "length (bd_cluster_uid (rc_binding r)) \<le> 255" "length (bd_resource_uid (rc_binding r)) \<le> 255"
    "length (bd_runner_uid (rc_binding r)) \<le> 255" "length (bd_job_uid (rc_binding r)) \<le> 255" "length (bd_pod_uid (rc_binding r)) \<le> 255"
    by (auto simp: receipt_identity_ok_def dest: safe_text_length hex_n_length revision_length)
  show "length (put policy_part (rc_finalizer r)) \<le> 62000"
    unfolding policy_part_def put_map
    by (rule put_list_le[where k = 10241 and n = 6]) (use v in \<open>auto intro: put_string_le[of _ 1024]\<close>)
  show "length (put binding_part (rc_binding r)) \<le> 21000"
    unfolding binding_part_def put_map
    by (rule put_list_le[where k = 2551 and n = 8]) (use b in \<open>auto intro: put_string_le[of _ 255]\<close>)
qed

lemma objects_length:
  assumes "receipt_archive_ok r = None"
  shows "length (put (option_part (gomap_part aref_part)) (rc_objects r)) \<le> 70000"
    "length (put (option_part (list_part aref_part)) (rc_logs r)) \<le> 24000"
proof -
  let ?objs = "entries (rc_objects r)" and ?logs = "entries (rc_logs r)"
  have v: "length ?objs \<le> 3" "length ?logs \<le> 1" "\<And>kr. kr \<in> set ?objs \<Longrightarrow> receipt_object_ok kr = None"
    "\<And>l. l \<in> set ?logs \<Longrightarrow> validate_ref l = None"
    using assms by (auto simp: receipt_archive_ok_def Let_def)
  have o: "length (put (pair_part string_part aref_part) (k, ref)) \<le> 23300" if "(k, ref) \<in> set ?objs" for k ref
  proof -
    have ok: "k \<in> {''run.json'', ''observations.json'', ''cleanup-evidence.json''}" "validate_ref ref = None"
      using v(3)[OF that] by (auto simp: receipt_object_ok_def)
    then have "length k \<le> 21" by (elim insertE emptyE) simp_all
    then have "length (put string_part k) \<le> 211" by (rule put_string_le) simp
    with aref_length[OF ok(2)] show ?thesis by (simp add: put_pair)
  qed
  have "length (put (gomap_part aref_part) objs) \<le> 69999" if "rc_objects r = Some objs" for objs
    unfolding gomap_part_def by (rule put_list_le[where k = 23300 and n = 3]) (use that o v(1) in auto)
  then have "length (put (option_part (gomap_part aref_part)) (rc_objects r)) \<le> Suc 69999" by (rule put_option_length)
  then show "length (put (option_part (gomap_part aref_part)) (rc_objects r)) \<le> 70000" by simp
  have "length (put (list_part aref_part) logs) \<le> 23999" if "rc_logs r = Some logs" for logs
    by (rule put_list_le[where k = 23000 and n = 1]) (use that v(2,4) aref_length in auto)
  then have "length (put (option_part (list_part aref_part)) (rc_logs r)) \<le> Suc 23999" by (rule put_option_length)
  then show "length (put (option_part (list_part aref_part)) (rc_logs r)) \<le> 24000" by simp
qed

lemma receipt_length:
  assumes v: "receipt_validate r = None" and t: "0 \<le> rc_started r" "rc_finalized r < year_10000"
  shows "int (length (put receipt_part r)) \<le> max_receipt"
proof -
  from v have i: "receipt_identity_ok r = None" "receipt_archive_ok r = None" "validate_coverage (rc_coverage r) = None"
    "rc_evidence r \<in> {''accepted-untrusted'', ''missing'', ''invalid''}" "rc_verdict r = verdict (rc_coverage r)"
    by (auto simp: receipt_validate_def)
  have kind: "rc_kind r = ''cleanup-receipt/v1''" "identity_validate (rc_identity r) = None"
    "rc_started r \<le> rc_completed r" "rc_completed r \<le> rc_finalized r"
    using i(1) by (auto simp: receipt_identity_ok_def)
  have time: "length (put int_part x) \<le> 69 + 3" if "0 \<le> x" "x < year_10000" for x
    by (rule put_int_length) (use that in \<open>simp add: year_10000_def\<close>)
  have "length (put string_part (rc_kind r)) \<le> 181" by (rule put_string_le[of _ 18]) (simp_all add: kind(1))
  moreover have "length (rc_evidence r) \<le> 18" using i(4) by (elim insertE emptyE) simp_all
  then have "length (put string_part (rc_evidence r)) \<le> 181" by (rule put_string_le) simp
  moreover have "length (rc_verdict r) \<le> 7" by (auto simp: i(5) verdict_def verdict_from_spec)
  then have "length (put string_part (rc_verdict r)) \<le> 71" by (rule put_string_le) simp
  moreover note identity_length[OF kind(2)] policy_length[OF i(1)] coverage_length[OF i(3)] objects_length[OF i(2)]
    time[of "rc_started r"] time[of "rc_completed r"] time[of "rc_finalized r"] t kind(3,4)
  ultimately show ?thesis by (simp add: receipt_part_def put_map put_pair max_receipt_def)
qed

end
