(* ===== verification/Watchdog.thy ===== *)
theory Watchdog
  imports Ledger
begin

text \<open>
  The recovery watchdog, internal/watchdog/state.go: a durable state per run identity, at most six
  recovery attempts with persisted intent, and reports that are replayed until they are accepted.
\<close>

section \<open>Data\<close>

record report =
  rp_identity :: identity
  rp_number :: int
  rp_stage :: string
  rp_status :: string
  rp_error :: string
  rp_receipt :: string
  rp_next :: "time option"
  rp_owner :: string
  rp_lease :: "time option"

record wstate =
  ws_kind :: string
  ws_identity :: identity
  ws_current :: report
  ws_history :: "report list"
  ws_updated :: time

record recovery_outcome =
  ro_receipt :: string
  ro_stage :: string
  ro_permanent :: bool
  ro_exhausted :: bool
  ro_not_before :: "time option"

definition zero_report :: report where
  "zero_report = \<lparr>rp_identity = \<lparr>i_provider = [], i_repository = [], i_run = [], i_attempt = 0, i_job = [], i_revision = []\<rparr>,
     rp_number = 0, rp_stage = [], rp_status = [], rp_error = [], rp_receipt = [], rp_next = None, rp_owner = [], rp_lease = None\<rparr>"

section \<open>The world of the watchdog\<close>

text \<open>
  The backend runs on a state of its own. The state file is the one of a fixed identity: \<open>Key\<close>
  separates identities, and a step touches the file of its own identity only. The environment is
  indexed by the number of system calls made so far, as in the finalizer.
\<close>

record 'x backend =
  bk_reconcile :: "identity \<Rightarrow> ('x, string) io"
  bk_recover :: "identity \<Rightarrow> 'x \<Rightarrow> (recovery_outcome \<times> gerr option) \<times> 'x"
  bk_report :: "report \<Rightarrow> ('x, unit) io"

record 'x wworld =
  ww_file :: node
  ww_ext :: 'x
  ww_tick :: nat

record wenv =
  we_durable :: "nat \<Rightarrow> durable_io"
  we_now :: "nat \<Rightarrow> time"
  we_rand :: "nat \<Rightarrow> 8 word list"
  we_fault :: "nat \<Rightarrow> bool"

definition wtick :: "(nat \<Rightarrow> 'a) \<Rightarrow> ('x wworld, 'a) io" where
  "wtick f w = (Inr (f (ww_tick w)), w\<lparr>ww_tick := Suc (ww_tick w)\<rparr>)"

definition wext :: "('x, 'a) io \<Rightarrow> ('x wworld, 'a) io" where
  "wext m w = (case m (ww_ext w) of (r, x) \<Rightarrow> (r, w\<lparr>ww_ext := x\<rparr>))"

section \<open>Operations\<close>

definition wdelay :: "int \<Rightarrow> duration" where
  \<comment> \<open>\<open>Delay\<close>\<close>
  "wdelay n0 = (let n1 = (if n0 < 1 then 1 else n0); n = (if n1 > 5 then 5 else n1)
     in [minute, 5 * minute, 15 * minute, hour, hour] ! nat (n - 1))"

definition uuid_bytes :: "8 word list \<Rightarrow> 8 word list" where
  "uuid_bytes b = b[6 := or (and (b ! 6) 15) 64, 8 := or (and (b ! 8) 63) 128]"

definition hex_words :: "8 word list \<Rightarrow> string" where
  "hex_words bs = concat (map (\<lambda>b. hex_of 2 (unat b)) bs)"

definition uuid_text :: "8 word list \<Rightarrow> string" where
  \<comment> \<open>\<open>UUID\<close>, given the 16 random bytes\<close>
  "uuid_text b = (let s = hex_words (uuid_bytes b)
     in take 8 s @ ''-'' @ take 4 (drop 8 s) @ ''-'' @ take 4 (drop 12 s) @ ''-'' @ take 4 (drop 16 s) @ ''-'' @ drop 20 s)"

definition recovery_stages :: "string list" where
  "recovery_stages = [''collect'', ''archive'', ''sign'', ''ingest'']"

fun history_ok :: "identity \<Rightarrow> int \<Rightarrow> report list \<Rightarrow> bool" where
  \<comment> \<open>the loop over the history, from index \<open>i\<close>\<close>
  "history_ok ident i [] = True"
| "history_ok ident i (h # hs) =
     (\<not> (rp_identity h \<noteq> ident \<or> rp_number h \<noteq> i + 1 \<or> rp_status h \<noteq> ''retry'' \<or> rp_next h = None \<or>
         rp_owner h \<noteq> [] \<or> rp_lease h \<noteq> None) \<and> history_ok ident (i + 1) hs)"

definition current_ok :: "report list \<Rightarrow> report \<Rightarrow> bool" where
  "current_ok hist r =
     (if rp_status r = ''succeeded''
      then rp_stage r = ''complete'' \<and> uuid_pattern (rp_receipt r) \<and> rp_error r = [] \<and> rp_next r = None \<and>
           rp_owner r = [] \<and> rp_lease r = None
      else if rp_receipt r \<noteq> [] \<or> \<not> List.member recovery_stages (rp_stage r) then False
      else if rp_status r = ''pending''
      then rp_number r = 0 \<and> hist = [] \<and> rp_next r = None \<and> rp_owner r = [] \<and> rp_lease r = None
      else if rp_status r = ''running''
      then rp_number r > 0 \<and> uuid_pattern (rp_owner r) \<and> rp_lease r \<noteq> None \<and> rp_next r \<noteq> None \<and> rp_error r = []
      else if rp_status r = ''retry'' \<or> rp_status r = ''exhausted''
      then rp_number r > 0 \<and> rp_error r \<noteq> [] \<and> rp_owner r = [] \<and> rp_lease r = None \<and>
           ((rp_status r = ''retry'' \<and> rp_number r < 6 \<and> rp_next r \<noteq> None) \<or>
            (rp_status r = ''exhausted'' \<and> rp_next r = None))
      else False)"

definition valid_state :: "wstate \<Rightarrow> bool" where
  "valid_state s =
     (if ws_updated s = 0 \<or> (rp_number (ws_current s) > 0 \<and> int (length (ws_history s)) \<noteq> rp_number (ws_current s) - 1) then False
      else history_ok (ws_identity s) 0 (ws_history s) \<and> current_ok (ws_history s) (ws_current s))"

definition initial_state :: "identity \<Rightarrow> wstate" where
  "initial_state ident = \<lparr>ws_kind = ''local-watchdog-state/v1'', ws_identity = ident,
     ws_current = zero_report\<lparr>rp_identity := ident, rp_status := ''pending'', rp_stage := ''collect''\<rparr>, ws_history = [], ws_updated = 0\<rparr>"

definition wload :: "wstate codec \<Rightarrow> wenv \<Rightarrow> identity \<Rightarrow> ('x wworld, wstate) io" where
  "wload C E ident =
     then_io (lift_io (to_res (identity_validate ident)))
     (then_io (require (i_provider ident = ''local'') (EMsg ''local identity required''))
     (\<lambda>w. bind_io (wtick (we_fault E)) (\<lambda>fault.
       lift_io (case read_bounded (if fault then Unreadable ''io'' else ww_file w) 65536 of
         Inl e \<Rightarrow> if e = ENotExist then Inr (initial_state ident) else Inl e
       | Inr b \<Rightarrow> (case dec C b of Inl _ \<Rightarrow> Inl (EMsg ''invalid watchdog state'') | Inr s \<Rightarrow>
           (case first_err [
              check (\<not> (ws_kind s \<noteq> ''local-watchdog-state/v1'' \<or> ws_identity s \<noteq> ident \<or>
                rp_identity (ws_current s) \<noteq> ident \<or> rp_number (ws_current s) < 0 \<or> rp_number (ws_current s) > 6 \<or>
                length (ws_history s) > 6)) ''invalid watchdog state'',
              check (enc C s = Inr b) ''noncanonical watchdog state'',
              check (valid_state s) ''inconsistent watchdog state'']
            of Some e \<Rightarrow> Inl e | None \<Rightarrow> Inr s)))) w))"

definition wsave :: "wstate codec \<Rightarrow> wenv \<Rightarrow> wstate \<Rightarrow> ('x wworld, wstate) io" where
  \<comment> \<open>\<open>save\<close>: the state that was written, with the time of the save\<close>
  "wsave C E s = bind_io (wtick (we_now E)) (\<lambda>now.
     let s' = s\<lparr>ws_updated := now\<rparr> in
     bind_io (lift_io (enc C s')) (\<lambda>b w.
       (case durable (we_durable E (ww_tick w)) (Regular b) (ww_file w) of
          (r, n) \<Rightarrow> (case r of None \<Rightarrow> Inr s' | Some e \<Rightarrow> Inl e, w\<lparr>ww_file := n, ww_tick := Suc (ww_tick w)\<rparr>))))"

fun flush_history :: "'x backend \<Rightarrow> report list \<Rightarrow> ('x wworld, bool) io" where
  \<comment> \<open>whether every report was accepted\<close>
  "flush_history B [] = ret True"
| "flush_history B (r # rs) = bind_io (catch_io (wext (bk_report B r))) (\<lambda>q. case q of Inl _ \<Rightarrow> ret False | Inr _ \<Rightarrow> flush_history B rs)"

definition wflush :: "'x backend \<Rightarrow> wstate \<Rightarrow> ('x wworld, unit) io" where
  "wflush B s = bind_io (flush_history B (ws_history s)) (\<lambda>ok.
     if ok \<and> rp_number (ws_current s) > 0 then bind_io (catch_io (wext (bk_report B (ws_current s)))) (\<lambda>_. ret ()) else ret ())"

definition succeed :: "string \<Rightarrow> wstate \<Rightarrow> wstate" where
  "succeed rcpt s = s\<lparr>ws_current := (ws_current s)\<lparr>rp_status := ''succeeded'', rp_stage := ''complete'', rp_receipt := rcpt,
     rp_next := None, rp_error := [], rp_owner := [], rp_lease := None\<rparr>\<rparr>"

definition interrupted :: "wstate \<Rightarrow> wstate" where
  "interrupted s =
     (let r = (ws_current s)\<lparr>rp_status := ''retry'', rp_error := ''worker_interrupted'', rp_owner := [], rp_lease := None\<rparr>
      in s\<lparr>ws_current := (if rp_number r \<ge> 6 then r\<lparr>rp_status := ''exhausted'', rp_next := None\<rparr> else r)\<rparr>)"

definition begin_attempt :: "identity \<Rightarrow> time \<Rightarrow> time \<Rightarrow> string \<Rightarrow> wstate \<Rightarrow> wstate" where
  \<comment> \<open>the state saved before the recovery runs\<close>
  "begin_attempt ident due lease owner s =
     s\<lparr>ws_history := (if rp_number (ws_current s) > 0 then ws_history s @ [ws_current s] else ws_history s),
       ws_current := zero_report\<lparr>rp_identity := ident, rp_number := rp_number (ws_current s) + 1, rp_stage := ''collect'',
         rp_status := ''running'', rp_next := Some due, rp_owner := owner, rp_lease := Some lease\<rparr>\<rparr>"

definition failed_attempt :: "recovery_outcome \<Rightarrow> time \<Rightarrow> wstate \<Rightarrow> wstate" where
  "failed_attempt out now s =
     (let r = (ws_current s)\<lparr>rp_owner := [], rp_lease := None, rp_status := ''retry'',
            rp_stage := (if ro_stage out = [] then ''collect'' else ro_stage out),
            rp_error := (if ro_exhausted out then ''stage_exhausted'' else if ro_permanent out then ''invalid_evidence''
                         else ''dependency_unavailable'')\<rparr>;
          next = now + wdelay (rp_number r);
          due = (case ro_not_before out of None \<Rightarrow> next | Some t \<Rightarrow> if t > next then t else next)
      in s\<lparr>ws_current := (if ro_permanent out \<or> ro_exhausted out \<or> rp_number r \<ge> 6
           then r\<lparr>rp_status := ''exhausted'', rp_next := None\<rparr> else r\<lparr>rp_next := Some due\<rparr>)\<rparr>)"

definition revert_attempt :: "wstate \<Rightarrow> wstate \<Rightarrow> wstate" where
  \<comment> \<open>after \<open>ErrBusy\<close> the attempt does not count\<close>
  "revert_attempt previous s = s\<lparr>ws_current := ws_current previous,
     ws_history := (if rp_number (ws_current previous) > 0 then butlast (ws_history s) else ws_history s)\<rparr>"

definition wfinish :: "wstate codec \<Rightarrow> wenv \<Rightarrow> 'x backend \<Rightarrow> wstate \<Rightarrow> wstate \<Rightarrow> recovery_outcome \<times> gerr option
    \<Rightarrow> ('x wworld, wstate \<times> gerr option) io" where
  "wfinish C E B previous s oe = (case oe of (out, err) \<Rightarrow>
     if err = Some EBusy then
       bind_io (catch_io (wsave C E (revert_attempt previous s))) (\<lambda>q. case q of
         Inl e \<Rightarrow> ret (revert_attempt previous s, Some e) | Inr s' \<Rightarrow> ret (s', None))
     else
       bind_io (if ro_receipt out \<noteq> [] \<and> err = None then ret (succeed (ro_receipt out) s)
                else bind_io (wtick (we_now E)) (\<lambda>now. ret (failed_attempt out now s))) (\<lambda>s1.
       bind_io (wsave C E s1) (\<lambda>s2. then_io (wflush B s2) (ret (s2, err)))))"

definition wattempt :: "wstate codec \<Rightarrow> wenv \<Rightarrow> 'x backend \<Rightarrow> identity \<Rightarrow> wstate \<Rightarrow> ('x wworld, wstate \<times> gerr option) io" where
  "wattempt C E B ident previous =
     bind_io (wtick (we_now E)) (\<lambda>now1. bind_io (wtick (we_now E)) (\<lambda>now2. bind_io (wtick (we_rand E)) (\<lambda>rand.
     bind_io (wsave C E (begin_attempt ident (now1 + wdelay (rp_number (ws_current previous) + 1)) (now2 + 10 * minute)
        (uuid_text rand) previous)) (\<lambda>s.
     bind_io (catch_io (wext (bk_report B ((ws_current s)\<lparr>rp_next := None\<rparr>)))) (\<lambda>_.
     bind_io (wext (\<lambda>x. case bk_recover B ident x of (oe, x') \<Rightarrow> (Inr oe, x'))) (\<lambda>oe.
      wfinish C E B previous s oe))))))"

definition wpending :: "wstate codec \<Rightarrow> wenv \<Rightarrow> 'x backend \<Rightarrow> identity \<Rightarrow> wstate \<Rightarrow> ('x wworld, wstate \<times> gerr option) io" where
  \<comment> \<open>a state that is not running: exhausted, not due, or the next attempt\<close>
  "wpending C E B ident s =
     (if rp_status (ws_current s) = ''exhausted'' \<or> rp_number (ws_current s) \<ge> 6 then ret (s, None)
      else case rp_next (ws_current s) of
        None \<Rightarrow> wattempt C E B ident s
      | Some due \<Rightarrow> bind_io (wtick (we_now E)) (\<lambda>now. if now < due then ret (s, None) else wattempt C E B ident s))"

definition wstep :: "wstate codec \<Rightarrow> wenv \<Rightarrow> 'x backend \<Rightarrow> identity \<Rightarrow> ('x wworld, wstate \<times> gerr option) io" where
  \<comment> \<open>\<open>Engine.Step\<close>\<close>
  "wstep C E B ident = bind_io (wload C E ident) (\<lambda>s. then_io (wflush B s)
     (if rp_status (ws_current s) = ''succeeded'' then ret (s, None)
      else bind_io (catch_io (wext (bk_reconcile B ident))) (\<lambda>q.
        if (case q of Inr rcpt \<Rightarrow> rcpt \<noteq> [] | Inl _ \<Rightarrow> False) then
          bind_io (wsave C E (succeed (case q of Inr rcpt \<Rightarrow> rcpt | Inl _ \<Rightarrow> []) s)) (\<lambda>s'. then_io (wflush B s') (ret (s', None)))
        else if rp_status (ws_current s) = ''running'' then
          bind_io (wsave C E (interrupted s)) (\<lambda>s'. then_io (wflush B s') (wpending C E B ident s'))
        else wpending C E B ident s)))"

section \<open>UUIDs\<close>

lemma hex_words_append: "hex_words (a @ b) = hex_words a @ hex_words b"
  by (simp add: hex_words_def)

lemma hex_words_lower: "list_all lower_hex (hex_words bs)"
  by (induction bs) (auto simp: hex_words_def list_all_iff dest: lower_hex_of)

lemma length_hex_words: "length (hex_words bs) = 2 * length bs"
  by (induction bs) (simp_all add: hex_words_def)

lemma uuid_piece: "list_all lower_hex s \<Longrightarrow> length s = n \<Longrightarrow>
   list_all2 (\<lambda>dash c. if dash then c = CHR ''-'' else lower_hex c) (replicate n False) s"
  by (simp add: list_all2_conv_all_nth list_all_length)

lemma uuid_text_pattern:
  assumes "length b = 16"
  shows "uuid_pattern (uuid_text b)"
proof -
  define s where "s = hex_words (uuid_bytes b)"
  have l: "length s = 32" "list_all lower_hex s"
    using assms by (simp_all add: s_def length_hex_words uuid_bytes_def hex_words_lower)
  have "set (take n xs) \<subseteq> set xs" "set (drop n xs) \<subseteq> set xs" for n and xs :: string
    by (rule set_take_subset, rule set_drop_subset)
  then have part: "list_all lower_hex (take i (drop j s))" "list_all lower_hex (drop j s)" "list_all lower_hex (take i s)" for i j
    using l(2) unfolding list_all_iff by blast+
  show ?thesis
    unfolding uuid_pattern_def uuid_shape_def uuid_text_def Let_def s_def[symmetric]
    by (intro list_all2_appendI uuid_piece part) (simp_all add: l(1))
qed

section \<open>States a step can load again\<close>

definition error_codes :: "string list" where
  "error_codes = [''dependency_unavailable'', ''invalid_evidence'', ''worker_interrupted'', ''stage_exhausted'']"

text \<open>What the watchdog itself guarantees of its states, beyond what \<open>validState\<close> checks.\<close>

definition good_history :: "report \<Rightarrow> bool" where
  "good_history h \<longleftrightarrow> rp_stage h \<in> set recovery_stages \<and> rp_receipt h = [] \<and> rp_error h \<in> set error_codes"

definition good :: "identity \<Rightarrow> wstate \<Rightarrow> bool" where
  "good ident s \<longleftrightarrow> ws_kind s = ''local-watchdog-state/v1'' \<and> ws_identity s = ident \<and> rp_identity (ws_current s) = ident \<and>
     0 \<le> rp_number (ws_current s) \<and> rp_number (ws_current s) \<le> 6 \<and>
     (rp_number (ws_current s) > 0 \<longrightarrow> int (length (ws_history s)) = rp_number (ws_current s) - 1) \<and>
     (rp_number (ws_current s) = 0 \<longrightarrow> ws_history s = []) \<and>
     history_ok ident 0 (ws_history s) \<and> current_ok (ws_history s) (ws_current s) \<and>
     (\<forall>h \<in> set (ws_history s). good_history h) \<and>
     (rp_status (ws_current s) = ''retry'' \<or> rp_status (ws_current s) = ''exhausted'' \<longrightarrow> rp_error (ws_current s) \<in> set error_codes)"

definition loadable :: "wstate codec \<Rightarrow> identity \<Rightarrow> 'x wworld \<Rightarrow> bool" where
  "loadable C ident w \<longleftrightarrow> ww_file w = Missing \<or>
     (\<exists>b s. ww_file w = Regular b \<and> length b \<le> 65536 \<and> dec C b = Inr s \<and> enc C s = Inr b \<and> good ident s \<and> valid_state s)"

definition bounded_codec :: "'a codec \<Rightarrow> nat \<Rightarrow> bool" where
  "bounded_codec C n \<longleftrightarrow> (\<forall>x b. enc C x = Inr b \<longrightarrow> length b \<le> n)"

definition sane_backend :: "'x backend \<Rightarrow> bool" where
  \<comment> \<open>receipt identifiers are UUIDs, and a failure names a recovery stage or none\<close>
  "sane_backend B \<longleftrightarrow> (\<forall>i x r x'. bk_reconcile B i x = (Inr r, x') \<longrightarrow> r = [] \<or> uuid_pattern r) \<and>
     (\<forall>i x out e x'. bk_recover B i x = ((out, e), x') \<longrightarrow>
        (ro_receipt out = [] \<or> uuid_pattern (ro_receipt out)) \<and> (ro_stage out = [] \<or> ro_stage out \<in> set recovery_stages))"

lemma good_initial: "good ident (initial_state ident)"
  by (simp add: good_def initial_state_def zero_report_def current_ok_def recovery_stages_def)

lemma good_updated [simp]: "good ident (s\<lparr>ws_updated := t\<rparr>) = good ident s"
  by (simp add: good_def)

lemma good_valid: "good ident s \<Longrightarrow> ws_updated s \<noteq> 0 \<Longrightarrow> valid_state s"
  by (simp add: good_def valid_state_def)

lemma good_succeed: "good ident s \<Longrightarrow> uuid_pattern r \<Longrightarrow> good ident (succeed r s)"
  by (simp add: good_def succeed_def current_ok_def)

lemma history_ok_append:
  "history_ok ident i (hs @ [h]) \<longleftrightarrow> history_ok ident i hs \<and>
     \<not> (rp_identity h \<noteq> ident \<or> rp_number h \<noteq> i + int (length hs) + 1 \<or> rp_status h \<noteq> ''retry'' \<or> rp_next h = None \<or>
        rp_owner h \<noteq> [] \<or> rp_lease h \<noteq> None)"
  by (induction hs arbitrary: i) (auto simp: algebra_simps)

lemma current_ok_cases:
  assumes "current_ok hist r"
  shows "rp_status r = ''pending'' \<Longrightarrow> rp_number r = 0"
    "rp_status r = ''running'' \<Longrightarrow> rp_number r > 0 \<and> uuid_pattern (rp_owner r) \<and> rp_lease r \<noteq> None \<and> rp_next r \<noteq> None \<and>
       rp_error r = [] \<and> rp_receipt r = [] \<and> rp_stage r \<in> set recovery_stages"
    "rp_status r = ''retry'' \<Longrightarrow> rp_number r > 0 \<and> rp_number r < 6 \<and> rp_next r \<noteq> None \<and> rp_owner r = [] \<and> rp_lease r = None \<and>
       rp_receipt r = [] \<and> rp_stage r \<in> set recovery_stages"
    "rp_status r = ''exhausted'' \<Longrightarrow> rp_number r > 0 \<and> rp_next r = None \<and> rp_owner r = [] \<and> rp_lease r = None \<and>
       rp_receipt r = [] \<and> rp_stage r \<in> set recovery_stages"
    "rp_status r \<in> {''pending'', ''running'', ''retry'', ''exhausted'', ''succeeded''}"
  using assms by (simp_all add: current_ok_def split: if_splits)

lemma good_current: "good ident s \<Longrightarrow> current_ok (ws_history s) (ws_current s)"
  by (simp add: good_def)

lemma good_running:
  assumes "good ident s" "rp_status (ws_current s) = ''running''"
  shows "0 < rp_number (ws_current s)" "rp_next (ws_current s) \<noteq> None" "rp_receipt (ws_current s) = []"
    "rp_stage (ws_current s) \<in> set recovery_stages"
  using current_ok_cases(2)[OF good_current[OF assms(1)] assms(2)] by simp_all

lemma good_interrupted:
  assumes "good ident s" "rp_status (ws_current s) = ''running''"
  shows "good ident (interrupted s)"
proof -
  note r = good_running[OF assms]
  show ?thesis
    using assms r by (auto simp: good_def interrupted_def Let_def current_ok_def error_codes_def)
qed

lemma interrupted_status: "rp_status (ws_current (interrupted s)) \<in> {''retry'', ''exhausted''}"
  by (simp add: interrupted_def Let_def)

lemma good_begin:
  assumes g: "good ident s" and n: "rp_number (ws_current s) < 6" and st: "rp_status (ws_current s) \<in> {''pending'', ''retry''}"
    and u: "uuid_pattern owner"
  shows "good ident (begin_attempt ident due lease owner s)"
proof (cases "rp_number (ws_current s) > 0")
  case True
  note cur = current_ok_cases[OF good_current[OF g]]
  have retry: "rp_status (ws_current s) = ''retry''" using st cur(1) True by auto
  have "rp_error (ws_current s) \<in> set error_codes" using g retry by (simp add: good_def)
  with cur(3)[OF retry] g True n u retry show ?thesis
    by (simp add: good_def begin_attempt_def history_ok_append good_history_def)
      (auto simp: current_ok_def zero_report_def recovery_stages_def)
next
  case False
  with g n u show ?thesis
    by (auto simp: good_def begin_attempt_def current_ok_def zero_report_def recovery_stages_def)
qed

lemma begin_running [simp]: "rp_status (ws_current (begin_attempt ident due lease owner s)) = ''running''"
  by (simp add: begin_attempt_def zero_report_def)

lemma good_failed:
  assumes g: "good ident s" and r: "rp_status (ws_current s) = ''running''"
    and out: "ro_stage out = [] \<or> ro_stage out \<in> set recovery_stages"
  shows "good ident (failed_attempt out now s)"
proof -
  note rr = good_running[OF g r]
  have st: "(if ro_stage out = [] then ''collect'' else ro_stage out) \<in> set recovery_stages"
    using out by (auto simp: recovery_stages_def)
  have er: "(if ro_exhausted out then ''stage_exhausted'' else if ro_permanent out then ''invalid_evidence''
                         else ''dependency_unavailable'') \<in> set error_codes" by (simp add: error_codes_def)
  show ?thesis
    using g rr st er by (auto simp: good_def failed_attempt_def Let_def current_ok_def)
qed

lemma revert_begin: "revert_attempt s (begin_attempt ident due lease owner s\<lparr>ws_updated := t\<rparr>) = s\<lparr>ws_updated := t\<rparr>"
  by (simp add: revert_attempt_def begin_attempt_def)

section \<open>A step keeps the state loadable\<close>

lemma triple_wtick: "(\<And>w t. P w \<Longrightarrow> P (w\<lparr>ww_tick := t\<rparr>)) \<Longrightarrow> triple P (wtick f) (\<lambda>x w. P w \<and> x \<in> range f) E"
  by (simp add: triple_def wtick_def)

lemma loadable_frame [simp]: "loadable C ident (w\<lparr>ww_tick := t\<rparr>) = loadable C ident w" "loadable C ident (w\<lparr>ww_ext := x\<rparr>) = loadable C ident w"
  by (simp_all add: loadable_def)

lemma triple_wext: "triple (loadable C ident) (catch_io (wext m)) (\<lambda>_. loadable C ident) E"
  by (simp add: triple_def wext_def io_apply split: prod.split)

lemma triple_flush_history: "triple (loadable C ident) (flush_history B rs) (\<lambda>_. loadable C ident) (loadable C ident)"
proof (induction rs)
  case Nil
  show ?case by (simp add: triple_def io_apply)
next
  case (Cons r rs)
  have "triple (loadable C ident) (case q of Inl _ \<Rightarrow> ret False | Inr _ \<Rightarrow> flush_history B rs) (\<lambda>_. loadable C ident) (loadable C ident)" for q
    using Cons by (cases q) (simp_all add: triple_def io_apply)
  then show ?case by (simp only: flush_history.simps) (rule triple_bind[OF triple_wext])
qed

lemma triple_wflush: "triple (loadable C ident) (wflush B s) (\<lambda>_. loadable C ident) (loadable C ident)"
proof -
  have "triple (loadable C ident) (if ok \<and> rp_number (ws_current s) > 0
      then bind_io (catch_io (wext (bk_report B (ws_current s)))) (\<lambda>_. ret ()) else ret ())
      (\<lambda>_. loadable C ident) (loadable C ident)" for ok
  proof -
    have 1: "triple (loadable C ident) (bind_io (catch_io (wext (bk_report B (ws_current s)))) (\<lambda>_. ret ()))
      (\<lambda>_. loadable C ident) (loadable C ident)"
      by (rule triple_bind[OF triple_wext]) (simp add: triple_def io_apply)
    have 2: "triple (loadable C ident) (ret () :: ('a wworld, unit) io) (\<lambda>_. loadable C ident) (loadable C ident)"
      by (simp add: triple_def io_apply)
    show ?thesis using 1 2 by simp
  qed
  then show ?thesis unfolding wflush_def by (rule triple_bind[OF triple_flush_history])
qed

definition wd_ok :: "wstate codec \<Rightarrow> wenv \<Rightarrow> bool" where
  \<comment> \<open>the codec is the documented one, the clock is past Go's zero time and the random source gives 16 bytes\<close>
  "wd_ok C E \<longleftrightarrow> sound_codec C \<and> bounded_codec C 65536 \<and> (\<forall>t. we_now E t \<noteq> 0) \<and> (\<forall>t. length (we_rand E t) = 16)"

lemma wload_triple:
  "triple (loadable C ident) (wload C E ident) (\<lambda>s w. loadable C ident w \<and> good ident s) (loadable C ident)"
proof (rule tripleI)
  fix w :: "'a wworld"
  assume w: "loadable C ident w"
  show "case wload C E ident w of (Inr s, t) \<Rightarrow> loadable C ident t \<and> good ident s | (Inl e, t) \<Rightarrow> loadable C ident t"
  proof (cases "ww_file w = Missing \<and> \<not> we_fault E (ww_tick w)")
    case True
    with w show ?thesis
      by (auto simp: wload_def io_apply wtick_def read_bounded_def good_initial split: option.splits sum.splits)
  next
    case False
    show ?thesis
    proof (cases "we_fault E (ww_tick w)")
      case True
      with w show ?thesis
        by (auto simp: wload_def io_apply wtick_def read_bounded_def split: option.splits sum.splits)
    next
      case nofault: False
      with False w obtain b s where f: "ww_file w = Regular b" "length b \<le> 65536" "dec C b = Inr s" "good ident s"
        by (auto simp: loadable_def)
      with w nofault show ?thesis
        by (auto simp: wload_def io_apply wtick_def read_bounded_def split: option.splits sum.splits)
    qed
  qed
qed

lemma wsave_triple:
  assumes ok: "wd_ok C E" and g: "good ident s"
  shows "triple (loadable C ident) (wsave C E s)
    (\<lambda>s' w. loadable C ident w \<and> (\<exists>t. s' = s\<lparr>ws_updated := t\<rparr>)) (loadable C ident)"
proof (rule tripleI)
  fix w :: "'a wworld"
  assume w: "loadable C ident w"
  define s' where "s' = s\<lparr>ws_updated := we_now E (ww_tick w)\<rparr>"
  have v: "valid_state s'" "good ident s'" using ok g by (simp_all add: s'_def wd_ok_def good_valid)
  show "case wsave C E s w of (Inr s', t) \<Rightarrow> loadable C ident t \<and> (\<exists>t. s' = s\<lparr>ws_updated := t\<rparr>) | (Inl e, t) \<Rightarrow> loadable C ident t"
  proof (cases "enc C s'")
    case (Inl e)
    with w show ?thesis by (simp add: wsave_def io_apply wtick_def Let_def s'_def)
  next
    case (Inr b)
    then have "length b \<le> 65536" "dec C b = Inr s'" using ok by (auto simp: wd_ok_def bounded_codec_def sound_codec_def)
    with Inr v have new: "loadable C ident (w\<lparr>ww_file := Regular b, ww_tick := t\<rparr>)" for t by (auto simp: loadable_def)
    have old: "loadable C ident (w\<lparr>ww_file := ww_file w, ww_tick := t\<rparr>)" for t using w by simp
    show ?thesis
      by (cases rule: durable_cases[where io = "we_durable E (Suc (ww_tick w))" and v = "Regular b" and t = "ww_file w"])
        (use Inr new old in \<open>auto simp: wsave_def io_apply wtick_def Let_def s'_def\<close>)
  qed
qed

text \<open>The invariant of a method of the watchdog: whatever it returns, the file stays loadable.\<close>

definition stays :: "wstate codec \<Rightarrow> identity \<Rightarrow> ('x wworld, 'a) io \<Rightarrow> bool" where
  "stays C ident m \<longleftrightarrow> triple (loadable C ident) m (\<lambda>_. loadable C ident) (loadable C ident)"

lemma stays_bind: "stays C ident m \<Longrightarrow> (\<And>x. stays C ident (f x)) \<Longrightarrow> stays C ident (bind_io m f)"
  unfolding stays_def by (rule triple_bind)

lemma stays_then: "stays C ident m \<Longrightarrow> stays C ident n \<Longrightarrow> stays C ident (then_io m n)"
  unfolding stays_def by (rule triple_then)

lemma stays_ret: "stays C ident (ret x)"
  by (simp add: stays_def triple_ret)

lemma bind_ret [simp]: "bind_io (ret x) f = f x"
  by (rule ext) (simp add: io_apply)

lemma bind_assoc: "bind_io (bind_io m f) g = bind_io m (\<lambda>x. bind_io (f x) g)"
  by (rule ext) (auto simp: io_apply split: prod.split sum.split)

lemma stays_tick_bind: "(\<And>t. stays C ident (f (g t))) \<Longrightarrow> stays C ident (bind_io (wtick g) f)"
  unfolding stays_def by (rule triple_bind[OF triple_wtick]) (auto intro!: triple_pure)

lemma stays_catch_ext: "stays C ident (catch_io (wext m))"
  by (simp add: stays_def triple_wext)

lemma stays_flush: "stays C ident (wflush B s)"
  by (simp add: stays_def triple_wflush)

lemma stays_save:
  assumes "wd_ok C E" "good ident s"
  shows "stays C ident (wsave C E s)"
  unfolding stays_def by (rule triple_post[OF wsave_triple[OF assms]]) simp

lemma stays_catch_save: "wd_ok C E \<Longrightarrow> good ident s \<Longrightarrow> stays C ident (catch_io (wsave C E s))"
  using stays_save unfolding stays_def by (blast intro: triple_catch)

lemma stays_save_bind:
  assumes "wd_ok C E" "good ident s" "\<And>t. stays C ident (f (s\<lparr>ws_updated := t\<rparr>))"
  shows "stays C ident (bind_io (wsave C E s) f)"
  unfolding stays_def
  by (rule triple_bind[OF wsave_triple[OF assms(1,2)]], rule triple_pure) (use assms(3) in \<open>auto simp: stays_def\<close>)

lemma stays_finish:
  assumes ok: "wd_ok C E" and g: "good ident previous" "good ident s" and r: "rp_status (ws_current s) = ''running''"
    and rev: "good ident (revert_attempt previous s)"
    and out: "ro_receipt out = [] \<or> uuid_pattern (ro_receipt out)" "ro_stage out = [] \<or> ro_stage out \<in> set recovery_stages"
  shows "stays C ident (wfinish C E B previous s (out, err))"
proof -
  have rest: "stays C ident (bind_io (wsave C E s1) (\<lambda>s2. then_io (wflush B s2) (ret (s2, err))))" if "good ident s1" for s1
    by (intro stays_save_bind[OF ok that] stays_then stays_flush stays_ret)
  have busy: "stays C ident (case q of Inl e \<Rightarrow> ret (revert_attempt previous s, Some e) | Inr s' \<Rightarrow> ret (s', None))" for q
    by (cases q) (simp_all add: stays_ret)
  have done': "stays C ident (bind_io (if ro_receipt out \<noteq> [] \<and> err = None then ret (succeed (ro_receipt out) s)
        else bind_io (wtick (we_now E)) (\<lambda>now. ret (failed_attempt out now s))) (\<lambda>s1.
          bind_io (wsave C E s1) (\<lambda>s2. then_io (wflush B s2) (ret (s2, err)))))"
  proof (cases "ro_receipt out \<noteq> [] \<and> err = None")
    case True
    with out have "good ident (succeed (ro_receipt out) s)" by (intro good_succeed g(2)) simp
    from rest[OF this] True show ?thesis by simp
  next
    case False
    have "stays C ident (bind_io (wtick (we_now E)) (\<lambda>now. bind_io (wsave C E (failed_attempt out now s))
        (\<lambda>s2. then_io (wflush B s2) (ret (s2, err)))))"
      by (intro stays_tick_bind rest good_failed g(2) r out(2))
    with False show ?thesis by (simp only: if_False bind_assoc bind_ret)
  qed
  show ?thesis
    unfolding wfinish_def prod.case
    by (cases "err = Some EBusy") (simp_all only: if_True if_False done' stays_bind[OF stays_catch_save[OF ok rev] busy] simp_thms)
qed

lemma stays_attempt:
  assumes ok: "wd_ok C E" and B: "sane_backend B" and g: "good ident s" and n: "rp_number (ws_current s) < 6"
    and st: "rp_status (ws_current s) \<in> {''pending'', ''retry''}"
  shows "stays C ident (wattempt C E B ident s)"
proof -
  have fin: "triple (loadable C ident) (bind_io (wext (\<lambda>x. case bk_recover B ident x of (oe, x') \<Rightarrow> (Inr oe, x')))
      (\<lambda>oe. wfinish C E B s (begin_attempt ident d1 d2 (uuid_text (we_rand E t)) s\<lparr>ws_updated := u\<rparr>) oe))
      (\<lambda>_. loadable C ident) (loadable C ident)" for d1 d2 t u
  proof (rule triple_bind[where Q = "\<lambda>oe w. loadable C ident w \<and> ((ro_receipt (fst oe) = [] \<or> uuid_pattern (ro_receipt (fst oe))) \<and>
      (ro_stage (fst oe) = [] \<or> ro_stage (fst oe) \<in> set recovery_stages))"])
    show "triple (loadable C ident) (wext (\<lambda>x. case bk_recover B ident x of (oe, x') \<Rightarrow> (Inr oe, x')))
      (\<lambda>oe w. loadable C ident w \<and> ((ro_receipt (fst oe) = [] \<or> uuid_pattern (ro_receipt (fst oe))) \<and>
      (ro_stage (fst oe) = [] \<or> ro_stage (fst oe) \<in> set recovery_stages))) (loadable C ident)"
    proof (rule tripleI)
      fix w :: "'a wworld" assume w: "loadable C ident w"
      obtain out e x' where r: "bk_recover B ident (ww_ext w) = ((out, e), x')" by (metis surj_pair)
      have sane: "(ro_receipt out = [] \<or> uuid_pattern (ro_receipt out)) \<and> (ro_stage out = [] \<or> ro_stage out \<in> set recovery_stages)"
        using B r unfolding sane_backend_def by blast
      show "case wext (\<lambda>x. case bk_recover B ident x of (oe, x') \<Rightarrow> (Inr oe, x')) w of
          (Inr oe, t) \<Rightarrow> loadable C ident t \<and> ((ro_receipt (fst oe) = [] \<or> uuid_pattern (ro_receipt (fst oe))) \<and>
      (ro_stage (fst oe) = [] \<or> ro_stage (fst oe) \<in> set recovery_stages)) | (Inl e, t) \<Rightarrow> loadable C ident t"
        using w sane by (simp add: wext_def r)
    qed
    fix oe :: "recovery_outcome \<times> gerr option"
    let ?s = "begin_attempt ident d1 d2 (uuid_text (we_rand E t)) s\<lparr>ws_updated := u\<rparr>"
    have u: "uuid_pattern (uuid_text (we_rand E t))" using ok by (simp add: wd_ok_def uuid_text_pattern)
    have gb: "good ident ?s" using good_begin[OF g n st u] by simp
    have rev: "good ident (revert_attempt s ?s)" by (simp add: revert_begin g)
    show "triple (\<lambda>w. loadable C ident w \<and> ((ro_receipt (fst oe) = [] \<or> uuid_pattern (ro_receipt (fst oe))) \<and>
      (ro_stage (fst oe) = [] \<or> ro_stage (fst oe) \<in> set recovery_stages))) (wfinish C E B s ?s oe) (\<lambda>_. loadable C ident) (loadable C ident)"
      by (rule triple_pure, cases oe) (use stays_finish[OF ok g gb _ rev] in \<open>auto simp: stays_def\<close>)
  qed
  have u: "uuid_pattern (uuid_text (we_rand E t))" for t using ok by (simp add: wd_ok_def uuid_text_pattern)
  show ?thesis
    unfolding wattempt_def
    by (intro stays_tick_bind stays_save_bind[OF ok good_begin[OF g n st u]] stays_bind[OF stays_catch_ext])
      (use fin in \<open>simp add: stays_def\<close>)
qed

lemma stays_pending:
  assumes ok: "wd_ok C E" and B: "sane_backend B" and g: "good ident s"
    and st: "rp_status (ws_current s) \<in> {''pending'', ''retry'', ''exhausted''}"
  shows "stays C ident (wpending C E B ident s)"
proof (cases "rp_status (ws_current s) = ''exhausted'' \<or> rp_number (ws_current s) \<ge> 6")
  case True
  then show ?thesis by (simp add: wpending_def stays_ret)
next
  case False
  with st have a: "stays C ident (wattempt C E B ident s)" by (intro stays_attempt[OF ok B g]) auto
  have "stays C ident (case rp_next (ws_current s) of None \<Rightarrow> wattempt C E B ident s
      | Some due \<Rightarrow> bind_io (wtick (we_now E)) (\<lambda>now. if now < due then ret (s, None) else wattempt C E B ident s))"
    using a by (cases "rp_next (ws_current s)") (auto intro!: stays_tick_bind simp: stays_ret)
  with False show ?thesis by (simp add: wpending_def)
qed

lemma wstep_loadable:
  assumes ok: "wd_ok C E" and B: "sane_backend B"
  shows "stays C ident (wstep C E B ident)"
proof -
  let ?rest = "\<lambda>s. then_io (wflush B s) (if rp_status (ws_current s) = ''succeeded'' then ret (s, None)
      else bind_io (catch_io (wext (bk_reconcile B ident))) (\<lambda>q.
        if (case q of Inr rcpt \<Rightarrow> rcpt \<noteq> [] | Inl _ \<Rightarrow> False) then
          bind_io (wsave C E (succeed (case q of Inr rcpt \<Rightarrow> rcpt | Inl _ \<Rightarrow> []) s)) (\<lambda>s'. then_io (wflush B s') (ret (s', None)))
        else if rp_status (ws_current s) = ''running'' then
          bind_io (wsave C E (interrupted s)) (\<lambda>s'. then_io (wflush B s') (wpending C E B ident s'))
        else wpending C E B ident s))"
  have rest: "stays C ident (?rest s)" if g: "good ident s" for s
  proof (cases "rp_status (ws_current s) = ''succeeded''")
    case True
    then show ?thesis by (intro stays_then stays_flush) (simp add: stays_ret)
  next
    case False
    have rec: "triple (loadable C ident) (catch_io (wext (bk_reconcile B ident)))
      (\<lambda>q w. loadable C ident w \<and> (\<forall>r. q = Inr r \<longrightarrow> r = [] \<or> uuid_pattern r)) (loadable C ident)"
      using B by (auto simp: triple_def io_apply wext_def sane_backend_def split: prod.splits)
    have branch: "stays C ident (if (case q of Inr rcpt \<Rightarrow> rcpt \<noteq> [] | Inl _ \<Rightarrow> False) then
          bind_io (wsave C E (succeed (case q of Inr rcpt \<Rightarrow> rcpt | Inl _ \<Rightarrow> []) s)) (\<lambda>s'. then_io (wflush B s') (ret (s', None)))
        else if rp_status (ws_current s) = ''running'' then
          bind_io (wsave C E (interrupted s)) (\<lambda>s'. then_io (wflush B s') (wpending C E B ident s'))
        else wpending C E B ident s)" if q: "\<forall>r. q = Inr r \<longrightarrow> r = [] \<or> uuid_pattern r" for q :: "gerr + string"
    proof -
      have 1: "stays C ident (bind_io (wsave C E (succeed r s)) (\<lambda>s'. then_io (wflush B s') (ret (s', None))))" if "uuid_pattern r" for r
        by (intro stays_save_bind[OF ok good_succeed[OF g that]] stays_then stays_flush stays_ret)
      have 2: "stays C ident (bind_io (wsave C E (interrupted s)) (\<lambda>s'. then_io (wflush B s') (wpending C E B ident s')))"
        if r: "rp_status (ws_current s) = ''running''"
        by (intro stays_save_bind[OF ok good_interrupted[OF g r]] stays_then stays_flush stays_pending[OF ok B])
          (use good_interrupted[OF g r] interrupted_status[of s] in auto)
      have 3: "stays C ident (wpending C E B ident s)" if "rp_status (ws_current s) \<noteq> ''running''"
        using current_ok_cases(5)[OF good_current[OF g]] that False by (intro stays_pending[OF ok B g]) auto
      show ?thesis using 1 2 3 q by (cases q) auto
    qed
    have "stays C ident (bind_io (catch_io (wext (bk_reconcile B ident))) (\<lambda>q.
        if (case q of Inr rcpt \<Rightarrow> rcpt \<noteq> [] | Inl _ \<Rightarrow> False) then
          bind_io (wsave C E (succeed (case q of Inr rcpt \<Rightarrow> rcpt | Inl _ \<Rightarrow> []) s)) (\<lambda>s'. then_io (wflush B s') (ret (s', None)))
        else if rp_status (ws_current s) = ''running'' then
          bind_io (wsave C E (interrupted s)) (\<lambda>s'. then_io (wflush B s') (wpending C E B ident s'))
        else wpending C E B ident s))"
      unfolding stays_def by (rule triple_bind[OF rec], rule triple_pure) (use branch in \<open>simp add: stays_def\<close>)
    with False show ?thesis by (simp only: if_False) (intro stays_then stays_flush)
  qed
  show ?thesis
    unfolding wstep_def stays_def
    by (rule triple_bind[OF wload_triple], rule triple_pure) (use rest in \<open>simp add: stays_def\<close>)
qed

end
