(* ===== verification/Api.thy ===== *)
theory Api
  imports Finalizer Watchdog
begin

text \<open>
  The metadata API, internal/api: independent verification of a published result against the
  archive, ingestion into the receipt tables, operational reports, list queries with a keyset
  cursor, and the guards of the HTTP handlers. A table is the list of its rows and a transaction is a
  function on the database whose effect is dropped when it is not committed; which statement of an
  execution fails, and whether a failed commit took effect, are parameters.
\<close>

section \<open>Validators\<close>

definition identifier_ok :: "string \<Rightarrow> bool" where
  \<comment> \<open>the regular expression \<open>^[A-Za-z0-9][A-Za-z0-9._/-]{0,254}$\<close>\<close>
  "identifier_ok s = (case s of [] \<Rightarrow> False | c # cs \<Rightarrow> alnum c \<and> length cs \<le> 254 \<and>
     list_all (\<lambda>d. alnum d \<or> d = CHR ''.'' \<or> d = CHR ''_'' \<or> d = CHR ''/'' \<or> d = CHR ''-'') cs)"

definition valid_identity :: "identity \<Rightarrow> bool" where
  "valid_identity i \<longleftrightarrow> identity_validate i = None \<and> i_provider i = ''local'' \<and> identifier_ok (i_repository i) \<and>
     identifier_ok (i_job i) \<and> hex_n 32 (i_run i)"

record attempt =
  at_identity :: identity
  at_number :: int
  at_stage :: string
  at_result :: string
  at_error :: string
  at_next :: "time option"

definition attempt_validate :: "attempt \<Rightarrow> bool" where
  "attempt_validate a =
     (if \<not> valid_identity (at_identity a) \<or> at_number a < 1 \<or> at_number a > 6 then False
      else if \<not> List.member [''collect'', ''archive'', ''sign'', ''ingest''] (at_stage a) then False
      else if \<not> List.member [''dependency_unavailable'', ''invalid_evidence'', ''identity_conflict''] (at_error a) then False
      else (at_result a = ''retry'' \<and> at_number a < 6 \<and> at_next a \<noteq> None) \<or> (at_result a = ''exhausted'' \<and> at_next a = None))"

definition valid_recovery :: "report \<Rightarrow> bool" where
  "valid_recovery a =
     (if \<not> valid_identity (rp_identity a) \<or> i_provider (rp_identity a) \<noteq> ''local'' \<or> rp_number a < 1 \<or> rp_number a > 6 then False
      else if rp_status a = ''running''
      then List.member recovery_stages (rp_stage a) \<and> uuid_pattern (rp_owner a) \<and> rp_lease a \<noteq> None \<and> rp_next a = None \<and>
           rp_receipt a = [] \<and> rp_error a = []
      else if rp_status a = ''succeeded''
      then rp_stage a = ''complete'' \<and> uuid_pattern (rp_receipt a) \<and> rp_next a = None \<and> rp_owner a = [] \<and> rp_lease a = None \<and>
           rp_error a = []
      else if rp_status a = ''retry'' \<or> rp_status a = ''exhausted''
      then List.member recovery_stages (rp_stage a) \<and>
           List.member [''dependency_unavailable'', ''invalid_evidence'', ''worker_interrupted'', ''stage_exhausted''] (rp_error a) \<and>
           rp_owner a = [] \<and> rp_lease a = None \<and> rp_receipt a = [] \<and>
           ((rp_status a = ''retry'' \<and> rp_number a < 6 \<and> rp_next a \<noteq> None) \<or> (rp_status a = ''exhausted'' \<and> rp_next a = None))
      else False)"

fun replace_char :: "char \<Rightarrow> char \<Rightarrow> string \<Rightarrow> string" where
  "replace_char a b [] = []"
| "replace_char a b (c # cs) = (if c = a then b else c) # replace_char a b cs"

definition sanitized_coverage :: "receipt \<Rightarrow> observation gomap" where
  "sanitized_coverage r = map (\<lambda>(k, ob). (k, ob\<lparr>o_reason := replace_char (CHR ''_'') (CHR '' '') k @ '': '' @ o_status ob @ '' ('' @
     o_observer ob @ '' observation). See signed archive for details.''\<rparr>)) (rc_coverage r)"

section \<open>Verification\<close>

record 'x verifier =
  vf_read :: "aref \<Rightarrow> ('x, bytes) io"
  vf_verify :: "bytes \<Rightarrow> bytes \<Rightarrow> ('x, unit) io"
  vf_policy :: signer_policy
  vf_repository :: string

record verified =
  vd_result :: outcome
  vd_receipt :: receipt

definition or_fail :: "gerr \<Rightarrow> ('x, 'a) io \<Rightarrow> ('x, 'a) io" where
  \<comment> \<open>\<open>if err != nil { return nil, e }\<close>\<close>
  "or_fail e m = bind_io (catch_io m) (\<lambda>r. case r of Inl _ \<Rightarrow> throw e | Inr x \<Rightarrow> ret x)"

fun read_objects :: "'x verifier \<Rightarrow> (string \<times> aref) list \<Rightarrow> bytes gomap \<Rightarrow> ('x, bytes gomap) io" where
  \<comment> \<open>the two loops that fetch the referenced artifacts into \<open>files\<close>\<close>
  "read_objects V [] fs = ret fs"
| "read_objects V ((name, ref) # rs) fs =
     bind_io (or_fail EUnavailable (vf_read V ref)) (\<lambda>data. read_objects V rs (AList.update name data fs))"

definition api_verify :: "fwire \<Rightarrow> 'x verifier \<Rightarrow> time \<Rightarrow> outcome \<Rightarrow> ('x, verified) io" where
  \<comment> \<open>\<open>Verifier.Verify\<close>\<close>
  "api_verify F V now res =
     then_io (require (i_repository (oc_identity res) = vf_repository V \<and> valid_identity (oc_identity res)) EInvalid)
     (bind_io (or_fail EInvalid (lift_io (enc (fw_outcome F) res))) (\<lambda>b.
      then_io (or_fail EInvalid (lift_io (parse_result F b)))
      (bind_io (or_fail EUnavailable (vf_read V (oc_receipt res))) (\<lambda>raw.
       then_io (require (ref_matches (oc_receipt res) raw) EInvalid)
       (bind_io (or_fail EInvalid (lift_io (parse_receipt F raw))) (\<lambda>r.
        then_io (require (rc_identity r = oc_identity res \<and> rc_finalizer r = vf_policy V) EInvalid)
        (bind_io (or_fail EUnavailable (vf_read V (oc_bundle res))) (\<lambda>bdl.
         then_io (require (ref_matches (oc_bundle res) bdl) EInvalid)
         (then_io (or_fail EInvalid (vf_verify V raw bdl))
         (bind_io (read_objects V (entries (rc_objects r) @ map (Pair ''job.log'') (entries (rc_logs r))) []) (\<lambda>files.
          then_io (require (validate_archived F now r files = None) EInvalid)
          (ret \<lparr>vd_result = res, vd_receipt = r\<rparr>))))))))))))"

section \<open>The tables\<close>

record receipt_row =
  rr_id :: string
  rr_key :: identity
  rr_revision :: string
  rr_verdict :: string
  rr_receipt :: aref
  rr_bundle :: aref
  rr_logs :: "aref list"
  rr_coverage :: "observation gomap"
  rr_started :: time
  rr_completed :: time
  rr_finalized :: time
  rr_issuer :: string
  rr_signer :: string
  rr_trust_root :: string
  rr_evidence :: string

record incident =
  in_receipt :: string
  in_key :: string
  in_code :: string
  in_reason :: string

record attempt_row =
  ar_id :: string
  ar_key :: identity
  ar_number :: int
  ar_origin :: string
  ar_stage :: string
  ar_result :: string
  ar_error :: string
  ar_receipt :: string
  ar_next :: "time option"
  ar_owner :: string
  ar_lease :: "time option"

record db =
  db_receipts :: "receipt_row list"
  db_incidents :: "incident list"
  db_attempts :: "attempt_row list"

record commit =
  cm_id :: string
  cm_duplicate :: bool

text \<open>
  The statements of one transaction: whether it begins, inserts, selects, records the incident and
  commits, the identifier the database generates, and whether a commit that reports an error took
  effect nevertheless.
\<close>

record txn =
  tx_begin :: bool
  tx_insert :: bool
  tx_select :: bool
  tx_exec :: bool
  tx_commit :: bool
  tx_ambiguous :: bool
  tx_uuid :: string

definition run_key :: "identity \<Rightarrow> identity" where
  \<comment> \<open>the columns of the unique constraint \<open>receipts_run_identity\<close>\<close>
  "run_key i = i\<lparr>i_revision := []\<rparr>"

definition receipt_row_of :: "string \<Rightarrow> verified \<Rightarrow> receipt_row" where
  "receipt_row_of ident v = (let r = vd_receipt v in
     \<lparr>rr_id = ident, rr_key = run_key (rc_identity r), rr_revision = i_revision (rc_identity r), rr_verdict = rc_verdict r,
      rr_receipt = oc_receipt (vd_result v), rr_bundle = oc_bundle (vd_result v), rr_logs = entries (rc_logs r),
      rr_coverage = sanitized_coverage r, rr_started = rc_started r, rr_completed = rc_completed r,
      rr_finalized = rc_finalized r, rr_issuer = sp_issuer (rc_finalizer r), rr_signer = sp_identity (rc_finalizer r),
      rr_trust_root = sp_trust_root (rc_finalizer r), rr_evidence = rc_evidence r\<rparr>)"

definition incident_of :: "string \<Rightarrow> string \<Rightarrow> incident" where
  "incident_of ident v = \<lparr>in_receipt = ident, in_key = ''cleanup:'' @ ident, in_code = ''cleanup_'' @ v,
     in_reason = ''Cleanup '' @ v @ ''. Inspect component coverage and independently verify the archived evidence.''\<rparr>"

definition finish_txn :: "txn \<Rightarrow> db \<Rightarrow> db \<Rightarrow> commit \<Rightarrow> (gerr + commit) \<times> db" where
  "finish_txn T d d' out = (if tx_commit T then (Inr out, d')
     else (Inl EUnavailable, if tx_ambiguous T then d' else d))"

definition ingest :: "txn \<Rightarrow> verified \<Rightarrow> db \<Rightarrow> (gerr + commit) \<times> db" where
  "ingest T v d = (let r = vd_receipt v in
     if \<not> valid_identity (rc_identity r) then (Inl EInvalid, d)
     else if \<not> tx_begin T then (Inl EUnavailable, d)
     else if \<not> tx_insert T then (Inl EUnavailable, d)
     else (case find (\<lambda>row. rr_key row = run_key (rc_identity r)) (db_receipts d) of
       Some row \<Rightarrow>
         (if \<not> tx_select T then (Inl EUnavailable, d)
          else if \<not> (rr_receipt row = oc_receipt (vd_result v) \<and> rr_bundle row = oc_bundle (vd_result v) \<and>
                      rr_revision row = i_revision (rc_identity r)) then (Inl EConflict, d)
          else finish_txn T d d \<lparr>cm_id = rr_id row, cm_duplicate = True\<rparr>)
     | None \<Rightarrow>
         (let d1 = d\<lparr>db_receipts := db_receipts d @ [receipt_row_of (tx_uuid T) v]\<rparr> in
          if rc_verdict r \<noteq> ''pass'' then
            (if \<not> tx_exec T then (Inl EUnavailable, d)
             else finish_txn T d (d1\<lparr>db_incidents := db_incidents d1 @ [incident_of (tx_uuid T) (rc_verdict r)]\<rparr>)
                    \<lparr>cm_id = tx_uuid T, cm_duplicate = False\<rparr>)
          else finish_txn T d d1 \<lparr>cm_id = tx_uuid T, cm_duplicate = False\<rparr>)))"

definition record_attempt :: "txn \<Rightarrow> time \<Rightarrow> attempt \<Rightarrow> db \<Rightarrow> (gerr + commit) \<times> db" where
  "record_attempt T now a d =
     (if \<not> attempt_validate a then (Inl EInvalid, d)
      else if \<not> tx_insert T then (Inl EUnavailable, d)
      else (case find (\<lambda>row. ar_key row = run_key (at_identity a) \<and> ar_number row = at_number a \<and> ar_origin row = ''delivery'') (db_attempts d) of
        Some row \<Rightarrow>
          (if \<not> tx_select T then (Inl EUnavailable, d)
           else if \<not> (ar_stage row = at_stage a \<and> ar_result row = at_result a \<and> ar_error row = at_error a) then (Inl EConflict, d)
           else (Inr \<lparr>cm_id = ar_id row, cm_duplicate = True\<rparr>, d))
      | None \<Rightarrow>
          (Inr \<lparr>cm_id = tx_uuid T, cm_duplicate = False\<rparr>, d\<lparr>db_attempts := db_attempts d @
             [\<lparr>ar_id = tx_uuid T, ar_key = run_key (at_identity a), ar_number = at_number a, ar_origin = ''delivery'',
               ar_stage = at_stage a, ar_result = at_result a, ar_error = at_error a, ar_receipt = [],
               ar_next = (if at_result a = ''retry'' then map_option (\<lambda>t. max t (now + 1000)) (at_next a) else None),
               ar_owner = [], ar_lease = None\<rparr>]\<rparr>)))"

definition clamp_time :: "time \<Rightarrow> duration \<Rightarrow> time option \<Rightarrow> gerr + time option" where
  \<comment> \<open>a reported time must lie within the horizon; a past one becomes a microsecond from now\<close>
  "clamp_time now horizon t = (case t of None \<Rightarrow> Inr None | Some t0 \<Rightarrow>
     (let v = (if \<not> t0 > now then now + 1000 else t0)
      in if v > now + horizon then Inl EInvalid else Inr (Some v)))"

definition recovery_row :: "string \<Rightarrow> report \<Rightarrow> time option \<Rightarrow> time option \<Rightarrow> attempt_row" where
  "recovery_row ident a next lease = \<lparr>ar_id = ident, ar_key = run_key (rp_identity a), ar_number = rp_number a, ar_origin = ''watchdog'',
     ar_stage = rp_stage a, ar_result = rp_status a, ar_error = rp_error a, ar_receipt = rp_receipt a,
     ar_next = next, ar_owner = rp_owner a, ar_lease = lease\<rparr>"

definition overwrites :: "attempt_row \<Rightarrow> attempt_row \<Rightarrow> bool" where
  \<comment> \<open>the \<open>WHERE\<close> of the upsert\<close>
  "overwrites old new \<longleftrightarrow> ar_result old = ''running'' \<or> (ar_result new = ''succeeded'' \<and> ar_result old \<noteq> ''succeeded'')"

fun upsert :: "attempt_row \<Rightarrow> attempt_row list \<Rightarrow> attempt_row list" where
  "upsert new [] = [new]"
| "upsert new (row # rows) =
     (if ar_key row = ar_key new \<and> ar_number row = ar_number new \<and> ar_origin row = ar_origin new
      then (if overwrites row new then new\<lparr>ar_id := ar_id row\<rparr> # rows else row # rows)
      else row # upsert new rows)"

definition recovery :: "txn \<Rightarrow> time \<Rightarrow> report \<Rightarrow> db \<Rightarrow> gerr option \<times> db" where
  \<comment> \<open>\<open>Store.Recovery\<close>\<close>
  "recovery T now a d =
     (if \<not> valid_recovery a then (Some EInvalid, d)
      else if \<not> tx_begin T then (Some EUnavailable, d)
      else if rp_status a = ''succeeded'' \<and> \<not> tx_select T then (Some EUnavailable, d)
      else if rp_status a = ''succeeded'' \<and>
        \<not> list_ex (\<lambda>row. rr_id row = rp_receipt a \<and> rr_key row = run_key (rp_identity a)) (db_receipts d) then (Some EInvalid, d)
      else if \<not> tx_exec T then (Some EUnavailable, d)
      else (case clamp_time now (15 * minute) (rp_lease a) of Inl e \<Rightarrow> (Some e, d) | Inr lease \<Rightarrow>
       (case clamp_time now (2 * hour) (rp_next a) of Inl e \<Rightarrow> (Some e, d) | Inr next \<Rightarrow>
         (if \<not> tx_insert T then (Some EUnavailable, d)
          else let d' = d\<lparr>db_attempts := upsert (recovery_row (tx_uuid T) a next lease) (db_attempts d)\<rparr> in
            if tx_commit T then (None, d') else (Some EUnavailable, if tx_ambiguous T then d' else d)))))"

section \<open>Queries\<close>

record filter_spec =
  \<comment> \<open>\<open>Filter\<close>\<close>
  ft_repository :: string
  ft_verdict :: string
  ft_incident :: string
  ft_search :: string
  ft_run :: string
  ft_from :: time
  ft_to :: time
  ft_before :: time
  ft_before_id :: string
  ft_limit :: int

text \<open>
  \<open>ParseFilter\<close>: the query is the map of \<open>url.Values\<close>; parsing a timestamp, and decoding a cursor
  from base64 and JSON, are parameters.
\<close>

definition query_get :: "string list gomap \<Rightarrow> string \<Rightarrow> string" where
  "query_get q k = (case lookup_or [] q k of [] \<Rightarrow> [] | v # _ \<Rightarrow> v)"

definition query_key_ok :: "string \<times> string list \<Rightarrow> bool" where
  "query_key_ok kv = (case kv of (k, v) \<Rightarrow> \<not> (length v \<noteq> 1 \<or> length (hd v) > 512 \<or>
     \<not> contains ''|repository|verdict|incident_state|q|run_id|from|to|cursor|limit|'' (''|'' @ k @ ''|'')))"

definition parse_bound :: "(string \<Rightarrow> time option) \<Rightarrow> string list gomap \<Rightarrow> string \<Rightarrow> time option" where
  \<comment> \<open>the zero time when the key is absent\<close>
  "parse_bound pt q k = (if has_key q k then pt (query_get q k) else Some 0)"

definition parse_cursor :: "(string \<Rightarrow> time option) \<Rightarrow> (string \<Rightarrow> string list option) \<Rightarrow> string list gomap \<Rightarrow> gerr + time \<times> string" where
  "parse_cursor pt dc q = (if \<not> has_key q ''cursor'' then Inr (0, [])
     else case dc (query_get q ''cursor'') of None \<Rightarrow> Inl EInvalid | Some c \<Rightarrow>
       (if length c \<noteq> 2 \<or> \<not> uuid_pattern (c ! 1) then Inl EInvalid
        else case pt (c ! 0) of None \<Rightarrow> Inl EInvalid | Some t \<Rightarrow> Inr (t, c ! 1)))"

definition parse_filter :: "(string \<Rightarrow> time option) \<Rightarrow> (string \<Rightarrow> string list option) \<Rightarrow> string list gomap \<Rightarrow> gerr + filter_spec" where
  "parse_filter pt dc q =
     (if \<not> list_all query_key_ok q then Inl EInvalid
      else if length (query_get q ''q'') > 255 \<or> \<not> List.member ['''', ''pass'', ''fail'', ''partial''] (query_get q ''verdict'') \<or>
        \<not> List.member ['''', ''open'', ''resolved'', ''none''] (query_get q ''incident_state'') then Inl EInvalid
      else case (if has_key q ''limit'' then (case atoi (query_get q ''limit'') of None \<Rightarrow> None
                   | Some n \<Rightarrow> if n < 1 \<or> n > 100 then None else Some n) else Some 25) of None \<Rightarrow> Inl EInvalid | Some limit \<Rightarrow>
       (case (parse_bound pt q ''from'', parse_bound pt q ''to'') of (Some from_t, Some to_t) \<Rightarrow>
          (if from_t \<noteq> 0 \<and> to_t \<noteq> 0 \<and> \<not> to_t > from_t then Inl EInvalid
           else case parse_cursor pt dc q of Inl e \<Rightarrow> Inl e | Inr (before, before_id) \<Rightarrow>
             Inr \<lparr>ft_repository = query_get q ''repository'', ft_verdict = query_get q ''verdict'',
                  ft_incident = query_get q ''incident_state'', ft_search = query_get q ''q'', ft_run = query_get q ''run_id'',
                  ft_from = from_t, ft_to = to_t, ft_before = before, ft_before_id = before_id, ft_limit = limit\<rparr>)
        | _ \<Rightarrow> Inl EInvalid))"

section \<open>List queries\<close>

text \<open>
  The \<open>WHERE\<close> clause \<open>List\<close> builds, and the values bound to its numbered parameters.
\<close>

datatype sql_arg = AStr string | ATime time | AInt int

fun show_pos :: "nat \<Rightarrow> string" where
  "show_pos n = (if n < 10 then [char_of (48 + n)] else show_pos (n div 10) @ [char_of (48 + n mod 10)])"

definition add_clause :: "bool \<Rightarrow> string \<Rightarrow> string \<Rightarrow> sql_arg \<Rightarrow> string list \<times> sql_arg list \<Rightarrow> string list \<times> sql_arg list" where
  \<comment> \<open>the closure \<open>add\<close>, with its format split around the parameter number\<close>
  "add_clause on pre post v wa = (case wa of (wh, args) \<Rightarrow>
     if on then (wh @ [pre @ show_pos (Suc (length args)) @ post], args @ [v]) else wa)"

definition list_query :: "filter_spec \<Rightarrow> bool \<Rightarrow> string list \<times> sql_arg list" where
  "list_query f incidents =
     (let q0 = ([''true''] @ (if incidents then [''i.id IS NOT NULL''] else []), []);
          q1 = add_clause (ft_repository f \<noteq> []) ''r.repository=$'' [] (AStr (ft_repository f)) q0;
          q2 = add_clause (ft_run f \<noteq> []) ''r.run_id=$'' [] (AStr (ft_run f)) q1;
          q3 = add_clause (ft_verdict f \<noteq> []) ''r.verdict=$'' [] (AStr (ft_verdict f)) q2;
          q4 = (if ft_incident f = ''none'' then (fst q3 @ [''i.id IS NULL''], snd q3)
                else add_clause (ft_incident f \<noteq> []) ''i.state=$'' [] (AStr (ft_incident f)) q3);
          q5 = add_clause (ft_search f \<noteq> []) (''r.search_document @@ plainto_tsquery('' @ [CHR 0x27] @ ''simple'' @ [CHR 0x27] @ '',$'')
                 '')'' (AStr (ft_search f)) q4;
          q6 = add_clause (ft_from f \<noteq> 0) ''r.completed_at >= $'' [] (ATime (ft_from f)) q5;
          q7 = add_clause (ft_to f \<noteq> 0) ''r.completed_at < $'' [] (ATime (ft_to f)) q6;
          q8 = (if ft_before f \<noteq> 0
                then (fst q7 @ [''(r.completed_at,r.id)<($'' @ show_pos (length (snd q7) + 1) @ '',$'' @ show_pos (length (snd q7) + 2) @ ''::uuid)''],
                      snd q7 @ [ATime (ft_before f), AStr (ft_before_id f)])
                else q7)
      in (fst q8, snd q8 @ [AInt (ft_limit f + 1)]))"

text \<open>
  The loop over the rows of the answer, each with its sort key: at most \<open>limit\<close> items, and the key
  of the last one as the cursor when there is another row.
\<close>

type_synonym 'r keyed = "'r \<times> time \<times> string"

fun page_rows :: "int \<Rightarrow> 'r keyed list \<Rightarrow> 'r list \<Rightarrow> time \<times> string \<Rightarrow> 'r list \<times> (time \<times> string) option" where
  "page_rows limit [] items last_key = (items, None)"
| "page_rows limit ((b, when) # rows) items last_key =
     (if int (length items) = limit then (items, Some last_key)
      else page_rows limit rows (items @ [b]) when)"

definition list_page :: "int \<Rightarrow> 'r keyed list \<Rightarrow> 'r list \<times> (time \<times> string) option" where
  "list_page limit rows = page_rows limit rows [] (0, [])"

text \<open>
  What the query answers for a table in the order of the query, newest first, and a cursor.
\<close>

definition key_before :: "time \<times> string \<Rightarrow> time \<times> string \<Rightarrow> bool" where
  "key_before a b \<longleftrightarrow> fst a < fst b \<or> (fst a = fst b \<and> snd a < snd b)"

definition select_rows :: "int \<Rightarrow> (time \<times> string) option \<Rightarrow> 'r keyed list \<Rightarrow> 'r keyed list" where
  "select_rows limit cursor tbl =
     take (nat (limit + 1)) (case cursor of None \<Rightarrow> tbl | Some c \<Rightarrow> filter (\<lambda>(b, k). key_before k c) tbl)"

fun all_pages :: "int \<Rightarrow> 'r keyed list \<Rightarrow> (time \<times> string) option \<Rightarrow> nat \<Rightarrow> 'r list list" where
  \<comment> \<open>a client that follows the cursors, for at most the given number of pages\<close>
  "all_pages limit tbl cursor 0 = []"
| "all_pages limit tbl cursor (Suc n) =
     (case list_page limit (select_rows limit cursor tbl) of (items, next) \<Rightarrow>
        items # (case next of None \<Rightarrow> [] | Some c \<Rightarrow> all_pages limit tbl (Some c) n))"

section \<open>HTTP\<close>

definition fail_status :: "gerr \<Rightarrow> int \<times> string" where
  "fail_status e = (if e = EInvalid then (422, ''invalid_evidence'') else if e = EConflict then (409, ''identity_conflict'')
     else if e = ENotFound then (404, ''not_found'') else (503, ''dependency_unavailable''))"

record http_request =
  hr_host :: string
  hr_host_name :: string
  hr_origin :: string
  hr_origin_url :: "gerr + url"
  hr_fetch_site :: string
  hr_authorization :: string
  hr_media :: "gerr + string"
  hr_encoding :: string
  hr_body :: "gerr + bytes"

definition local_host :: "http_request \<Rightarrow> bool" where
  \<comment> \<open>\<open>localHost\<close>, given the host part that \<open>net.SplitHostPort\<close> finds\<close>
  "local_host r = List.member [''localhost'', ''127.0.0.1'', ''api''] (hr_host_name r)"

definition boundary :: "http_request \<Rightarrow> (int \<times> string) option" where
  "boundary r = (if \<not> local_host r then Some (403, ''host_rejected'')
     else if hr_origin r \<noteq> [] \<and> (case hr_origin_url r of Inl _ \<Rightarrow> True
       | Inr u \<Rightarrow> u_scheme u \<noteq> ''http'' \<or> u_host u \<noteq> hr_host r \<or> u_path u \<noteq> []) then Some (403, ''origin_rejected'')
     else if hr_fetch_site r = ''cross-site'' then Some (403, ''origin_rejected'')
     else None)"

definition authorized :: "string \<Rightarrow> http_request \<Rightarrow> bool" where
  \<comment> \<open>\<open>auth\<close>\<close>
  "authorized token r =
     (let h = hr_authorization r; t = (if has_prefix h ''Bearer '' then drop (length ''Bearer '') h else h)
      in \<not> (\<not> has_prefix h ''Bearer '' \<or> length token < 32 \<or> t \<noteq> token))"

definition request_body :: "http_request \<Rightarrow> (int \<times> string) + bytes" where
  "request_body r = (if hr_media r \<noteq> Inr ''application/json'' \<or> hr_encoding r \<noteq> [] then Inl (415, ''json_required'')
     else case hr_body r of Inl _ \<Rightarrow> Inl (413, ''body_too_large'')
       | Inr b \<Rightarrow> if length b > 16384 then Inl (413, ''body_too_large'') else Inr b)"

definition strict_json :: "(bytes \<Rightarrow> gerr + bytes) \<Rightarrow> 'a codec \<Rightarrow> bytes \<Rightarrow> gerr + 'a" where
  \<comment> \<open>\<open>strictJSON\<close>: the canonical form of the text must be that of the decoded value\<close>
  "strict_json transform C b = (case transform b of Inl e \<Rightarrow> Inl e | Inr canonical \<Rightarrow>
     (case dec C b of Inl e \<Rightarrow> Inl e | Inr x \<Rightarrow>
       (if enc C x = Inr canonical then Inr x else Inl (EMsg ''exact JSON shape required''))))"

definition commit_status :: "commit \<Rightarrow> int" where
  "commit_status c = (if cm_duplicate c then 200 else 201)"

definition post_receipt :: "fwire \<Rightarrow> 'x verifier \<Rightarrow> time \<Rightarrow> txn \<Rightarrow> bool \<Rightarrow> string \<Rightarrow> http_request \<Rightarrow> 'x \<times> db \<Rightarrow> (int \<times> string) \<times> 'x \<times> db" where
  \<comment> \<open>the handler of POST /v1/receipts behind its middleware; \<open>busy\<close> says the one slot is taken\<close>
  "post_receipt F V now T busy token r xd = (case xd of (x, d) \<Rightarrow>
     (case boundary r of Some st \<Rightarrow> (st, x, d) | None \<Rightarrow>
      if \<not> authorized token r then ((401, ''unauthorized''), x, d)
      else if busy then ((429, ''verification_busy''), x, d)
      else (case request_body r of Inl st \<Rightarrow> (st, x, d) | Inr b \<Rightarrow>
        (case parse_result F b of Inl _ \<Rightarrow> (fail_status EInvalid, x, d) | Inr res \<Rightarrow>
          (case api_verify F V now res x of
             (Inl e, x') \<Rightarrow> (fail_status e, x', d)
           | (Inr v, x') \<Rightarrow> (case ingest T v d of
                (Inl e, d') \<Rightarrow> (fail_status e, x', d')
              | (Inr c, d') \<Rightarrow> ((commit_status c, cm_id c), x', d')))))))"

definition post_attempt :: "(bytes \<Rightarrow> gerr + bytes) \<Rightarrow> attempt codec \<Rightarrow> string \<Rightarrow> txn \<Rightarrow> time \<Rightarrow> string \<Rightarrow> http_request \<Rightarrow> db \<Rightarrow> (int \<times> string) \<times> db" where
  "post_attempt tf C repo T now token r d = (case boundary r of Some st \<Rightarrow> (st, d) | None \<Rightarrow>
      if \<not> authorized token r then ((401, ''unauthorized''), d)
      else (case request_body r of Inl st \<Rightarrow> (st, d) | Inr b \<Rightarrow>
        (case strict_json tf C b of Inl _ \<Rightarrow> (fail_status EInvalid, d) | Inr a \<Rightarrow>
          (if i_repository (at_identity a) \<noteq> repo then (fail_status EInvalid, d)
           else case record_attempt T now a d of (Inl e, d') \<Rightarrow> (fail_status e, d') | (Inr c, d') \<Rightarrow> ((commit_status c, cm_id c), d')))))"

definition post_recovery :: "(bytes \<Rightarrow> gerr + bytes) \<Rightarrow> report codec \<Rightarrow> string \<Rightarrow> txn \<Rightarrow> time \<Rightarrow> string \<Rightarrow> http_request \<Rightarrow> db \<Rightarrow> (int \<times> string) \<times> db" where
  "post_recovery tf C repo T now token r d = (case boundary r of Some st \<Rightarrow> (st, d) | None \<Rightarrow>
      if \<not> authorized token r then ((401, ''unauthorized''), d)
      else (case request_body r of Inl st \<Rightarrow> (st, d) | Inr b \<Rightarrow>
        (case strict_json tf C b of Inl _ \<Rightarrow> (fail_status EInvalid, d) | Inr a \<Rightarrow>
          (if i_repository (rp_identity a) \<noteq> repo then (fail_status EInvalid, d)
           else case recovery T now a d of (Some e, d') \<Rightarrow> (fail_status e, d') | (None, d') \<Rightarrow> ((200, ''recorded''), d')))))"

section \<open>Properties of the tables\<close>

text \<open>
  The integrity of the tables: one receipt per run identity, distinct identifiers, and exactly one
  incident for every receipt whose verdict is not a pass and none for one that passes.
\<close>

definition db_ok :: "db \<Rightarrow> bool" where
  "db_ok d \<longleftrightarrow> distinct (map rr_key (db_receipts d)) \<and> distinct (map rr_id (db_receipts d)) \<and>
     map in_receipt (db_incidents d) = map rr_id (filter (\<lambda>r. rr_verdict r \<noteq> ''pass'') (db_receipts d))"

lemma receipt_row_simps [simp]:
  "rr_id (receipt_row_of i v) = i" "rr_key (receipt_row_of i v) = run_key (rc_identity (vd_receipt v))"
  "rr_verdict (receipt_row_of i v) = rc_verdict (vd_receipt v)" "rr_receipt (receipt_row_of i v) = oc_receipt (vd_result v)"
  "rr_bundle (receipt_row_of i v) = oc_bundle (vd_result v)" "rr_revision (receipt_row_of i v) = i_revision (rc_identity (vd_receipt v))"
  by (simp_all add: receipt_row_of_def Let_def)

lemma ingest_cases:
  assumes "ingest T v d = (r, d')"
  obtains (rejected) e where "r = Inl e" "d' = d"
  | (duplicate) row where "find (\<lambda>row. rr_key row = run_key (rc_identity (vd_receipt v))) (db_receipts d) = Some row" "d' = d"
      "rr_receipt row = oc_receipt (vd_result v)" "rr_bundle row = oc_bundle (vd_result v)"
      "rr_revision row = i_revision (rc_identity (vd_receipt v))"
      "r = Inr \<lparr>cm_id = rr_id row, cm_duplicate = True\<rparr>"
  | (fresh) "find (\<lambda>row. rr_key row = run_key (rc_identity (vd_receipt v))) (db_receipts d) = None"
      "db_receipts d' = db_receipts d @ [receipt_row_of (tx_uuid T) v]"
      "db_incidents d' = db_incidents d @ (if rc_verdict (vd_receipt v) \<noteq> ''pass'' then [incident_of (tx_uuid T) (rc_verdict (vd_receipt v))] else [])"
      "r = Inr \<lparr>cm_id = tx_uuid T, cm_duplicate = False\<rparr> \<or> r = Inl EUnavailable"
  using assms
  by (auto simp: ingest_def Let_def finish_txn_def split: option.splits if_splits)

lemma ingest_ok:
  assumes "ingest T v d = (r, d')" "db_ok d" "tx_uuid T \<notin> rr_id ` set (db_receipts d)"
  shows "db_ok d'"
  using assms(1)
proof (cases rule: ingest_cases)
  case fresh
  have "run_key (rc_identity (vd_receipt v)) \<notin> rr_key ` set (db_receipts d)"
    using fresh(1) by (auto simp: find_None_iff)
  with fresh assms(2,3) show ?thesis by (auto simp: db_ok_def incident_of_def)
qed (use assms in simp_all)

lemma find_append_None: "find P xs = None \<Longrightarrow> find P (xs @ ys) = find P ys"
  by (induction xs) (auto split: if_splits)

text \<open>Ingestion is idempotent: after it committed, the same result is a duplicate with the same identifier.\<close>

lemma ingest_again:
  assumes "ingest T v d = (Inr c, d')" and "valid_identity (rc_identity (vd_receipt v))"
    and "tx_begin T'" "tx_insert T'" "tx_select T'" "tx_commit T'"
  shows "ingest T' v d' = (Inr \<lparr>cm_id = cm_id c, cm_duplicate = True\<rparr>, d')"
  using assms(1)
proof (cases rule: ingest_cases)
  case (duplicate row)
  with assms show ?thesis by (simp add: ingest_def Let_def finish_txn_def)
next
  case fresh
  have "find (\<lambda>row. rr_key row = run_key (rc_identity (vd_receipt v))) (db_receipts d') = Some (receipt_row_of (tx_uuid T) v)"
    using fresh(1,2) by (simp add: find_append_None)
  with fresh assms show ?thesis by (simp add: ingest_def Let_def finish_txn_def)
qed simp

text \<open>A report never reopens a recovery that succeeded.\<close>

lemma upsert_succeeded:
  assumes "row \<in> set rows" "ar_result row = ''succeeded''"
  shows "row \<in> set (upsert new rows)"
  using assms
proof (induction new rows rule: upsert.induct)
  case (2 new r rows)
  then show ?case by (auto simp: overwrites_def)
qed simp

lemma upsert_keys:
  "(\<lambda>r. (ar_key r, ar_number r, ar_origin r)) ` set (upsert new rows) =
   insert (ar_key new, ar_number new, ar_origin new) ((\<lambda>r. (ar_key r, ar_number r, ar_origin r)) ` set rows)"
  by (induction new rows rule: upsert.induct) auto

section \<open>Pagination\<close>

lemma page_rows_spec:
  "int (length items) \<le> limit \<Longrightarrow> page_rows limit rows items k =
     (let n = nat limit - length items in
      (items @ map fst (take n rows), if length rows \<le> n then None else Some (if n = 0 then k else snd (rows ! (n - 1)))))"
proof (induction limit rows items k rule: page_rows.induct)
  case (2 limit b wh rows items k)
  show ?case
  proof (cases "int (length items) = limit")
    case True
    then show ?thesis by (simp add: Let_def)
  next
    case False
    then have lt: "int (length items) < limit" using 2(2) by simp
    then obtain n where n: "nat limit - length items = Suc n" by (metis Suc_diff_Suc zless_nat_eq_int_zless)
    then have n': "nat limit - length (items @ [b]) = n" by simp
    show ?thesis
      using False 2(1)[OF False] lt n n' by (cases n) (auto simp: Let_def)
  qed
qed (simp add: Let_def)

lemma list_page_spec:
  assumes "1 \<le> limit"
  shows "list_page limit (take (nat (limit + 1)) xs) =
    (map fst (take (nat limit) xs), if length xs \<le> nat limit then None else Some (snd (xs ! (nat limit - 1))))"
proof -
  have n: "nat (limit + 1) = Suc (nat limit)" using assms by simp
  show ?thesis
    using page_rows_spec[of "[]" limit "take (nat (limit + 1)) xs" "(0, [])"] assms
    by (auto simp: list_page_def Let_def n min_def)
qed

definition newest_first :: "'r keyed list \<Rightarrow> bool" where
  "newest_first tbl \<longleftrightarrow> sorted_wrt (\<lambda>a b. key_before (snd b) (snd a)) tbl"

lemma key_before_asym: "key_before a b \<Longrightarrow> \<not> key_before b a"
  by (auto simp: key_before_def)

lemma filter_after:
  assumes s: "newest_first tbl" and j: "j < length tbl"
  shows "filter (\<lambda>(b, k). key_before k (snd (tbl ! j))) tbl = drop (Suc j) tbl"
proof -
  have "filter (\<lambda>(b, k). key_before k (snd (tbl ! j))) (take (Suc j) tbl) = []"
  proof -
    have "\<not> key_before (snd (tbl ! i)) (snd (tbl ! j))" if "i \<le> j" for i
    proof (cases "i = j")
      case True
      then show ?thesis by (simp add: key_before_def)
    next
      case False
      with that have "i < j" by simp
      from sorted_wrt_nth_less[OF s[unfolded newest_first_def] this j]
      have "key_before (snd (tbl ! j)) (snd (tbl ! i))" .
      then show ?thesis by (rule key_before_asym)
    qed
    then have "\<not> key_before (snd x) (snd (tbl ! j))" if "x \<in> set (take (Suc j) tbl)" for x
      using that by (auto simp: in_set_conv_nth)
    then show ?thesis by (auto simp: filter_empty_conv)
  qed
  moreover have "filter (\<lambda>(b, k). key_before k (snd (tbl ! j))) (drop (Suc j) tbl) = drop (Suc j) tbl"
  proof -
    have "key_before (snd x) (snd (tbl ! j))" if "x \<in> set (drop (Suc j) tbl)" for x
    proof -
      from that obtain i where "i < length tbl - Suc j" "x = tbl ! (Suc j + i)" by (auto simp: in_set_conv_nth)
      with sorted_wrt_nth_less[OF s[unfolded newest_first_def], of j "Suc j + i"] show ?thesis by simp
    qed
    then show ?thesis by (auto simp: filter_id_conv)
  qed
  ultimately show ?thesis by (metis append_Nil append_take_drop_id filter_append)
qed

lemma all_pages_from:
  assumes s: "newest_first tbl" and l: "1 \<le> limit"
  shows "j < length tbl \<Longrightarrow> length tbl - Suc j < n \<Longrightarrow>
    concat (all_pages limit tbl (Some (snd (tbl ! j))) n) = map fst (drop (Suc j) tbl)"
proof (induction n arbitrary: j)
  case (Suc n)
  let ?rest = "drop (Suc j) tbl"
  have sel: "list_page limit (select_rows limit (Some (snd (tbl ! j))) tbl) =
      (map fst (take (nat limit) ?rest), if length ?rest \<le> nat limit then None else Some (snd (?rest ! (nat limit - 1))))"
    using list_page_spec[OF l, of ?rest] filter_after[OF s Suc.prems(1)] by (simp add: select_rows_def)
  show ?case
  proof (cases "length ?rest \<le> nat limit")
    case True
    with sel show ?thesis by simp
  next
    case False
    let ?j = "Suc j + (nat limit - 1)"
    have j: "?j < length tbl" "Suc ?j = Suc j + nat limit" using False l by simp_all
    have "length tbl - Suc ?j < n" using Suc.prems j l by simp
    have "?rest ! (nat limit - 1) = tbl ! ?j" using Suc.prems(1) by simp
    moreover have "drop (Suc ?j) tbl = drop (nat limit) ?rest" by (simp only: j(2) drop_drop add.commute)
    ultimately have "concat (all_pages limit tbl (Some (snd (?rest ! (nat limit - 1)))) n) =
        map fst (drop (nat limit) ?rest)"
      using Suc.IH[OF j(1) \<open>length tbl - Suc ?j < n\<close>] by simp
    moreover have "map fst (take (nat limit) ?rest) @ map fst (drop (nat limit) ?rest) = map fst ?rest"
      by (simp only: map_append[symmetric] append_take_drop_id)
    ultimately show ?thesis using sel False by (simp only: all_pages.simps prod.case if_False option.case concat.simps)
  qed
qed simp

text \<open>Following the cursors enumerates the table: every row once, in its order.\<close>

lemma all_pages_complete:
  assumes s: "newest_first tbl" and l: "1 \<le> limit"
  shows "concat (all_pages limit tbl None (Suc (length tbl))) = map fst tbl"
proof -
  have sel: "list_page limit (select_rows limit None tbl) =
      (map fst (take (nat limit) tbl), if length tbl \<le> nat limit then None else Some (snd (tbl ! (nat limit - 1))))"
    using list_page_spec[OF l, of tbl] by (simp add: select_rows_def)
  show ?thesis
  proof (cases "length tbl \<le> nat limit")
    case True
    with sel show ?thesis by simp
  next
    case False
    then have "nat limit - 1 < length tbl" "length tbl - Suc (nat limit - 1) < length tbl" using l by simp_all
    from all_pages_from[OF s l this] have "concat (all_pages limit tbl (Some (snd (tbl ! (nat limit - 1)))) (length tbl)) =
        map fst (drop (nat limit) tbl)" using l by simp
    moreover have "map fst (take (nat limit) tbl) @ map fst (drop (nat limit) tbl) = map fst tbl"
      by (simp only: map_append[symmetric] append_take_drop_id)
    ultimately show ?thesis using sel False by (simp only: all_pages.simps prod.case if_False option.case concat.simps)
  qed
qed

lemma page_bounded:
  "1 \<le> limit \<Longrightarrow> list_page limit (select_rows limit cursor tbl) = (items, next) \<Longrightarrow> int (length items) \<le> limit"
  by (auto simp: select_rows_def list_page_spec split: option.splits)

lemma all_pages_bounded:
  assumes "1 \<le> limit" "p \<in> set (all_pages limit tbl cursor n)"
  shows "int (length p) \<le> limit"
  using assms
proof (induction n arbitrary: cursor)
  case (Suc n)
  obtain items nxt where pg: "list_page limit (select_rows limit cursor tbl) = (items, nxt)" by fastforce
  with Suc.prems consider "p = items" | c where "nxt = Some c" "p \<in> set (all_pages limit tbl (Some c) n)"
    by (auto split: option.splits)
  then show ?case using Suc.IH[OF Suc.prems(1)] page_bounded[OF Suc.prems(1) pg] by cases auto
qed simp

section \<open>Reports of the watchdog\<close>

text \<open>
  Every report the watchdog sends for a state it keeps is one the API accepts. The backend of the
  installed watchdog drops the retry time of a running report before it sends it.
\<close>

definition sent_report :: "report \<Rightarrow> report" where
  \<comment> \<open>the start of \<open>Report\<close> in cmd/watchdog/main.go\<close>
  "sent_report r = (if rp_status r = ''running'' then r\<lparr>rp_next := None\<rparr> else r)"

definition flushed_reports :: "wstate \<Rightarrow> report list" where
  "flushed_reports s = ws_history s @ (if rp_number (ws_current s) > 0 then [ws_current s] else [])"

lemma history_ok_nth:
  "history_ok ident i hs \<Longrightarrow> k < length hs \<Longrightarrow>
   rp_identity (hs ! k) = ident \<and> rp_number (hs ! k) = i + int k + 1 \<and> rp_status (hs ! k) = ''retry'' \<and> rp_next (hs ! k) \<noteq> None \<and>
   rp_owner (hs ! k) = [] \<and> rp_lease (hs ! k) = None"
  by (induction hs arbitrary: i k) (auto simp: less_Suc_eq_0_disj)

lemma reports_accepted:
  assumes g: "good ident s" and i: "valid_identity ident" and r: "r \<in> set (flushed_reports s)"
  shows "valid_recovery (sent_report r)"
proof -
  have l: "i_provider ident = ''local''" using i by (simp add: valid_identity_def)
  from r consider (old) "r \<in> set (ws_history s)" | (cur) "r = ws_current s" "rp_number r > 0"
    by (auto simp: flushed_reports_def split: if_splits)
  then show ?thesis
  proof cases
    case old
    then obtain k where k: "k < length (ws_history s)" "r = ws_history s ! k" by (auto simp: in_set_conv_nth)
    have n: "int (length (ws_history s)) \<le> 5" using g by (cases "rp_number (ws_current s) > 0") (auto simp: good_def)
    have h: "history_ok ident 0 (ws_history s)" "good_history r" using g old by (auto simp: good_def)
    from history_ok_nth[OF h(1) k(1)] k n h(2) i l show ?thesis
      by (auto simp: valid_recovery_def sent_report_def good_history_def error_codes_def)
  next
    case cur
    note c = current_ok_cases[OF good_current[OF g]]
    have b: "rp_identity r = ident" "rp_number r \<le> 6" using g cur by (auto simp: good_def)
    have e: "rp_status r = ''retry'' \<or> rp_status r = ''exhausted'' \<Longrightarrow> rp_error r \<in> set error_codes" using g cur by (simp add: good_def)
    from c(5) cur consider "rp_status r = ''pending''" | "rp_status r = ''running''" | "rp_status r = ''retry''"
      | "rp_status r = ''exhausted''" | "rp_status r = ''succeeded''" by auto
    then show ?thesis
    proof cases
      case 1
      with c(1) cur show ?thesis by simp
    next
      case 2
      with c(2) cur b i l show ?thesis by (simp add: valid_recovery_def sent_report_def)
    next
      case 3
      with c(3) cur b i l e show ?thesis by (auto simp: valid_recovery_def sent_report_def error_codes_def)
    next
      case 4
      with c(4) cur b i l e show ?thesis by (auto simp: valid_recovery_def sent_report_def error_codes_def)
    next
      case 5
      with good_current[OF g] cur b i l show ?thesis by (simp add: valid_recovery_def sent_report_def current_ok_def)
    qed
  qed
qed

end
