(* ===== verification/Delivery.thy ===== *)
theory Delivery
  imports Api
begin

text \<open>
  The delivery queue, internal/delivery/queue.go: a durable state per deduplication key through which
  a signed result reaches the metadata API at most six times, with the intent of every attempt
  persisted before its request and the failure reports replayed until they are accepted.
\<close>

section \<open>Data\<close>

record qstate =
  \<comment> \<open>\<open>State\<close>\<close>
  qs_result :: outcome
  qs_tries :: int
  qs_status :: string
  qs_receipt_id :: string
  qs_next :: "time option"
  qs_failures :: "attempt list"

text \<open>
  The documents of the exchange: the state file, the encoding of a failure report, and what
  \<open>encoding/json\<close> finds in a commit reply (its identifier) and in a page of receipts (the
  identifier and the two raw references of each row).
\<close>

record qwire =
  qw_state :: "qstate codec"
  qw_attempt :: "attempt \<Rightarrow> bytes"
  qw_commit :: "bytes \<Rightarrow> gerr + string"
  qw_page :: "bytes \<Rightarrow> gerr + (string \<times> (gerr + aref) \<times> (gerr + aref)) list"

text \<open>
  The HTTP client, over a state of its own: a transport error, or the status, the bytes of the body and
  whether reading it ended with an error. Every request made is recorded with the key it was made for.
\<close>

record qrequest =
  qr_key :: string
  qr_method :: string
  qr_path :: string
  qr_data :: "bytes option"

type_synonym 'x http = "string \<Rightarrow> string \<Rightarrow> bytes option \<Rightarrow> 'x \<Rightarrow> (gerr + int \<times> bytes \<times> gerr option) \<times> 'x"

record 'x qworld =
  qd_files :: "string \<Rightarrow> node"
  qd_ext :: 'x
  qd_log :: "qrequest list"
  qd_tick :: nat

record qenv =
  qe_durable :: "nat \<Rightarrow> durable_io"
  qe_fault :: "nat \<Rightarrow> bool"
  qe_now :: "nat \<Rightarrow> time"
  qe_mkdir :: "nat \<Rightarrow> gerr option"
  qe_resolved :: "nat \<Rightarrow> gerr + path"
  qe_open :: "nat \<Rightarrow> gerr option"
  qe_lock :: "nat \<Rightarrow> gerr option"

definition qtick :: "(nat \<Rightarrow> 'a) \<Rightarrow> ('x qworld, 'a) io" where
  "qtick f w = (Inr (f (qd_tick w)), w\<lparr>qd_tick := Suc (qd_tick w)\<rparr>)"

definition qsys :: "(nat \<Rightarrow> gerr option) \<Rightarrow> ('x qworld, unit) io" where
  "qsys f = bind_io (qtick f) (\<lambda>r. lift_io (to_res r))"

section \<open>Operations\<close>

definition qsave :: "qwire \<Rightarrow> qenv \<Rightarrow> string \<Rightarrow> qstate \<Rightarrow> ('x qworld, unit) io" where
  "qsave W E key s = bind_io (lift_io (enc (qw_state W) s)) (\<lambda>b w.
     (case durable (qe_durable E (qd_tick w)) (Regular b) (qd_files w key) of
        (r, n) \<Rightarrow> (to_res r, w\<lparr>qd_files := (qd_files w)(key := n), qd_tick := Suc (qd_tick w)\<rparr>)))"

definition qread :: "qenv \<Rightarrow> string \<Rightarrow> ('x qworld, gerr + bytes) io" where
  "qread E key w = (Inr (read_bounded (if qe_fault E (qd_tick w) then Unreadable ''io'' else qd_files w key) 65536),
     w\<lparr>qd_tick := Suc (qd_tick w)\<rparr>)"

definition qcall :: "'x http \<Rightarrow> string \<Rightarrow> string \<Rightarrow> string \<Rightarrow> bytes option \<Rightarrow> ('x qworld, gerr + int \<times> bytes \<times> gerr option) io" where
  \<comment> \<open>one exchange, recorded\<close>
  "qcall H key method path data w = (case H method path data (qd_ext w) of (r, x) \<Rightarrow>
     (Inr r, w\<lparr>qd_ext := x, qd_log := qd_log w @ [\<lparr>qr_key = key, qr_method = method, qr_path = path, qr_data = data\<rparr>]\<rparr>))"

definition qrequest_io :: "'x http \<Rightarrow> string \<Rightarrow> string \<Rightarrow> string \<Rightarrow> bytes option \<Rightarrow> ('x qworld, int \<times> bytes \<times> gerr option) io" where
  \<comment> \<open>\<open>Queue.request\<close>: status, body and error\<close>
  "qrequest_io H key method path data = bind_io (qcall H key method path data) (\<lambda>r. case r of
     Inl e \<Rightarrow> ret (0, [], Some e)
   | Inr (status, b, e) \<Rightarrow> if int (length b) > 1048576 then ret (0, [], Some (EMsg ''response too large'')) else ret (status, b, e))"

fun matching_row :: "outcome \<Rightarrow> (string \<times> (gerr + aref) \<times> (gerr + aref)) list \<Rightarrow> string option" where
  \<comment> \<open>the loop over the rows of the page\<close>
  "matching_row res [] = None"
| "matching_row res ((ident, receipt, bundle) # rows) =
     (if receipt = Inr (oc_receipt res) \<and> bundle = Inr (oc_bundle res) then Some ident else matching_row res rows)"

definition delivered :: "string \<Rightarrow> qstate \<Rightarrow> qstate" where
  "delivered ident s = s\<lparr>qs_receipt_id := ident, qs_status := ''complete'', qs_next := None\<rparr>"

definition qreconcile :: "qwire \<Rightarrow> 'x http \<Rightarrow> string \<Rightarrow> qstate \<Rightarrow> ('x qworld, qstate option) io" where
  \<comment> \<open>\<open>Queue.reconcile\<close>: the delivered state, when the API already has the result\<close>
  "qreconcile W H key s =
     bind_io (qrequest_io H key ''GET'' (''/v1/receipts?run_id='' @ i_run (oc_identity (qs_result s)) @ ''&limit=100'') None)
       (\<lambda>(status, b, e). if e \<noteq> None \<or> status \<noteq> 200 then ret None
          else case qw_page W b of Inl _ \<Rightarrow> ret None
            | Inr rows \<Rightarrow> ret (map_option (\<lambda>ident. delivered ident s) (matching_row (qs_result s) rows)))"

fun qflush :: "qwire \<Rightarrow> 'x http \<Rightarrow> string \<Rightarrow> attempt list \<Rightarrow> ('x qworld, bool) io" where
  \<comment> \<open>\<open>Queue.flush\<close>\<close>
  "qflush W H key [] = ret True"
| "qflush W H key (a # as) = bind_io (qrequest_io H key ''POST'' ''/v1/attempts'' (Some (qw_attempt W a))) (\<lambda>(status, b, e).
     if e \<noteq> None \<or> (status \<noteq> 200 \<and> status \<noteq> 201) then ret False else qflush W H key as)"

definition qdelay :: "int \<Rightarrow> duration" where
  "qdelay attempt = [minute, 5 * minute, 15 * minute, hour, hour, hour] ! nat (attempt - 1)"

definition clean_abs :: "path \<Rightarrow> path" where
  \<comment> \<open>\<open>filepath.Clean\<close> of an absolute path\<close>
  "clean_abs p = (case path_parts p of [] \<Rightarrow> ''/'' | ps \<Rightarrow> concat (map (\<lambda>s. CHR ''/'' # s) ps))"

definition qprepare :: "qenv \<Rightarrow> path \<Rightarrow> ('x qworld, unit) io" where
  "qprepare E dir =
     then_io (require (is_abs dir) (EMsg ''absolute queue directory required''))
     (then_io (qsys (qe_mkdir E))
     (bind_io (qtick (qe_resolved E)) (\<lambda>resolved.
      then_io (require (resolved = Inr (clean_abs dir)) (EMsg ''queue symlink forbidden''))
      (then_io (qsys (qe_open E))
      (bind_io (qtick (qe_lock E)) (\<lambda>r. require (r = None) (EMsg ''delivery already active'')))))))"

definition qinitial :: "outcome \<Rightarrow> qstate" where
  "qinitial r = \<lparr>qs_result = r, qs_tries = 0, qs_status = ''pending'', qs_receipt_id = [], qs_next = None, qs_failures = []\<rparr>"

definition qload :: "qwire \<Rightarrow> qenv \<Rightarrow> string \<Rightarrow> outcome \<Rightarrow> ('x qworld, qstate) io" where
  "qload W E key r = bind_io (qread E key) (\<lambda>q. case q of
     Inl e \<Rightarrow> if e = ENotExist then ret (qinitial r) else throw e
   | Inr old \<Rightarrow> (case dec (qw_state W) old of Inl _ \<Rightarrow> throw (EMsg ''invalid queue state'') | Inr s \<Rightarrow>
       then_io (require (\<not> (enc (qw_state W) s \<noteq> Inr old \<or> qs_result s \<noteq> r \<or> qs_tries s < 0 \<or> qs_tries s > 6 \<or>
          length (qs_failures s) > 6)) (EMsg ''queue identity/state conflict'')) (ret s)))"

definition failure_report :: "outcome \<Rightarrow> string \<Rightarrow> qstate \<Rightarrow> attempt" where
  "failure_report r code s = \<lparr>at_identity = oc_identity r, at_number = qs_tries s, at_stage = ''ingest'', at_result = qs_status s,
     at_error = code, at_next = qs_next s\<rparr>"

definition qinterrupted :: "outcome \<Rightarrow> qstate \<Rightarrow> qstate" where
  \<comment> \<open>an interrupted request consumed an attempt\<close>
  "qinterrupted r s =
     (if qs_status s = ''running'' then
        let s1 = (if qs_tries s \<ge> 6 then s\<lparr>qs_status := ''exhausted'', qs_next := None\<rparr> else s\<lparr>qs_status := ''retry''\<rparr>)
        in s1\<lparr>qs_failures := qs_failures s1 @ [failure_report r ''dependency_unavailable'' s1]\<rparr>
      else s)"

definition permanent_status :: "int \<Rightarrow> bool" where
  "permanent_status status = List.member [409, 422, 400, 401, 403, 415, 413] status"

definition qfailed :: "outcome \<Rightarrow> int \<Rightarrow> gerr option \<Rightarrow> qstate \<Rightarrow> qstate" where
  \<comment> \<open>the state after a request that did not deliver\<close>
  "qfailed r status e s =
     (let permanent = (e = None \<and> permanent_status status);
          code = (if permanent then if status = 409 then ''identity_conflict'' else ''invalid_evidence'' else ''dependency_unavailable'');
          s1 = (if permanent \<or> qs_tries s = 6 then s\<lparr>qs_status := ''exhausted'', qs_next := None\<rparr> else s\<lparr>qs_status := ''retry''\<rparr>)
      in s1\<lparr>qs_failures := qs_failures s1 @ [failure_report r code s1]\<rparr>)"

definition qcomplete :: "qwire \<Rightarrow> qenv \<Rightarrow> string \<Rightarrow> qstate \<Rightarrow> ('x qworld, qstate \<times> gerr option) io" where
  \<comment> \<open>\<open>return s, save(path, s)\<close>\<close>
  "qcomplete W E key s = bind_io (catch_io (qsave W E key s)) (\<lambda>q. ret (s, case q of Inl e \<Rightarrow> Some e | Inr _ \<Rightarrow> None))"

definition qreport :: "qwire \<Rightarrow> 'x http \<Rightarrow> qenv \<Rightarrow> string \<Rightarrow> qstate \<Rightarrow> ('x qworld, qstate \<times> gerr option) io" where
  \<comment> \<open>the end of an attempt that did not deliver\<close>
  "qreport W H E key s = then_io (qsave W E key s) (then_io (qflush W H key (qs_failures s))
     (ret (s, Some (EMsg ''delivery pending or exhausted; signed evidence retained''))))"

definition qanswered :: "qwire \<Rightarrow> 'x http \<Rightarrow> qenv \<Rightarrow> string \<Rightarrow> outcome \<Rightarrow> qstate \<Rightarrow> int \<times> bytes \<times> gerr option
    \<Rightarrow> ('x qworld, qstate \<times> gerr option) io" where
  "qanswered W H E key r s reply = (case reply of (status, b, e) \<Rightarrow>
     (case (if e = None \<and> (status = 200 \<or> status = 201) then qw_commit W b else Inl EInvalid) of
        Inr ident \<Rightarrow> if ident \<noteq> [] then qcomplete W E key (delivered ident s) else qreport W H E key (qfailed r status e s)
      | Inl _ \<Rightarrow> qreport W H E key (qfailed r status e s)))"

definition qattempt :: "qwire \<Rightarrow> 'x http \<Rightarrow> qenv \<Rightarrow> string \<Rightarrow> outcome \<Rightarrow> bytes \<Rightarrow> qstate \<Rightarrow> ('x qworld, qstate \<times> gerr option) io" where
  \<comment> \<open>one in-flight attempt: persisted, sent, and its end persisted\<close>
  "qattempt W H E key r data s0 = bind_io (qtick (qe_now E)) (\<lambda>now.
     let s = s0\<lparr>qs_tries := qs_tries s0 + 1, qs_status := ''running'', qs_next := Some (now + qdelay (qs_tries s0 + 1))\<rparr> in
     then_io (qsave W E key s)
     (bind_io (qrequest_io H key ''POST'' ''/v1/receipts'' (Some data)) (qanswered W H E key r s)))"

definition qpending :: "qwire \<Rightarrow> 'x http \<Rightarrow> qenv \<Rightarrow> string \<Rightarrow> outcome \<Rightarrow> bytes \<Rightarrow> qstate \<Rightarrow> ('x qworld, qstate \<times> gerr option) io" where
  \<comment> \<open>after the reconciliation: exhausted, not due, or the next attempt\<close>
  "qpending W H E key r data s =
     (if qs_status s = ''exhausted'' \<or> qs_tries s \<ge> 6 then ret (s, Some (EMsg ''delivery exhausted; archives retained''))
      else case qs_next s of
        None \<Rightarrow> qattempt W H E key r data s
      | Some due \<Rightarrow> bind_io (qtick (qe_now E)) (\<lambda>now.
          if now < due then ret (s, Some (EMsg ''delivery retry not due'')) else qattempt W H E key r data s))"

definition deliver :: "fwire \<Rightarrow> qwire \<Rightarrow> 'x http \<Rightarrow> qenv \<Rightarrow> path \<Rightarrow> bytes \<Rightarrow> ('x qworld, qstate \<times> gerr option) io" where
  \<comment> \<open>\<open>Queue.Deliver\<close>; \<open>return nil, e\<close> is the error of the method, \<open>return s, e\<close> a pair\<close>
  "deliver F W H E dir data =
     bind_io (lift_io (parse_result F data)) (\<lambda>r.
     then_io (qprepare E dir)
     (let key = dedup_key F (oc_identity r) in
      bind_io (qload W E key r) (\<lambda>s0.
      let s = qinterrupted r s0 in
      then_io (qsave W E key s)
      (bind_io (qflush W H key (qs_failures s)) (\<lambda>flushed.
       if qs_status s = ''complete'' then
         ret (s, if flushed then None else Some (EMsg ''attempt reports awaiting recovery''))
       else bind_io (qreconcile W H key s) (\<lambda>found. case found of
         Some s' \<Rightarrow> qcomplete W E key s'
       | None \<Rightarrow> qpending W H E key r data s))))))"

section \<open>States of the queue\<close>

definition report_ok :: "outcome \<Rightarrow> int \<Rightarrow> attempt \<Rightarrow> bool" where
  \<comment> \<open>a report of one of the first \<open>n\<close> attempts\<close>
  "report_ok r n a \<longleftrightarrow> at_identity a = oc_identity r \<and> 1 \<le> at_number a \<and> at_number a \<le> n \<and> at_stage a = ''ingest'' \<and>
     at_error a \<in> {''dependency_unavailable'', ''invalid_evidence'', ''identity_conflict''} \<and>
     (at_result a = ''retry'' \<and> at_number a < 6 \<and> at_next a \<noteq> None \<or> at_result a = ''exhausted'' \<and> at_next a = None)"

definition queue_ok :: "qstate \<Rightarrow> bool" where
  "queue_ok s \<longleftrightarrow> 0 \<le> qs_tries s \<and> qs_tries s \<le> 6 \<and> sorted_wrt (<) (map at_number (qs_failures s)) \<and>
     (\<forall>a \<in> set (qs_failures s). report_ok (qs_result s) (if qs_status s = ''running'' then qs_tries s - 1 else qs_tries s) a) \<and>
     (qs_status s = ''pending'' \<and> qs_tries s = 0 \<and> qs_next s = None \<or>
      qs_status s = ''running'' \<and> 1 \<le> qs_tries s \<and> qs_next s \<noteq> None \<or>
      qs_status s = ''retry'' \<and> qs_tries s < 6 \<and> qs_next s \<noteq> None \<or>
      qs_status s = ''exhausted'' \<and> qs_next s = None \<or> qs_status s = ''complete'' \<and> qs_next s = None)"

lemma queue_ok_initial: "queue_ok (qinitial r)"
  by (simp add: queue_ok_def qinitial_def)

lemma queue_ok_delivered: "queue_ok s \<Longrightarrow> queue_ok (delivered ident s)"
  by (auto simp: queue_ok_def delivered_def report_ok_def)

lemma queue_ok_begin:
  assumes "queue_ok s" "qs_status s \<noteq> ''running''" "qs_tries s < 6"
  shows "queue_ok (s\<lparr>qs_tries := qs_tries s + 1, qs_status := ''running'', qs_next := Some due\<rparr>)"
  using assms by (simp add: queue_ok_def)

lemma queue_ok_report:
  assumes ok: "queue_ok s" and run: "qs_status s = ''running''"
    and s1: "s1 = (if b \<or> qs_tries s \<ge> 6 then s\<lparr>qs_status := ''exhausted'', qs_next := None\<rparr> else s\<lparr>qs_status := ''retry''\<rparr>)"
    and c: "code \<in> {''dependency_unavailable'', ''invalid_evidence'', ''identity_conflict''}" and r: "r = qs_result s"
  shows "queue_ok (s1\<lparr>qs_failures := qs_failures s1 @ [failure_report r code s1]\<rparr>)"
proof -
  have old: "\<forall>a \<in> set (qs_failures s). report_ok r (qs_tries s - 1) a" using ok run r by (simp add: queue_ok_def)
  have lt: "\<forall>a \<in> set (qs_failures s). at_number a < qs_tries s" using old by (auto simp: report_ok_def)
  have old': "\<forall>a \<in> set (qs_failures s). report_ok r (qs_tries s) a" using old by (auto simp: report_ok_def)
  have t: "1 \<le> qs_tries s" "qs_tries s \<le> 6" "qs_next s \<noteq> None" using ok run by (simp_all add: queue_ok_def)
  have keep: "qs_failures s1 = qs_failures s" "qs_tries s1 = qs_tries s" "qs_result s1 = r" using s1 r by (simp_all split: if_splits)
  have new: "report_ok r (qs_tries s) (failure_report r code s1)"
    using t c s1 by (auto simp: report_ok_def failure_report_def split: if_splits)
  have sorted: "sorted_wrt (<) (map at_number (qs_failures s))" using ok by (simp add: queue_ok_def)
  have st: "qs_status s1 = ''retry'' \<and> qs_tries s < 6 \<and> qs_next s1 \<noteq> None \<or> qs_status s1 = ''exhausted'' \<and> qs_next s1 = None"
    using t s1 by (auto split: if_splits)
  show ?thesis using sorted old' new lt st t keep
    by (auto simp: queue_ok_def sorted_wrt_append failure_report_def)
qed

lemma queue_ok_interrupted: "queue_ok s \<Longrightarrow> r = qs_result s \<Longrightarrow> queue_ok (qinterrupted r s)"
  using queue_ok_report[of s _ False "''dependency_unavailable''" r] by (simp add: qinterrupted_def Let_def)

lemma queue_ok_failed:
  assumes "queue_ok s" "qs_status s = ''running''" "r = qs_result s"
  shows "queue_ok (qfailed r status e s)"
proof -
  have six: "(qs_tries s = 6) = (qs_tries s \<ge> 6)" using assms(1) by (auto simp: queue_ok_def)
  show ?thesis unfolding qfailed_def Let_def six by (rule queue_ok_report[OF assms(1,2) refl _ assms(3)]) simp
qed

lemma qinterrupted_simps [simp]: "qs_tries (qinterrupted r s) = qs_tries s" "qs_result (qinterrupted r s) = qs_result s"
  "qs_status (qinterrupted r s) \<noteq> ''running''" "qs_status (qinterrupted r s) = ''complete'' \<longleftrightarrow> qs_status s = ''complete''"
  by (auto simp: qinterrupted_def Let_def)

lemma qfailed_simps [simp]: "qs_tries (qfailed r status e s) = qs_tries s" "qs_status (qfailed r status e s) \<noteq> ''complete''"
  by (auto simp: qfailed_def Let_def)

lemma delivered_simps [simp]: "qs_tries (delivered ident s) = qs_tries s" "qs_status (delivered ident s) = ''complete''"
  by (simp_all add: delivered_def)

section \<open>The attempts that were made\<close>

definition posts :: "string \<Rightarrow> 'x qworld \<Rightarrow> int" where
  \<comment> \<open>how often the result of a key was sent\<close>
  "posts key w = int (length (filter (\<lambda>q. qr_key q = key \<and> qr_method q = ''POST'' \<and> qr_path q = ''/v1/receipts'') (qd_log w)))"

definition holds :: "qwire \<Rightarrow> string \<Rightarrow> qstate \<Rightarrow> 'x qworld \<Rightarrow> bool" where
  "holds W key s w \<longleftrightarrow> (\<exists>b. qd_files w key = Regular b \<and> enc (qw_state W) s = Inr b)"

definition queues_ok :: "qwire \<Rightarrow> 'x qworld \<Rightarrow> bool" where
  \<comment> \<open>every stored state is well formed and counts at least the requests made\<close>
  "queues_ok W w \<longleftrightarrow> (\<forall>key. qd_files w key = Missing \<and> posts key w = 0 \<or>
     (\<exists>s. holds W key s w \<and> queue_ok s \<and> posts key w \<le> qs_tries s))"

definition at_most :: "qwire \<Rightarrow> string \<Rightarrow> int \<Rightarrow> qstate option \<Rightarrow> 'x qworld \<Rightarrow> bool" where
  "at_most W key n so w \<longleftrightarrow> queues_ok W w \<and> posts key w \<le> n \<and> (case so of None \<Rightarrow> True | Some s \<Rightarrow> holds W key s w)"

lemma holds_fun: "sound_codec (qw_state W) \<Longrightarrow> holds W key s w \<Longrightarrow> holds W key t w \<Longrightarrow> s = t"
proof -
  assume W: "sound_codec (qw_state W)" and "holds W key s w" "holds W key t w"
  then obtain b where "enc (qw_state W) s = Inr b" "enc (qw_state W) t = Inr b" by (auto simp: holds_def)
  with W have "Inr s = (Inr t :: gerr + qstate)" unfolding sound_codec_def by metis
  then show "s = t" by simp
qed

lemma at_most_frame:
  assumes "qd_files w' = qd_files w" "qd_log w' = qd_log w"
  shows "at_most W key n so w' \<longleftrightarrow> at_most W key n so w"
  unfolding at_most_def queues_ok_def posts_def holds_def assms ..

lemma triple_qtick: "triple (at_most W key n so :: 'x qworld \<Rightarrow> bool) (qtick f) (\<lambda>_. at_most W key n so) E"
proof (rule tripleI)
  fix w :: "'x qworld" assume w: "at_most W key n so w"
  have "at_most W key n so (w\<lparr>qd_tick := Suc (qd_tick w)\<rparr>)" by (rule at_most_frame[THEN iffD2, OF _ _ w]) simp_all
  then show "case qtick f w of (Inr x, t) \<Rightarrow> at_most W key n so t | (Inl e, t) \<Rightarrow> E t" by (simp add: qtick_def)
qed

lemma triple_qsys: "triple (at_most W key n so) (qsys f) (\<lambda>_. at_most W key n so) (at_most W key n so)"
  unfolding qsys_def by (rule triple_bind[OF triple_qtick triple_lift_io])

lemma save_at_most:
  assumes ok: "queue_ok s" "n \<le> qs_tries s" and w: "at_most W key n so w" and e: "enc (qw_state W) s = Inr b"
    and nn: "nd = Regular b \<or> nd = qd_files w key"
  shows "at_most W key n None (w\<lparr>qd_files := (qd_files w)(key := nd), qd_tick := t\<rparr>)"
proof -
  let ?w = "w\<lparr>qd_files := (qd_files w)(key := nd), qd_tick := t\<rparr>"
  have p: "posts k ?w = posts k w" for k by (simp add: posts_def)
  have q: "queues_ok W w" "posts key w \<le> n" using w by (simp_all add: at_most_def)
  have "qd_files ?w k = Missing \<and> posts k ?w = 0 \<or> (\<exists>s. holds W k s ?w \<and> queue_ok s \<and> posts k ?w \<le> qs_tries s)" for k
  proof (cases "k = key \<and> nd = Regular b")
    case True
    then have "holds W k s ?w" "posts k ?w \<le> qs_tries s" using e q(2) ok(2) p by (simp_all add: holds_def)
    with ok(1) show ?thesis by blast
  next
    case False
    then have "qd_files ?w k = qd_files w k" using nn by auto
    with q(1) p show ?thesis by (simp add: queues_ok_def holds_def)
  qed
  with q(2) p show ?thesis by (simp add: at_most_def queues_ok_def)
qed

lemma triple_qsave:
  assumes ok: "queue_ok s" "n \<le> qs_tries s"
  shows "triple (at_most W key n so) (qsave W E key s) (\<lambda>_. at_most W key n (Some s)) (at_most W key n None)"
proof (rule tripleI)
  fix w assume w: "at_most W key n so w"
  show "case qsave W E key s w of (Inr x, t) \<Rightarrow> at_most W key n (Some s) t | (Inl e, t) \<Rightarrow> at_most W key n None t"
  proof (cases "enc (qw_state W) s")
    case (Inl e)
    with w show ?thesis by (simp add: qsave_def io_apply at_most_def)
  next
    case (Inr b)
    obtain r nd where d: "durable (qe_durable E (qd_tick w)) (Regular b) (qd_files w key) = (r, nd)" by fastforce
    have nd: "nd = Regular b \<or> nd = qd_files w key" using durable_content[of "qe_durable E (qd_tick w)" "Regular b" "qd_files w key"] d by simp
    note m = save_at_most[OF ok w Inr nd, of "Suc (qd_tick w)"]
    have "nd = Regular b" if "r = None" using d that by (auto dest: durable_None)
    with m d Inr show ?thesis by (auto simp: qsave_def io_apply at_most_def holds_def to_res_def split: option.splits)
  qed
qed

lemma triple_qcall_other:
  assumes "\<not> (method = ''POST'' \<and> path = ''/v1/receipts'')"
  shows "triple (at_most W key n so) (qcall H k method path data) (\<lambda>_. at_most W key n so) (at_most W key n so)"
proof -
  have p: "posts j (w\<lparr>qd_ext := x, qd_log := qd_log w @ [\<lparr>qr_key = k, qr_method = method, qr_path = path, qr_data = data\<rparr>]\<rparr>) = posts j w"
    for j x and w :: "'a qworld" using assms by (auto simp: posts_def)
  show ?thesis
    by (auto simp: triple_def qcall_def at_most_def queues_ok_def p split: prod.split option.splits)
      (auto simp: holds_def)
qed

lemma triple_qpost:
  assumes ok: "queue_ok s" "n + 1 \<le> qs_tries s"
  shows "triple (at_most W key n (Some s) :: 'x qworld \<Rightarrow> bool) (qcall H key ''POST'' ''/v1/receipts'' data) (\<lambda>_. at_most W key (n + 1) (Some s)) E"
proof (rule tripleI)
  fix w :: "'x qworld" assume w: "at_most W key n (Some s) w"
  obtain r x where h: "H ''POST'' ''/v1/receipts'' data (qd_ext w) = (r, x)" by fastforce
  let ?w = "w\<lparr>qd_ext := x, qd_log := qd_log w @ [\<lparr>qr_key = key, qr_method = ''POST'', qr_path = ''/v1/receipts'', qr_data = data\<rparr>]\<rparr>"
  have p: "posts j ?w = posts j w + (if j = key then 1 else 0)" for j by (simp add: posts_def)
  have hd: "holds W j t ?w \<longleftrightarrow> holds W j t w" for j t by (simp add: holds_def)
  have q: "queues_ok W w" "posts key w \<le> n" "holds W key s w" using w by (simp_all add: at_most_def)
  have "qd_files ?w j = Missing \<and> posts j ?w = 0 \<or> (\<exists>t. holds W j t ?w \<and> queue_ok t \<and> posts j ?w \<le> qs_tries t)" for j
  proof (cases "j = key")
    case True
    with q(2,3) ok p hd show ?thesis by (intro disjI2 exI[of _ s]) simp
  next
    case False
    with q(1) p hd show ?thesis by (simp add: queues_ok_def)
  qed
  with q p hd have "at_most W key (n + 1) (Some s) ?w" by (simp add: at_most_def queues_ok_def)
  then show "case qcall H key ''POST'' ''/v1/receipts'' data w of (Inr x, t) \<Rightarrow> at_most W key (n + 1) (Some s) t | (Inl e, t) \<Rightarrow> E t"
    by (simp add: qcall_def h)
qed

lemma triple_qrequest:
  assumes "triple P (qcall H key method path data) (\<lambda>_. Q) E"
  shows "triple P (qrequest_io H key method path data) (\<lambda>_. Q) E"
  unfolding qrequest_io_def
proof (rule triple_bind[OF assms])
  fix r :: "gerr + int \<times> string \<times> gerr option"
  show "triple Q (case r of Inl e \<Rightarrow> ret (0, [], Some e)
     | Inr (status, b, e) \<Rightarrow> if int (length b) > 1048576 then ret (0, [], Some (EMsg ''response too large'')) else ret (status, b, e))
     (\<lambda>_. Q) E"
    by (cases r) (auto intro!: triple_ret)
qed

lemma triple_qflush: "triple (at_most W key n so) (qflush V H k as) (\<lambda>_. at_most W key n so) (at_most W key n so)"
proof (induction as)
  case (Cons a as)
  have "triple (at_most W key n so) (qrequest_io H k ''POST'' ''/v1/attempts'' (Some (qw_attempt V a)))
      (\<lambda>_. at_most W key n so) (at_most W key n so)" by (rule triple_qrequest[OF triple_qcall_other]) simp
  then show ?case using Cons by (auto intro!: triple_bind triple_ret)
qed (simp add: triple_ret)

lemma qreconcile_delivered:
  assumes "qreconcile V H k s w = (Inr (Some s'), w')"
  shows "\<exists>ident. s' = delivered ident s"
  using assms by (auto simp: qreconcile_def Inr_iffs eq_commute[of "Some _"] split: prod.splits if_splits)
    (case_tac "qw_page V aa"; auto simp: Inr_iffs eq_commute[of "Some _"])

lemma triple_qreconcile:
  "triple (at_most W key n so) (qreconcile V H k s)
     (\<lambda>found w. at_most W key n so w \<and> (\<forall>s'. found = Some s' \<longrightarrow> (\<exists>ident. s' = delivered ident s))) (at_most W key n so)"
proof -
  have "triple (at_most W key n so) (qreconcile V H k s) (\<lambda>_. at_most W key n so) (at_most W key n so)"
    unfolding qreconcile_def
    by (rule triple_bind[OF triple_qrequest[OF triple_qcall_other]]) (auto intro!: triple_ret split: sum.split)
  then show ?thesis using qreconcile_delivered by (force simp: triple_def split: prod.splits sum.splits)
qed

lemma at_most_queues: "at_most W key n so w \<Longrightarrow> queues_ok W w"
  by (simp add: at_most_def)

lemma triple_queues: "triple P m Q (at_most W key n so) \<Longrightarrow> triple P m Q (queues_ok W)"
  by (erule triple_error) (rule at_most_queues)

lemma triple_qreport:
  assumes "queue_ok s" "n \<le> qs_tries s"
  shows "triple (at_most W key n so) (qreport W H E key s) (\<lambda>_. queues_ok W) (queues_ok W)"
  unfolding qreport_def
  by (rule triple_then[OF triple_queues[OF triple_qsave[OF assms]] triple_then[OF triple_queues[OF triple_qflush] triple_ret]])
    (rule at_most_queues)

lemma triple_qcomplete:
  assumes "queue_ok s" "n \<le> qs_tries s"
  shows "triple (at_most W key n so) (qcomplete W E key s) (\<lambda>_. queues_ok W) (queues_ok W)"
proof -
  have "triple (at_most W key n so) (qsave W E key s) (\<lambda>_. queues_ok W) (queues_ok W)"
    by (rule triple_post[OF triple_queues[OF triple_qsave[OF assms]]]) (rule at_most_queues)
  from triple_catch[OF this] show ?thesis unfolding qcomplete_def by (rule triple_bind) (simp add: triple_ret)
qed

lemma triple_qanswered:
  assumes "queue_ok s" "qs_status s = ''running''" "r = qs_result s" "n \<le> qs_tries s"
  shows "triple (at_most W key n so) (qanswered W H E key r s reply) (\<lambda>_. queues_ok W) (queues_ok W)"
proof (cases reply)
  case (fields status b e)
  have "triple (at_most W key n so) (qreport W H E key (qfailed r status e s)) (\<lambda>_. queues_ok W) (queues_ok W)"
    by (rule triple_qreport[OF queue_ok_failed[OF assms(1-3)]]) (use assms(4) in simp)
  moreover have "triple (at_most W key n so) (qcomplete W E key (delivered ident s)) (\<lambda>_. queues_ok W) (queues_ok W)" for ident
    by (rule triple_qcomplete[OF queue_ok_delivered[OF assms(1)]]) (use assms(4) in simp)
  ultimately show ?thesis by (auto simp: qanswered_def fields split: sum.split)
qed

lemma triple_qattempt:
  assumes ok: "queue_ok s" "qs_status s \<noteq> ''running''" "qs_tries s < 6" and r: "r = qs_result s" and n: "n \<le> qs_tries s"
  shows "triple (at_most W key n so) (qattempt W H E key r data s) (\<lambda>_. queues_ok W) (queues_ok W)"
  unfolding qattempt_def
proof (rule triple_bind[OF triple_qtick], unfold Let_def)
  fix now
  let ?t = "s\<lparr>qs_tries := qs_tries s + 1, qs_status := ''running'', qs_next := Some (now + qdelay (qs_tries s + 1))\<rparr>"
  have t: "queue_ok ?t" by (rule queue_ok_begin[OF ok])
  have le: "n \<le> qs_tries ?t" "n + 1 \<le> qs_tries ?t" using n by simp_all
  show "triple (at_most W key n so) (then_io (qsave W E key ?t)
     (bind_io (qrequest_io H key ''POST'' ''/v1/receipts'' (Some data)) (qanswered W H E key r ?t))) (\<lambda>_. queues_ok W) (queues_ok W)"
    by (rule triple_then[OF triple_queues[OF triple_qsave[OF t le(1)]]], rule triple_bind[OF triple_qrequest[OF triple_qpost[OF t le(2)]]],
        rule triple_qanswered[OF t _ _ le(2)]) (simp_all add: r)
qed

lemma triple_qpending:
  assumes ok: "queue_ok s" "qs_status s \<noteq> ''running''" and r: "r = qs_result s" and n: "n \<le> qs_tries s"
  shows "triple (at_most W key n so) (qpending W H E key r data s) (\<lambda>_. queues_ok W) (queues_ok W)"
  unfolding qpending_def
  by (auto intro!: triple_ret triple_bind[OF triple_qtick] triple_qattempt[OF ok _ r n] dest: at_most_queues split: option.split)

lemma triple_qload:
  assumes W: "sound_codec (qw_state W)"
  shows "triple (queues_ok W) (qload W E key r) (\<lambda>s w. at_most W key (qs_tries s) None w \<and> queue_ok s \<and> qs_result s = r) (queues_ok W)"
proof (rule tripleI)
  fix w :: "'a qworld" assume w: "queues_ok W w"
  let ?w = "w\<lparr>qd_tick := Suc (qd_tick w)\<rparr>"
  have q: "queues_ok W ?w" using w by (simp add: queues_ok_def holds_def posts_def)
  show "case qload W E key r w of (Inr s, t) \<Rightarrow> at_most W key (qs_tries s) None t \<and> queue_ok s \<and> qs_result s = r
    | (Inl e, t) \<Rightarrow> queues_ok W t"
  proof (cases "read_bounded (if qe_fault E (qd_tick w) then Unreadable ''io'' else qd_files w key) 65536")
    case (Inl e)
    show ?thesis
    proof (cases "e = ENotExist")
      case True
      with Inl have "qd_files w key = Missing" by (auto simp: read_bounded_not_exist_iff split: if_splits)
      with w have "posts key ?w = 0" by (auto simp: queues_ok_def holds_def posts_def)
      with q Inl True queue_ok_initial show ?thesis by (simp add: qload_def qread_def io_apply at_most_def qinitial_def)
    next
      case False
      with q Inl show ?thesis by (simp add: qload_def qread_def io_apply)
    qed
  next
    case (Inr b)
    then have f: "qd_files w key = Regular b" by (auto simp: read_bounded_Inr_iff split: if_splits)
    with w obtain s where s: "enc (qw_state W) s = Inr b" "queue_ok s" "posts key w \<le> qs_tries s" by (force simp: queues_ok_def holds_def)
    have d: "dec (qw_state W) b = Inr s" using W s(1) by (simp add: sound_codec_def)
    have "posts key ?w = posts key w" by (simp add: posts_def)
    with q Inr d s show ?thesis by (auto simp: qload_def qread_def io_apply at_most_def)
  qed
qed

lemma triple_qprepare: "triple (queues_ok W) (qprepare E dir) (\<lambda>_. queues_ok W) (queues_ok W)"
proof -
  have t: "triple (queues_ok W) (qtick f) (\<lambda>_. queues_ok W) E'" for f :: "nat \<Rightarrow> 'b" and E'
    by (simp add: triple_def qtick_def queues_ok_def holds_def posts_def)
  show ?thesis
    unfolding qprepare_def qsys_def
    by (intro triple_then[where Q = "queues_ok W"] triple_bind[where Q = "\<lambda>_. queues_ok W"] triple_require triple_lift_io t)
qed

lemma deliver_queues:
  assumes W: "sound_codec (qw_state W)"
  shows "triple (queues_ok W) (deliver F W H E dir data) (\<lambda>_. queues_ok W) (queues_ok W)"
proof -
  have rest: "triple (at_most W key (qs_tries s0) None) (let s = qinterrupted r s0 in
      then_io (qsave W E key s)
      (bind_io (qflush W H key (qs_failures s)) (\<lambda>flushed.
       if qs_status s = ''complete'' then
         ret (s, if flushed then None else Some (EMsg ''attempt reports awaiting recovery''))
       else bind_io (qreconcile W H key s) (\<lambda>found. case found of
         Some s' \<Rightarrow> qcomplete W E key s'
       | None \<Rightarrow> qpending W H E key r data s))))
      (\<lambda>_. queues_ok W) (queues_ok W)"
    if s0: "queue_ok s0" "qs_result s0 = r" for key s0 r
  proof -
    let ?s = "qinterrupted r s0"
    have s: "queue_ok ?s" by (rule queue_ok_interrupted) (use s0 in simp_all)
    have found: "triple (at_most W key (qs_tries s0) (Some ?s)) (bind_io (qreconcile W H key ?s) (\<lambda>found. case found of
         Some s' \<Rightarrow> qcomplete W E key s'
       | None \<Rightarrow> qpending W H E key r data ?s)) (\<lambda>_. queues_ok W) (queues_ok W)"
    proof (rule triple_bind[OF triple_queues[OF triple_qreconcile]], rule triple_pure)
      fix found assume f: "\<forall>s'. found = Some s' \<longrightarrow> (\<exists>ident. s' = delivered ident ?s)"
      show "triple (at_most W key (qs_tries s0) (Some ?s)) (case found of
         Some s' \<Rightarrow> qcomplete W E key s'
       | None \<Rightarrow> qpending W H E key r data ?s) (\<lambda>_. queues_ok W) (queues_ok W)"
      proof (cases found)
        case None
        show ?thesis unfolding None option.case by (rule triple_qpending[OF s]) (simp_all add: s0)
      next
        case (Some s')
        with f obtain ident where "s' = delivered ident ?s" by blast
        show ?thesis unfolding Some option.case \<open>s' = _\<close> by (rule triple_qcomplete[OF queue_ok_delivered[OF s]]) simp
      qed
    qed
    have le: "qs_tries s0 \<le> qs_tries ?s" by simp
    show ?thesis
      unfolding Let_def
      by (rule triple_then[OF triple_queues[OF triple_qsave[OF s le]]], rule triple_bind[OF triple_queues[OF triple_qflush]])
        (auto intro: found triple_ret dest: at_most_queues)
  qed
  show ?thesis
    unfolding deliver_def
    by (rule triple_bind[OF triple_lift_io], rule triple_then[OF triple_qprepare], unfold Let_def,
        rule triple_bind[OF triple_qload[OF W]], rule triple_pure, rule rest[unfolded Let_def]) simp_all
qed

inductive deliveries :: "fwire \<Rightarrow> qwire \<Rightarrow> 'x qworld \<Rightarrow> 'x qworld \<Rightarrow> bool" for F W where
  start: "deliveries F W w w"
| step: "deliveries F W w v \<Longrightarrow> deliver F W H E dir data v = (r, u) \<Longrightarrow> deliveries F W w u"

lemma deliveries_ok:
  assumes "deliveries F W w u" "sound_codec (qw_state W)" "queues_ok W w"
  shows "queues_ok W u"
  using assms
proof (induction rule: deliveries.induct)
  case (step w v H E dir data r u)
  with deliver_queues[OF step.prems(1), of F H E dir data] show ?case by (cases r) (auto dest: tripleD tripleE)
qed

lemma deliveries_bounded:
  assumes "deliveries F W w u" "sound_codec (qw_state W)" "\<forall>key. qd_files w key = Missing" "qd_log w = []"
  shows "posts key u \<le> 6"
proof -
  have "queues_ok W w" using assms(3,4) by (simp add: queues_ok_def posts_def)
  from deliveries_ok[OF assms(1,2) this] have "posts key u = 0 \<or> (\<exists>s. queue_ok s \<and> posts key u \<le> qs_tries s)"
    unfolding queues_ok_def by blast
  then show ?thesis by (auto simp: queue_ok_def)
qed

section \<open>What a delivery reports\<close>

text \<open>A delivery that returns no error has durably recorded the completion.\<close>

definition recorded :: "qwire \<Rightarrow> string \<Rightarrow> outcome \<Rightarrow> qstate \<times> gerr option \<Rightarrow> 'x qworld \<Rightarrow> bool" where
  "recorded W key r q w \<longleftrightarrow> (snd q = None \<longrightarrow> qs_status (fst q) = ''complete'' \<and> qs_result (fst q) = r \<and> holds W key (fst q) w)"

lemma triple_save_holds: "triple P (qsave W E key s) (\<lambda>_. holds W key s) (\<lambda>_. True)"
proof (rule tripleI)
  fix w
  show "case qsave W E key s w of (Inr x, t) \<Rightarrow> holds W key s t | (Inl e, t) \<Rightarrow> True"
  proof (cases "enc (qw_state W) s")
    case (Inr b)
    obtain r nd where "durable (qe_durable E (qd_tick w)) (Regular b) (qd_files w key) = (r, nd)" by fastforce
    with Inr show ?thesis by (auto simp: qsave_def io_apply holds_def to_res_def split: option.splits dest: durable_None)
  qed (simp add: qsave_def io_apply)
qed

lemma triple_call_holds: "triple (holds W key s) (qcall H k method path data) (\<lambda>_. holds W key s) E"
  by (auto simp: triple_def qcall_def holds_def split: prod.split)

lemma triple_flush_holds: "triple (holds W key s) (qflush V H k as) (\<lambda>_. holds W key s) E"
proof (induction as)
  case (Cons a as)
  have "triple (holds W key s) (qrequest_io H k ''POST'' ''/v1/attempts'' (Some (qw_attempt V a))) (\<lambda>_. holds W key s) E"
    by (rule triple_qrequest[OF triple_call_holds])
  then show ?case using Cons by (auto intro!: triple_bind triple_ret)
qed (simp add: triple_ret)

lemma triple_complete_recorded:
  "qs_status s = ''complete'' \<Longrightarrow> qs_result s = r \<Longrightarrow> triple P (qcomplete W E key s) (recorded W key r) (\<lambda>_. True)"
  using triple_save_holds[of "\<lambda>_. True" W E key s]
  by (fastforce simp: triple_def qcomplete_def io_apply recorded_def split: prod.splits sum.splits)

lemma triple_report_recorded: "triple P (qreport W H E key s) (recorded W key' r) (\<lambda>_. True)"
  by (rule triple_any) (auto simp: qreport_def Inr_iffs recorded_def)

lemma triple_attempt_recorded:
  assumes "qs_result s = r"
  shows "triple P (qattempt W H E key r data s) (recorded W key r) (\<lambda>_. True)"
proof -
  have answered: "triple (\<lambda>_. True) (qanswered W H E key r t reply) (recorded W key r) (\<lambda>_. True)" if "qs_result t = r" for t reply
    using that by (cases reply) (auto simp: qanswered_def delivered_def intro: triple_complete_recorded triple_report_recorded split: sum.split)
  show ?thesis
    unfolding qattempt_def Let_def
    by (rule triple_bind[where Q = "\<lambda>_ _. True"], rule triple_any, rule TrueI, rule triple_then[where Q = "\<lambda>_. True"],
        rule triple_any, rule TrueI, rule triple_bind[where Q = "\<lambda>_ _. True"], rule triple_any, rule TrueI, rule answered) (simp add: assms)
qed

lemma triple_pending_recorded:
  assumes "qs_result s = r"
  shows "triple P (qpending W H E key r data s) (recorded W key r) (\<lambda>_. True)"
proof (cases "qs_status s = ''exhausted'' \<or> qs_tries s \<ge> 6")
  case True
  then show ?thesis by (auto simp: qpending_def recorded_def intro: triple_ret)
next
  case False
  show ?thesis
  proof (cases "qs_next s")
    case None
    with False triple_attempt_recorded[OF assms] show ?thesis by (simp add: qpending_def)
  next
    case (Some due)
    have "triple P (bind_io (qtick (qe_now E)) (\<lambda>now.
        if now < due then ret (s, Some (EMsg ''delivery retry not due'')) else qattempt W H E key r data s)) (recorded W key r) (\<lambda>_. True)"
      by (rule triple_bind[where Q = "\<lambda>_ _. True"], rule triple_any, rule TrueI)
        (simp add: triple_attempt_recorded[OF assms], simp add: triple_def io_apply recorded_def)
    with False Some show ?thesis by (simp add: qpending_def)
  qed
qed

lemma triple_load_result: "triple P (qload W E key r) (\<lambda>s _. qs_result s = r) (\<lambda>_. True)"
  unfolding qload_def
proof (rule triple_bind[where Q = "\<lambda>_ _. True"], rule triple_any, rule TrueI)
  fix q
  show "triple (\<lambda>_. True) (case q of Inl e \<Rightarrow> if e = ENotExist then ret (qinitial r) else throw e
     | Inr old \<Rightarrow> (case dec (qw_state W) old of Inl _ \<Rightarrow> throw (EMsg ''invalid queue state'') | Inr s \<Rightarrow>
       then_io (require (\<not> (enc (qw_state W) s \<noteq> Inr old \<or> qs_result s \<noteq> r \<or> qs_tries s < 0 \<or> qs_tries s > 6 \<or>
          length (qs_failures s) > 6)) (EMsg ''queue identity/state conflict'')) (ret s)))
    (\<lambda>s _. qs_result s = r) (\<lambda>_. True)"
    by (rule triple_any) (auto simp: io_apply qinitial_def split: sum.splits if_splits)
qed

lemma deliver_recorded:
  assumes "parse_result F data = Inr r"
  shows "triple P (deliver F W H E dir data) (recorded W (dedup_key F (oc_identity r)) r) (\<lambda>_. True)"
proof -
  let ?key = "dedup_key F (oc_identity r)"
  have body: "triple (\<lambda>_. True) (let s = qinterrupted r s0 in
      then_io (qsave W E ?key s)
      (bind_io (qflush W H ?key (qs_failures s)) (\<lambda>flushed.
       if qs_status s = ''complete'' then
         ret (s, if flushed then None else Some (EMsg ''attempt reports awaiting recovery''))
       else bind_io (qreconcile W H ?key s) (\<lambda>found. case found of
         Some s' \<Rightarrow> qcomplete W E ?key s' | None \<Rightarrow> qpending W H E ?key r data s))))
     (recorded W ?key r) (\<lambda>_. True)" if "qs_result s0 = r" for s0
  proof -
    let ?s = "qinterrupted r s0"
    have r: "qs_result ?s = r" using that by simp
    have found: "triple P (bind_io (qreconcile W H ?key ?s) (\<lambda>found. case found of
         Some s' \<Rightarrow> qcomplete W E ?key s' | None \<Rightarrow> qpending W H E ?key r data ?s)) (recorded W ?key r) (\<lambda>_. True)" for P
    proof (rule triple_bind[where Q = "\<lambda>found _. \<forall>s'. found = Some s' \<longrightarrow> (\<exists>ident. s' = delivered ident ?s)"])
      show "triple P (qreconcile W H ?key ?s) (\<lambda>found _. \<forall>s'. found = Some s' \<longrightarrow> (\<exists>ident. s' = delivered ident ?s)) (\<lambda>_. True)"
        by (rule triple_any) (auto dest: qreconcile_delivered)
      fix found
      show "triple (\<lambda>_. \<forall>s'. found = Some s' \<longrightarrow> (\<exists>ident. s' = delivered ident ?s)) (case found of
         Some s' \<Rightarrow> qcomplete W E ?key s' | None \<Rightarrow> qpending W H E ?key r data ?s) (recorded W ?key r) (\<lambda>_. True)"
      proof (cases found)
        case None
        then show ?thesis by (simp add: triple_pending_recorded[OF r])
      next
        case (Some s')
        show ?thesis
        proof (cases "\<exists>ident. s' = delivered ident ?s")
          case True
          then have "qs_status s' = ''complete''" "qs_result s' = r" using r by (auto simp: delivered_def)
          with Some show ?thesis by (simp add: triple_complete_recorded)
        qed (use Some in \<open>simp add: triple_def\<close>)
      qed
    qed
    show ?thesis
      unfolding Let_def
      by (rule triple_then[OF triple_save_holds], rule triple_bind[OF triple_flush_holds])
        (auto intro!: found triple_ret simp: recorded_def that)
  qed
  have k: "triple P (lift_io (parse_result F data)) (\<lambda>x _. x = r) (\<lambda>_. True)" by (rule triple_any) (auto simp: io_apply assms)
  show ?thesis
    unfolding deliver_def
  proof (rule triple_bind[OF k])
    fix x
    show "triple (\<lambda>_. x = r) (then_io (qprepare E dir)
     (let key = dedup_key F (oc_identity x) in
      bind_io (qload W E key x) (\<lambda>s0.
      let s = qinterrupted x s0 in
      then_io (qsave W E key s)
      (bind_io (qflush W H key (qs_failures s)) (\<lambda>flushed.
       if qs_status s = ''complete'' then
         ret (s, if flushed then None else Some (EMsg ''attempt reports awaiting recovery''))
       else bind_io (qreconcile W H key s) (\<lambda>found. case found of
         Some s' \<Rightarrow> qcomplete W E key s' | None \<Rightarrow> qpending W H E key x data s)))))) (recorded W ?key r) (\<lambda>_. True)"
    proof (cases "x = r")
      case True
      have t: "triple (\<lambda>_. True) (bind_io (qload W E ?key r) (\<lambda>s0.
      let s = qinterrupted r s0 in
      then_io (qsave W E ?key s)
      (bind_io (qflush W H ?key (qs_failures s)) (\<lambda>flushed.
       if qs_status s = ''complete'' then
         ret (s, if flushed then None else Some (EMsg ''attempt reports awaiting recovery''))
       else bind_io (qreconcile W H ?key s) (\<lambda>found. case found of
         Some s' \<Rightarrow> qcomplete W E ?key s' | None \<Rightarrow> qpending W H E ?key r data s))))) (recorded W ?key r) (\<lambda>_. True)"
      proof (rule triple_bind[OF triple_load_result])
        fix s0
        show "triple (\<lambda>_. qs_result s0 = r) (let s = qinterrupted r s0 in
      then_io (qsave W E ?key s)
      (bind_io (qflush W H ?key (qs_failures s)) (\<lambda>flushed.
       if qs_status s = ''complete'' then
         ret (s, if flushed then None else Some (EMsg ''attempt reports awaiting recovery''))
       else bind_io (qreconcile W H ?key s) (\<lambda>found. case found of
         Some s' \<Rightarrow> qcomplete W E ?key s' | None \<Rightarrow> qpending W H E ?key r data s)))) (recorded W ?key r) (\<lambda>_. True)"
        proof (cases "qs_result s0 = r")
          case True
          with body[OF True] show ?thesis by simp
        qed (simp add: triple_def)
      qed
      show ?thesis unfolding True Let_def
        by (rule triple_then[where Q = "\<lambda>_. True"], rule triple_any, rule TrueI) (use t in \<open>simp add: Let_def\<close>)
    qed (simp add: triple_def)
  qed
qed

lemma deliver_complete:
  assumes "deliver F W H E dir data w = (Inr (s', None), w')"
  shows "\<exists>r. parse_result F data = Inr r \<and> qs_status s' = ''complete'' \<and> qs_result s' = r \<and>
    holds W (dedup_key F (oc_identity r)) s' w'"
proof -
  from assms obtain r where r: "parse_result F data = Inr r" by (auto simp: deliver_def Inr_iffs)
  from tripleD[OF deliver_recorded[OF r, of "\<lambda>_. True"] TrueI assms] r show ?thesis by (simp add: recorded_def)
qed

section \<open>The reports the API accepts\<close>

lemma queue_reports_valid:
  assumes "queue_ok s" "a \<in> set (qs_failures s)" "valid_identity (oc_identity (qs_result s))"
  shows "attempt_validate a"
proof -
  have t: "report_ok (qs_result s) (if qs_status s = ''running'' then qs_tries s - 1 else qs_tries s) a" "qs_tries s \<le> 6"
    using assms(1,2) by (auto simp: queue_ok_def)
  then have "report_ok (qs_result s) 6 a" by (auto simp: report_ok_def split: if_splits)
  with assms(3) show ?thesis by (auto simp: attempt_validate_def report_ok_def)
qed

end
