(* ===== verification/Sandbox.thy ===== *)
theory Sandbox
  imports ProofModel
begin

text \<open>
  The disposable sandbox, internal/proof/files_linux.go: its creation with pinned directory
  identities, and the wiping of its two directories through descriptors that never leave it. The
  file system is a tree; every system call may fail, and entries created by other processes may
  appear whenever a directory is read.
\<close>

section \<open>Data\<close>

text \<open>
  A node as \<open>fstatat\<close> and \<open>openat2\<close> tell nodes apart: a directory with its identity, a mount point
  or a directory on another device (which \<open>openat2\<close> refuses), a regular file, and anything else,
  symbolic links included.
\<close>

datatype fnode = Dir dir_identity "(string \<times> fnode) list" | Mounted | Plain bytes | Special_file

record senv =
  se_ctx :: "nat \<Rightarrow> gerr option"
  se_fault :: "nat \<Rightarrow> gerr option"
  se_appear :: "nat \<Rightarrow> (string \<times> fnode) list"
  se_inode :: "nat \<Rightarrow> dir_identity"

text \<open>An open directory: its entries, with the entry budget of the wipe and the number of system calls made.\<close>

record box =
  bx_entries :: "(string \<times> fnode) list"
  bx_budget :: int
  bx_tick :: nat

record fsworld =
  fs_at :: "path \<Rightarrow> fnode option"
  fs_tick :: nat

section \<open>System calls on an open directory\<close>

definition bx_sys :: "senv \<Rightarrow> (box, unit) io" where
  "bx_sys E b = (to_res (se_fault E (bx_tick b)), b\<lparr>bx_tick := Suc (bx_tick b)\<rparr>)"

definition bx_ctx :: "senv \<Rightarrow> (box, unit) io" where
  \<comment> \<open>\<open>ctx.Err()\<close>\<close>
  "bx_ctx E b = (to_res (se_ctx E (bx_tick b)), b\<lparr>bx_tick := Suc (bx_tick b)\<rparr>)"

definition bx_read :: "senv \<Rightarrow> (box, string list) io" where
  \<comment> \<open>\<open>Readdirnames(10001)\<close>, after entries of other processes appeared\<close>
  "bx_read E b =
     (let es = bx_entries b @ filter (\<lambda>(n, _). \<not> has_key (bx_entries b) n) (se_appear E (bx_tick b))
      in (Inr (take 10001 (map fst es)), b\<lparr>bx_entries := es, bx_tick := Suc (bx_tick b)\<rparr>))"

definition names_at :: "senv \<Rightarrow> (box, string list) io" where
  "names_at E = then_io (bx_sys E) (bind_io (bx_read E) (\<lambda>names.
     then_io (require (length names \<le> 10000) (EMsg ''directory exceeds safe entry limit''))
     (then_io (bx_sys E) (ret names))))"

definition stat_at :: "senv \<Rightarrow> string \<Rightarrow> (box, bool) io" where
  \<comment> \<open>\<open>fstatat\<close> without following links: whether the entry is a directory\<close>
  "stat_at E name = then_io (bx_sys E) (bind_io (get_io (\<lambda>b. map_of (bx_entries b) name)) (\<lambda>n. case n of
     None \<Rightarrow> throw ENotExist | Some (Dir i es) \<Rightarrow> ret True | Some Mounted \<Rightarrow> ret True | Some (Plain c) \<Rightarrow> ret False | Some Special_file \<Rightarrow> ret False))"

definition child_directory :: "senv \<Rightarrow> string \<Rightarrow> (box, dir_identity) io" where
  \<comment> \<open>\<open>openat2\<close> with \<open>RESOLVE_BENEATH\<close>, \<open>RESOLVE_NO_XDEV\<close> and \<open>RESOLVE_NO_SYMLINKS\<close>\<close>
  "child_directory E name = then_io (bx_sys E) (bind_io (get_io (\<lambda>b. map_of (bx_entries b) name)) (\<lambda>n. case n of
     None \<Rightarrow> throw ENotExist | Some (Dir i es) \<Rightarrow> ret i | Some Mounted \<Rightarrow> throw (EExt ''EXDEV'')
   | Some (Plain c) \<Rightarrow> throw (EExt ''ENOTDIR'') | Some Special_file \<Rightarrow> throw (EExt ''ELOOP'')))"

definition within :: "string \<Rightarrow> (box, 'a) io \<Rightarrow> (box, 'a) io" where
  \<comment> \<open>work through the descriptor of an opened child\<close>
  "within name m b = (case map_of (bx_entries b) name of
     Some (Dir i es) \<Rightarrow> (case m (b\<lparr>bx_entries := es\<rparr>) of
       (r, b') \<Rightarrow> (r, b'\<lparr>bx_entries := AList.update name (Dir i (bx_entries b')) (bx_entries b)\<rparr>))
   | _ \<Rightarrow> (Inl ENotExist, b))"

definition unlink_at :: "senv \<Rightarrow> string \<Rightarrow> bool \<Rightarrow> (box, unit) io" where
  \<comment> \<open>\<open>unlinkat\<close>, with or without \<open>AT_REMOVEDIR\<close>\<close>
  "unlink_at E name removedir = then_io (bx_sys E) (bind_io (get_io (\<lambda>b. map_of (bx_entries b) name)) (\<lambda>n.
     then_io (case n of
       None \<Rightarrow> throw ENotExist
     | Some (Dir i es) \<Rightarrow> (if removedir then require (es = []) (EExt ''ENOTEMPTY'') else throw (EExt ''EISDIR''))
     | Some Mounted \<Rightarrow> throw (EExt ''EBUSY'')
     | Some (Plain c) \<Rightarrow> require (\<not> removedir) (EExt ''ENOTDIR'')
     | Some Special_file \<Rightarrow> require (\<not> removedir) (EExt ''ENOTDIR''))
     (mod_io (\<lambda>b. b\<lparr>bx_entries := filter (\<lambda>(k, _). k \<noteq> name) (bx_entries b)\<rparr>))))"

section \<open>Wiping\<close>

definition empty_entry :: "senv \<Rightarrow> (box, unit) io \<Rightarrow> string \<Rightarrow> (box, unit) io" where
  \<comment> \<open>one iteration over the names; \<open>deeper\<close> is the recursive call\<close>
  "empty_entry E deeper name =
     then_io (bx_ctx E)
     (then_io (mod_io (\<lambda>b. b\<lparr>bx_budget := bx_budget b - 1\<rparr>))
     (bind_io (get_io bx_budget) (\<lambda>left.
      then_io (require (\<not> left < 0) (EMsg ''workspace exceeds safe entry limit''))
      (bind_io (stat_at E name) (\<lambda>directory.
       then_io (if directory then bind_io (child_directory E name) (\<lambda>_. within name deeper) else ret ())
         (unlink_at E name directory))))))"

fun empty_directory :: "senv \<Rightarrow> nat \<Rightarrow> (box, unit) io" where
  \<comment> \<open>the number counts the levels left: 129 at depth 0, none beyond depth 128\<close>
  "empty_directory E 0 = then_io (bx_ctx E) (throw (EMsg ''directory nesting exceeds safe limit''))"
| "empty_directory E (Suc levels) =
     then_io (bx_ctx E)
     (bind_io (names_at E) (\<lambda>names.
      then_io (for_io names (empty_entry E (empty_directory E levels)))
      (bind_io (names_at E) (\<lambda>residual.
       require (residual = []) (EMsg ''residual paths appeared during verification'')))))"

definition marker_ok :: "senv \<Rightarrow> state \<Rightarrow> (box, unit) io" where
  \<comment> \<open>the ownership marker, a regular file of exactly the token\<close>
  "marker_ok E s = then_io (bx_sys E) (bind_io (get_io (\<lambda>b. map_of (bx_entries b) ''.proof-owner'')) (\<lambda>n.
     then_io (bx_sys E) (case n of
       Some (Plain b) \<Rightarrow>
         then_io (require (length b = 32) (EMsg ''sandbox ownership marker must be a 32-byte regular file''))
         (bind_io (catch_io (bx_sys E)) (\<lambda>q. require (q = Inr () \<and> b = s_token s) (EMsg ''sandbox ownership marker mismatch'')))
     | _ \<Rightarrow> throw (EMsg ''sandbox ownership marker must be a 32-byte regular file''))))"

definition pin_directory :: "senv \<Rightarrow> dir_identity \<Rightarrow> dir_identity \<Rightarrow> (box, unit) io" where
  "pin_directory E actual expected = then_io (bx_sys E)
     (require (actual = expected) (EMsg ''directory identity changed; refusing deletion''))"

definition wipe_box :: "senv \<Rightarrow> state \<Rightarrow> string \<Rightarrow> dir_identity \<Rightarrow> (box, unit) io" where
  \<comment> \<open>\<open>Wipe\<close> from the opened sandbox on\<close>
  "wipe_box E s name root =
     then_io (pin_directory E root (lookup_or zero_dir (s_directories s) ''root''))
     (then_io (marker_ok E s)
     (bind_io (child_directory E name) (\<lambda>child.
      then_io (pin_directory E child (lookup_or zero_dir (s_directories s) name))
      (within name (empty_directory E 129)))))"

definition wipe :: "senv \<Rightarrow> state \<Rightarrow> string \<Rightarrow> (fsworld, unit) io" where
  "wipe E s name =
     then_io (require (name = ''workspace'' \<or> name = ''credentials'') (EMsg ''unknown disposable directory''))
     (then_io (lift_io (to_res (state_validate s)))
     (\<lambda>w. case se_fault E (fs_tick w) of
        Some e \<Rightarrow> (Inl e, w\<lparr>fs_tick := Suc (fs_tick w)\<rparr>)
      | None \<Rightarrow> (case fs_at w (s_sandbox s) of
          Some (Dir i es) \<Rightarrow>
            (case wipe_box E s name i \<lparr>bx_entries = es, bx_budget = 10000, bx_tick = Suc (fs_tick w)\<rparr> of (r, b) \<Rightarrow>
              (r, w\<lparr>fs_at := (fs_at w)(s_sandbox s := Some (Dir i (bx_entries b))), fs_tick := bx_tick b\<rparr>))
        | _ \<Rightarrow> (Inl (EExt ''open''), w\<lparr>fs_tick := Suc (fs_tick w)\<rparr>))))"

section \<open>Preparing a sandbox\<close>

definition join_path :: "path \<Rightarrow> string \<Rightarrow> path" where
  \<comment> \<open>\<open>filepath.Join\<close> of a clean absolute path and a name\<close>
  "join_path p n = (if p = ''/'' then ''/'' @ n else p @ ''/'' @ n)"

definition fs_sys :: "senv \<Rightarrow> (fsworld, unit) io" where
  "fs_sys E w = (to_res (se_fault E (fs_tick w)), w\<lparr>fs_tick := Suc (fs_tick w)\<rparr>)"

definition fs_entries :: "path \<Rightarrow> ((string \<times> fnode) list \<Rightarrow> gerr + (string \<times> fnode) list) \<Rightarrow> (fsworld, unit) io" where
  \<comment> \<open>an update of the entries of a directory\<close>
  "fs_entries p f w = (case fs_at w p of
     Some (Dir i es) \<Rightarrow> (case f es of Inl e \<Rightarrow> (Inl e, w) | Inr es' \<Rightarrow> (Inr (), w\<lparr>fs_at := (fs_at w)(p := Some (Dir i es'))\<rparr>))
   | _ \<Rightarrow> (Inl ENotExist, w))"

definition make_directory :: "senv \<Rightarrow> path \<Rightarrow> (fsworld, unit) io" where
  \<comment> \<open>\<open>os.Mkdir\<close> of the sandbox itself\<close>
  "make_directory E p = then_io (fs_sys E) (\<lambda>w. if fs_at w p \<noteq> None then (Inl (EExt ''EEXIST''), w)
     else (Inr (), w\<lparr>fs_at := (fs_at w)(p := Some (Dir (se_inode E (fs_tick w)) []))\<rparr>))"

definition add_entry :: "string \<Rightarrow> fnode \<Rightarrow> (string \<times> fnode) list \<Rightarrow> gerr + (string \<times> fnode) list" where
  "add_entry name n es = (if has_key es name then Inl (EExt ''EEXIST'') else Inr (es @ [(name, n)]))"

definition directory_id :: "senv \<Rightarrow> path \<Rightarrow> string option \<Rightarrow> (fsworld, dir_identity) io" where
  \<comment> \<open>\<open>directoryID\<close> of the sandbox, or of an entry of it; two \<open>lstat\<close> calls\<close>
  "directory_id E p child = then_io (fs_sys E)
     (bind_io (get_io (\<lambda>w. case child of None \<Rightarrow> fs_at w p
        | Some name \<Rightarrow> (case fs_at w p of Some (Dir i es) \<Rightarrow> map_of es name | _ \<Rightarrow> None))) (\<lambda>n. case n of
       Some (Dir i es) \<Rightarrow> then_io (fs_sys E) (ret i)
     | None \<Rightarrow> throw ENotExist
     | _ \<Rightarrow> throw (EMsg ''expected real directory'')))"

definition make_child :: "senv \<Rightarrow> path \<Rightarrow> string \<Rightarrow> (fsworld, unit) io" where
  "make_child E p name = then_io (fs_sys E)
     (\<lambda>w. fs_entries p (add_entry name (Dir (se_inode E (fs_tick w)) [])) w)"

definition prepare_sandbox :: "senv \<Rightarrow> gerr + path \<Rightarrow> gerr + path \<Rightarrow> state \<Rightarrow> (fsworld, state) io" where
  \<comment> \<open>\<open>PrepareSandbox\<close>, given what \<open>filepath.Abs\<close> and \<open>filepath.EvalSymlinks\<close> answer for the base\<close>
  "prepare_sandbox E absolute resolved s =
     bind_io (lift_io absolute) (\<lambda>_.
     then_io (fs_sys E)
     (bind_io (lift_io resolved) (\<lambda>base.
      let p = join_path base (s_namespace s) in
      then_io (make_directory E p)
      (then_io (fs_sys E)
      (then_io (fs_entries p (add_entry ''.proof-owner'' (Plain (s_token s))))
      (bind_io (directory_id E p None) (\<lambda>root.
      then_io (make_child E p ''workspace'')
      (bind_io (directory_id E p (Some ''workspace'')) (\<lambda>ws.
      then_io (make_child E p ''credentials'')
      (bind_io (directory_id E p (Some ''credentials'')) (\<lambda>cr.
       ret (s\<lparr>s_sandbox := p, s_directories := [(''root'', root), (''workspace'', ws), (''credentials'', cr)]\<rparr>))))))))))))"

section \<open>A successful wipe\<close>

lemma bx_sys_Inr: "bx_sys E b = (Inr u, b') \<longleftrightarrow> se_fault E (bx_tick b) = None \<and> b' = b\<lparr>bx_tick := Suc (bx_tick b)\<rparr>"
  by (auto simp: bx_sys_def)

lemma bx_ctx_Inr: "bx_ctx E b = (Inr u, b') \<longleftrightarrow> se_ctx E (bx_tick b) = None \<and> b' = b\<lparr>bx_tick := Suc (bx_tick b)\<rparr>"
  by (auto simp: bx_ctx_def)

lemma get_Inr: "get_io f s = (Inr y, t) \<longleftrightarrow> y = f s \<and> t = s"
  by (auto simp: io_apply)

lemma catch_Inr: "catch_io m s = (Inr q, t) \<longleftrightarrow> m s = (q, t)"
  by (auto simp: io_apply split: prod.split)

lemmas box_Inr = Inr_iffs bx_sys_Inr bx_ctx_Inr get_Inr catch_Inr

lemma names_at_Inr: "names_at E b = (Inr ns, b') \<Longrightarrow> ns = take 10001 (map fst (bx_entries b'))"
  by (auto simp: names_at_def bx_read_def box_Inr Let_def)

lemma empty_directory_Inr: "empty_directory E levels b = (Inr u, b') \<Longrightarrow> bx_entries b' = []"
  by (cases levels) (auto simp: box_Inr dest!: names_at_Inr)

lemma pin_directory_Inr:
  "pin_directory E i j b = (Inr u, b') \<longleftrightarrow> i = j \<and> se_fault E (bx_tick b) = None \<and> b' = b\<lparr>bx_tick := Suc (bx_tick b)\<rparr>"
  by (auto simp: pin_directory_def box_Inr)

lemma child_directory_Inr:
  "child_directory E name b = (Inr i, b') \<Longrightarrow>
     (\<exists>es. map_of (bx_entries b) name = Some (Dir i es)) \<and> bx_entries b' = bx_entries b \<and> bx_budget b' = bx_budget b"
  by (auto simp: child_directory_def box_Inr split: option.splits fnode.splits)

lemma marker_ok_Inr:
  "marker_ok E s b = (Inr u, b') \<Longrightarrow>
     map_of (bx_entries b) ''.proof-owner'' = Some (Plain (s_token s)) \<and> bx_entries b' = bx_entries b \<and> bx_budget b' = bx_budget b"
  by (auto simp: marker_ok_def box_Inr split: option.splits fnode.splits)

lemma within_Inr:
  assumes "within name m b = (Inr x, b')"
  obtains i es c where "map_of (bx_entries b) name = Some (Dir i es)" "m (b\<lparr>bx_entries := es\<rparr>) = (Inr x, c)"
    "b' = c\<lparr>bx_entries := AList.update name (Dir i (bx_entries c)) (bx_entries b)\<rparr>"
  using assms by (auto simp: within_def split: option.splits fnode.splits prod.splits)

definition wiped :: "state \<Rightarrow> string \<Rightarrow> fnode option \<Rightarrow> fnode option \<Rightarrow> bool" where
  \<comment> \<open>the sandbox after a wipe of one of its directories, against the one before\<close>
  "wiped s name old new \<longleftrightarrow> (\<exists>root es child inner.
     old = Some (Dir root es) \<and> root = lookup_or zero_dir (s_directories s) ''root'' \<and>
     map_of es ''.proof-owner'' = Some (Plain (s_token s)) \<and>
     map_of es name = Some (Dir child inner) \<and> child = lookup_or zero_dir (s_directories s) name \<and>
     new = Some (Dir root (AList.update name (Dir child []) es)))"

lemma wipe_box_Inr:
  assumes "wipe_box E s name root b = (Inr u, b')"
  shows "root = lookup_or zero_dir (s_directories s) ''root'' \<and>
    map_of (bx_entries b) ''.proof-owner'' = Some (Plain (s_token s)) \<and>
    (\<exists>child inner. map_of (bx_entries b) name = Some (Dir child inner) \<and> child = lookup_or zero_dir (s_directories s) name \<and>
       bx_entries b' = AList.update name (Dir child []) (bx_entries b))"
proof -
  from assms obtain b1 b2 b3 where r: "root = lookup_or zero_dir (s_directories s) ''root''"
    and m: "marker_ok E s (b\<lparr>bx_tick := Suc (bx_tick b)\<rparr>) = (Inr (), b1)"
    and c: "child_directory E name b1 = (Inr (lookup_or zero_dir (s_directories s) name), b2)"
    and w: "within name (empty_directory E 129) (b2\<lparr>bx_tick := Suc (bx_tick b2)\<rparr>) = (Inr (), b')"
    by (auto simp: wipe_box_def box_Inr pin_directory_Inr simp del: empty_directory.simps)
  note m' = marker_ok_Inr[OF m] and c' = child_directory_Inr[OF c]
  from w obtain i es t where t: "map_of (bx_entries b2) name = Some (Dir i es)"
    "empty_directory E 129 (b2\<lparr>bx_tick := Suc (bx_tick b2), bx_entries := es\<rparr>) = (Inr (), t)"
    "b' = t\<lparr>bx_entries := AList.update name (Dir i (bx_entries t)) (bx_entries b2)\<rparr>"
    by (elim within_Inr) simp
  with m' c' empty_directory_Inr[OF t(2)] r show ?thesis by simp
qed

lemma wipe_wiped:
  assumes "wipe E s name w = (Inr u, w')"
  shows "state_validate s = None \<and> wiped s name (fs_at w (s_sandbox s)) (fs_at w' (s_sandbox s)) \<and>
    (\<forall>p. p \<noteq> s_sandbox s \<longrightarrow> fs_at w' p = fs_at w p)"
proof -
  from assms obtain i es b where f: "fs_at w (s_sandbox s) = Some (Dir i es)"
    and b: "wipe_box E s name i \<lparr>bx_entries = es, bx_budget = 10000, bx_tick = Suc (fs_tick w)\<rparr> = (Inr u, b)"
    and w': "w' = w\<lparr>fs_at := (fs_at w)(s_sandbox s := Some (Dir i (bx_entries b))), fs_tick := bx_tick b\<rparr>"
    and v: "state_validate s = None"
    by (auto simp: wipe_def box_Inr split: option.splits fnode.splits prod.splits)
  with wipe_box_Inr[OF b] show ?thesis by (auto simp: wiped_def)
qed

lemma wipe_outside: "wipe E s name w = (r, w') \<Longrightarrow> p \<noteq> s_sandbox s \<Longrightarrow> fs_at w' p = fs_at w p"
  by (auto simp: wipe_def io_apply split: option.splits fnode.splits prod.splits sum.splits if_splits)

section \<open>When a wipe succeeds\<close>

definition unhindered :: "senv \<Rightarrow> bool" where
  \<comment> \<open>no fault, no deadline and nobody else creating entries\<close>
  "unhindered E \<longleftrightarrow> (\<forall>n. se_ctx E n = None \<and> se_fault E n = None \<and> se_appear E n = [])"

primrec wipeable :: "nat \<Rightarrow> (string \<times> fnode) list \<Rightarrow> bool" where
  \<comment> \<open>at most this many levels, no mount point and at most 10000 names in a directory\<close>
  "wipeable 0 es = False"
| "wipeable (Suc k) es \<longleftrightarrow> distinct_keys es \<and> length es \<le> 10000 \<and>
     (\<forall>e \<in> set es. case snd e of Dir i inner \<Rightarrow> wipeable k inner | Mounted \<Rightarrow> False | _ \<Rightarrow> True)"

primrec node_count :: "nat \<Rightarrow> (string \<times> fnode) list \<Rightarrow> int" where
  "node_count 0 es = 0"
| "node_count (Suc k) es = (\<Sum>e \<leftarrow> es. 1 + (case snd e of Dir i inner \<Rightarrow> node_count k inner | _ \<Rightarrow> 0))"

lemma node_count_nonneg: "0 \<le> node_count k es"
  by (induction k arbitrary: es) (auto intro!: sum_list_nonneg split: fnode.split)

lemma names_at_quiet:
  assumes "unhindered E" "length (bx_entries b) \<le> 10000"
  shows "\<exists>t. names_at E b = (Inr (map fst (bx_entries b)), b\<lparr>bx_tick := t\<rparr>)"
  using assms by (simp add: names_at_def bx_read_def bx_sys_def io_apply unhindered_def Let_def)
    (metis box.surjective box.update_convs(3))

definition empties :: "(box, unit) io \<Rightarrow> (string \<times> fnode) list \<Rightarrow> int \<Rightarrow> bool" where
  \<comment> \<open>the method empties these entries, taking so much of the budget\<close>
  "empties m es n \<longleftrightarrow> (\<forall>b. bx_entries b = es \<longrightarrow> n \<le> bx_budget b \<longrightarrow>
     (\<exists>t. m b = (Inr (), \<lparr>bx_entries = [], bx_budget = bx_budget b - n, bx_tick = t\<rparr>)))"

lemma empty_entry_quiet:
  assumes q: "unhindered E" and new: "\<not> has_key es name"
    and x: "case x of Dir i inner \<Rightarrow> empties m inner n | Mounted \<Rightarrow> False | _ \<Rightarrow> n = 0"
    and b: "bx_entries b = (name, x) # es" "1 + n \<le> bx_budget b" "0 \<le> n"
  shows "\<exists>t. empty_entry E m name b = (Inr (), \<lparr>bx_entries = es, bx_budget = bx_budget b - (1 + n), bx_tick = t\<rparr>)"
proof -
  have rest: "filter (\<lambda>(k, _). k \<noteq> name) es = es" using new by (induction es) (auto simp: has_key_def split: if_splits)
  obtain e u k where be: "b = \<lparr>bx_entries = e, bx_budget = u, bx_tick = k\<rparr>" by (cases b)
  note defs = empty_entry_def io_apply bx_ctx_def bx_sys_def stat_at_def child_directory_def within_def unlink_at_def unhindered_def
  show ?thesis
  proof (cases x)
    case (Dir i inner)
    let ?c = "\<lparr>bx_entries = inner, bx_budget = bx_budget b - 1, bx_tick = bx_tick b + 3\<rparr>"
    from x Dir have "empties m inner n" by simp
    then obtain t where t: "m ?c = (Inr (), \<lparr>bx_entries = [], bx_budget = bx_budget ?c - n, bx_tick = t\<rparr>)"
      unfolding empties_def using b(2) by (metis (no_types) add.commute box.select_convs(1,2) le_diff_eq)
    show ?thesis using b q t rest Dir unfolding be by (simp add: defs numeral_eq_Suc)
  next
    case Mounted
    with x show ?thesis by simp
  next
    case (Plain c)
    show ?thesis using b q x rest Plain unfolding be by (simp add: defs)
  next
    case Special_file
    show ?thesis using b q x rest Special_file unfolding be by (simp add: defs)
  qed
qed

lemma empty_entries_quiet:
  assumes q: "unhindered E" and d: "distinct_keys es"
    and x: "\<And>e. e \<in> set es \<Longrightarrow> case snd e of Dir i inner \<Rightarrow> empties m inner (n e) | Mounted \<Rightarrow> False | _ \<Rightarrow> n e = 0"
    and n: "\<And>e. e \<in> set es \<Longrightarrow> 0 \<le> n e"
    and b: "bx_entries b = es" "(\<Sum>e \<leftarrow> es. 1 + n e) \<le> bx_budget b"
  shows "\<exists>t. for_io (map fst es) (empty_entry E m) b =
    (Inr (), \<lparr>bx_entries = [], bx_budget = bx_budget b - (\<Sum>e \<leftarrow> es. 1 + n e), bx_tick = t\<rparr>)"
  using d x n b
proof (induction es arbitrary: b)
  case Nil
  then show ?case by (cases b) (simp add: io_apply)
next
  case (Cons e es)
  obtain name x where e: "e = (name, x)" by fastforce
  have s: "0 \<le> (\<Sum>e \<leftarrow> es. 1 + n e)" using Cons.prems(3) by (intro sum_list_nonneg) force
  have "\<exists>t. empty_entry E m name b = (Inr (), \<lparr>bx_entries = es, bx_budget = bx_budget b - (1 + n e), bx_tick = t\<rparr>)"
    by (rule empty_entry_quiet[OF q]) (use Cons.prems s e in \<open>auto simp: has_key_iff\<close>)
  then obtain t where t: "empty_entry E m name b = (Inr (), \<lparr>bx_entries = es, bx_budget = bx_budget b - (1 + n e), bx_tick = t\<rparr>)" by blast
  let ?c = "\<lparr>bx_entries = es, bx_budget = bx_budget b - (1 + n e), bx_tick = t\<rparr>"
  have "\<exists>t. for_io (map fst es) (empty_entry E m) ?c =
    (Inr (), \<lparr>bx_entries = [], bx_budget = bx_budget ?c - (\<Sum>e \<leftarrow> es. 1 + n e), bx_tick = t\<rparr>)"
    by (rule Cons.IH) (use Cons.prems in auto)
  with t e show ?case by (simp add: io_apply algebra_simps)
qed

lemma empty_directory_quiet:
  assumes "unhindered E" "wipeable k es"
  shows "empties (empty_directory E k) es (node_count k es)"
  using assms(2)
proof (induction k arbitrary: es)
  case (Suc k)
  show ?case unfolding empties_def
  proof (intro allI impI)
    fix b :: box assume b: "bx_entries b = es" "node_count (Suc k) es \<le> bx_budget b"
    let ?b = "b\<lparr>bx_tick := Suc (bx_tick b)\<rparr>"
    let ?n = "\<lambda>e. case snd e of Dir i inner \<Rightarrow> node_count k inner | _ \<Rightarrow> 0"
    have w: "distinct_keys es" "length es \<le> 10000" using Suc.prems by simp_all
    obtain t where t: "names_at E ?b = (Inr (map fst es), ?b\<lparr>bx_tick := t\<rparr>)"
      using names_at_quiet[OF assms(1), of ?b] w(2) b(1) by auto
    have "\<exists>t'. for_io (map fst es) (empty_entry E (empty_directory E k)) (?b\<lparr>bx_tick := t\<rparr>) =
      (Inr (), \<lparr>bx_entries = [], bx_budget = bx_budget (?b\<lparr>bx_tick := t\<rparr>) - (\<Sum>e \<leftarrow> es. 1 + ?n e), bx_tick = t'\<rparr>)"
    proof (rule empty_entries_quiet[OF assms(1) w(1)])
      fix e assume e: "e \<in> set es"
      show "case snd e of Dir i inner \<Rightarrow> empties (empty_directory E k) inner (?n e) | Mounted \<Rightarrow> False | _ \<Rightarrow> ?n e = 0"
        using Suc e by (fastforce split: fnode.splits)
      show "0 \<le> ?n e" by (simp add: node_count_nonneg split: fnode.split)
    qed (use b in simp_all)
    then obtain t' where t': "for_io (map fst es) (empty_entry E (empty_directory E k)) (?b\<lparr>bx_tick := t\<rparr>) =
      (Inr (), \<lparr>bx_entries = [], bx_budget = bx_budget b - node_count (Suc k) es, bx_tick = t'\<rparr>)" by auto
    obtain t'' where t'': "names_at E \<lparr>bx_entries = [], bx_budget = bx_budget b - node_count (Suc k) es, bx_tick = t'\<rparr> =
      (Inr [], \<lparr>bx_entries = [], bx_budget = bx_budget b - node_count (Suc k) es, bx_tick = t''\<rparr>)"
      using names_at_quiet[OF assms(1), of "\<lparr>bx_entries = [], bx_budget = bx_budget b - node_count (Suc k) es, bx_tick = t'\<rparr>"] by auto
    have c: "bx_ctx E b = (Inr (), ?b)" using assms(1) by (simp add: bx_ctx_def unhindered_def)
    show "\<exists>t. empty_directory E (Suc k) b = (Inr (), \<lparr>bx_entries = [], bx_budget = bx_budget b - node_count (Suc k) es, bx_tick = t\<rparr>)"
      using c t t' t'' by (simp add: io_apply del: node_count.simps)
  qed
qed simp

lemma wipe_works:
  assumes q: "unhindered E" and s: "state_validate s = None" "name = ''workspace'' \<or> name = ''credentials''"
    and f: "fs_at w (s_sandbox s) = Some (Dir (lookup_or zero_dir (s_directories s) ''root'') es)"
    and m: "map_of es ''.proof-owner'' = Some (Plain (s_token s))"
    and c: "map_of es name = Some (Dir (lookup_or zero_dir (s_directories s) name) inner)"
    and n: "wipeable 129 inner" "node_count 129 inner \<le> 10000"
  shows "\<exists>w'. wipe E s name w = (Inr (), w')"
proof -
  let ?c = "\<lparr>bx_entries = inner, bx_budget = 10000, bx_tick = fs_tick w + 7\<rparr>"
  have "length (s_token s) = 32" using s(1) by (auto simp: state_validate_def dest: hex_n_length)
  moreover obtain t where "empty_directory E 129 ?c = (Inr (), \<lparr>bx_entries = [], bx_budget = 10000 - node_count 129 inner, bx_tick = t\<rparr>)"
    using empty_directory_quiet[OF q n(1)] n(2) unfolding empties_def by (metis box.select_convs(1,2))
  ultimately show ?thesis using q s f m c
    by (simp add: wipe_def io_apply wipe_box_def pin_directory_def marker_ok_def child_directory_def within_def bx_sys_def unhindered_def
        numeral_eq_Suc del: empty_directory.simps)
qed

section \<open>What a preparation leaves\<close>

definition prepared :: "state \<Rightarrow> fsworld \<Rightarrow> bool" where
  "prepared s w \<longleftrightarrow> (\<exists>root ws cr.
     s_directories s = [(''root'', root), (''workspace'', ws), (''credentials'', cr)] \<and>
     fs_at w (s_sandbox s) = Some (Dir root [(''.proof-owner'', Plain (s_token s)), (''workspace'', Dir ws []), (''credentials'', Dir cr [])]))"

lemma fs_sys_Inr: "fs_sys E w = (Inr u, w') \<longleftrightarrow> se_fault E (fs_tick w) = None \<and> w' = w\<lparr>fs_tick := Suc (fs_tick w)\<rparr>"
  by (auto simp: fs_sys_def)

lemma prepare_prepared:
  assumes "prepare_sandbox E absolute resolved s w = (Inr s', w')"
  shows "prepared s' w' \<and> fs_at w (s_sandbox s') = None \<and> s_token s' = s_token s \<and> s_namespace s' = s_namespace s \<and>
    (\<exists>base. resolved = Inr base \<and> s_sandbox s' = join_path base (s_namespace s))"
  using assms
  by (auto simp: prepare_sandbox_def Let_def Inr_iffs get_Inr fs_sys_Inr make_directory_def directory_id_def make_child_def
      fs_entries_def add_entry_def prepared_def has_key_def split: if_splits)

lemma prepared_wipe:
  assumes "unhindered E" "state_validate s = None" "prepared s w" "name = ''workspace'' \<or> name = ''credentials''"
  shows "\<exists>w'. wipe E s name w = (Inr (), w')"
proof -
  from assms(3) obtain root ws cr where p: "s_directories s = [(''root'', root), (''workspace'', ws), (''credentials'', cr)]"
    "fs_at w (s_sandbox s) = Some (Dir root [(''.proof-owner'', Plain (s_token s)), (''workspace'', Dir ws []), (''credentials'', Dir cr [])])"
    unfolding prepared_def by blast
  have e: "wipeable 129 []" "node_count 129 [] \<le> 10000" by (simp_all add: numeral_eq_Suc)
  have m: "map_of [(''.proof-owner'', Plain (s_token s)), (''workspace'', Dir ws []), (''credentials'', Dir cr [])] ''.proof-owner'' =
    Some (Plain (s_token s))" by simp
  from assms(4) show ?thesis
  proof
    assume n: "name = ''workspace''"
    show ?thesis unfolding n by (rule wipe_works[OF assms(1,2) _ _ m _ e]) (simp_all add: p)
  next
    assume n: "name = ''credentials''"
    show ?thesis unfolding n by (rule wipe_works[OF assms(1,2) _ _ m _ e]) (simp_all add: p)
  qed
qed

end
