(* ===== verification/Cleanup.thy ===== *)
theory Cleanup
  imports Sandbox "HOL-Library.List_Lexorder" "HOL-Library.Char_ord"
begin

text \<open>
  The cleanup engine, internal/proof/kubernetes.go: the inventory of what a run created, its
  removal under UID preconditions, the confirmation of absence, and the observations recorded for
  it. The Kubernetes API server is a parameter with a state of its own.
\<close>

section \<open>Data\<close>

record kns =
  kn_uid :: string
  kn_labels :: "string gomap"
  kn_terminating :: bool

record kvolume =
  kv_name :: string
  kv_uid :: string
  kv_labels :: "string gomap"
  kv_claim :: "(string \<times> string \<times> string) option"
    \<comment> \<open>namespace, name and UID of the claim reference\<close>

record api_resource =
  ap_name :: string
  ap_namespaced :: bool
  ap_verbs :: "string list"

text \<open>
  The API calls the engine makes. \<open>kb_get\<close> and \<open>kb_delete\<close> take group, version, resource, namespace
  and name; a deletion also takes the UID of its precondition. A page of a list comes with the
  token of the next one. \<open>kb_group_version\<close> is \<open>schema.ParseGroupVersion\<close>.
\<close>

type_synonym location = "string \<times> string \<times> string \<times> string \<times> string"

record 'x kube =
  kb_namespace :: "string \<Rightarrow> ('x, kns) io"
  kb_create_namespace :: "string \<Rightarrow> string gomap \<Rightarrow> ('x, kns) io"
  kb_delete_namespace :: "string \<Rightarrow> string \<Rightarrow> ('x, unit) io"
  kb_discover :: "('x, (string \<times> api_resource list) list) io"
  kb_group_version :: "string \<Rightarrow> gerr + string \<times> string"
  kb_list :: "string \<times> string \<times> string \<Rightarrow> string \<Rightarrow> string \<Rightarrow> ('x, (string \<times> string) list \<times> string) io"
  kb_volumes :: "string \<Rightarrow> ('x, kvolume list \<times> string) io"
  kb_get :: "location \<Rightarrow> ('x, string) io"
  kb_delete :: "location \<Rightarrow> string \<Rightarrow> ('x, unit) io"
  kb_volume :: "string \<Rightarrow> ('x, kvolume) io"
  kb_claim :: "string \<Rightarrow> string \<Rightarrow> ('x, unit) io"

datatype deletion = Deleted_namespace string string | Deleted_object location string

text \<open>The context in memory, the API server, the files and every deletion requested so far.\<close>

record 'x cworld =
  cw_state :: state
  cw_ext :: 'x
  cw_files :: fsworld
  cw_deletions :: "deletion list"

abbreviation kube_io :: "('x, 'a) io \<Rightarrow> ('x cworld, 'a) io" where
  "kube_io \<equiv> lens_io cw_ext (\<lambda>x w. w\<lparr>cw_ext := x\<rparr>)"

abbreviation files_io :: "(fsworld, 'a) io \<Rightarrow> ('x cworld, 'a) io" where
  "files_io \<equiv> lens_io cw_files (\<lambda>f w. w\<lparr>cw_files := f\<rparr>)"

definition set_state :: "(state \<Rightarrow> state) \<Rightarrow> ('x cworld, unit) io" where
  "set_state f = mod_io (\<lambda>w. w\<lparr>cw_state := f (cw_state w)\<rparr>)"

definition log_deletion :: "deletion \<Rightarrow> ('x cworld, unit) io" where
  "log_deletion d = mod_io (\<lambda>w. w\<lparr>cw_deletions := cw_deletions w @ [d]\<rparr>)"

section \<open>Ownership\<close>

definition check_namespace :: "'x kube \<Rightarrow> ('x cworld, kns option) io" where
  "check_namespace K =
     bind_io (get_io cw_state) (\<lambda>s.
     then_io (lift_io (to_res (state_validate s)))
     (bind_io (kube_io (kb_namespace K ''kube-system'')) (\<lambda>cluster.
      then_io (require (kn_uid cluster = s_cluster_uid s) (EMsg ''cluster identity changed''))
      (bind_io (catch_io (kube_io (kb_namespace K (s_namespace s)))) (\<lambda>q. case q of
         Inl e \<Rightarrow> if e = ENotFound then ret None else throw e
       | Inr ns \<Rightarrow> then_io (require (\<not> (kn_uid ns \<noteq> s_namespace_uid s \<or> lookup_or [] (kn_labels ns) run_label \<noteq> s_token s))
             (EMsg ''namespace ownership or UID mismatch; refusing cleanup'')) (ret (Some ns)))))))"

definition check_owned :: "'x kube \<Rightarrow> ('x cworld, bool) io" where
  \<comment> \<open>\<open>Engine.Check\<close>\<close>
  "check_owned K = bind_io (check_namespace K) (\<lambda>ns. ret (ns \<noteq> None))"

section \<open>Inventory\<close>

definition location_key :: "kref \<Rightarrow> string" where
  "location_key r = r_group r @ ''/'' @ r_resource r @ ''/'' @ r_namespace r @ ''/'' @ r_name r"

definition ref_key :: "kref \<Rightarrow> string" where
  "ref_key r = location_key r @ ''/'' @ r_uid r"

type_synonym refs = "kref gomap"

definition add_ref :: "kref \<Rightarrow> refs \<Rightarrow> refs" where
  "add_ref r refs = AList.update (ref_key r) r refs"

definition recorded_refs :: "kref list \<Rightarrow> refs" where
  "recorded_refs rs = foldl (\<lambda>refs r. add_ref r refs) [] rs"

fun add_items :: "string \<times> string \<times> string \<Rightarrow> string \<Rightarrow> (string \<times> string) list \<Rightarrow> refs \<Rightarrow> gerr + refs" where
  "add_items gvr ns [] refs = Inr refs"
| "add_items (g, v, r) ns ((name, uid) # items) refs =
     (let refs' = add_ref \<lparr>r_group = g, r_version = v, r_resource = r, r_namespace = ns, r_name = name, r_uid = uid\<rparr> refs
      in if length refs' > 10000 then Inl (EMsg ''inventory exceeds 10000 supported references'') else add_items (g, v, r) ns items refs')"

fun list_objects :: "'x kube \<Rightarrow> nat \<Rightarrow> string \<times> string \<times> string \<Rightarrow> string \<Rightarrow> string \<Rightarrow> refs \<Rightarrow> ('x cworld, refs) io" where
  \<comment> \<open>the pages of one resource; the context ends after so many requests\<close>
  "list_objects K 0 gvr ns next refs = throw (EExt ''context deadline exceeded'')"
| "list_objects K (Suc n) gvr ns next refs =
     bind_io (kube_io (kb_list K gvr ns next)) (\<lambda>(items, next').
     bind_io (lift_io (add_items gvr ns items refs)) (\<lambda>refs'.
      if next' = [] then ret refs' else list_objects K n gvr ns next' refs'))"

definition scan_group :: "'x kube \<Rightarrow> nat \<Rightarrow> string \<Rightarrow> refs \<Rightarrow> string \<times> api_resource list \<Rightarrow> ('x cworld, refs) io" where
  "scan_group K n ns refs gr =
     bind_io (lift_io (kb_group_version K (fst gr))) (\<lambda>(g, v).
      fold_io (\<lambda>refs r. if \<not> ap_namespaced r \<or> \<not> List.member (ap_verbs r) ''list'' then ret refs
          else list_objects K n (g, v, ap_name r) ns [] refs) (snd gr) refs)"

definition scan_namespaced :: "'x kube \<Rightarrow> nat \<Rightarrow> state \<Rightarrow> kns option \<Rightarrow> refs \<Rightarrow> ('x cworld, refs) io" where
  "scan_namespaced K n s ns refs = (case ns of
     Some x \<Rightarrow> if s_namespace_scoped s \<and> kn_terminating x then ret refs
       else bind_io (kube_io (kb_discover K)) (\<lambda>groups. fold_io (scan_group K n (s_namespace s)) groups refs)
   | None \<Rightarrow> ret refs)"

definition claim_recorded :: "string \<times> string \<times> string \<Rightarrow> kref \<Rightarrow> bool" where
  "claim_recorded c r \<longleftrightarrow> r_resource r = ''persistentvolumeclaims'' \<and> r_name r = fst (snd c) \<and> r_uid r = snd (snd c)"

definition add_volume :: "state \<Rightarrow> kvolume \<Rightarrow> refs \<Rightarrow> gerr + refs" where
  "add_volume s v refs =
     (let labelled = (lookup_or [] (kv_labels v) run_label = s_token s);
          r = \<lparr>r_group = [], r_version = ''v1'', r_resource = ''persistentvolumes'', r_namespace = [], r_name = kv_name v, r_uid = kv_uid v\<rparr>
      in if \<not> (labelled \<or> (\<exists>c \<in> set_option (kv_claim v). fst c = s_namespace s)) then Inr refs
         else if \<not> labelled then Inl (EMsg ''unlabelled namespace volume: absence cannot be fully verified'')
         else (case kv_claim v of
           None \<Rightarrow> Inr (add_ref r refs)
         | Some c \<Rightarrow>
             (if fst c \<noteq> s_namespace s then Inl (EMsg ''tracked volume belongs to another namespace'')
              else if \<not> list_ex (\<lambda>(k, known). claim_recorded c known) refs
              then Inl (EMsg ''tracked volume lacks a recorded matching claim UID'')
              else Inr (add_ref r refs))))"

fun add_volumes :: "state \<Rightarrow> kvolume list \<Rightarrow> refs \<Rightarrow> gerr + refs" where
  "add_volumes s [] refs = Inr refs"
| "add_volumes s (v # vs) refs = (case add_volume s v refs of Inl e \<Rightarrow> Inl e | Inr refs' \<Rightarrow> add_volumes s vs refs')"

fun scan_volumes :: "'x kube \<Rightarrow> nat \<Rightarrow> state \<Rightarrow> string \<Rightarrow> refs \<Rightarrow> ('x cworld, refs) io" where
  "scan_volumes K 0 s next refs = throw (EExt ''context deadline exceeded'')"
| "scan_volumes K (Suc n) s next refs =
     bind_io (kube_io (kb_volumes K next)) (\<lambda>(vs, next').
     bind_io (lift_io (add_volumes s vs refs)) (\<lambda>refs'.
      if next' = [] then ret refs' else scan_volumes K n s next' refs'))"

fun locations_agree :: "kref list \<Rightarrow> string gomap \<Rightarrow> bool" where
  \<comment> \<open>no two references name one place with different UIDs\<close>
  "locations_agree [] seen = True"
| "locations_agree (r # rs) seen =
     (case map_of seen (location_key r) of
        Some prior \<Rightarrow> prior = r_uid r \<and> locations_agree rs (AList.update (location_key r) (r_uid r) seen)
      | None \<Rightarrow> locations_agree rs (AList.update (location_key r) (r_uid r) seen))"

definition inventory :: "'x kube \<Rightarrow> nat \<Rightarrow> ('x cworld, unit) io" where
  \<comment> \<open>\<open>Engine.Inventory\<close>\<close>
  "inventory K n =
     then_io (set_state (\<lambda>s. s\<lparr>s_inventory_complete := False\<rparr>))
     (bind_io (check_namespace K) (\<lambda>ns.
      bind_io (get_io cw_state) (\<lambda>s.
      bind_io (scan_namespaced K n s ns (recorded_refs (s_resources s))) (\<lambda>refs1.
      bind_io (scan_volumes K n s [] refs1) (\<lambda>refs.
      then_io (require (\<not> length refs > 10000) (EMsg ''inventory exceeds 10000 supported references''))
      (then_io (require (locations_agree (map snd refs) []) (EMsg ''resource UID changed since inventory; refusing deletion''))
      (set_state (\<lambda>s. s\<lparr>s_resources := sort_key ref_key (map snd refs), s_inventory_complete := True\<rparr>))))))))"

section \<open>Removal\<close>

definition location :: "kref \<Rightarrow> location" where
  "location r = (r_group r, r_version r, r_resource r, r_namespace r, r_name r)"

definition ignore_missing :: "('s, unit) io \<Rightarrow> ('s, unit) io" where
  \<comment> \<open>\<open>if err != nil && !apierrors.IsNotFound(err) { return err }\<close>\<close>
  "ignore_missing m = bind_io (catch_io m) (\<lambda>q. case q of Inl e \<Rightarrow> if e = ENotFound then ret () else throw e | Inr _ \<Rightarrow> ret ())"

definition delete_ref :: "'x kube \<Rightarrow> kref \<Rightarrow> ('x cworld, unit) io" where
  \<comment> \<open>\<open>Engine.deleteRef\<close>\<close>
  "delete_ref K r =
     (let delete = then_io (log_deletion (Deleted_object (location r) (r_uid r))) (ignore_missing (kube_io (kb_delete K (location r) (r_uid r)))) in
      bind_io (catch_io (kube_io (kb_get K (location r)))) (\<lambda>q. case q of
        Inl e \<Rightarrow> if e = ENotFound then ret () else throw e
      | Inr uid \<Rightarrow>
          then_io (require (uid = r_uid r) (EMsg ''replaced: refusing deletion''))
          (if r_namespace r = [] then
             bind_io (kube_io (kb_volume K (r_name r))) (\<lambda>v.
             bind_io (get_io cw_state) (\<lambda>s.
             then_io (require (lookup_or [] (kv_labels v) run_label = s_token s) (EMsg ''volume ownership label changed''))
             (case kv_claim v of
                None \<Rightarrow> delete
              | Some c \<Rightarrow>
                  then_io (require (fst c = s_namespace s) (EMsg ''volume claim namespace changed''))
                  (then_io (require (list_ex (claim_recorded c) (s_resources s)) (EMsg ''volume claim UID changed''))
                  (bind_io (catch_io (kube_io (kb_claim K (s_namespace s) (fst (snd c))))) (\<lambda>q. case q of
                     Inr _ \<Rightarrow> ret ()
                   | Inl e \<Rightarrow> if e = ENotFound then delete else throw e))))))
           else delete)))"

fun verify_gone :: "'x kube \<Rightarrow> bool \<Rightarrow> kref list \<Rightarrow> bool \<Rightarrow> ('x cworld, bool) io" where
  \<comment> \<open>the loop that reads every reference back; \<open>absent\<close> is its local variable\<close>
  "verify_gone K scoped [] absent = ret absent"
| "verify_gone K scoped (r # rs) absent =
     (if scoped \<and> r_namespace r \<noteq> [] then verify_gone K scoped rs absent
      else bind_io (catch_io (kube_io (kb_get K (location r)))) (\<lambda>q. case q of
        Inl e \<Rightarrow> if e = ENotFound then verify_gone K scoped rs absent else throw e
      | Inr uid \<Rightarrow> then_io (require (uid = r_uid r) (EMsg ''tracked resource was replaced during verification''))
          (verify_gone K scoped rs False)))"

definition removal_round :: "'x kube \<Rightarrow> nat \<Rightarrow> ('x cworld, bool) io" where
  \<comment> \<open>one iteration of the loop of \<open>RemoveResources\<close>: whether absence is confirmed\<close>
  "removal_round K n =
     bind_io (get_io cw_state) (\<lambda>s.
     then_io (for_io (filter (\<lambda>r. r_namespace r = [] \<and> \<not> s_namespace_scoped s) (s_resources s)) (delete_ref K))
     (bind_io (check_owned K) (\<lambda>exists.
      bind_io (if exists then ret False
         else then_io (inventory K n) (bind_io (get_io cw_state) (\<lambda>t. ret (length (s_resources t) = length (s_resources s)))))
      (\<lambda>absent. bind_io (get_io cw_state) (\<lambda>t. verify_gone K (s_namespace_scoped t) (s_resources t) absent)))))"

fun await_absence :: "'x kube \<Rightarrow> nat \<Rightarrow> nat \<Rightarrow> ('x cworld, unit) io" where
  \<comment> \<open>the loop itself; the context ends after so many ticks\<close>
  "await_absence K n 0 = bind_io (removal_round K n) (\<lambda>absent. if absent then ret ()
     else throw (EExt ''cleanup absence not confirmed before deadline''))"
| "await_absence K n (Suc ticks) = bind_io (removal_round K n) (\<lambda>absent. if absent then ret () else await_absence K n ticks)"

definition remove_resources :: "'x kube \<Rightarrow> nat \<Rightarrow> nat \<Rightarrow> ('x cworld, unit) io" where
  \<comment> \<open>\<open>Engine.RemoveResources\<close>\<close>
  "remove_resources K n ticks =
     then_io (inventory K n)
     (bind_io (check_owned K) (\<lambda>exists.
      then_io (if exists then bind_io (get_io cw_state) (\<lambda>s.
           then_io (log_deletion (Deleted_namespace (s_namespace s) (s_namespace_uid s)))
             (ignore_missing (kube_io (kb_delete_namespace K (s_namespace s) (s_namespace_uid s)))))
         else ret ())
      (await_absence K n ticks)))"

section \<open>The whole cleanup\<close>

text \<open>
  What the environment contributes to a cleanup: the file system's side, the rendering of errors, the
  number of requests and ticks before the deadline, and the time at its end.
\<close>

record cenv =
  ce_files :: senv
  ce_text :: "gerr \<Rightarrow> string"
  ce_pages :: nat
  ce_ticks :: nat
  ce_now :: time

definition wipe_recorded :: "cenv \<Rightarrow> string \<Rightarrow> ('x cworld, gerr option) io" where
  "wipe_recorded E name =
     bind_io (get_io cw_state) (\<lambda>s.
     bind_io (catch_io (files_io (wipe (ce_files E) s name))) (\<lambda>q. case q of
       Inl e \<Rightarrow> then_io (set_state (record_obs name ''failed'' (ce_text E e))) (ret (Some e))
     | Inr _ \<Rightarrow> then_io (set_state (record_obs name ''verified''
         ''Disposable directory is empty; symlink targets were not followed'')) (ret None)))"

definition removed_reason :: "bool \<Rightarrow> string" where
  "removed_reason scoped = (if scoped then
     ''Assigned namespace confirmed absent after namespace GC; namespaced objects covered by namespace absence; every inventoried PV UID independently confirmed absent''
     else ''Namespace and every inventoried UID confirmed absent'')"

definition removal_recorded :: "'x kube \<Rightarrow> cenv \<Rightarrow> ('x cworld, gerr option) io" where
  "removal_recorded K E =
     bind_io (catch_io (remove_resources K (ce_pages E) (ce_ticks E))) (\<lambda>q. case q of
       Inl e \<Rightarrow> then_io (set_state (record_obs ''resources'' ''failed'' (ce_text E e))) (ret (Some e))
     | Inr _ \<Rightarrow> then_io (set_state (\<lambda>s. record_obs ''resources'' ''verified'' (removed_reason (s_namespace_scoped s)) s)) (ret None))"

definition cleanup :: "'x kube \<Rightarrow> cenv \<Rightarrow> ('x cworld, gerr option) io" where
  \<comment> \<open>\<open>Engine.Cleanup\<close>: it returns the joined failures\<close>
  "cleanup K E =
     then_io (set_state (\<lambda>s. s\<lparr>s_attempts := s_attempts s + 1\<rparr>))
     (bind_io (wipe_recorded E ''workspace'') (\<lambda>e1.
      bind_io (wipe_recorded E ''credentials'') (\<lambda>e2.
      bind_io (removal_recorded K E) (\<lambda>e3.
      then_io (if e3 \<noteq> None then set_state (record_obs ''credentials'' ''failed'' ''Kubernetes service-account absence could not be confirmed'')
         else ret ())
      (then_io (set_state (\<lambda>s. s\<lparr>s_completed := Some (ce_now E)\<rparr>))
      (ret (join_err (join_err e1 e2) e3)))))))"

definition begin_cleanup :: "'x kube \<Rightarrow> senv \<Rightarrow> identity \<Rightarrow> gerr + nat list \<Rightarrow> time \<Rightarrow> gerr + path \<Rightarrow> gerr + path \<Rightarrow> ('x cworld, unit) io" where
  \<comment> \<open>\<open>Engine.Begin\<close>; the new context becomes the state\<close>
  "begin_cleanup K E i rand now absolute resolved =
     bind_io (lift_io (new_state i rand now)) (\<lambda>s0.
     bind_io (kube_io (kb_namespace K ''kube-system'')) (\<lambda>cluster.
     bind_io (files_io (prepare_sandbox E absolute resolved (s0\<lparr>s_cluster_uid := kn_uid cluster\<rparr>))) (\<lambda>s1.
     bind_io (kube_io (kb_create_namespace K (s_namespace s1)
       [(run_label, s_token s1), (''app.kubernetes.io/managed-by'', ''proofctl'')])) (\<lambda>ns.
     (let s = s1\<lparr>s_namespace_uid := kn_uid ns\<rparr> in
      then_io (set_state (\<lambda>_. s)) (lift_io (to_res (state_validate s))))))))"

section \<open>What the API server guarantees\<close>

text \<open>
  \<open>known k x\<close>: the object with this key (its place and UID) has existed in state \<open>x\<close> or before;
  \<open>live k x\<close>: it exists in \<open>x\<close>. Kubernetes never assigns a UID twice, so an object that is gone
  stays gone, whoever else changes the cluster; a listed object is known; a place that is not found
  holds no object, and a namespace that is not found has no objects in it.
\<close>

definition kube_steps :: "(string \<Rightarrow> 'x \<Rightarrow> bool) \<Rightarrow> (string \<Rightarrow> 'x \<Rightarrow> bool) \<Rightarrow> 'x kube \<Rightarrow> bool" where
  "kube_steps known live K \<longleftrightarrow>
     (\<forall>n. keeps (forward known live) (kb_namespace K n)) \<and> (\<forall>n u. keeps (forward known live) (kb_delete_namespace K n u)) \<and>
     keeps (forward known live) (kb_discover K) \<and> (\<forall>g n c. keeps (forward known live) (kb_list K g n c)) \<and>
     (\<forall>c. keeps (forward known live) (kb_volumes K c)) \<and> (\<forall>l. keeps (forward known live) (kb_get K l)) \<and>
     (\<forall>l u. keeps (forward known live) (kb_delete K l u)) \<and> (\<forall>n. keeps (forward known live) (kb_volume K n)) \<and>
     (\<forall>n m. keeps (forward known live) (kb_claim K n m))"

definition absence_answers :: "(string \<Rightarrow> 'x \<Rightarrow> bool) \<Rightarrow> 'x kube \<Rightarrow> bool" where
  "absence_answers live K \<longleftrightarrow>
     (\<forall>r x y. kb_get K (location r) x = (Inl ENotFound, y) \<longrightarrow> \<not> live (ref_key r) y) \<and>
     (\<forall>r x y. kb_namespace K (r_namespace r) x = (Inl ENotFound, y) \<longrightarrow> \<not> live (ref_key r) y)"

definition list_answers :: "(string \<Rightarrow> 'x \<Rightarrow> bool) \<Rightarrow> 'x kube \<Rightarrow> bool" where
  "list_answers known K \<longleftrightarrow> (\<forall>g v rs ns c x items next y name uid.
     kb_list K (g, v, rs) ns c x = (Inr (items, next), y) \<longrightarrow> (name, uid) \<in> set items \<longrightarrow>
     known (ref_key \<lparr>r_group = g, r_version = v, r_resource = rs, r_namespace = ns, r_name = name, r_uid = uid\<rparr>) y)"

definition volume_answers :: "(string \<Rightarrow> 'x \<Rightarrow> bool) \<Rightarrow> 'x kube \<Rightarrow> bool" where
  "volume_answers known K \<longleftrightarrow> (\<forall>c x vs next y v. kb_volumes K c x = (Inr (vs, next), y) \<longrightarrow> v \<in> set vs \<longrightarrow>
     known (ref_key \<lparr>r_group = [], r_version = ''v1'', r_resource = ''persistentvolumes'', r_namespace = [], r_name = kv_name v, r_uid = kv_uid v\<rparr>) y)"

definition honest :: "(string \<Rightarrow> 'x \<Rightarrow> bool) \<Rightarrow> (string \<Rightarrow> 'x \<Rightarrow> bool) \<Rightarrow> 'x kube \<Rightarrow> bool" where
  "honest known live K \<longleftrightarrow> kube_steps known live K \<and> absence_answers live K \<and> list_answers known K \<and> volume_answers known K"

lemma kube_steps_keeps:
  assumes "kube_steps known live K"
  shows "keeps (forward known live) (kb_namespace K n)" "keeps (forward known live) (kb_delete_namespace K n u)"
    "keeps (forward known live) (kb_discover K)" "keeps (forward known live) (kb_list K gvr n c)" "keeps (forward known live) (kb_volumes K c)"
    "keeps (forward known live) (kb_get K l)" "keeps (forward known live) (kb_delete K l u)" "keeps (forward known live) (kb_volume K n)"
    "keeps (forward known live) (kb_claim K n m)"
  using assms[unfolded kube_steps_def] by (simp_all del: split_paired_All)

lemma honest_steps: "honest known live K \<Longrightarrow> kube_steps known live K"
  by (simp add: honest_def)

lemmas honest_keeps = kube_steps_keeps[OF honest_steps]

lemma honest_absent:
  assumes "honest known live K"
  shows "kb_get K (location r) x = (Inl ENotFound, y) \<Longrightarrow> \<not> live (ref_key r) y"
    "kb_namespace K (r_namespace r) x = (Inl ENotFound, y) \<Longrightarrow> \<not> live (ref_key r) y"
  using assms by (simp_all add: honest_def absence_answers_def)

lemma honest_list:
  assumes "honest known live K" "kb_list K (g, v, rs) ns c x = (Inr (items, next), y)" "(name, uid) \<in> set items"
  shows "known (ref_key \<lparr>r_group = g, r_version = v, r_resource = rs, r_namespace = ns, r_name = name, r_uid = uid\<rparr>) y"
proof -
  have "list_answers known K" using assms(1) by (simp add: honest_def)
  from this[unfolded list_answers_def, rule_format, OF assms(2,3)] show ?thesis .
qed

lemma honest_volumes:
  assumes "honest known live K" "kb_volumes K c x = (Inr (vs, next), y)" "vol \<in> set vs"
  shows "known (ref_key \<lparr>r_group = [], r_version = ''v1'', r_resource = ''persistentvolumes'', r_namespace = [], r_name = kv_name vol, r_uid = kv_uid vol\<rparr>) y"
proof -
  have "volume_answers known K" using assms(1) by (simp add: honest_def)
  from this[unfolded volume_answers_def, rule_format, OF assms(2,3)] show ?thesis .
qed

section \<open>Frames\<close>

abbreviation keys :: "state \<Rightarrow> string set" where
  "keys s \<equiv> ref_key ` set (s_resources s)"

definition owned :: "state \<Rightarrow> deletion \<Rightarrow> bool" where
  \<comment> \<open>the namespace of the context under its UID, or a cluster-scoped object of the inventory under its UID\<close>
  "owned s d = (case d of
     Deleted_namespace n u \<Rightarrow> n = s_namespace s \<and> u = s_namespace_uid s
   | Deleted_object l u \<Rightarrow> (\<exists>r. l = location r \<and> u = r_uid r \<and> r_namespace r = [] \<and> ref_key r \<in> keys s))"

definition advanced :: "(string \<Rightarrow> 'x \<Rightarrow> bool) \<Rightarrow> (string \<Rightarrow> 'x \<Rightarrow> bool) \<Rightarrow> 'x cworld \<Rightarrow> 'x cworld \<Rightarrow> bool" where
  \<comment> \<open>what the API side of a cleanup may change\<close>
  "advanced known live w w' \<longleftrightarrow> forward known live (cw_ext w) (cw_ext w') \<and> cw_files w' = cw_files w \<and>
     (\<exists>rs c. cw_state w' = (cw_state w)\<lparr>s_resources := rs, s_inventory_complete := c\<rparr>) \<and> keys (cw_state w) \<subseteq> keys (cw_state w') \<and>
     (\<exists>ds. cw_deletions w' = cw_deletions w @ ds \<and> (\<forall>d \<in> set ds. owned (cw_state w') d))"

definition tracked :: "(string \<Rightarrow> 'x \<Rightarrow> bool) \<Rightarrow> 'x cworld \<Rightarrow> bool" where
  "tracked known w \<longleftrightarrow> (\<forall>k \<in> keys (cw_state w). known k (cw_ext w))"

definition scanning :: "(string \<Rightarrow> 'x \<Rightarrow> bool) \<Rightarrow> (string \<Rightarrow> 'x \<Rightarrow> bool) \<Rightarrow> 'x cworld \<Rightarrow> 'x cworld \<Rightarrow> bool" where
  "scanning known live w0 w \<longleftrightarrow> advanced known live w0 w \<and> tracked known w"

lemma owned_mono:
  "owned s d \<Longrightarrow> keys s \<subseteq> keys t \<Longrightarrow> s_namespace t = s_namespace s \<Longrightarrow> s_namespace_uid t = s_namespace_uid s \<Longrightarrow> owned t d"
  by (fastforce simp: owned_def split: deletion.splits)

lemma same_context: "\<exists>rs c. s = (s :: state)\<lparr>s_resources := rs, s_inventory_complete := c\<rparr>"
  by (rule exI[of _ "s_resources s"], rule exI[of _ "s_inventory_complete s"]) simp

lemma advanced_refl: "advanced known live w w"
  using same_context by (auto simp: advanced_def forward_refl)

lemma advanced_state:
  assumes "advanced known live w w'"
  shows "s_namespace (cw_state w') = s_namespace (cw_state w)" "s_namespace_uid (cw_state w') = s_namespace_uid (cw_state w)"
    "s_namespace_scoped (cw_state w') = s_namespace_scoped (cw_state w)" "s_coverage (cw_state w') = s_coverage (cw_state w)"
    "s_token (cw_state w') = s_token (cw_state w)" "s_sandbox (cw_state w') = s_sandbox (cw_state w)"
    "s_directories (cw_state w') = s_directories (cw_state w)"
  using assms by (auto simp: advanced_def)

lemma advanced_trans:
  assumes "advanced known live u v" "advanced known live v w"
  shows "advanced known live u w"
proof -
  from assms(1) obtain rs c ds where 1: "forward known live (cw_ext u) (cw_ext v)" "cw_files v = cw_files u"
    "cw_state v = (cw_state u)\<lparr>s_resources := rs, s_inventory_complete := c\<rparr>" "keys (cw_state u) \<subseteq> keys (cw_state v)"
    "cw_deletions v = cw_deletions u @ ds" "\<forall>d \<in> set ds. owned (cw_state v) d" by (auto simp: advanced_def)
  from assms(2) obtain rs' c' ds' where 2: "forward known live (cw_ext v) (cw_ext w)" "cw_files w = cw_files v"
    "cw_state w = (cw_state v)\<lparr>s_resources := rs', s_inventory_complete := c'\<rparr>" "keys (cw_state v) \<subseteq> keys (cw_state w)"
    "cw_deletions w = cw_deletions v @ ds'" "\<forall>d \<in> set ds'. owned (cw_state w) d" by (auto simp: advanced_def)
  have o: "owned (cw_state w) d" if "d \<in> set ds" for d
  proof -
    from 1(6) that have "owned (cw_state v) d" by blast
    then show ?thesis by (rule owned_mono[OF _ 2(4)]) (simp_all add: 2(3))
  qed
  have "cw_state w = (cw_state u)\<lparr>s_resources := rs', s_inventory_complete := c'\<rparr>" using 1(3) 2(3) by simp
  then have st: "\<exists>rs c. cw_state w = (cw_state u)\<lparr>s_resources := rs, s_inventory_complete := c\<rparr>" by blast
  have "cw_deletions w = cw_deletions u @ (ds @ ds') \<and> (\<forall>d \<in> set (ds @ ds'). owned (cw_state w) d)" using 1(5) 2(5,6) o by auto
  then have de: "\<exists>ds. cw_deletions w = cw_deletions u @ ds \<and> (\<forall>d \<in> set ds. owned (cw_state w) d)" by blast
  have fi: "cw_files w = cw_files u" using 1(2) 2(2) by simp
  show ?thesis unfolding advanced_def
    by (intro conjI forward_trans[OF 1(1) 2(1)] fi st de subset_trans[OF 1(4) 2(4)])
qed

lemma tracked_ext: "tracked known w \<Longrightarrow> forward known live (cw_ext w) x \<Longrightarrow> tracked known (w\<lparr>cw_ext := x\<rparr>)"
  by (simp add: tracked_def forward_def)

lemma advanced_ext: "forward known live (cw_ext w) x \<Longrightarrow> advanced known live w (w\<lparr>cw_ext := x\<rparr>)"
  using same_context by (auto simp: advanced_def)

lemma scanning_ext:
  "scanning known live w0 w \<Longrightarrow> forward known live (cw_ext w) x \<Longrightarrow> scanning known live w0 (w\<lparr>cw_ext := x\<rparr>)"
  unfolding scanning_def by (blast intro: advanced_trans advanced_ext tracked_ext)

lemma triple_kube:
  assumes "keeps (forward known live) m" "\<And>w x. J w \<Longrightarrow> forward known live (cw_ext w) x \<Longrightarrow> J (w\<lparr>cw_ext := x\<rparr>)"
  shows "triple (\<lambda>w. scanning known live w0 w \<and> J w) (kube_io m) (\<lambda>_ w. scanning known live w0 w \<and> J w) (scanning known live w0)"
proof -
  have f: "forward known live (cw_ext w) x" if "m (cw_ext w) = (r, x)" for w r x
    using assms(1) that unfolding keeps_def by (metis snd_conv)
  show ?thesis by (rule triple_lens) (auto intro: scanning_ext assms(2) f)
qed

definition in_scope :: "'x cworld \<Rightarrow> bool" where
  "in_scope w \<longleftrightarrow> (\<forall>r \<in> set (s_resources (cw_state w)). r_namespace r = s_namespace (cw_state w) \<or> r_namespace r = [])"

definition deserted :: "(string \<Rightarrow> 'x \<Rightarrow> bool) \<Rightarrow> 'x cworld \<Rightarrow> bool" where
  \<comment> \<open>nothing recorded in the namespace of the context exists any more\<close>
  "deserted live w \<longleftrightarrow> (\<forall>r. r_namespace r = s_namespace (cw_state w) \<longrightarrow> ref_key r \<in> keys (cw_state w) \<longrightarrow> \<not> live (ref_key r) (cw_ext w))"

lemma validate_scope: "state_validate (cw_state w) = None \<Longrightarrow> in_scope w"
  by (auto simp: state_validate_def in_scope_def ref_in_scope_def)

lemma triple_kube_answer:
  assumes "keeps (forward known live) m" "\<And>w x. J w \<Longrightarrow> forward known live (cw_ext w) x \<Longrightarrow> J (w\<lparr>cw_ext := x\<rparr>)"
    and "\<And>x a y. m x = (Inr a, y) \<Longrightarrow> A a y"
  shows "triple (\<lambda>w. scanning known live w0 w \<and> J w) (kube_io m) (\<lambda>a w. (scanning known live w0 w \<and> J w) \<and> A a (cw_ext w)) (scanning known live w0)"
proof -
  have f: "forward known live (cw_ext w) x" if "m (cw_ext w) = (r, x)" for w r x
    using assms(1) that unfolding keeps_def by (metis snd_conv)
  show ?thesis by (rule triple_lens) (auto intro: scanning_ext assms(2,3) f)
qed

lemma triple_check:
  assumes K: "honest known live K" and J: "\<And>w x. J w \<Longrightarrow> forward known live (cw_ext w) x \<Longrightarrow> J (w\<lparr>cw_ext := x\<rparr>)"
  shows "triple (\<lambda>w. scanning known live w0 w \<and> J w) (check_namespace K)
    (\<lambda>ns w. (scanning known live w0 w \<and> J w) \<and> in_scope w \<and> (ns = None \<longrightarrow> deserted live w)) (scanning known live w0)"
  unfolding check_namespace_def
proof (rule triple_bind[where Q = "\<lambda>s w. scanning known live w0 w \<and> J w \<and> s = cw_state w"])
  fix s
  note n = honest_keeps(1)[OF K]
  let ?J = "\<lambda>w. J w \<and> s = cw_state w \<and> in_scope w"
  have st: "?J (w\<lparr>cw_ext := x\<rparr>)" if "?J w" "forward known live (cw_ext w) x" for w x
    using that J by (simp add: in_scope_def)
  have c: "triple (\<lambda>w. scanning known live w0 w \<and> ?J w) (catch_io (kube_io (kb_namespace K (s_namespace s))))
     (\<lambda>q w. (scanning known live w0 w \<and> ?J w) \<and> (q = Inl ENotFound \<longrightarrow> deserted live w)) (scanning known live w0)"
  proof (rule triple_catch_lens)
    fix w :: "'a cworld" and q x assume w: "scanning known live w0 w \<and> ?J w" and q: "kb_namespace K (s_namespace s) (cw_ext w) = (q, x)"
    have f: "forward known live (cw_ext w) x" using n q unfolding keeps_def by (metis snd_conv)
    have "\<not> live (ref_key r) x" if "q = Inl ENotFound" "r_namespace r = s_namespace s" for r
      using honest_absent(2)[OF K] q that by metis
    then show "(scanning known live w0 (w\<lparr>cw_ext := x\<rparr>) \<and> ?J (w\<lparr>cw_ext := x\<rparr>)) \<and> (q = Inl ENotFound \<longrightarrow> deserted live (w\<lparr>cw_ext := x\<rparr>))"
      using w st[OF conjunct2[OF w] f] scanning_ext[OF conjunct1[OF w] f] by (auto simp: deserted_def)
  qed
  show "triple (\<lambda>w. scanning known live w0 w \<and> J w \<and> s = cw_state w) (then_io (lift_io (to_res (state_validate s)))
     (bind_io (kube_io (kb_namespace K ''kube-system'')) (\<lambda>cluster.
      then_io (require (kn_uid cluster = s_cluster_uid s) (EMsg ''cluster identity changed''))
      (bind_io (catch_io (kube_io (kb_namespace K (s_namespace s)))) (\<lambda>q. case q of
         Inl e \<Rightarrow> if e = ENotFound then ret None else throw e
       | Inr ns \<Rightarrow> then_io (require (\<not> (kn_uid ns \<noteq> s_namespace_uid s \<or> lookup_or [] (kn_labels ns) run_label \<noteq> s_token s))
             (EMsg ''namespace ownership or UID mismatch; refusing cleanup'')) (ret (Some ns))))))) (\<lambda>ns w. (scanning known live w0 w \<and> J w) \<and> in_scope w \<and> (ns = None \<longrightarrow> deserted live w)) (scanning known live w0)"
  proof (rule triple_then[where Q = "\<lambda>w. scanning known live w0 w \<and> ?J w"])
    show "triple (\<lambda>w. scanning known live w0 w \<and> J w \<and> s = cw_state w) (lift_io (to_res (state_validate s)))
       (\<lambda>_ w. scanning known live w0 w \<and> ?J w) (scanning known live w0)"
      by (auto simp: triple_def io_apply to_res_def split: option.split intro: validate_scope)
    show "triple (\<lambda>w. scanning known live w0 w \<and> ?J w)
     (bind_io (kube_io (kb_namespace K ''kube-system'')) (\<lambda>cluster.
      then_io (require (kn_uid cluster = s_cluster_uid s) (EMsg ''cluster identity changed''))
      (bind_io (catch_io (kube_io (kb_namespace K (s_namespace s)))) (\<lambda>q. case q of
         Inl e \<Rightarrow> if e = ENotFound then ret None else throw e
       | Inr ns \<Rightarrow> then_io (require (\<not> (kn_uid ns \<noteq> s_namespace_uid s \<or> lookup_or [] (kn_labels ns) run_label \<noteq> s_token s))
             (EMsg ''namespace ownership or UID mismatch; refusing cleanup'')) (ret (Some ns)))))) (\<lambda>ns w. (scanning known live w0 w \<and> J w) \<and> in_scope w \<and> (ns = None \<longrightarrow> deserted live w)) (scanning known live w0)"
    proof (rule triple_bind[OF triple_kube[where J = ?J, OF n st]], assumption, assumption,
        rule triple_then[where Q = "\<lambda>w. scanning known live w0 w \<and> ?J w"])
      show "triple (\<lambda>w. scanning known live w0 w \<and> ?J w) (require (kn_uid x = s_cluster_uid s) (EMsg ''cluster identity changed''))
         (\<lambda>_ w. scanning known live w0 w \<and> ?J w) (scanning known live w0)" for x
        by (simp add: triple_def io_apply)
      show "triple (\<lambda>w. scanning known live w0 w \<and> ?J w)
        (bind_io (catch_io (kube_io (kb_namespace K (s_namespace s)))) (\<lambda>q. case q of
         Inl e \<Rightarrow> if e = ENotFound then ret None else throw e
       | Inr ns \<Rightarrow> then_io (require (\<not> (kn_uid ns \<noteq> s_namespace_uid s \<or> lookup_or [] (kn_labels ns) run_label \<noteq> s_token s))
             (EMsg ''namespace ownership or UID mismatch; refusing cleanup'')) (ret (Some ns))))
        (\<lambda>ns w. (scanning known live w0 w \<and> J w) \<and> in_scope w \<and> (ns = None \<longrightarrow> deserted live w)) (scanning known live w0)"
        by (rule triple_bind[OF c]) (auto simp: triple_def io_apply split: sum.split)
    qed
  qed
qed (simp add: triple_def io_apply)

section \<open>The inventory\<close>

definition ref_entry_ok :: "(string \<Rightarrow> 'x \<Rightarrow> bool) \<Rightarrow> state \<Rightarrow> 'x \<Rightarrow> string \<times> kref \<Rightarrow> bool" where
  "ref_entry_ok known s x e \<longleftrightarrow> fst e = ref_key (snd e) \<and> known (fst e) x \<and> (r_namespace (snd e) = s_namespace s \<or> r_namespace (snd e) = [])"

definition refs_ok :: "(string \<Rightarrow> 'x \<Rightarrow> bool) \<Rightarrow> state \<Rightarrow> refs \<Rightarrow> 'x \<Rightarrow> bool" where
  "refs_ok known s refs x \<longleftrightarrow> distinct_keys refs \<and> keys s \<subseteq> fst ` set refs \<and> (\<forall>e \<in> set refs. ref_entry_ok known s x e)"

lemma set_update_subset: "set (AList.update k v al) \<subseteq> insert (k, v) (set al)"
  by (induction al) auto

lemma add_ref_facts:
  assumes "distinct_keys refs"
  shows "distinct_keys (add_ref r refs)" "fst ` set (add_ref r refs) = insert (ref_key r) (fst ` set refs)"
    "e \<in> set (add_ref r refs) \<Longrightarrow> e = (ref_key r, r) \<or> e \<in> set refs"
proof -
  show "distinct_keys (add_ref r refs)" using assms by (simp add: add_ref_def distinct_update)
  show "fst ` set (add_ref r refs) = insert (ref_key r) (fst ` set refs)" by (simp add: add_ref_def keys_update)
  show "e \<in> set (add_ref r refs) \<Longrightarrow> e = (ref_key r, r) \<or> e \<in> set refs" using set_update_subset unfolding add_ref_def by fast
qed

lemma refs_ok_add:
  assumes "refs_ok known s refs x" "known (ref_key r) x" "r_namespace r = s_namespace s \<or> r_namespace r = []"
  shows "refs_ok known s (add_ref r refs) x"
proof -
  have d: "distinct_keys refs" and k: "keys s \<subseteq> fst ` set refs" and e: "\<forall>e \<in> set refs. ref_entry_ok known s x e"
    using assms(1) by (simp_all add: refs_ok_def)
  have "ref_entry_ok known s x (ref_key r, r)" using assms(2,3) by (simp add: ref_entry_ok_def)
  with e have "\<forall>e \<in> set (add_ref r refs). ref_entry_ok known s x e" using add_ref_facts(3)[OF d] by blast
  moreover have "keys s \<subseteq> fst ` set (add_ref r refs)" unfolding add_ref_facts(2)[OF d] by (rule subset_insertI2[OF k])
  ultimately show ?thesis unfolding refs_ok_def using add_ref_facts(1)[OF d] by (intro conjI)
qed

lemma refs_ok_items:
  assumes "refs_ok known s refs x" "add_items (g, v, rs) (s_namespace s) items refs = Inr refs'"
    and "\<And>name uid. (name, uid) \<in> set items \<Longrightarrow>
      known (ref_key \<lparr>r_group = g, r_version = v, r_resource = rs, r_namespace = s_namespace s, r_name = name, r_uid = uid\<rparr>) x"
  shows "refs_ok known s refs' x"
  using assms
proof (induction "(g, v, rs)" "s_namespace s" items refs rule: add_items.induct)
  case (2 name uid items refs)
  let ?r = "\<lparr>r_group = g, r_version = v, r_resource = rs, r_namespace = s_namespace s, r_name = name, r_uid = uid\<rparr>"
  have "refs_ok known s (add_ref ?r refs) x" by (rule refs_ok_add[OF 2(2)]) (use 2(4) in simp_all)
  with 2 show ?case by (auto simp: Let_def split: if_splits)
qed auto

lemma refs_ok_volume:
  assumes "refs_ok known s refs x" "add_volume s v refs = Inr refs'"
    and "known (ref_key \<lparr>r_group = [], r_version = ''v1'', r_resource = ''persistentvolumes'', r_namespace = [], r_name = kv_name v, r_uid = kv_uid v\<rparr>) x"
  shows "refs_ok known s refs' x"
  using assms by (auto simp: add_volume_def Let_def intro: refs_ok_add split: if_splits option.splits)

lemma refs_ok_volumes:
  assumes "refs_ok known s refs x" "add_volumes s vs refs = Inr refs'"
    and "\<And>v. v \<in> set vs \<Longrightarrow>
      known (ref_key \<lparr>r_group = [], r_version = ''v1'', r_resource = ''persistentvolumes'', r_namespace = [], r_name = kv_name v, r_uid = kv_uid v\<rparr>) x"
  shows "refs_ok known s refs' x"
  using assms by (induction s vs refs rule: add_volumes.induct) (auto intro: refs_ok_volume split: sum.splits)

lemma refs_ok_recorded:
  assumes "\<And>r. r \<in> set (s_resources s) \<Longrightarrow> known (ref_key r) x \<and> (r_namespace r = s_namespace s \<or> r_namespace r = [])"
  shows "refs_ok known s (recorded_refs (s_resources s)) x"
proof -
  let ?f = "foldl (\<lambda>refs r. add_ref r refs)"
  have "distinct_keys (?f refs rs) \<and> ref_key ` set rs \<union> fst ` set refs \<subseteq> fst ` set (?f refs rs) \<and> (\<forall>e \<in> set (?f refs rs). ref_entry_ok known s x e)"
    if "distinct_keys refs" "\<forall>e \<in> set refs. ref_entry_ok known s x e" "\<forall>r \<in> set rs. ref_entry_ok known s x (ref_key r, r)" for rs refs
    using that
  proof (induction rs arbitrary: refs)
    case (Cons r rs)
    note f = add_ref_facts[OF Cons.prems(1), where r = r]
    have "\<forall>e \<in> set (add_ref r refs). ref_entry_ok known s x e" using f(3) Cons.prems(2,3) by fastforce
    with Cons.IH[OF f(1)] Cons.prems(3) f(2) show ?case by auto
  qed simp
  from this[of "[]" "s_resources s"] assms show ?thesis unfolding recorded_refs_def refs_ok_def by (simp add: ref_entry_ok_def[of _ _ _ "(_, _)"])
qed

lemma refs_ok_forward: "refs_ok known s refs x \<Longrightarrow> forward known live x y \<Longrightarrow> refs_ok known s refs y"
  unfolding refs_ok_def ref_entry_ok_def forward_def by blast

definition collected :: "(string \<Rightarrow> 'x \<Rightarrow> bool) \<Rightarrow> (string \<Rightarrow> 'x \<Rightarrow> bool) \<Rightarrow> 'x cworld \<Rightarrow> state \<Rightarrow> refs \<Rightarrow> 'x cworld \<Rightarrow> bool" where
  "collected known live w0 s refs w \<longleftrightarrow> scanning known live w0 w \<and> s = cw_state w \<and> refs_ok known s refs (cw_ext w)"

lemma triple_collect_call:
  assumes "keeps (forward known live) m" "\<And>x a y. m x = (Inr a, y) \<Longrightarrow> A a y"
  shows "triple (collected known live w0 s refs) (kube_io m) (\<lambda>a w. collected known live w0 s refs w \<and> A a (cw_ext w)) (scanning known live w0)"
proof -
  let ?J = "\<lambda>w. s = cw_state w \<and> refs_ok known s refs (cw_ext w)"
  have "triple (\<lambda>w. scanning known live w0 w \<and> ?J w) (kube_io m) (\<lambda>a w. (scanning known live w0 w \<and> ?J w) \<and> A a (cw_ext w)) (scanning known live w0)"
    by (rule triple_kube_answer[where J = ?J, OF assms(1)]) (auto intro: refs_ok_forward assms(2))
  then show ?thesis unfolding collected_def .
qed

lemma triple_lift_collect:
  assumes "\<And>refs' w. r = Inr refs' \<Longrightarrow> collected known live w0 s refs w \<Longrightarrow> A (cw_ext w) \<Longrightarrow> refs_ok known s refs' (cw_ext w)"
  shows "triple (\<lambda>w. collected known live w0 s refs w \<and> A (cw_ext w)) (lift_io r) (\<lambda>refs'. collected known live w0 s refs') (scanning known live w0)"
  using assms by (auto simp: triple_def io_apply collected_def split: sum.split)

lemma triple_list_objects:
  assumes K: "honest known live K"
  shows "triple (collected known live w0 s refs) (list_objects K n gvr (s_namespace s) next refs) (collected known live w0 s) (scanning known live w0)"
proof (induction n arbitrary: "next" refs)
  case 0
  show ?case by (simp add: triple_def io_apply collected_def)
next
  case (Suc n)
  obtain g v rs where gvr: "gvr = (g, v, rs)" by (cases gvr)
  let ?A = "\<lambda>a y. \<forall>name uid. (name, uid) \<in> set (fst a) \<longrightarrow>
    known (ref_key \<lparr>r_group = g, r_version = v, r_resource = rs, r_namespace = s_namespace s, r_name = name, r_uid = uid\<rparr>) y"
  note k = honest_keeps(4)[OF K]
  have a: "?A a y" if "kb_list K gvr (s_namespace s) next x = (Inr a, y)" for x a y
  proof -
    obtain items n' where "a = (items, n')" by (cases a)
    with honest_list[OF K] that show ?thesis unfolding gvr by auto
  qed
  have page: "triple (\<lambda>w. collected known live w0 s refs w \<and> ?A a (cw_ext w)) (case a of (items, next') \<Rightarrow>
      bind_io (lift_io (add_items gvr (s_namespace s) items refs)) (\<lambda>refs'.
      if next' = [] then ret refs' else list_objects K n gvr (s_namespace s) next' refs')) (collected known live w0 s) (scanning known live w0)" for a
  proof (cases a)
    case (Pair items next')
    have l: "triple (\<lambda>w. collected known live w0 s refs w \<and> ?A a (cw_ext w)) (lift_io (add_items gvr (s_namespace s) items refs))
      (\<lambda>refs'. collected known live w0 s refs') (scanning known live w0)"
      by (rule triple_lift_collect[where A = "?A a"]) (auto simp: collected_def gvr Pair intro: refs_ok_items)
    show ?thesis unfolding Pair prod.case
      by (rule triple_bind[OF l[unfolded Pair]]) (auto intro: triple_ret Suc)
  qed
  show ?case unfolding list_objects.simps by (rule triple_bind[OF triple_collect_call[OF k a]], assumption, rule page)
qed

lemma triple_scan_group:
  assumes K: "honest known live K"
  shows "triple (collected known live w0 s refs) (scan_group K n (s_namespace s) refs gr) (collected known live w0 s) (scanning known live w0)"
  unfolding scan_group_def
proof (rule triple_bind[where Q = "\<lambda>_. collected known live w0 s refs"])
  show "triple (collected known live w0 s refs) (lift_io (kb_group_version K (fst gr))) (\<lambda>_. collected known live w0 s refs) (scanning known live w0)"
    by (auto simp: triple_def io_apply collected_def split: sum.split)
  show "triple (collected known live w0 s refs) (case gv of (g, v) \<Rightarrow>
      fold_io (\<lambda>refs r. if \<not> ap_namespaced r \<or> \<not> List.member (ap_verbs r) ''list'' then ret refs
          else list_objects K n (g, v, ap_name r) (s_namespace s) [] refs) (snd gr) refs) (collected known live w0 s) (scanning known live w0)" for gv
    by (cases gv) (auto intro!: triple_fold triple_ret triple_list_objects[OF K])
qed

lemma triple_scan_namespaced:
  assumes K: "honest known live K"
  shows "triple (collected known live w0 s refs) (scan_namespaced K n s ns refs) (collected known live w0 s) (scanning known live w0)"
proof -
  have d: "triple (collected known live w0 s refs) (kube_io (kb_discover K)) (\<lambda>_ w. collected known live w0 s refs w \<and> True) (scanning known live w0)"
    by (rule triple_collect_call[OF honest_keeps(3)[OF K]]) simp
  then have "triple (collected known live w0 s refs) (kube_io (kb_discover K)) (\<lambda>_. collected known live w0 s refs) (scanning known live w0)" by simp
  then show ?thesis
    unfolding scan_namespaced_def
    by (auto intro!: triple_ret triple_bind triple_fold triple_scan_group[OF K] split: option.split)
qed

lemma triple_scan_volumes:
  assumes K: "honest known live K"
  shows "triple (collected known live w0 s refs) (scan_volumes K n s next refs) (collected known live w0 s) (scanning known live w0)"
proof (induction n arbitrary: "next" refs)
  case 0
  show ?case by (simp add: triple_def io_apply collected_def)
next
  case (Suc n)
  let ?A = "\<lambda>a y. \<forall>v \<in> set (fst a).
    known (ref_key \<lparr>r_group = [], r_version = ''v1'', r_resource = ''persistentvolumes'', r_namespace = [], r_name = kv_name v, r_uid = kv_uid v\<rparr>) y"
  have a: "?A a y" if "kb_volumes K next x = (Inr a, y)" for x a y
    using that by (cases a) (auto intro: honest_volumes[OF K])
  have page: "triple (\<lambda>w. collected known live w0 s refs w \<and> ?A a (cw_ext w)) (case a of (vs, next') \<Rightarrow>
      bind_io (lift_io (add_volumes s vs refs)) (\<lambda>refs'.
      if next' = [] then ret refs' else scan_volumes K n s next' refs')) (collected known live w0 s) (scanning known live w0)" for a
  proof (cases a)
    case (Pair vs next')
    have l: "triple (\<lambda>w. collected known live w0 s refs w \<and> ?A a (cw_ext w)) (lift_io (add_volumes s vs refs))
      (\<lambda>refs'. collected known live w0 s refs') (scanning known live w0)"
      by (rule triple_lift_collect[where A = "?A a"]) (auto simp: collected_def Pair intro: refs_ok_volumes)
    show ?thesis unfolding Pair prod.case
      by (rule triple_bind[OF l[unfolded Pair]]) (auto intro: triple_ret Suc)
  qed
  show ?case unfolding scan_volumes.simps by (rule triple_bind[OF triple_collect_call[OF honest_keeps(5)[OF K] a]], assumption, rule page)
qed

definition inventoried :: "'x cworld \<Rightarrow> bool" where
  "inventoried w \<longleftrightarrow> s_inventory_complete (cw_state w) \<and> in_scope w \<and> distinct (map ref_key (s_resources (cw_state w)))"

lemma refs_ok_sorted:
  assumes "refs_ok known s refs x"
  shows "ref_key ` set (map snd refs) = fst ` set refs" "distinct (map ref_key (sort_key ref_key (map snd refs)))"
proof -
  have e: "fst e = ref_key (snd e)" if "e \<in> set refs" for e using assms that by (simp add: refs_ok_def ref_entry_ok_def)
  show "ref_key ` set (map snd refs) = fst ` set refs" using e by (auto simp: image_image)
  have "map ref_key (map snd refs) = map fst refs" using e by simp
  moreover have "distinct_keys refs" using assms by (simp add: refs_ok_def)
  ultimately have "distinct (map ref_key (map snd refs))" by (simp only:)
  then show "distinct (map ref_key (sort_key ref_key (map snd refs)))"
    by (simp add: distinct_map del: map_map)
qed

lemma collected_result:
  assumes "collected known live w0 s refs w"
  defines "w' \<equiv> w\<lparr>cw_state := s\<lparr>s_resources := sort_key ref_key (map snd refs), s_inventory_complete := True\<rparr>\<rparr>"
  shows "scanning known live w0 w' \<and> inventoried w'"
proof -
  have w: "scanning known live w0 w" "s = cw_state w" "refs_ok known s refs (cw_ext w)" using assms(1) unfolding collected_def by blast+
  note k = refs_ok_sorted[OF w(3)]
  have r: "r_namespace r = s_namespace s \<or> r_namespace r = []" "known (ref_key r) (cw_ext w)" if "r \<in> snd ` set refs" for r
    using w(3) that by (auto simp: refs_ok_def ref_entry_ok_def)
  have sub: "keys s \<subseteq> ref_key ` snd ` set refs" using w(3) k(1) by (simp add: refs_ok_def)
  have "advanced known live w w'"
    unfolding advanced_def w'_def using sub w(2) by (auto simp: forward_refl)
  with w(1) have "advanced known live w0 w'" unfolding scanning_def by (blast intro: advanced_trans)
  moreover have "tracked known w'" using r(2) by (auto simp: tracked_def w'_def)
  moreover have "inventoried w'" using r(1) k(2) by (auto simp: inventoried_def in_scope_def w'_def)
  ultimately show ?thesis by (simp add: scanning_def)
qed

lemma scanning_mark:
  "scanning known live w0 w \<Longrightarrow> scanning known live w0 (w\<lparr>cw_state := (cw_state w)\<lparr>s_inventory_complete := False\<rparr>\<rparr>)"
proof -
  assume w: "scanning known live w0 w"
  have "\<exists>rs c. (cw_state w)\<lparr>s_inventory_complete := False\<rparr> = (cw_state w)\<lparr>s_resources := rs, s_inventory_complete := c\<rparr>"
    by (rule exI[of _ "s_resources (cw_state w)"], rule exI[of _ False]) simp
  then have "advanced known live w (w\<lparr>cw_state := (cw_state w)\<lparr>s_inventory_complete := False\<rparr>\<rparr>)"
    by (simp add: advanced_def forward_refl)
  with w show ?thesis unfolding scanning_def by (auto simp: tracked_def intro: advanced_trans)
qed

lemma triple_inventory:
  assumes K: "honest known live K"
  shows "triple (scanning known live w0) (inventory K n) (\<lambda>_ w. scanning known live w0 w \<and> inventoried w) (scanning known live w0)"
proof -
  let ?S = "scanning known live w0" and ?C = "collected known live w0"
  have check: "triple ?S (check_namespace K) (\<lambda>_ w. ?S w \<and> in_scope w) ?S"
    by (rule triple_post[OF triple_pre[OF triple_check[OF K, where J = "\<lambda>_. True"]]]) simp_all
  have read: "triple (\<lambda>w. ?S w \<and> in_scope w) (get_io cw_state) (\<lambda>s. ?C s (recorded_refs (s_resources s))) ?S"
    by (rule triple_get) (auto simp: collected_def scanning_def tracked_def in_scope_def intro!: refs_ok_recorded)
  have sure: "triple (?C s refs) (require b e) (\<lambda>_. ?C s refs) ?S" for s refs b e
    by (simp add: triple_def io_apply) (simp add: collected_def)
  have result: "triple (?C s refs) (set_state (\<lambda>s. s\<lparr>s_resources := sort_key ref_key (map snd refs), s_inventory_complete := True\<rparr>))
      (\<lambda>_ w. ?S w \<and> inventoried w) ?S" for s refs
    unfolding set_state_def
  proof (rule triple_mod)
    fix w assume c: "?C s refs w"
    then have "cw_state w = s" by (simp add: collected_def)
    with collected_result[OF c] show "?S (w\<lparr>cw_state := (cw_state w)\<lparr>s_resources := sort_key ref_key (map snd refs), s_inventory_complete := True\<rparr>\<rparr>) \<and>
      inventoried (w\<lparr>cw_state := (cw_state w)\<lparr>s_resources := sort_key ref_key (map snd refs), s_inventory_complete := True\<rparr>\<rparr>)" by simp
  qed
  have mark: "triple ?S (set_state (\<lambda>s. s\<lparr>s_inventory_complete := False\<rparr>)) (\<lambda>_. ?S) ?S"
    unfolding set_state_def by (rule triple_mod) (rule scanning_mark)
  show ?thesis
    unfolding inventory_def
    by (rule triple_then[OF mark], rule triple_bind[OF check], rule triple_bind[OF read],
        rule triple_bind[OF triple_scan_namespaced[OF K]], rule triple_bind[OF triple_scan_volumes[OF K]],
        rule triple_then[OF sure], rule triple_then[OF sure], rule result)
qed

section \<open>The removal\<close>

lemma triple_catch_kube:
  assumes "keeps (forward known live) m" "\<And>w x. J w \<Longrightarrow> forward known live (cw_ext w) x \<Longrightarrow> J (w\<lparr>cw_ext := x\<rparr>)"
  shows "triple (\<lambda>w. scanning known live w0 w \<and> J w) (catch_io (kube_io m)) (\<lambda>_ w. scanning known live w0 w \<and> J w) E"
proof -
  have f: "forward known live (cw_ext w) x" if "m (cw_ext w) = (r, x)" for w r x
    using assms(1) that unfolding keeps_def by (metis snd_conv)
  show ?thesis by (rule triple_catch_lens) (auto intro: scanning_ext assms(2) f)
qed

lemma triple_ignore_missing:
  assumes "keeps (forward known live) m" "\<And>w x. J w \<Longrightarrow> forward known live (cw_ext w) x \<Longrightarrow> J (w\<lparr>cw_ext := x\<rparr>)"
  shows "triple (\<lambda>w. scanning known live w0 w \<and> J w) (ignore_missing (kube_io m)) (\<lambda>_ w. scanning known live w0 w \<and> J w) (scanning known live w0)"
  unfolding ignore_missing_def
  by (rule triple_bind[OF triple_catch_kube[where J = J, OF assms]], assumption, assumption) (auto simp: triple_def io_apply split: sum.split)

lemma triple_log:
  assumes "\<And>w. J w \<Longrightarrow> owned (cw_state w) d" "\<And>w ds. J w \<Longrightarrow> J (w\<lparr>cw_deletions := ds\<rparr>)"
  shows "triple (\<lambda>w. scanning known live w0 w \<and> J w) (log_deletion d) (\<lambda>_ w. scanning known live w0 w \<and> J w) E"
  unfolding log_deletion_def
proof (rule triple_mod)
  fix w assume w: "scanning known live w0 w \<and> J w"
  have "advanced known live w (w\<lparr>cw_deletions := cw_deletions w @ [d]\<rparr>)"
    using same_context assms(1) w by (auto simp: advanced_def forward_refl)
  with w assms(2) show "scanning known live w0 (w\<lparr>cw_deletions := cw_deletions w @ [d]\<rparr>) \<and> J (w\<lparr>cw_deletions := cw_deletions w @ [d]\<rparr>)"
    by (auto simp: scanning_def tracked_def intro: advanced_trans)
qed

lemma triple_option:
  "(x = None \<Longrightarrow> triple P m Q E) \<Longrightarrow> (\<And>y. x = Some y \<Longrightarrow> triple P (f y) Q E) \<Longrightarrow>
   triple P (case x of None \<Rightarrow> m | Some y \<Rightarrow> f y) Q E"
  by (cases x) simp_all

definition at_state :: "state \<Rightarrow> 'x cworld \<Rightarrow> bool" where
  "at_state s w \<longleftrightarrow> cw_state w = s"

lemma at_state_ext [simp]: "at_state s (w\<lparr>cw_ext := x\<rparr>) = at_state s w" "at_state s (w\<lparr>cw_deletions := ds\<rparr>) = at_state s w"
  by (simp_all add: at_state_def)

lemma triple_delete_ref:
  assumes K: "honest known live K" and r: "r \<in> set (s_resources s)" "r_namespace r = []"
  shows "triple (\<lambda>w. scanning known live w0 w \<and> at_state s w) (delete_ref K r) (\<lambda>_ w. scanning known live w0 w \<and> at_state s w) (scanning known live w0)"
proof -
  let ?D = "\<lambda>w. scanning known live w0 w \<and> at_state s w" and ?S = "scanning known live w0"
  note k = honest_keeps[OF K]
  have o: "owned s (Deleted_object (location r) (r_uid r))" using r by (auto simp: owned_def)
  have del: "triple ?D (then_io (log_deletion (Deleted_object (location r) (r_uid r)))
      (ignore_missing (kube_io (kb_delete K (location r) (r_uid r))))) (\<lambda>_. ?D) ?S"
    by (rule triple_then[OF triple_log[where J = "at_state s"] triple_ignore_missing[where J = "at_state s", OF k(7)]])
      (use o in \<open>auto simp: at_state_def\<close>)
  have sure: "triple ?D (require b e) (\<lambda>_. ?D) ?S" for b e by (simp add: triple_def io_apply)
  have get: "triple ?D (get_io cw_state) (\<lambda>t w. ?D w \<and> t = s) ?S" by (rule triple_get) (simp add: at_state_def)
  have vol: "triple ?D (kube_io (kb_volume K (r_name r))) (\<lambda>_. ?D) ?S"
    by (rule triple_kube[where J = "at_state s", OF k(8)]) simp
  have claim: "triple ?D (catch_io (kube_io (kb_claim K n m))) (\<lambda>_. ?D) ?S" for n m
    by (rule triple_catch_kube[where J = "at_state s", OF k(9)]) simp
  have read: "triple ?D (catch_io (kube_io (kb_get K (location r)))) (\<lambda>_. ?D) ?S"
    by (rule triple_catch_kube[where J = "at_state s", OF k(6)]) simp
  have fail: "triple ?D (throw e) (\<lambda>_. ?D) ?S" for e by (simp add: triple_def io_apply)
  have claimed: "triple ?D (bind_io (catch_io (kube_io (kb_claim K n m))) (\<lambda>q. case q of
      Inr _ \<Rightarrow> ret () | Inl e \<Rightarrow> if e = ENotFound then then_io (log_deletion (Deleted_object (location r) (r_uid r)))
      (ignore_missing (kube_io (kb_delete K (location r) (r_uid r)))) else throw e)) (\<lambda>_. ?D) ?S" for n m
    by (rule triple_bind[OF claim]) (auto intro: triple_ret del fail split: sum.split)
  have volume: "triple ?D (bind_io (kube_io (kb_volume K (r_name r))) (\<lambda>v.
             bind_io (get_io cw_state) (\<lambda>s.
             then_io (require (lookup_or [] (kv_labels v) run_label = s_token s) (EMsg ''volume ownership label changed''))
             (case kv_claim v of
                None \<Rightarrow> then_io (log_deletion (Deleted_object (location r) (r_uid r)))
      (ignore_missing (kube_io (kb_delete K (location r) (r_uid r))))
              | Some c \<Rightarrow>
                  then_io (require (fst c = s_namespace s) (EMsg ''volume claim namespace changed''))
                  (then_io (require (list_ex (claim_recorded c) (s_resources s)) (EMsg ''volume claim UID changed''))
                  (bind_io (catch_io (kube_io (kb_claim K (s_namespace s) (fst (snd c))))) (\<lambda>q. case q of
                     Inr _ \<Rightarrow> ret ()
                   | Inl e \<Rightarrow> if e = ENotFound then then_io (log_deletion (Deleted_object (location r) (r_uid r)))
      (ignore_missing (kube_io (kb_delete K (location r) (r_uid r)))) else throw e))))))) (\<lambda>_. ?D) ?S"
    by (rule triple_bind[OF vol], rule triple_bind[OF get], rule triple_pure, simp only:, rule triple_then[OF sure],
        rule triple_option, rule del, rule triple_then[OF sure], rule triple_then[OF sure], rule claimed)
  show ?thesis
    unfolding delete_ref_def Let_def
    by (rule triple_bind[OF read]) (use r(2) volume in \<open>auto intro!: triple_ret fail triple_then[OF sure] split: sum.split\<close>)
qed

lemma triple_verify_gone:
  assumes K: "honest known live K"
    and J: "\<And>w x. J w \<Longrightarrow> forward known live (cw_ext w) x \<Longrightarrow> J (w\<lparr>cw_ext := x\<rparr>)"
    and known: "\<And>w r. J w \<Longrightarrow> r \<in> set rs \<Longrightarrow> known (ref_key r) (cw_ext w)"
  shows "triple (\<lambda>w. scanning known live w0 w \<and> J w) (verify_gone K scoped rs absent)
    (\<lambda>b w. scanning known live w0 w \<and> J w \<and>
       (b \<longrightarrow> absent \<and> (\<forall>r \<in> set rs. scoped \<and> r_namespace r \<noteq> [] \<or> \<not> live (ref_key r) (cw_ext w)))) (scanning known live w0)"
  using J known
proof (induction rs arbitrary: J absent)
  case Nil
  show ?case by (simp add: triple_def io_apply)
next
  case (Cons r rs)
  let ?S = "scanning known live w0"
  have kn: "\<And>w r. J w \<Longrightarrow> r \<in> set rs \<Longrightarrow> known (ref_key r) (cw_ext w)" using Cons.prems(2) by simp
  show ?case
  proof (cases "scoped \<and> r_namespace r \<noteq> []")
    case True
    have "triple (\<lambda>w. ?S w \<and> J w) (verify_gone K scoped rs absent)
      (\<lambda>b w. ?S w \<and> J w \<and> (b \<longrightarrow> absent \<and> (\<forall>r \<in> set rs. scoped \<and> r_namespace r \<noteq> [] \<or> \<not> live (ref_key r) (cw_ext w)))) ?S"
      by (rule Cons.IH[where J = J, OF Cons.prems(1) kn])
    then show ?thesis using True by simp
  next
    case False
    let ?G = "\<lambda>w. J w \<and> \<not> live (ref_key r) (cw_ext w)"
    have g: "?G (w\<lparr>cw_ext := x\<rparr>)" if "?G w" "forward known live (cw_ext w) x" for w x
      using that Cons.prems(1)[of w x] Cons.prems(2)[of w r] by (auto simp: forward_def)
    have read: "triple (\<lambda>w. ?S w \<and> J w) (catch_io (kube_io (kb_get K (location r))))
      (\<lambda>q w. (?S w \<and> J w) \<and> (q = Inl ENotFound \<longrightarrow> \<not> live (ref_key r) (cw_ext w))) ?S"
    proof (rule triple_catch_lens)
      fix w :: "'a cworld" and q x assume w: "?S w \<and> J w" and q: "kb_get K (location r) (cw_ext w) = (q, x)"
      have f: "forward known live (cw_ext w) x" using honest_keeps(6)[OF K] q unfolding keeps_def by (metis snd_conv)
      have "\<not> live (ref_key r) x" if "q = Inl ENotFound" using honest_absent(1)[OF K] q that by metis
      with w f Cons.prems(1) scanning_ext
      show "(?S (w\<lparr>cw_ext := x\<rparr>) \<and> J (w\<lparr>cw_ext := x\<rparr>)) \<and> (q = Inl ENotFound \<longrightarrow> \<not> live (ref_key r) (cw_ext (w\<lparr>cw_ext := x\<rparr>)))" by auto
    qed
    have gone: "triple (\<lambda>w. ?S w \<and> ?G w) (verify_gone K scoped rs absent)
      (\<lambda>b w. ?S w \<and> ?G w \<and> (b \<longrightarrow> absent \<and> (\<forall>r \<in> set rs. scoped \<and> r_namespace r \<noteq> [] \<or> \<not> live (ref_key r) (cw_ext w)))) ?S"
      by (rule Cons.IH[where J = ?G, OF g]) (use kn in auto)
    have there: "triple (\<lambda>w. ?S w \<and> J w) (verify_gone K scoped rs False)
      (\<lambda>b w. ?S w \<and> J w \<and> (b \<longrightarrow> False \<and> (\<forall>r \<in> set rs. scoped \<and> r_namespace r \<noteq> [] \<or> \<not> live (ref_key r) (cw_ext w)))) ?S"
      by (rule Cons.IH[where J = J, OF Cons.prems(1) kn])
    have sure: "triple (\<lambda>w. (?S w \<and> J w) \<and> P w) (require b e) (\<lambda>_ w. ?S w \<and> J w) ?S" for b e and P :: "'a cworld \<Rightarrow> bool"
      by (simp add: triple_def io_apply)
    have fail: "triple (\<lambda>w. (?S w \<and> J w) \<and> P w) (throw e) Q ?S" for e Q and P :: "'a cworld \<Rightarrow> bool"
      by (simp add: triple_def io_apply)
    have step: "triple (\<lambda>w. (?S w \<and> J w) \<and> (q = Inl ENotFound \<longrightarrow> \<not> live (ref_key r) (cw_ext w))) (case q of
        Inl e \<Rightarrow> if e = ENotFound then verify_gone K scoped rs absent else throw e
      | Inr uid \<Rightarrow> then_io (require (uid = r_uid r) (EMsg ''tracked resource was replaced during verification'')) (verify_gone K scoped rs False))
      (\<lambda>b w. ?S w \<and> J w \<and> (b \<longrightarrow> absent \<and> (\<forall>r \<in> set (r # rs). scoped \<and> r_namespace r \<noteq> [] \<or> \<not> live (ref_key r) (cw_ext w)))) ?S" for q
    proof (cases q)
      case (Inl e)
      show ?thesis
      proof (cases "e = ENotFound")
        case True
        have "triple (\<lambda>w. ?S w \<and> ?G w) (verify_gone K scoped rs absent)
          (\<lambda>b w. ?S w \<and> J w \<and> (b \<longrightarrow> absent \<and> (\<forall>r \<in> set (r # rs). scoped \<and> r_namespace r \<noteq> [] \<or> \<not> live (ref_key r) (cw_ext w)))) ?S"
          by (rule triple_post[OF gone]) simp
        then show ?thesis by (simp add: Inl True)
      qed (simp add: Inl triple_def io_apply)
    next
      case (Inr uid)
      show ?thesis unfolding Inr sum.case
        by (rule triple_then[OF sure], rule triple_post[OF there]) simp
    qed
    show ?thesis using False by (simp only: verify_gone.simps if_False) (rule triple_bind[OF read step])
  qed
qed

definition settled :: "(string \<Rightarrow> 'x \<Rightarrow> bool) \<Rightarrow> 'x cworld \<Rightarrow> bool" where
  \<comment> \<open>nothing of the inventory exists any more\<close>
  "settled live w \<longleftrightarrow> (\<forall>k \<in> keys (cw_state w). \<not> live k (cw_ext w))"

lemma inventoried_ext [simp]: "inventoried (w\<lparr>cw_ext := x\<rparr>) = inventoried w" "inventoried (w\<lparr>cw_deletions := ds\<rparr>) = inventoried w"
  by (simp_all add: inventoried_def in_scope_def)

lemma deserted_ext:
  "deserted live w \<Longrightarrow> tracked known w \<Longrightarrow> forward known live (cw_ext w) x \<Longrightarrow> deserted live (w\<lparr>cw_ext := x\<rparr>)"
  by (auto simp: deserted_def tracked_def forward_def)

lemma triple_again:
  assumes K: "honest known live K"
  shows "triple (\<lambda>w. scanning known live w0 w \<and> inventoried w \<and> at_state s w \<and> deserted live w) (inventory K n)
    (\<lambda>_ w. scanning known live w0 w \<and> inventoried w \<and>
       (length (s_resources (cw_state w)) = length (s_resources s) \<longrightarrow> deserted live w)) (scanning known live w0)"
proof (rule tripleI)
  fix w assume w: "scanning known live w0 w \<and> inventoried w \<and> at_state s w \<and> deserted live w"
  then have w1: "scanning known live w w" by (simp add: scanning_def advanced_refl)
  have tr: "scanning known live w0 v" if "scanning known live w v" for v
    using w that unfolding scanning_def by (blast intro: advanced_trans)
  have des: "deserted live v" if v: "scanning known live w v" "inventoried v" "length (s_resources (cw_state v)) = length (s_resources s)" for v
  proof -
    have st: "s_namespace (cw_state v) = s_namespace (cw_state w)" and sub: "keys (cw_state w) \<subseteq> keys (cw_state v)"
      and f: "forward known live (cw_ext w) (cw_ext v)"
      using v(1) advanced_state(1) by (auto simp: scanning_def advanced_def)
    have "card (keys (cw_state v)) = length (s_resources (cw_state v))" if "inventoried v" for v :: "'a cworld"
      using that distinct_card[of "map ref_key (s_resources (cw_state v))"] by (simp add: inventoried_def)
    from this[of v] this[of w] v(2,3) w have "card (keys (cw_state v)) = card (keys (cw_state w))" by (simp add: at_state_def)
    with sub have "keys (cw_state w) = keys (cw_state v)" by (intro card_subset_eq) simp_all
    moreover have "tracked known w" using w by (simp add: scanning_def)
    ultimately show ?thesis using w f unfolding deserted_def tracked_def forward_def st by blast
  qed
  obtain r v where v: "inventory K n w = (r, v)" by fastforce
  show "case inventory K n w of (Inr x, t) \<Rightarrow> scanning known live w0 t \<and> inventoried t \<and>
       (length (s_resources (cw_state t)) = length (s_resources s) \<longrightarrow> deserted live t) | (Inl e, t) \<Rightarrow> scanning known live w0 t"
  proof (cases r)
    case (Inl e)
    with tripleE[OF triple_inventory[OF K, of w n] w1] v tr show ?thesis by auto
  next
    case (Inr u)
    with tripleD[OF triple_inventory[OF K, of w n] w1] v have "scanning known live w v \<and> inventoried v" by auto
    with v Inr tr des show ?thesis by auto
  qed
qed

lemma triple_state:
  assumes "triple (\<lambda>w. scanning known live w0 w \<and> at_state s w) m (\<lambda>_ w. scanning known live w0 w \<and> at_state s w) E"
  shows "triple (\<lambda>w. scanning known live w0 w \<and> inventoried w \<and> at_state s w) m
    (\<lambda>_ w. scanning known live w0 w \<and> inventoried w \<and> at_state s w) E"
proof (rule tripleI)
  fix w assume w: "scanning known live w0 w \<and> inventoried w \<and> at_state s w"
  obtain r v where v: "m w = (r, v)" by fastforce
  have i: "inventoried v" if "at_state s v" using that w by (auto simp: at_state_def inventoried_def in_scope_def)
  show "case m w of (Inr x, t) \<Rightarrow> scanning known live w0 t \<and> inventoried t \<and> at_state s t | (Inl e, t) \<Rightarrow> E t"
    using tripleD[OF assms, of w] tripleE[OF assms, of w] w v i by (cases r) auto
qed

lemma triple_round:
  assumes K: "honest known live K"
  shows "triple (\<lambda>w. scanning known live w0 w \<and> inventoried w) (removal_round K n)
    (\<lambda>b w. (scanning known live w0 w \<and> inventoried w) \<and> (b \<longrightarrow> settled live w)) (scanning known live w0)"
proof -
  let ?S = "scanning known live w0"
  have read: "triple (\<lambda>w. ?S w \<and> inventoried w) (get_io cw_state) (\<lambda>s w. (?S w \<and> inventoried w \<and> at_state s w)) ?S"
    by (rule triple_get) (simp add: at_state_def)
  have deletes: "triple (\<lambda>w. ?S w \<and> inventoried w \<and> at_state s w)
      (for_io (filter (\<lambda>r. r_namespace r = [] \<and> \<not> s_namespace_scoped s) (s_resources s)) (delete_ref K))
      (\<lambda>_ w. ?S w \<and> inventoried w \<and> at_state s w) ?S" for s
  proof -
    have "triple (\<lambda>w. ?S w \<and> at_state s w)
      (for_io (filter (\<lambda>r. r_namespace r = [] \<and> \<not> s_namespace_scoped s) (s_resources s)) (delete_ref K)) (\<lambda>_ w. ?S w \<and> at_state s w) ?S"
      by (rule triple_for) (auto intro: triple_delete_ref[OF K])
    then show ?thesis by (rule triple_state)
  qed
  have check: "triple (\<lambda>w. ?S w \<and> inventoried w \<and> at_state s w) (check_owned K)
      (\<lambda>b w. (?S w \<and> inventoried w \<and> at_state s w) \<and> (\<not> b \<longrightarrow> deserted live w)) ?S" for s
    unfolding check_owned_def
    by (rule triple_bind[OF triple_check[OF K, where J = "\<lambda>w. inventoried w \<and> at_state s w"]]) (auto intro: triple_ret)
  have again: "triple (\<lambda>w. (?S w \<and> inventoried w \<and> at_state s w) \<and> (\<not> b \<longrightarrow> deserted live w))
      (if b then ret False else then_io (inventory K n) (bind_io (get_io cw_state) (\<lambda>t. ret (length (s_resources t) = length (s_resources s)))))
      (\<lambda>absent w. ?S w \<and> inventoried w \<and> (absent \<longrightarrow> deserted live w)) ?S" for b s
  proof (cases b)
    case True
    then show ?thesis by (auto intro: triple_ret)
  next
    case False
    have "triple (\<lambda>w. ?S w \<and> inventoried w \<and> at_state s w \<and> deserted live w)
      (then_io (inventory K n) (bind_io (get_io cw_state) (\<lambda>t. ret (length (s_resources t) = length (s_resources s)))))
      (\<lambda>absent w. ?S w \<and> inventoried w \<and> (absent \<longrightarrow> deserted live w)) ?S"
      by (rule triple_then[OF triple_again[OF K]]) (simp add: triple_def io_apply)
    then have "triple (\<lambda>w. (?S w \<and> inventoried w \<and> at_state s w) \<and> (\<not> b \<longrightarrow> deserted live w))
      (then_io (inventory K n) (bind_io (get_io cw_state) (\<lambda>t. ret (length (s_resources t) = length (s_resources s)))))
      (\<lambda>absent w. ?S w \<and> inventoried w \<and> (absent \<longrightarrow> deserted live w)) ?S"
      by (rule triple_pre) (simp add: False)
    with False show ?thesis by simp
  qed
  have verify: "triple (\<lambda>w. ?S w \<and> inventoried w \<and> (absent \<longrightarrow> deserted live w))
      (bind_io (get_io cw_state) (\<lambda>t. verify_gone K (s_namespace_scoped t) (s_resources t) absent))
      (\<lambda>b w. (?S w \<and> inventoried w) \<and> (b \<longrightarrow> settled live w)) ?S" for absent
  proof (rule triple_bind[where Q = "\<lambda>t w. ?S w \<and> (inventoried w \<and> tracked known w \<and> at_state t w \<and> (absent \<longrightarrow> deserted live w))"])
    fix t
    let ?J = "\<lambda>w. inventoried w \<and> tracked known w \<and> at_state t w \<and> (absent \<longrightarrow> deserted live w)"
    show "triple (\<lambda>w. ?S w \<and> ?J w) (verify_gone K (s_namespace_scoped t) (s_resources t) absent)
      (\<lambda>b w. (?S w \<and> inventoried w) \<and> (b \<longrightarrow> settled live w)) ?S"
    proof (rule triple_post[OF triple_verify_gone[OF K, where J = ?J]])
      fix w x assume "?J w" "forward known live (cw_ext w) x"
      then show "?J (w\<lparr>cw_ext := x\<rparr>)" by (simp add: tracked_ext) (blast intro: deserted_ext)
    next
      fix w r assume "?J w" "r \<in> set (s_resources t)"
      then show "known (ref_key r) (cw_ext w)" by (simp add: tracked_def at_state_def)
    next
      fix b w
      assume w: "?S w \<and> ?J w \<and> (b \<longrightarrow> absent \<and> (\<forall>r \<in> set (s_resources t). s_namespace_scoped t \<and> r_namespace r \<noteq> [] \<or> \<not> live (ref_key r) (cw_ext w)))"
      have "\<not> live (ref_key r) (cw_ext w)" if "b" "r \<in> set (s_resources (cw_state w))" for r
        using w that by (auto simp: at_state_def inventoried_def in_scope_def deserted_def)
      with w show "(?S w \<and> inventoried w) \<and> (b \<longrightarrow> settled live w)" by (simp add: settled_def)
    qed
  qed (auto intro!: triple_get simp: at_state_def scanning_def)
  show ?thesis
    unfolding removal_round_def
    by (rule triple_bind[OF read], rule triple_then[OF deletes], rule triple_bind[OF check], rule triple_bind[OF again], rule verify)
qed

lemma triple_await:
  assumes K: "honest known live K"
  shows "triple (\<lambda>w. scanning known live w0 w \<and> inventoried w) (await_absence K n ticks)
    (\<lambda>_ w. (scanning known live w0 w \<and> inventoried w) \<and> settled live w) (scanning known live w0)"
proof (induction ticks)
  case 0
  show ?case unfolding await_absence.simps by (rule triple_bind[OF triple_round[OF K]]) (simp add: triple_def io_apply)
next
  case (Suc ticks)
  have "triple (\<lambda>w. (scanning known live w0 w \<and> inventoried w) \<and> (b \<longrightarrow> settled live w)) (if b then ret () else await_absence K n ticks)
    (\<lambda>_ w. (scanning known live w0 w \<and> inventoried w) \<and> settled live w) (scanning known live w0)" for b
    using Suc by (cases b) (auto intro: triple_ret)
  then show ?case unfolding await_absence.simps by (rule triple_bind[OF triple_round[OF K]])
qed

lemma triple_remove:
  assumes K: "honest known live K"
  shows "triple (scanning known live w0) (remove_resources K n ticks)
    (\<lambda>_ w. (scanning known live w0 w \<and> inventoried w) \<and> settled live w) (scanning known live w0)"
proof -
  let ?S = "scanning known live w0" and ?I = "\<lambda>w. scanning known live w0 w \<and> inventoried w"
  have check: "triple ?I (check_owned K) (\<lambda>_. ?I) ?S"
    unfolding check_owned_def
    by (rule triple_bind[OF triple_check[OF K, where J = inventoried]]) (auto intro: triple_ret)
  have read: "triple ?I (get_io cw_state) (\<lambda>s w. ?S w \<and> (inventoried w \<and> at_state s w)) ?S" by (rule triple_get) (simp add: at_state_def)
  have log: "triple (\<lambda>w. ?S w \<and> (inventoried w \<and> at_state s w)) (log_deletion (Deleted_namespace (s_namespace s) (s_namespace_uid s)))
      (\<lambda>_ w. ?S w \<and> (inventoried w \<and> at_state s w)) ?S" for s
    by (rule triple_log) (auto simp: owned_def at_state_def)
  have del: "triple (\<lambda>w. ?S w \<and> (inventoried w \<and> at_state s w)) (ignore_missing (kube_io (kb_delete_namespace K a b)))
      (\<lambda>_ w. ?S w \<and> (inventoried w \<and> at_state s w)) ?S" for s a b
    by (rule triple_ignore_missing[where J = "\<lambda>w. inventoried w \<and> at_state s w", OF honest_keeps(2)[OF K]]) simp
  have cond: "triple ?I (if b then bind_io (get_io cw_state) (\<lambda>s.
           then_io (log_deletion (Deleted_namespace (s_namespace s) (s_namespace_uid s)))
             (ignore_missing (kube_io (kb_delete_namespace K (s_namespace s) (s_namespace_uid s)))))
         else ret ()) (\<lambda>_. ?I) ?S" for b
  proof (cases b)
    case True
    have "triple ?I (bind_io (get_io cw_state) (\<lambda>s.
           then_io (log_deletion (Deleted_namespace (s_namespace s) (s_namespace_uid s)))
             (ignore_missing (kube_io (kb_delete_namespace K (s_namespace s) (s_namespace_uid s)))))) (\<lambda>_. ?I) ?S"
      by (rule triple_bind[OF read], rule triple_then[OF log], rule triple_post[OF del]) simp
    with True show ?thesis by simp
  qed (simp add: triple_ret)
  show ?thesis
    unfolding remove_resources_def
    by (rule triple_then[OF triple_inventory[OF K]], rule triple_bind[OF check], rule triple_then[OF cond], rule triple_await[OF K])
qed

section \<open>What a cleanup records\<close>

definition emptied :: "state \<Rightarrow> string \<Rightarrow> fsworld \<Rightarrow> bool" where
  "emptied s name f \<longleftrightarrow> (\<exists>i es j. fs_at f (s_sandbox s) = Some (Dir i es) \<and> map_of es name = Some (Dir j []))"

definition same_entry :: "string \<Rightarrow> box \<Rightarrow> box \<Rightarrow> bool" where
  "same_entry name b b' \<longleftrightarrow> map_of (bx_entries b') name = map_of (bx_entries b) name"

interpretation entry: two_state "same_entry name" for name
  by unfold_locales (auto simp: same_entry_def)

lemma keeps_entry_leaf: "keeps (same_entry other) (bx_sys E)"
  by (simp add: keeps_def bx_sys_def same_entry_def)

lemma wipe_box_other:
  assumes "other \<noteq> name"
  shows "keeps (same_entry other) (wipe_box E s name i)"
proof -
  have w: "keeps (same_entry other) (within name m)" for m :: "(box, unit) io"
    using assms by (auto simp: keeps_def within_def same_entry_def update_conv split: option.split fnode.split prod.split)
  have m: "keeps (same_entry other) (marker_ok E s)" and c: "keeps (same_entry other) (child_directory E name)"
    and p: "keeps (same_entry other) (pin_directory E a b)" for a b
    unfolding marker_ok_def child_directory_def pin_directory_def
    by (auto intro!: entry.keeps_then entry.keeps_bind entry.keeps_catch entry.keeps_require entry.keeps_throw entry.keeps_ret entry.keeps_get
        keeps_entry_leaf split: fnode.split option.split)
  show ?thesis unfolding wipe_box_def by (intro entry.keeps_then entry.keeps_bind w m c p)
qed

lemma wipe_emptied_other:
  assumes "wipe E s name f = (r, f')" "other \<noteq> name" "emptied s other f"
  shows "emptied s other f'"
proof -
  have k: "map_of (bx_entries b) other = map_of es other"
    if "wipe_box E s name i \<lparr>bx_entries = es, bx_budget = 10000, bx_tick = t\<rparr> = (q, b)" for i es t q b
    using entry.keepsD[OF wipe_box_other[OF assms(2)] that] by (simp add: same_entry_def)
  from assms(1,3) show ?thesis
    by (auto simp: wipe_def io_apply emptied_def k split: option.splits fnode.splits prod.splits sum.splits if_splits)
qed

lemma wipe_emptied: "wipe E s name f = (Inr u, f') \<Longrightarrow> emptied s name f'"
  by (drule wipe_wiped) (auto simp: wiped_def emptied_def update_conv)

lemma record_obs_verified:
  "o_status (cov (s_coverage (record_obs c st re s)) c) = ''verified'' \<Longrightarrow> st = ''verified''"
  by (auto simp: record_obs_def Let_def split: if_splits)

lemma record_obs_same [simp]:
  "s_sandbox (record_obs c st re s) = s_sandbox s" "s_directories (record_obs c st re s) = s_directories s"
  "s_resources (record_obs c st re s) = s_resources s" "s_namespace (record_obs c st re s) = s_namespace s"
  "s_namespace_uid (record_obs c st re s) = s_namespace_uid s" "s_inventory_complete (record_obs c st re s) = s_inventory_complete s"
  "s_namespace_scoped (record_obs c st re s) = s_namespace_scoped s" "s_attempts (record_obs c st re s) = s_attempts s"
  by (simp_all add: record_obs_def Let_def)

lemma wipe_recorded_result:
  obtains e st re f where "wipe_recorded E name w = (Inr e, w\<lparr>cw_state := record_obs name st re (cw_state w), cw_files := f\<rparr>)"
    "st = ''verified'' \<Longrightarrow> e = None \<and> emptied (cw_state w) name f" "e = None \<longleftrightarrow> st = ''verified''"
    "\<And>other. other \<noteq> name \<Longrightarrow> emptied (cw_state w) other (cw_files w) \<Longrightarrow> emptied (cw_state w) other f"
proof -
  obtain r f where f: "wipe (ce_files E) (cw_state w) name (cw_files w) = (r, f)" by fastforce
  note other = wipe_emptied_other[OF f]
  show thesis
  proof (cases r)
    case (Inl e)
    show thesis
      by (rule that[where e = "Some e" and st = "''failed''" and re = "ce_text E e" and f = f])
        (use f Inl other in \<open>auto simp: wipe_recorded_def io_apply lens_io_def set_state_def\<close>)
  next
    case (Inr u)
    show thesis
      by (rule that[where e = None and st = "''verified''" and re = "''Disposable directory is empty; symlink targets were not followed''" and f = f])
        (use f Inr other wipe_emptied[of "ce_files E" "cw_state w" name "cw_files w" u f] in \<open>auto simp: wipe_recorded_def io_apply lens_io_def set_state_def\<close>)
  qed
qed

lemma wipe_recorded_ex:
  "\<exists>e st re f. wipe_recorded E name w = (Inr e, w\<lparr>cw_state := record_obs name st re (cw_state w), cw_files := f\<rparr>) \<and>
     (st = ''verified'' \<longrightarrow> emptied (cw_state w) name f) \<and> (e = None \<longleftrightarrow> st = ''verified'') \<and>
     (\<forall>other. other \<noteq> name \<longrightarrow> emptied (cw_state w) other (cw_files w) \<longrightarrow> emptied (cw_state w) other f)"
  by (rule wipe_recorded_result[of E name w]) blast

lemma removal_recorded_result:
  assumes K: "honest known live K" and t: "tracked known w"
  obtains e st re v where "removal_recorded K E w = (Inr e, v\<lparr>cw_state := record_obs ''resources'' st re (cw_state v)\<rparr>)"
    "advanced known live w v" "st = ''verified'' \<Longrightarrow> inventoried v \<and> settled live v" "e = None \<longleftrightarrow> st = ''verified''"
proof -
  obtain r v where v: "remove_resources K (ce_pages E) (ce_ticks E) w = (r, v)" by fastforce
  have s: "scanning known live w w" using t by (simp add: scanning_def advanced_refl)
  note d = tripleD[OF triple_remove[OF K] s] and x = tripleE[OF triple_remove[OF K] s]
  show thesis
  proof (cases r)
    case (Inl e)
    with x v have a: "advanced known live w v" by (simp add: scanning_def)
    show thesis
      by (rule that[OF _ a, where e = "Some e" and st = "''failed''" and re = "ce_text E e"]) (use v Inl in \<open>simp_all add: removal_recorded_def io_apply set_state_def\<close>)
  next
    case (Inr u)
    with d v have a: "advanced known live w v" "inventoried v \<and> settled live v" by (simp_all add: scanning_def)
    show thesis
      by (rule that[OF _ a(1), where e = None and st = "''verified''" and re = "removed_reason (s_namespace_scoped (cw_state v))"])
        (use v Inr a(2) in \<open>simp_all add: removal_recorded_def io_apply set_state_def\<close>)
  qed
qed

lemma emptied_state: "s_sandbox s' = s_sandbox s \<Longrightarrow> emptied s' name f = emptied s name f"
  by (simp add: emptied_def)

lemma settled_advance:
  assumes "settled live v" "cw_ext w = cw_ext v" "s_resources (cw_state w) = s_resources (cw_state v)"
  shows "settled live w"
  using assms by (simp add: settled_def)

lemma cleanup_outcome:
  fixes w :: "'x cworld"
  assumes K: "honest known live K" and t: "tracked known w" and c: "cleanup K E w = (r, w')"
  defines "st \<equiv> \<lambda>name. o_status (cov (s_coverage (cw_state w')) name)"
  shows "\<exists>e. r = Inr e \<and> s_attempts (cw_state w') = s_attempts (cw_state w) + 1 \<and> s_completed (cw_state w') = Some (ce_now E) \<and>
    (\<forall>name \<in> {''workspace'', ''credentials''}. st name = ''verified'' \<longrightarrow> emptied (cw_state w') name (cw_files w')) \<and>
    (st ''resources'' = ''verified'' \<or> st ''credentials'' = ''verified'' \<longrightarrow> inventoried w' \<and> settled live w') \<and>
    (e = None \<longrightarrow> emptied (cw_state w') ''workspace'' (cw_files w') \<and> emptied (cw_state w') ''credentials'' (cw_files w') \<and>
       inventoried w' \<and> settled live w') \<and>
    (\<exists>ds. cw_deletions w' = cw_deletions w @ ds \<and> (\<forall>d \<in> set ds. owned (cw_state w') d))"
proof -
  define w1 where "w1 = w\<lparr>cw_state := (cw_state w)\<lparr>s_attempts := s_attempts (cw_state w) + 1\<rparr>\<rparr>"
  obtain e1 st1 re1 f1 where a1: "wipe_recorded E ''workspace'' w1 = (Inr e1, w1\<lparr>cw_state := record_obs ''workspace'' st1 re1 (cw_state w1), cw_files := f1\<rparr>)"
    and b1: "st1 = ''verified'' \<longrightarrow> emptied (cw_state w1) ''workspace'' f1" "e1 = None \<longleftrightarrow> st1 = ''verified''"
    using wipe_recorded_ex[of E "''workspace''" w1] by blast
  define w2 where "w2 = w1\<lparr>cw_state := record_obs ''workspace'' st1 re1 (cw_state w1), cw_files := f1\<rparr>"
  obtain e2 st2 re2 f2 where a2: "wipe_recorded E ''credentials'' w2 = (Inr e2, w2\<lparr>cw_state := record_obs ''credentials'' st2 re2 (cw_state w2), cw_files := f2\<rparr>)"
    and b2: "st2 = ''verified'' \<longrightarrow> emptied (cw_state w2) ''credentials'' f2" "e2 = None \<longleftrightarrow> st2 = ''verified''"
      "\<forall>other. other \<noteq> ''credentials'' \<longrightarrow> emptied (cw_state w2) other (cw_files w2) \<longrightarrow> emptied (cw_state w2) other f2"
    using wipe_recorded_ex[of E "''credentials''" w2] by blast
  define w3 where "w3 = w2\<lparr>cw_state := record_obs ''credentials'' st2 re2 (cw_state w2), cw_files := f2\<rparr>"
  have "tracked known w3" using t by (simp add: tracked_def w1_def w2_def w3_def)
  from removal_recorded_result[OF K this, of E] obtain e3 st3 re3 v where
    a3: "removal_recorded K E w3 = (Inr e3, v\<lparr>cw_state := record_obs ''resources'' st3 re3 (cw_state v)\<rparr>)"
    and b3: "advanced known live w3 v" "st3 = ''verified'' \<Longrightarrow> inventoried v \<and> settled live v" "e3 = None \<longleftrightarrow> st3 = ''verified''" by blast
  let ?s3 = "record_obs ''credentials'' st2 re2 (record_obs ''workspace'' st1 re1 (cw_state w1))"
  let ?s4 = "record_obs ''resources'' st3 re3 (cw_state v)"
  let ?s5 = "if e3 \<noteq> None then record_obs ''credentials'' ''failed'' ''Kubernetes service-account absence could not be confirmed'' ?s4 else ?s4"
  note a1' = a1[folded w2_def, unfolded w1_def] and a2' = a2[folded w3_def]
  have res: "r = Inr (join_err (join_err e1 e2) e3)" and w': "w' = v\<lparr>cw_state := ?s5\<lparr>s_completed := Some (ce_now E)\<rparr>\<rparr>"
    using c unfolding cleanup_def by (auto simp: io_apply set_state_def a1' a2' a3 split: if_splits)
  have cov: "cov (s_coverage (cw_state v)) k = cov (s_coverage ?s3) k" for k using advanced_state(4)[OF b3(1)] by (simp add: w2_def w3_def)
  have frame: "s_sandbox (cw_state w') = s_sandbox (cw_state w)" "cw_files w' = f2" "cw_ext w' = cw_ext v"
    "s_resources (cw_state w') = s_resources (cw_state v)" "s_namespace (cw_state w') = s_namespace (cw_state v)"
    "s_namespace_uid (cw_state w') = s_namespace_uid (cw_state v)" "s_inventory_complete (cw_state w') = s_inventory_complete (cw_state v)"
    "cw_deletions w' = cw_deletions v" using b3(1) advanced_state(6)[OF b3(1)] by (auto simp: w' advanced_def w1_def w2_def w3_def)
  have ws: "emptied (cw_state w') ''workspace'' (cw_files w')" if "st1 = ''verified''"
    using b1(1) b2(3) frame(1,2) that by (simp add: emptied_def w1_def w2_def)
  have cr: "emptied (cw_state w') ''credentials'' (cw_files w')" if "st2 = ''verified''"
    using b2(1) frame(1,2) that by (simp add: emptied_def w1_def w2_def)
  have gone: "inventoried w' \<and> settled live w'" if "st3 = ''verified''"
    using b3(2)[OF that] frame by (simp add: settled_def inventoried_def in_scope_def)
  have s1: "st1 = ''verified''" if "st ''workspace'' = ''verified''"
  proof -
    have "o_status (cov (s_coverage (record_obs ''workspace'' st1 re1 (cw_state w1))) ''workspace'') = ''verified''"
      using that by (simp add: st_def w' record_obs_frame cov split: if_splits)
    then show ?thesis by (rule record_obs_verified)
  qed
  have s3: "st3 = ''verified''" if "st ''resources'' = ''verified''"
  proof -
    have "o_status (cov (s_coverage ?s4) ''resources'') = ''verified''" using that by (simp add: st_def w' record_obs_frame split: if_splits)
    then show ?thesis by (rule record_obs_verified)
  qed
  have s23: "st3 = ''verified'' \<and> st2 = ''verified''" if "st ''credentials'' = ''verified''"
  proof (cases "e3 = None")
    case True
    with that have "o_status (cov (s_coverage ?s3) ''credentials'') = ''verified''" by (simp add: st_def w' record_obs_frame cov)
    then have "st2 = ''verified''" by (rule record_obs_verified)
    with b3(3) True show ?thesis by simp
  next
    case False
    with that have "o_status (cov (s_coverage (record_obs ''credentials'' ''failed''
      ''Kubernetes service-account absence could not be confirmed'' ?s4)) ''credentials'') = ''verified''" by (simp add: st_def w')
    then have "''failed'' = ''verified''" by (rule record_obs_verified)
    then show ?thesis by simp
  qed
  from b3(1) obtain ds where ds: "cw_deletions v = cw_deletions w @ ds" "\<forall>d \<in> set ds. owned (cw_state v) d"
    by (auto simp: advanced_def w1_def w2_def w3_def)
  have o: "owned (cw_state w') d" if "owned (cw_state v) d" for d
    using that frame by (auto simp: owned_def split: deletion.splits)
  have att: "s_attempts (cw_state w') = s_attempts (cw_state w) + 1 \<and> s_completed (cw_state w') = Some (ce_now E)"
  proof -
    have "s_attempts (cw_state v) = s_attempts (cw_state w3)" using b3(1) by (auto simp: advanced_def)
    then show ?thesis by (simp add: w' w1_def w2_def w3_def)
  qed
  show ?thesis
  proof (intro exI conjI)
    show "r = Inr (join_err (join_err e1 e2) e3)" by (rule res)
    show "\<forall>name \<in> {''workspace'', ''credentials''}. st name = ''verified'' \<longrightarrow> emptied (cw_state w') name (cw_files w')"
      using ws cr s1 s23 by auto
    show "st ''resources'' = ''verified'' \<or> st ''credentials'' = ''verified'' \<longrightarrow> inventoried w' \<and> settled live w'" using gone s3 s23 by blast
    show "join_err (join_err e1 e2) e3 = None \<longrightarrow> emptied (cw_state w') ''workspace'' (cw_files w') \<and>
       emptied (cw_state w') ''credentials'' (cw_files w') \<and> inventoried w' \<and> settled live w'"
      using b1(2) b2(2) b3(3) ws cr gone by simp
    show "cw_deletions w' = cw_deletions w @ ds" using ds(1) frame(8) by simp
    show "\<forall>d \<in> set ds. owned (cw_state w') d" using ds(2) o by blast
  qed (use att in simp_all)
qed

text \<open>A context that \<open>Begin\<close> returns is valid, fresh and owns a prepared sandbox.\<close>

lemma begin_cleanup_result:
  assumes "begin_cleanup K E i rand now absolute resolved w = (Inr u, w')"
  shows "state_validate (cw_state w') = None \<and> s_identity (cw_state w') = i \<and> s_resources (cw_state w') = [] \<and>
    s_attempts (cw_state w') = 0 \<and> prepared (cw_state w') (cw_files w')"
proof -
  from assms obtain s0 s1 a b f f' uid x where s0: "new_state i rand now = Inr s0"
    and p: "prepare_sandbox E absolute resolved (s0\<lparr>s_cluster_uid := a\<rparr>) f = (Inr s1, f')"
    and w': "cw_state w' = s1\<lparr>s_namespace_uid := uid\<rparr>" "cw_files w' = f'" "state_validate (s1\<lparr>s_namespace_uid := uid\<rparr>) = None"
    by (auto simp: begin_cleanup_def Inr_iffs Let_def set_state_def lens_io_def io_apply split: prod.splits sum.splits)
  have f: "s_identity s1 = s_identity s0 \<and> s_resources s1 = s_resources s0 \<and> s_attempts s1 = s_attempts s0"
    using p by (auto simp: prepare_sandbox_def Let_def Inr_iffs)
  have n: "s_identity s0 = i \<and> s_resources s0 = [] \<and> s_attempts s0 = 0"
    using s0 by (auto simp: new_state_def split: option.splits sum.splits)
  from prepare_prepared[OF p] have "prepared s1 f'" by simp
  then have "prepared (cw_state w') (cw_files w')" by (simp add: prepared_def w')
  with f n w' show ?thesis by simp
qed

end
