(* ===== verification/Cluster.thy ===== *)
theory Cluster
  imports Observations Staging
begin

text \<open>
  What the coordinator works on: the objects of the Kubernetes API as far as the code reads them, the
  API server and the node's Docker command line as parameters with a state of their own, and the
  coordinator's world: the ledger in memory, the run directory, and a record of what it asked to be
  created and deleted. Two relations between worlds say what never changes during a run.
\<close>

section \<open>Objects\<close>

record kmeta =
  km_uid :: string
  km_labels :: "string gomap"
  km_deleting :: bool
  km_version :: string

record kconfig =
  kc_meta :: kmeta
  kc_data :: "string gomap"

datatype cstate = Waiting | Running | Terminated int string

record kstatus =
  ks_name :: string
  ks_container :: string
  ks_image :: string
  ks_restarts :: int
  ks_state :: cstate

record kpod =
  kp_name :: string
  kp_namespace :: string
  kp_meta :: kmeta
  kp_owners :: "(string \<times> string) list" \<comment> \<open>UID and kind\<close>
  kp_host_network :: bool
  kp_node :: string
  kp_ip :: string
  kp_init :: "kstatus list"
  kp_statuses :: "kstatus list"
  kp_phase :: string

record kjob =
  kj_meta :: kmeta
  kj_conditions :: "(string \<times> bool) list" \<comment> \<open>type, and whether the status is True\<close>

record knode =
  nd_name :: string
  nd_addresses :: "(string \<times> string) list" \<comment> \<open>type and address\<close>

text \<open>The three kinds of objects the coordinator deletes.\<close>

datatype okind = Namespaces | Cluster_roles | Cluster_role_bindings

text \<open>
  The objects \<open>provision\<close> creates, with the fields it sets that differ between them or between runs;
  fields that are the same constants in every run are not represented.
\<close>

type_synonym policy_rule = "string list \<times> string list \<times> string list \<times> string list" \<comment> \<open>groups, resources, names, verbs\<close>
type_synonym egress_rule = "string \<times> int" \<comment> \<open>CIDR and TCP port\<close>

datatype manifest =
    New_namespace string "string gomap"
  | New_quota string "string gomap" "(string \<times> string) list"
  | New_policy string "string gomap" "egress_rule list"
  | New_account string string "string gomap"
  | New_config string string "string gomap" bool "string gomap" \<comment> \<open>namespace, name, labels, immutable, data\<close>
  | New_role string string "string gomap" "policy_rule list"
  | New_role_binding string string "string gomap" string
  | New_cluster_role string "string gomap" "policy_rule list"
  | New_cluster_role_binding string "string gomap" string
  | New_job string "string gomap" string "string list" int "(string \<times> string) list"
      \<comment> \<open>namespace, labels, image, arguments, deadline, environment\<close>

record 'x capi =
  \<comment> \<open>\<open>Coordinator.K\<close>, the exec stream and \<open>docker\<close>\<close>
  ca_get :: "okind \<Rightarrow> string \<Rightarrow> ('x, kmeta) io"
  ca_delete :: "okind \<Rightarrow> string \<Rightarrow> string \<Rightarrow> ('x, unit) io"
  ca_create :: "manifest \<Rightarrow> ('x, kmeta) io"
  ca_config :: "string \<Rightarrow> string \<Rightarrow> ('x, kconfig) io"
  ca_policy :: "string \<Rightarrow> ('x, string gomap \<times> egress_rule list option) io"
  ca_service :: "('x, string) io"
  ca_nodes :: "('x, knode list) io"
  ca_ready :: "('x, int \<times> int) io" \<comment> \<open>ready and desired pods of the policy controller\<close>
  ca_job :: "string \<Rightarrow> ('x, kjob) io"
  ca_pods :: "string \<Rightarrow> string \<Rightarrow> ('x, kpod list) io"
  ca_pod :: "string \<Rightarrow> string \<Rightarrow> ('x, kpod) io"
  ca_signal :: "string \<Rightarrow> string \<Rightarrow> ('x, unit) io"
  ca_logs :: "string \<Rightarrow> string \<Rightarrow> ('x, bytes \<times> gerr option) io"
  ca_patch_gate :: "string \<Rightarrow> string \<Rightarrow> string \<Rightarrow> string gomap \<Rightarrow> ('x, unit) io"
  ca_run :: "string list \<Rightarrow> ('x, bytes) io" \<comment> \<open>\<open>docker\<close> with its combined output\<close>
  ca_docker :: "string list \<Rightarrow> ('x, bytes list \<times> bytes list \<times> gerr option) io"
    \<comment> \<open>the pieces of the two output streams, and how the process ended\<close>

section \<open>The coordinator's world\<close>

text \<open>
  \<open>re_now\<close>, \<open>re_io\<close>, \<open>re_fault\<close>, \<open>re_cancelled\<close>, \<open>re_expired\<close>: the clock, the ends of a durable write, the
  faults of other system calls, whether the caller's context is cancelled and whether the deadline of
  the operation has passed, at each tick of the world; \<open>re_ticks\<close> is how many rounds a polling loop
  runs at most before its own timer ends it.
\<close>

record renv =
  re_wire :: wire
  re_now :: "nat \<Rightarrow> time"
  re_io :: "nat \<Rightarrow> durable_io"
  re_fault :: "nat \<Rightarrow> gerr option"
  re_cancelled :: "nat \<Rightarrow> bool"
  re_expired :: "nat \<Rightarrow> bool"
  re_stamp :: "nat \<Rightarrow> bytes"
  re_text :: "gerr \<Rightarrow> string"
  re_sandboxes :: "bytes \<Rightarrow> gerr + (string \<times> string \<times> string \<times> string \<times> string) list"
    \<comment> \<open>the decoder of \<open>crictl pods\<close>: ID, state, name, namespace, UID\<close>
  re_assignment :: "assignment \<Rightarrow> gerr + bytes" \<comment> \<open>\<open>proof.Canonical\<close>\<close>
  re_ticks :: nat

datatype deletion_request = Deletion okind string string \<comment> \<open>kind, name, UID precondition\<close>

text \<open>
  The gate's history: a command that succeeded on the node, a collector that proved its watch, and a
  release asked for a pod UID and a nonce.
\<close>

datatype gate_event = Node_command "string list" | Collector_armed request | Gate_released string string

record 'x rworld =
  rw_ledger :: ledger
  rw_dir :: dir
  rw_ext :: 'x
  rw_tick :: nat
  rw_deletions :: "deletion_request list"
  rw_launches :: nat
  rw_trace :: "gate_event list"

abbreviation api :: "('x, 'a) io \<Rightarrow> ('x rworld, 'a) io" where
  "api \<equiv> lens_io rw_ext (\<lambda>x w. w\<lparr>rw_ext := x\<rparr>)"

definition led :: "(ledger \<Rightarrow> 'a) \<Rightarrow> ('x rworld, 'a) io" where
  "led f = get_io (\<lambda>w. f (rw_ledger w))"

definition upd :: "(ledger \<Rightarrow> ledger) \<Rightarrow> ('x rworld, unit) io" where
  "upd f = mod_io (\<lambda>w. w\<lparr>rw_ledger := f (rw_ledger w)\<rparr>)"

definition set_phase :: "string \<Rightarrow> ('x rworld, unit) io" where
  "set_phase p = upd (\<lambda>l. l\<lparr>l_phase := p\<rparr>)"

definition at_tick :: "(nat \<Rightarrow> 'a) \<Rightarrow> ('x rworld, 'a) io" where
  "at_tick f w = (Inr (f (rw_tick w)), w\<lparr>rw_tick := Suc (rw_tick w)\<rparr>)"

definition sys :: "renv \<Rightarrow> ('x rworld, unit) io" where
  \<comment> \<open>a system call that may fail\<close>
  "sys E = bind_io (at_tick (re_fault E)) (\<lambda>f. lift_io (to_res f))"

definition trace_event :: "gate_event \<Rightarrow> ('x rworld, unit) io" where
  "trace_event ev = mod_io (\<lambda>w. w\<lparr>rw_trace := rw_trace w @ [ev]\<rparr>)"

definition stat_file :: "renv \<Rightarrow> string \<Rightarrow> ('x rworld, unit) io" where
  \<comment> \<open>\<open>os.Stat\<close>\<close>
  "stat_file E name = then_io (sys E) (bind_io (get_io (\<lambda>w. rw_dir w name)) (\<lambda>n. require (n \<noteq> Missing) ENotExist))"

definition read_run :: "string \<Rightarrow> int \<Rightarrow> ('x rworld, bytes) io" where
  "read_run name limit w = (read_bounded (rw_dir w name) limit, w)"

definition write_file :: "renv \<Rightarrow> string \<Rightarrow> bytes \<Rightarrow> ('x rworld, unit) io" where
  "write_file E name data w = (case durable (re_io E (rw_tick w)) (Regular data) (rw_dir w name) of
     (r, n) \<Rightarrow> (to_res r, w\<lparr>rw_dir := (rw_dir w)(name := n), rw_tick := Suc (rw_tick w)\<rparr>))"

definition save :: "renv \<Rightarrow> ('x rworld, unit) io" where
  \<comment> \<open>\<open>Coordinator.save\<close>\<close>
  "save E w = (case save_ledger (w_ledger (re_wire E)) (re_now E (rw_tick w)) (re_io E (rw_tick w)) (rw_ledger w) (rw_dir w) of
     (r, l, d) \<Rightarrow> (to_res r, w\<lparr>rw_ledger := l, rw_dir := d, rw_tick := Suc (rw_tick w)\<rparr>))"

definition note_problem :: "renv \<Rightarrow> string \<Rightarrow> gerr option \<Rightarrow> ('x rworld, unit) io" where
  "note_problem E code e = upd (problem code (map_option (re_text E) e))"

definition fail_saving :: "renv \<Rightarrow> gerr \<Rightarrow> ('x rworld, 'a) io" where
  \<comment> \<open>\<open>return errors.Join(err, c.save(l))\<close>\<close>
  "fail_saving E e = bind_io (catch_io (save E)) (\<lambda>q. throw (case q of Inl e' \<Rightarrow> EJoin e e' | Inr _ \<Rightarrow> e))"

text \<open>\<open>apierrors.IsNotFound\<close>, \<open>IsAlreadyExists\<close> and \<open>errors.As\<close> walk through joined and wrapped errors.\<close>

fun not_found :: "gerr \<Rightarrow> bool" where
  "not_found ENotFound = True"
| "not_found (ETerminal e) = not_found e"
| "not_found (EJoin a b) = (not_found a \<or> not_found b)"
| "not_found e = False"

fun already_exists :: "gerr \<Rightarrow> bool" where
  "already_exists EAlreadyExists = True"
| "already_exists (ETerminal e) = already_exists e"
| "already_exists (EJoin a b) = (already_exists a \<or> already_exists b)"
| "already_exists e = False"

fun terminal :: "gerr \<Rightarrow> bool" where
  "terminal (ETerminal e) = True"
| "terminal (EJoin a b) = (terminal a \<or> terminal b)"
| "terminal e = False"

fun exited :: "int \<Rightarrow> gerr \<Rightarrow> bool" where
  "exited k (EExit n) = (n = k)"
| "exited k (ETerminal e) = exited k e"
| "exited k (EJoin a b) = (exited k a \<or> exited k b)"
| "exited k e = False"

definition label :: "string \<Rightarrow> kmeta \<Rightarrow> string" where
  \<comment> \<open>indexing a map of labels\<close>
  "label k m = lookup_or [] (km_labels m) k"

definition owned_by :: "ledger \<Rightarrow> kmeta \<Rightarrow> bool" where
  \<comment> \<open>both coordinator labels\<close>
  "owned_by l m \<longleftrightarrow> label run_label m = l_token l \<and> label ''app.kubernetes.io/managed-by'' m = ''localci''"

text \<open>
  The four objects whose UIDs the ledger records for their deletion, which the code passes as pointers
  to the fields.
\<close>

datatype slot = Resource_slot | Runner_slot | Binding_slot | Role_slot

fun slot_kind :: "slot \<Rightarrow> okind" where
  "slot_kind Resource_slot = Namespaces"
| "slot_kind Runner_slot = Namespaces"
| "slot_kind Binding_slot = Cluster_role_bindings"
| "slot_kind Role_slot = Cluster_roles"

fun slot_name :: "slot \<Rightarrow> ledger \<Rightarrow> string" where
  "slot_name Resource_slot l = l_resource_ns l"
| "slot_name Runner_slot l = l_runner_ns l"
| "slot_name Binding_slot l = ''proof-guard-'' @ l_token l"
| "slot_name Role_slot l = ''proof-guard-'' @ l_token l"

fun slot_uid :: "slot \<Rightarrow> ledger \<Rightarrow> string" where
  "slot_uid Resource_slot l = l_resource_uid l"
| "slot_uid Runner_slot l = l_runner_uid l"
| "slot_uid Binding_slot l = l_binding_uid l"
| "slot_uid Role_slot l = l_role_uid l"

fun set_slot :: "slot \<Rightarrow> string \<Rightarrow> ledger \<Rightarrow> ledger" where
  "set_slot Resource_slot u l = l\<lparr>l_resource_uid := u\<rparr>"
| "set_slot Runner_slot u l = l\<lparr>l_runner_uid := u\<rparr>"
| "set_slot Binding_slot u l = l\<lparr>l_binding_uid := u\<rparr>"
| "set_slot Role_slot u l = l\<lparr>l_role_uid := u\<rparr>"

lemma bind_led: "bind_io (led g) f w = f (g (rw_ledger w)) w"
  by (simp add: led_def io_apply)

lemma then_require: "then_io (require b e) m w = (if b then m w else (Inl e, w))"
  by (simp add: io_apply)

section \<open>What a run never changes\<close>

text \<open>
  \<open>evolved l l'\<close>: the identity of the run is the same, every UID that was recorded is still recorded,
  a launch once attempted stays so, and the phase has not gone back. The phases before collection
  (provisioning, launching, running) are not distinguished.
\<close>

definition once :: "'a \<Rightarrow> 'a \<Rightarrow> 'a \<Rightarrow> bool" where
  \<comment> \<open>a field that is set at most once\<close>
  "once unset a b \<longleftrightarrow> a = unset \<or> b = a"

definition phase_rank :: "string \<Rightarrow> nat" where
  "phase_rank p = (if p = ''collecting'' then 1 else if p = ''disposing'' then 2 else if p = ''complete'' then 3 else 0)"

definition rank :: "ledger \<Rightarrow> nat" where
  "rank l = phase_rank (l_phase l)"

definition same_run :: "ledger \<Rightarrow> ledger \<Rightarrow> bool" where
  "same_run l l' \<longleftrightarrow> l_kind l' = l_kind l \<and> l_identity l' = l_identity l \<and> l_token l' = l_token l \<and>
     l_resource_ns l' = l_resource_ns l \<and> l_runner_ns l' = l_runner_ns l \<and> l_image l' = l_image l \<and>
     l_command l' = l_command l \<and> l_timeout l' = l_timeout l \<and> l_created l' = l_created l"

definition same_uids :: "ledger \<Rightarrow> ledger \<Rightarrow> bool" where
  "same_uids l l' \<longleftrightarrow> once [] (l_cluster_uid l) (l_cluster_uid l') \<and> once [] (l_resource_uid l) (l_resource_uid l') \<and>
     once [] (l_runner_uid l) (l_runner_uid l') \<and> once [] (l_job_uid l) (l_job_uid l') \<and> once [] (l_pod_uid l) (l_pod_uid l') \<and>
     once [] (l_stage_uid l) (l_stage_uid l') \<and> once [] (l_role_uid l) (l_role_uid l') \<and>
     once [] (l_binding_uid l) (l_binding_uid l') \<and> once None (l_collector_request l) (l_collector_request l') \<and>
     once [] (l_evidence_digest l) (l_evidence_digest l')"

definition evolved :: "ledger \<Rightarrow> ledger \<Rightarrow> bool" where
  "evolved l l' \<longleftrightarrow> same_run l l' \<and> same_uids l l' \<and> (l_launch_attempted l \<longrightarrow> l_launch_attempted l') \<and> rank l \<le> rank l'"

lemma once_refl [simp]: "once u a a"
  by (simp add: once_def)

lemma once_trans: "once u a b \<Longrightarrow> once u b c \<Longrightarrow> once u a c"
  by (auto simp: once_def)

lemma once_same: "once u a b \<Longrightarrow> a \<noteq> u \<Longrightarrow> b = a"
  by (simp add: once_def)

lemma evolved_refl [simp]: "evolved l l"
  by (simp add: evolved_def same_run_def same_uids_def)

lemma same_uids_trans: "same_uids a b \<Longrightarrow> same_uids b c \<Longrightarrow> same_uids a c"
  unfolding same_uids_def by (blast intro: once_trans)

lemma evolved_trans: "evolved a b \<Longrightarrow> evolved b c \<Longrightarrow> evolved a c"
  unfolding evolved_def by (auto simp: same_run_def intro: same_uids_trans)

text \<open>A deletion of one of the four objects, under the UID recorded for it.\<close>

definition own_deletion :: "ledger \<Rightarrow> deletion_request \<Rightarrow> bool" where
  "own_deletion l d \<longleftrightarrow> (\<exists>s. d = Deletion (slot_kind s) (slot_name s l) (slot_uid s l) \<and> slot_uid s l \<noteq> [])"

lemma slot_evolved:
  assumes "evolved l l'"
  shows "slot_name s l' = slot_name s l" "once [] (slot_uid s l) (slot_uid s l')"
  using assms by (cases s; simp add: evolved_def same_run_def same_uids_def)+

lemma own_deletion_evolved: "own_deletion l d \<Longrightarrow> evolved l l' \<Longrightarrow> own_deletion l' d"
  unfolding own_deletion_def by (metis slot_evolved once_same)

lemma evolved_slot: "slot_uid s l = [] \<Longrightarrow> evolved l (set_slot s u l)"
  by (cases s) (simp_all add: evolved_def same_run_def same_uids_def once_def rank_def)

lemma slot_simps [simp]:
  "slot_uid s (set_slot s u l) = u" "slot_name s (set_slot s' u l) = slot_name s l" "l_phase (set_slot s u l) = l_phase l"
  "l_token (set_slot s u l) = l_token l" "l_cluster_uid (set_slot s u l) = l_cluster_uid l"
  by (cases s; cases s'; simp)+

text \<open>
  \<open>on_disk E l n\<close>: the file holds the ledger \<open>l\<close>, as it was written or as it is read. \<open>advance E w w'\<close>: the ledger in memory evolved, the
  ledger file is the old one or holds a ledger between those two, and every deletion asked for in
  between was of an own object, under a UID that the ledger on disk records.
\<close>

definition on_disk :: "renv \<Rightarrow> ledger \<Rightarrow> node \<Rightarrow> bool" where
  "on_disk E l n \<longleftrightarrow> (\<exists>data. n = Regular data \<and>
     (enc (w_ledger (re_wire E)) l = Inr data \<or> dec (w_ledger (re_wire E)) data = Inr l))"

definition disk_between :: "renv \<Rightarrow> 'x rworld \<Rightarrow> 'x rworld \<Rightarrow> bool" where
  "disk_between E w w' \<longleftrightarrow> rw_dir w' ''run.json'' = rw_dir w ''run.json'' \<or>
     (\<exists>l. evolved (rw_ledger w) l \<and> evolved l (rw_ledger w') \<and> on_disk E l (rw_dir w' ''run.json''))"

definition firm :: "(ledger \<Rightarrow> bool) \<Rightarrow> renv \<Rightarrow> 'x rworld \<Rightarrow> bool" where
  \<comment> \<open>a property the ledger has in memory and on disk\<close>
  "firm P E w \<longleftrightarrow> P (rw_ledger w) \<and> (\<exists>l. on_disk E l (rw_dir w ''run.json'') \<and> P l)"

definition advance :: "renv \<Rightarrow> 'x rworld \<Rightarrow> 'x rworld \<Rightarrow> bool" where
  "advance E w w' \<longleftrightarrow> evolved (rw_ledger w) (rw_ledger w') \<and> disk_between E w w' \<and>
     (\<exists>ds. rw_deletions w' = rw_deletions w @ ds \<and> (\<forall>d \<in> set ds. firm (\<lambda>l. own_deletion l d) E w'))"

definition shed :: "renv \<Rightarrow> 'x rworld \<Rightarrow> 'x rworld \<Rightarrow> bool" where
  \<comment> \<open>an operation inside a phase that launches nothing\<close>
  "shed E w w' \<longleftrightarrow> advance E w w' \<and> l_phase (rw_ledger w') = l_phase (rw_ledger w) \<and> rw_launches w' = rw_launches w"

definition steady :: "renv \<Rightarrow> 'x rworld \<Rightarrow> 'x rworld \<Rightarrow> bool" where
  \<comment> \<open>and one that deletes nothing either\<close>
  "steady E w w' \<longleftrightarrow> shed E w w' \<and> rw_deletions w' = rw_deletions w"

lemma advance_refl: "advance E w w"
  by (simp add: advance_def disk_between_def)

lemma disk_between_trans:
  assumes "evolved (rw_ledger u) (rw_ledger v)" "disk_between E u v" "evolved (rw_ledger v) (rw_ledger w)" "disk_between E v w"
  shows "disk_between E u w"
proof (cases "rw_dir w ''run.json'' = rw_dir v ''run.json''")
  case True
  with assms(2) show ?thesis using evolved_trans[OF _ assms(3)] unfolding disk_between_def by auto
next
  case False
  with assms(4) obtain l where "evolved (rw_ledger v) l" "evolved l (rw_ledger w)" "on_disk E l (rw_dir w ''run.json'')"
    unfolding disk_between_def by auto
  with evolved_trans[OF assms(1)] show ?thesis unfolding disk_between_def by blast
qed

lemma firm_persists:
  assumes f: "firm P E w" and e: "evolved (rw_ledger w) (rw_ledger w')" and d: "disk_between E w w'"
    and mono: "\<And>l l'. evolved l l' \<Longrightarrow> P l \<Longrightarrow> P l'"
  shows "firm P E w'"
proof -
  from f have p: "P (rw_ledger w)" by (simp add: firm_def)
  have "\<exists>l. on_disk E l (rw_dir w' ''run.json'') \<and> P l"
  proof (cases "rw_dir w' ''run.json'' = rw_dir w ''run.json''")
    case True
    with f show ?thesis by (simp add: firm_def)
  next
    case False
    with d obtain l where "evolved (rw_ledger w) l" "on_disk E l (rw_dir w' ''run.json'')" by (auto simp: disk_between_def)
    with mono p show ?thesis by blast
  qed
  with mono[OF e p] show ?thesis by (simp add: firm_def)
qed

lemma own_persists: "firm (\<lambda>l. own_deletion l d) E w \<Longrightarrow> evolved (rw_ledger w) (rw_ledger w') \<Longrightarrow> disk_between E w w' \<Longrightarrow>
    firm (\<lambda>l. own_deletion l d) E w'"
  by (rule firm_persists) (auto intro: own_deletion_evolved)

lemma advance_trans:
  assumes "advance E u v" "advance E v w"
  shows "advance E u w"
proof -
  from assms(1) obtain ds where 1: "evolved (rw_ledger u) (rw_ledger v)" "disk_between E u v"
    "rw_deletions v = rw_deletions u @ ds" "\<forall>d \<in> set ds. firm (\<lambda>l. own_deletion l d) E v" by (auto simp: advance_def)
  from assms(2) obtain es where 2: "evolved (rw_ledger v) (rw_ledger w)" "disk_between E v w"
    "rw_deletions w = rw_deletions v @ es" "\<forall>d \<in> set es. firm (\<lambda>l. own_deletion l d) E w" by (auto simp: advance_def)
  have "disk_between E u w" by (rule disk_between_trans[OF 1(1,2) 2(1,2)])
  moreover have "\<forall>d \<in> set (ds @ es). firm (\<lambda>l. own_deletion l d) E w"
    using 1(4) 2(4) own_persists[OF _ 2(1,2)] by auto
  ultimately show ?thesis using evolved_trans[OF 1(1) 2(1)] 1(3) 2(3) by (auto simp: advance_def)
qed

interpretation adv: two_state "advance E" for E
  by unfold_locales (rule advance_refl, rule advance_trans)

interpretation shd: two_state "shed E" for E
  by unfold_locales (auto simp: shed_def advance_refl intro: advance_trans)

interpretation std: two_state "steady E" for E
  by unfold_locales (auto simp: steady_def shd.refl_R intro: shd.trans_R)

lemma steady_shed: "keeps (steady E) m \<Longrightarrow> keeps (shed E) m"
  by (simp add: keeps_def steady_def)

lemma shed_advance: "keeps (shed E) m \<Longrightarrow> keeps (advance E) m"
  by (simp add: keeps_def shed_def)

lemma at_require: "(b \<Longrightarrow> steady E w (snd (m w))) \<Longrightarrow> steady E w (snd (then_io (require b e) m w))"
  by (simp add: then_require std.refl_R)

text \<open>The primitive operations.\<close>

definition quiet_update :: "(ledger \<Rightarrow> ledger) \<Rightarrow> bool" where
  "quiet_update f \<longleftrightarrow> (\<forall>l. evolved l (f l) \<and> l_phase (f l) = l_phase l)"

lemma steady_quiet:
  "evolved (rw_ledger w) (rw_ledger w') \<Longrightarrow> l_phase (rw_ledger w') = l_phase (rw_ledger w) \<Longrightarrow> disk_between E w w' \<Longrightarrow>
   rw_deletions w' = rw_deletions w \<Longrightarrow> rw_launches w' = rw_launches w \<Longrightarrow> steady E w w'"
  by (auto simp: steady_def shed_def advance_def)

lemma steady_api: "keeps (steady E) (api m)"
  by (auto simp: keeps_def lens_io_def disk_between_def split: prod.split intro!: steady_quiet)

lemma steady_led: "keeps (steady E) (led f)"
  by (simp add: led_def std.keeps_get)

lemma steady_upd: "quiet_update f \<Longrightarrow> keeps (steady E) (upd f)"
  by (auto simp: keeps_def upd_def io_apply quiet_update_def disk_between_def intro!: steady_quiet)

lemma steady_tick: "keeps (steady E) (at_tick f)"
  by (auto simp: keeps_def at_tick_def disk_between_def intro!: steady_quiet)

lemma steady_sys: "keeps (steady E) (sys E')"
  by (simp add: sys_def std.keeps_bind steady_tick std.keeps_lift)

lemma steady_read: "keeps (steady E) (read_run name limit)"
  by (auto simp: keeps_def read_run_def disk_between_def intro!: steady_quiet)

lemma steady_write: "name \<noteq> ''run.json'' \<Longrightarrow> keeps (steady E) (write_file E' name data)"
  by (auto simp: keeps_def write_file_def disk_between_def split: prod.split intro!: steady_quiet)

lemma evolved_stamp [simp]: "evolved l (l\<lparr>l_updated := t\<rparr>)"
  by (simp add: evolved_def same_run_def same_uids_def rank_def)

lemma save_cases:
  assumes "save E w = (r, w')"
  shows "w' = w\<lparr>rw_ledger := (rw_ledger w)\<lparr>l_updated := re_now E (rw_tick w)\<rparr>, rw_dir := rw_dir w', rw_tick := Suc (rw_tick w)\<rparr>"
    "rw_dir w' = rw_dir w \<or> (\<exists>data. enc (w_ledger (re_wire E)) (rw_ledger w') = Inr data \<and> rw_dir w' = (rw_dir w)(''run.json'' := Regular data))"
  using assms save_ledger_content[of "w_ledger (re_wire E)" "re_now E (rw_tick w)" "re_io E (rw_tick w)" "rw_ledger w" "rw_dir w"]
  by (auto simp: save_def split: prod.splits)

lemma save_frame:
  assumes "save E w = (r, w')"
  shows "rw_ledger w' = (rw_ledger w)\<lparr>l_updated := re_now E (rw_tick w)\<rparr>" "rw_deletions w' = rw_deletions w"
    "rw_launches w' = rw_launches w" "rw_trace w' = rw_trace w" "rw_ext w' = rw_ext w"
  using assms by (auto simp: save_def dest: save_ledger_content split: prod.splits)

lemma steady_stat: "keeps (steady E) (stat_file E' name)"
  by (simp add: stat_file_def std.keeps_bind std.keeps_then steady_sys std.keeps_get std.keeps_require)

lemma steady_save: "keeps (steady E) (save E)"
proof -
  have "steady E w w'" if s: "save E w = (r, w')" for w w' r
  proof (rule steady_quiet)
    note l = save_frame[OF s]
    then show "evolved (rw_ledger w) (rw_ledger w')" "l_phase (rw_ledger w') = l_phase (rw_ledger w)"
      "rw_deletions w' = rw_deletions w" "rw_launches w' = rw_launches w" by simp_all
    show "disk_between E w w'" using save_cases(2)[OF s] l(1) unfolding disk_between_def on_disk_def by (auto intro: evolved_refl)
  qed
  then show ?thesis unfolding keeps_def by (metis prod.collapse)
qed

lemma save_written:
  assumes "save E w = (Inr u, w')"
  shows "on_disk E (rw_ledger w') (rw_dir w' ''run.json'')"
  using assms by (auto simp: save_def save_ledger_def ledger_bytes_def Let_def on_disk_def dest: durable_None
      split: prod.splits sum.splits if_splits)

lemma quiet_problem: "quiet_update (problem c e)"
  by (auto simp: quiet_update_def problem_def Let_def evolved_def same_run_def same_uids_def rank_def)

lemma steady_problem: "keeps (steady E) (note_problem E' c e)"
  by (simp add: note_problem_def steady_upd quiet_problem)

lemma steady_fail_saving: "keeps (steady E) (fail_saving E e)"
  by (auto simp: fail_saving_def intro!: std.keeps_bind std.keeps_catch std.keeps_throw steady_save)

lemma steady_trace: "keeps (steady E) (trace_event ev)"
  by (auto simp: trace_event_def keeps_def io_apply disk_between_def intro!: steady_quiet)

lemmas steady_intros = std.keeps_ret std.keeps_throw std.keeps_get std.keeps_lift std.keeps_require std.keeps_bind
  std.keeps_then std.keeps_catch std.keeps_for std.keeps_if std.keeps_sum std.keeps_option steady_api steady_led steady_tick
  steady_sys steady_stat steady_read steady_save steady_problem steady_fail_saving steady_trace

section \<open>The course of a run\<close>

text \<open>
  What any part of a run may do, from any of its states to any later one: the ledger evolves, in
  memory and on disk; deletions are of own objects, and only once the ledger on disk says that
  collection is over; and at most one launch is asked for, only if none was attempted before, and only
  once the ledger on disk says so.
\<close>

abbreviation late :: "renv \<Rightarrow> 'x rworld \<Rightarrow> bool" where
  "late \<equiv> firm (\<lambda>l. 2 \<le> rank l)"

abbreviation launched :: "renv \<Rightarrow> 'x rworld \<Rightarrow> bool" where
  "launched \<equiv> firm l_launch_attempted"

definition course :: "renv \<Rightarrow> 'x rworld \<Rightarrow> 'x rworld \<Rightarrow> bool" where
  "course E w w' \<longleftrightarrow> advance E w w' \<and> (rw_deletions w' = rw_deletions w \<or> late E w') \<and>
     (rw_launches w' = rw_launches w \<or>
      rw_launches w' = Suc (rw_launches w) \<and> \<not> l_launch_attempted (rw_ledger w) \<and> launched E w')"

lemma firm_advance: "firm P E w \<Longrightarrow> advance E w w' \<Longrightarrow> (\<And>l l'. evolved l l' \<Longrightarrow> P l \<Longrightarrow> P l') \<Longrightarrow> firm P E w'"
  by (rule firm_persists) (auto simp: advance_def)

lemma late_advance: "late E w \<Longrightarrow> advance E w w' \<Longrightarrow> late E w'"
  by (erule firm_advance) (auto simp: evolved_def)

lemma launched_advance: "launched E w \<Longrightarrow> advance E w w' \<Longrightarrow> launched E w'"
  by (erule firm_advance) (auto simp: evolved_def)

lemma advance_evolved: "advance E w w' \<Longrightarrow> evolved (rw_ledger w) (rw_ledger w')"
  by (simp add: advance_def)

interpretation crs: two_state "course E" for E
proof
  show "course E s s" for s by (simp add: course_def advance_refl)
next
  fix s t u assume 1: "course E s t" and 2: "course E t u"
  have a: "advance E s t" "advance E t u" using 1 2 by (auto simp: course_def)
  have "rw_deletions u = rw_deletions s \<or> late E u" using 1 2 late_advance[OF _ a(2)] by (auto simp: course_def)
  moreover have "launched E t \<Longrightarrow> l_launch_attempted (rw_ledger t)" by (simp add: firm_def)
  moreover have "l_launch_attempted (rw_ledger s) \<Longrightarrow> l_launch_attempted (rw_ledger t)"
    using advance_evolved[OF a(1)] by (simp add: evolved_def)
  ultimately show "course E s u" using 1 2 launched_advance[OF _ a(2)] advance_trans[OF a] unfolding course_def by auto
qed

lemma steady_course: "steady E w w' \<Longrightarrow> course E w w'"
  by (simp add: course_def steady_def shed_def)

lemma shed_course: "shed E w w' \<Longrightarrow> late E w \<Longrightarrow> course E w w'"
  using late_advance by (auto simp: course_def shed_def)

text \<open>\<open>at_phase E w p\<close>: a state in phase \<open>p\<close> on the way from \<open>w\<close>.\<close>

definition at_phase :: "renv \<Rightarrow> 'x rworld \<Rightarrow> string \<Rightarrow> 'x rworld \<Rightarrow> bool" where
  "at_phase E w p s \<longleftrightarrow> course E w s \<and> l_phase (rw_ledger s) = p"

lemma phase_steady:
  assumes "keeps (steady E) m"
  shows "triple (at_phase E w p) m (\<lambda>_. at_phase E w p) (course E w)"
proof (rule tripleI)
  fix s assume s: "at_phase E w p s"
  obtain r t where t: "m s = (r, t)" by fastforce
  have st: "steady E s t" using std.keepsD[OF assms t] .
  have "course E w t" using s crs.trans_R steady_course[OF st] unfolding at_phase_def by blast
  moreover have "l_phase (rw_ledger t) = p" using st s by (simp add: steady_def shed_def at_phase_def)
  ultimately show "case m s of (Inr x, t) \<Rightarrow> at_phase E w p t | (Inl e, t) \<Rightarrow> course E w t"
    using t by (auto simp: at_phase_def split: sum.split)
qed

lemma phase_set:
  assumes "phase_rank p \<le> phase_rank q"
  shows "triple (at_phase E w p) (set_phase q) (\<lambda>_. at_phase E w q) (course E w)"
proof (rule tripleI)
  fix s assume s: "at_phase E w p s"
  let ?t = "s\<lparr>rw_ledger := (rw_ledger s)\<lparr>l_phase := q\<rparr>\<rparr>"
  have "course E s ?t" using s assms
    by (simp add: course_def advance_def disk_between_def at_phase_def evolved_def same_run_def same_uids_def rank_def)
  then have "course E w ?t" using s crs.trans_R unfolding at_phase_def by blast
  then show "case set_phase q s of (Inr x, t) \<Rightarrow> at_phase E w q t | (Inl e, t) \<Rightarrow> course E w t"
    by (simp add: set_phase_def upd_def io_apply at_phase_def)
qed

lemma phase_course: "at_phase E w p s \<Longrightarrow> course E w s"
  by (simp add: at_phase_def)

lemma phase_saved:
  "triple (at_phase E w p) (save E) (\<lambda>_ s. at_phase E w p s \<and> on_disk E (rw_ledger s) (rw_dir s ''run.json'')) (course E w)"
proof (rule tripleI)
  fix s assume s: "at_phase E w p s"
  obtain r t where t: "save E s = (r, t)" by fastforce
  show "case save E s of (Inr x, t) \<Rightarrow> at_phase E w p t \<and> on_disk E (rw_ledger t) (rw_dir t ''run.json'') | (Inl e, t) \<Rightarrow> course E w t"
    using tripleD[OF phase_steady[OF steady_save] s] tripleE[OF phase_steady[OF steady_save] s] t save_written[of E s "()" t]
    by (cases r) auto
qed

lemma late_saved: "at_phase E w p s \<Longrightarrow> 2 \<le> phase_rank p \<Longrightarrow> on_disk E (rw_ledger s) (rw_dir s ''run.json'') \<Longrightarrow> late E s"
  by (auto simp: firm_def at_phase_def rank_def)

end
