(* ===== verification/Collection.thy ===== *)
theory Collection
  imports Cluster
begin

text \<open>
  Collecting what a run leaves, internal/coordinator/collector.go and the log collection of
  internal/coordinator/staging.go: the commands that arm the collector on the node and fetch its
  result, and what is stored of the log, in which order.
\<close>

section \<open>Commands on the node\<close>

definition collector_args :: "request \<Rightarrow> string \<Rightarrow> string list" where
  "collector_args r mode = [''/usr/local/bin/proof-observe'', ''--mode'', mode, ''--run'', q_run r, ''--pod'', q_pod r,
     ''--uid'', q_uid r, ''--sandbox'', q_sandbox r, ''--binding'', q_binding r, ''--seconds'', show_int (q_seconds r)]"

fun capped :: "int \<Rightarrow> bytes list \<Rightarrow> bytes \<times> bool" where
  \<comment> \<open>the writes of a stream to a \<open>cappedWriter\<close>: what was written, and whether every write was accepted\<close>
  "capped remaining [] = ([], True)"
| "capped remaining (p # ps) = (if int (length p) > remaining then ([], False)
     else case capped (remaining - int (length p)) ps of (w, ok) \<Rightarrow> (p @ w, ok))"

definition classify_failure :: "string \<Rightarrow> gerr \<Rightarrow> gerr" where
  "classify_failure mode e = (if mode = ''result'' \<and> exited 66 e then ETerminal e else e)"

definition collector_node :: string where
  \<comment> \<open>\<open>observer.Node\<close>\<close>
  "collector_node = ''cleanup-receipt-control-plane''"

definition collector_command :: "'x capi \<Rightarrow> request \<Rightarrow> string \<Rightarrow> ('x rworld, bytes) io" where
  "collector_command K r mode =
     then_io (lift_io (to_res (request_validate r)))
     (let args = (if mode = ''collect'' then [''exec'', ''-d'', collector_node] else [''exec'', collector_node]);
          limit = (if mode = ''logs'' then max_logs else 65536)
      in bind_io (catch_io (api (ca_docker K (args @ collector_args r mode)))) (\<lambda>q. case q of
           Inl e \<Rightarrow> throw (classify_failure mode e)
         | Inr (out, err, status) \<Rightarrow>
             (case status of Some e \<Rightarrow> throw (classify_failure mode e)
              | None \<Rightarrow> if snd (capped limit out) \<and> snd (capped 2048 err) then ret (fst (capped limit out))
                       else throw (EMsg ''collector transport byte limit exceeded''))))"

section \<open>Arming\<close>

definition armed_ok :: "renv \<Rightarrow> request \<Rightarrow> bytes \<Rightarrow> ('x rworld, unit) io" where
  "armed_ok E r data = bind_io (lift_io (dec (w_result (re_wire E)) data)) (\<lambda>a.
     then_io (require (\<not> (x_request a \<noteq> r \<or> \<not> x_start_proven a \<or> x_armed a = 0)) (EMsg ''collector did not prove a pre-start watch''))
       (trace_event (Collector_armed r)))"

fun await_ready :: "'x capi \<Rightarrow> renv \<Rightarrow> request \<Rightarrow> nat \<Rightarrow> ('x rworld, bytes) io" where
  "await_ready K E r 0 = collector_command K r ''ready''"
| "await_ready K E r (Suc n) = bind_io (catch_io (collector_command K r ''ready'')) (\<lambda>q. case q of
     Inr data \<Rightarrow> ret data
   | Inl e \<Rightarrow> bind_io (at_tick (re_expired E)) (\<lambda>expired. if expired then throw (EExt ''context'') else await_ready K E r n))"

definition collector_request_of :: "renv \<Rightarrow> ledger \<Rightarrow> string \<Rightarrow> request" where
  "collector_request_of E l sandbox = \<lparr>q_run = l_token l, q_pod = l_pod_name l, q_uid = l_pod_uid l, q_sandbox = sandbox,
     q_binding = collector_binding (re_wire E) l, q_seconds = l_timeout l + 300\<rparr>"

definition arm_collector :: "'x capi \<Rightarrow> renv \<Rightarrow> string \<Rightarrow> ('x rworld, unit) io" where
  "arm_collector K E sandbox = bind_io (led id) (\<lambda>l. let r = collector_request_of E l sandbox in
     then_io (lift_io (to_res (request_validate r)))
     (then_io (require (l_collector_request l \<in> {None, Some r}) (EMsg ''collector binding changed; gate remains closed''))
     (then_io (if l_collector_request l = None then then_io (upd (\<lambda>l. l\<lparr>l_collector_request := Some r\<rparr>)) (save E) else ret ())
     (bind_io (catch_io (collector_command K r ''ready'')) (\<lambda>q. case q of
        Inr data \<Rightarrow> armed_ok E r data
      | Inl _ \<Rightarrow> then_io (collector_command K r ''collect'') (bind_io (await_ready K E r (re_ticks E)) (armed_ok E r)))))))"

section \<open>The collector's result\<close>

definition verify_artifact :: "string \<Rightarrow> string \<Rightarrow> int \<Rightarrow> ('x rworld, unit) io" where
  "verify_artifact name dg sz = bind_io (get_io (\<lambda>w. rw_dir w name)) (\<lambda>n. lift_io (to_res (verify_file n dg sz max_logs)))"

definition runtime_agrees :: "ledger \<Rightarrow> result \<Rightarrow> bool" where
  "runtime_agrees l x \<longleftrightarrow> \<not> (x_termination_proven x \<and> (l_container_id l \<noteq> ''containerd://'' @ x_container x \<or>
     l_actual_image l \<noteq> x_image x \<or> l_exit l = None \<or> l_exit l \<noteq> Some (x_exit x)))"

definition store_collected :: "'x capi \<Rightarrow> renv \<Rightarrow> request \<Rightarrow> result \<Rightarrow> ('x rworld, unit) io" where
  \<comment> \<open>\<open>collectTrusted\<close> from the temporary file on\<close>
  "store_collected K E r x =
     bind_io (at_tick (re_io E)) (\<lambda>f.
     then_io (require (d_create f) (EExt ''create''))
     (bind_io (collector_command K r ''logs'') (\<lambda>data.
     then_io (require (d_write f \<and> d_sync f \<and> d_close f) (EExt ''write''))
     (then_io (lift_io (to_res (verify_file (Regular data) (x_logs_digest x) (x_logs_bytes x) max_logs)))
     (then_io (require (d_rename f) (EExt ''rename''))
     (then_io (mod_io (\<lambda>w. w\<lparr>rw_dir := (rw_dir w)(''job.log'' := Regular data)\<rparr>))
     (bind_io (lift_io (enc (w_result (re_wire E)) x)) (\<lambda>canonical.
     then_io (write_file E ''collector.json'' canonical)
     (then_io (upd (\<lambda>l. l\<lparr>l_collector_digest := digest canonical, l_logs_digest := x_logs_digest x, l_logs_bytes := x_logs_bytes x,
         l_logs_status := (if f_status (x_logs x) = ''verified'' then ''complete'' else ''gap'')\<rparr>))
       (save E))))))))))"

definition collect_trusted :: "'x capi \<Rightarrow> renv \<Rightarrow> request \<Rightarrow> ('x rworld, unit) io" where
  "collect_trusted K E r = bind_io (led id) (\<lambda>l.
     then_io (require (q_binding r = collector_binding (re_wire E) l) (ETerminal (EMsg ''collector ledger binding mismatch'')))
     (then_io (require (run_pattern (i_run (l_identity l))) (EMsg ''invalid local run ID''))
     (if l_collector_digest l \<noteq> [] then
        bind_io (read_run ''collector.json'' 65536) (\<lambda>raw.
        then_io (require (digest raw = l_collector_digest l) (EMsg ''collector artifact changed''))
          (verify_artifact ''job.log'' (l_logs_digest l) (l_logs_bytes l)))
      else bind_io (catch_io (collector_command K r ''result'')) (\<lambda>q. case q of
        Inl e \<Rightarrow> then_io (if terminal e then upd (\<lambda>l. l\<lparr>l_logs_status := ''missing''\<rparr>) else ret ()) (throw e)
      | Inr raw \<Rightarrow>
          bind_io (lift_io (dec (w_result (re_wire E)) raw)) (\<lambda>x.
          then_io (lift_io (to_res (result_validate x)))
          (then_io (require (x_request x = r) (EMsg ''collector result binding mismatch''))
          (then_io (require (runtime_agrees l x) (ETerminal (EMsg ''API/CRI terminal identity mismatch'')))
            (store_collected K E r x))))))))"

section \<open>The log without a collector\<close>

definition guard_started :: "kpod \<Rightarrow> bool" where
  "guard_started pod \<longleftrightarrow> list_ex (\<lambda>s. ks_name s = ''guard'' \<and> ks_state s \<noteq> Waiting) (kp_statuses pod)"

definition snapshot_log :: "renv \<Rightarrow> bytes \<Rightarrow> gerr option \<Rightarrow> ('x rworld, unit) io" where
  \<comment> \<open>\<open>collectLogs\<close> from the temporary file on, given what the stream delivers and how it ends\<close>
  "snapshot_log E stream copy_err =
     bind_io (at_tick (re_io E)) (\<lambda>f.
     then_io (require (d_create f) (EExt ''create''))
     (let data = take (Suc (nat max_logs)) stream;
          failure = join_err (join_err copy_err (if d_write f then None else Some (EExt ''write'')))
            (join_err (if d_sync f then None else Some (EExt ''sync'')) (if d_close f then None else Some (EExt ''close'')))
      in case failure of
        Some e \<Rightarrow> then_io (upd (\<lambda>l. l\<lparr>l_logs_status := ''gap''\<rparr>)) (throw e)
      | None \<Rightarrow>
          if int (length data) > max_logs then then_io (upd (\<lambda>l. l\<lparr>l_logs_status := ''limit-exceeded''\<rparr>))
            (throw (ETerminal (EMsg ''log staging exceeds 100 MiB'')))
          else then_io (sys E)
            (then_io (write_file E ''job.log'' data)
              (upd (\<lambda>l. l\<lparr>l_logs_bytes := int (length data), l_logs_digest := digest data, l_logs_status := ''snapshot-unattested''\<rparr>)))))"

definition collect_logs :: "'x capi \<Rightarrow> renv \<Rightarrow> ('x rworld, unit) io" where
  "collect_logs K E = bind_io (led id) (\<lambda>l. case l_collector_request l of
     Some r \<Rightarrow> collect_trusted K E r
   | None \<Rightarrow>
      if l_pod_uid l = [] then upd (\<lambda>l. l\<lparr>l_logs_status := ''missing''\<rparr>)
      else bind_io (catch_io (api (ca_pod K (l_runner_ns l) (l_pod_name l)))) (\<lambda>q. case q of
        Inl e \<Rightarrow> then_io (upd (\<lambda>l. l\<lparr>l_logs_status := ''missing''\<rparr>)) (throw e)
      | Inr pod \<Rightarrow>
          then_io (require (km_uid (kp_meta pod) = l_pod_uid l) (ETerminal (EMsg ''pod UID changed before log retrieval'')))
          (if \<not> guard_started pod then upd (\<lambda>l. l\<lparr>l_logs_status := ''missing''\<rparr>)
           else bind_io (catch_io (api (ca_logs K (l_runner_ns l) (l_pod_name l)))) (\<lambda>s. case s of
             Inl e \<Rightarrow> then_io (upd (\<lambda>l. l\<lparr>l_logs_status := ''gap''\<rparr>)) (throw e)
           | Inr (stream, copy_err) \<Rightarrow> snapshot_log E stream copy_err))))"

definition collect_stage_io :: "'x capi \<Rightarrow> renv \<Rightarrow> ('x rworld, unit) io" where
  \<comment> \<open>\<open>collectStage\<close> on the coordinator's world\<close>
  "collect_stage_io K E = bind_io (led l_runner_ns) (\<lambda>ns. bind_io (catch_io (api (ca_config K ns ''guard-stage''))) (\<lambda>q w.
     case collect_stage (re_wire E) (re_now E (rw_tick w)) (re_io E (rw_tick w)) (re_io E (Suc (rw_tick w)))
       (map_sum id (\<lambda>c. \<lparr>sg_uid = km_uid (kc_meta c), sg_data = kc_data c\<rparr>) q) (rw_ledger w) (rw_dir w) of
     (r, l, d) \<Rightarrow> (to_res r, w\<lparr>rw_ledger := l, rw_dir := d, rw_tick := Suc (Suc (rw_tick w))\<rparr>)))"

section \<open>Collecting is steady\<close>

lemma steady_command: "keeps (steady E) (collector_command K r mode)"
  unfolding collector_command_def Let_def
  by (intro steady_intros) (auto split: option.split intro!: steady_intros)

lemma steady_await: "keeps (steady E) (await_ready K E' r n)"
  by (induction n) (auto intro!: steady_intros steady_command)

lemma quiet_request: "quiet_update (\<lambda>l. if l_collector_request l = None then l\<lparr>l_collector_request := Some r\<rparr> else l)"
  by (auto simp: quiet_update_def evolved_def same_run_def same_uids_def once_def rank_def)

lemma quiet_collected: "quiet_update (\<lambda>l. l\<lparr>l_collector_digest := a, l_logs_digest := b, l_logs_bytes := c, l_logs_status := d\<rparr>)"
  "quiet_update (\<lambda>l. l\<lparr>l_logs_status := d\<rparr>)" "quiet_update (\<lambda>l. l\<lparr>l_logs_bytes := c, l_logs_digest := b, l_logs_status := d\<rparr>)"
  by (simp_all add: quiet_update_def evolved_def same_run_def same_uids_def once_def rank_def)

lemma steady_logs_dir: "keeps (steady E) (mod_io (\<lambda>w. w\<lparr>rw_dir := (rw_dir w)(''job.log'' := n)\<rparr>))"
  by (auto simp: keeps_def io_apply disk_between_def intro!: steady_quiet)

lemma steady_store: "keeps (steady E) (store_collected K E r x)"
  unfolding store_collected_def by (intro steady_intros steady_command steady_logs_dir steady_write steady_upd quiet_collected) simp

lemma steady_trusted: "keeps (steady E) (collect_trusted K E r)"
  unfolding collect_trusted_def verify_artifact_def
  by (intro steady_intros steady_command steady_store steady_upd quiet_collected)

lemma steady_snapshot: "keeps (steady E) (snapshot_log E s e)"
  unfolding snapshot_log_def Let_def by (intro steady_intros steady_write steady_upd quiet_collected) simp

lemma steady_logs: "keeps (steady E) (collect_logs K E)"
  unfolding collect_logs_def
  by (intro steady_intros steady_trusted steady_upd quiet_collected) (auto split: prod.split intro!: steady_snapshot)

text \<open>Job evidence changes nothing but the evidence fields, and never a digest that was recorded.\<close>

lemma evolved_evidence:
  "evolved l l1 \<Longrightarrow> evolved l (l1\<lparr>l_evidence_status := s\<rparr>)"
  "evolved l l1 \<Longrightarrow> once [] (l_evidence_digest l) g \<Longrightarrow> evolved l (l1\<lparr>l_evidence_status := s, l_evidence_digest := g\<rparr>)"
  by (simp_all add: evolved_def same_run_def same_uids_def rank_def)

lemma collect_stage_frame:
  assumes "collect_stage W now io1 io2 q l d = (r, l', d')"
  shows "evolved l l' \<and> l_phase l' = l_phase l \<and> d' ''run.json'' = d ''run.json''"
proof (cases q)
  case (Inl e)
  with assms show ?thesis by (simp add: collect_stage_def)
next
  case (Inr stage)
  show ?thesis
  proof (cases "sg_uid stage = l_stage_uid l")
    case False
    with assms Inr show ?thesis by (auto simp: collect_stage_def)
  next
    case uid: True
  obtain p l1 d1 where g: "collect_guard W io1 stage (l, d) = (p, l1, d1)" by (metis prod_cases3)
  from collect_guard_result[OF g] have 1: "l1 = l \<or> (\<exists>g. l1 = l\<lparr>l_guard_digest := g\<rparr>)" by (rule conjunct1)
  have 2: "d1 ''run.json'' = d ''run.json''"
    using g by (auto simp: collect_guard_def Let_def split: if_splits option.splits prod.splits)
  from 1 have e: "evolved l l1" "l_phase l1 = l_phase l" "l_evidence_digest l1 = l_evidence_digest l"
    by (auto simp: evolved_def same_run_def same_uids_def rank_def)
  from assms g Inr uid have "l' = l1 \<or> (\<exists>s. l' = l1\<lparr>l_evidence_status := s\<rparr>) \<or>
      (\<exists>s g. l' = l1\<lparr>l_evidence_status := s, l_evidence_digest := g\<rparr> \<and> once [] (l_evidence_digest l1) g)"
    "d' ''run.json'' = d1 ''run.json''"
    by (auto simp: collect_stage_def Let_def once_def split: if_splits option.splits prod.splits)
  with e 2 evolved_evidence[OF e(1)] show ?thesis by auto
  qed
qed

lemma steady_stage: "keeps (steady E) (collect_stage_io K E)"
  unfolding collect_stage_io_def
proof (intro steady_intros)
  fix q
  show "keeps (steady E) (\<lambda>w. case collect_stage (re_wire E) (re_now E (rw_tick w)) (re_io E (rw_tick w)) (re_io E (Suc (rw_tick w)))
       (map_sum id (\<lambda>c. \<lparr>sg_uid = km_uid (kc_meta c), sg_data = kc_data c\<rparr>) q) (rw_ledger w) (rw_dir w) of
     (r, l, d) \<Rightarrow> (to_res r, w\<lparr>rw_ledger := l, rw_dir := d, rw_tick := Suc (Suc (rw_tick w))\<rparr>))"
    by (auto simp: keeps_def disk_between_def dest!: collect_stage_frame split: prod.split intro!: steady_quiet)
qed

lemma steady_arm: "keeps (steady E) (arm_collector K E sandbox)"
proof (rule std.keepsI)
  fix w :: "'a rworld"
  let ?r = "collector_request_of E (rw_ledger w) sandbox"
  let ?rest = "bind_io (catch_io (collector_command K ?r ''ready'')) (\<lambda>q. case q of
      Inr data \<Rightarrow> armed_ok E ?r data
    | Inl _ \<Rightarrow> then_io (collector_command K ?r ''collect'') (bind_io (await_ready K E ?r (re_ticks E)) (armed_ok E ?r)))"
  have rest: "keeps (steady E) ?rest"
    unfolding armed_ok_def by (intro steady_intros steady_command steady_await)
  have upd: "steady E w (snd (upd (\<lambda>l. l\<lparr>l_collector_request := Some ?r\<rparr>) w))" if "l_collector_request (rw_ledger w) = None"
    using that by (auto simp: upd_def io_apply evolved_def same_run_def same_uids_def rank_def once_def disk_between_def intro!: steady_quiet)
  have set: "steady E w (snd ((if l_collector_request (rw_ledger w) = None
      then then_io (upd (\<lambda>l. l\<lparr>l_collector_request := Some ?r\<rparr>)) (save E) else ret ()) w))"
  proof (cases "l_collector_request (rw_ledger w) = None")
    case True
    then show ?thesis by (simp only: if_True simp_thms) (rule std.at_then, erule upd, rule std.at_keeps[OF steady_save])
  next
    case False
    then show ?thesis by (simp only: if_False) (simp add: io_apply std.refl_R)
  qed
  have main: "arm_collector K E sandbox w = then_io (lift_io (to_res (request_validate ?r)))
     (then_io (require (l_collector_request (rw_ledger w) \<in> {None, Some ?r}) (EMsg ''collector binding changed; gate remains closed''))
     (then_io (if l_collector_request (rw_ledger w) = None
        then then_io (upd (\<lambda>l. l\<lparr>l_collector_request := Some ?r\<rparr>)) (save E) else ret ()) ?rest)) w"
    by (simp add: arm_collector_def led_def io_apply Let_def)
  show "steady E w (snd (arm_collector K E sandbox w))" unfolding main
  proof (rule std.at_then)
    show "steady E w (snd (lift_io (to_res (request_validate ?r)) w))" by (simp add: io_apply std.refl_R)
  next
    fix x t assume "lift_io (to_res (request_validate ?r)) w = (Inr x, t)"
    then have t: "t = w" by (simp add: io_apply)
    show "steady E t (snd (then_io (require (l_collector_request (rw_ledger w) \<in> {None, Some ?r}) (EMsg ''collector binding changed; gate remains closed''))
     (then_io (if l_collector_request (rw_ledger w) = None
        then then_io (upd (\<lambda>l. l\<lparr>l_collector_request := Some ?r\<rparr>)) (save E) else ret ()) ?rest) t))"
      unfolding t by (rule std.at_then[OF std.at_keeps[OF std.keeps_require]], rule std.at_then)
        (use set std.at_keeps[OF rest] in \<open>auto simp: io_apply split: if_splits\<close>)
  qed
qed

end
