(* ===== verification/Net.thy ===== *)
theory Net
  imports Text
begin

text \<open>
  IP address literals, as \<open>netip.ParseAddr\<close> and \<open>net.ParseIP\<close> of the standard library read them.
\<close>

section \<open>IPv4\<close>

definition is_digit :: "char \<Rightarrow> bool" where
  "is_digit c \<longleftrightarrow> in_rng 48 57 (of_char c)"

definition dec_value :: "string \<Rightarrow> nat" where
  "dec_value s = foldl (\<lambda>a c. 10 * a + (of_char c - 48)) 0 s"

definition octet_ok :: "string \<Rightarrow> bool" where
  \<comment> \<open>digits, no leading zero, at most 255\<close>
  "octet_ok s \<longleftrightarrow> s \<noteq> [] \<and> list_all is_digit s \<and> (hd s = CHR ''0'' \<longrightarrow> s = ''0'') \<and> dec_value s \<le> 255"

definition parse_ip4 :: "string \<Rightarrow> nat list option" where
  \<comment> \<open>\<open>ParseAddr\<close> with \<open>Is4\<close>\<close>
  "parse_ip4 s = (let fs = split_on CHR ''.'' s in if length fs = 4 \<and> list_all octet_ok fs then Some (map dec_value fs) else None)"

definition show_ip4 :: "nat list \<Rightarrow> string" where
  "show_ip4 v = (case v of [] \<Rightarrow> [] | n # ns \<Rightarrow> show_nat n @ concat (map (\<lambda>m. CHR ''.'' # show_nat m) ns))"

definition is_private4 :: "nat list \<Rightarrow> bool" where
  \<comment> \<open>\<open>Addr.IsPrivate\<close>\<close>
  "is_private4 v \<longleftrightarrow> v ! 0 = 10 \<or> (v ! 0 = 172 \<and> 16 \<le> v ! 1 \<and> v ! 1 \<le> 31) \<or> (v ! 0 = 192 \<and> v ! 1 = 168)"

definition private_ip4 :: "string \<Rightarrow> nat list option" where
  "private_ip4 s = (case parse_ip4 s of None \<Rightarrow> None | Some v \<Rightarrow> if is_private4 v then Some v else None)"

section \<open>IPv6\<close>

definition hex_value :: "char \<Rightarrow> nat option" where
  "hex_value c = (let n = of_char c :: nat in if in_rng 48 57 n then Some (n - 48) else if in_rng 97 102 n then Some (n - 87)
     else if in_rng 65 70 n then Some (n - 55) else None)"

definition hex_field :: "string \<Rightarrow> nat" where
  "hex_field s = foldl (\<lambda>a c. 16 * a + the (hex_value c)) 0 s"

text \<open>
  The loop of \<open>parseIPv6\<close>: the bytes read so far, where the ellipsis was, the text that is left. It
  reads at most eight fields.
\<close>

fun ip6_fields :: "nat \<Rightarrow> nat list \<Rightarrow> nat option \<Rightarrow> string \<Rightarrow> (nat list \<times> nat option \<times> string) option" where
  "ip6_fields 0 bs e s = Some (bs, e, s)"
| "ip6_fields (Suc k) bs e s =
     (let f = takeWhile (\<lambda>c. hex_value c \<noteq> None) s; rest = dropWhile (\<lambda>c. hex_value c \<noteq> None) s
      in if f = [] \<or> length f > 4 then None
         else if rest \<noteq> [] \<and> hd rest = CHR ''.'' then
           (if (e = None \<and> length bs \<noteq> 12) \<or> length bs + 4 > 16 then None
            else map_option (\<lambda>v. (bs @ v, e, [])) (parse_ip4 s))
         else let bs' = bs @ [hex_field f div 256, hex_field f mod 256] in
           (case rest of
              [] \<Rightarrow> Some (bs', e, [])
            | c # r \<Rightarrow>
                if c \<noteq> CHR '':'' \<or> r = [] then None
                else if hd r = CHR '':'' then
                  (if e \<noteq> None then None
                   else if tl r = [] then Some (bs', Some (length bs'), [])
                   else ip6_fields k bs' (Some (length bs')) (tl r))
                else ip6_fields k bs' e r))"

definition parse_ip6 :: "string \<Rightarrow> nat list option" where
  "parse_ip6 s =
     (case (if has_prefix s ''::'' then (if drop 2 s = [] then Some ([], Some 0, []) else ip6_fields 8 [] (Some 0) (drop 2 s))
            else ip6_fields 8 [] None s) of
        None \<Rightarrow> None
      | Some (bs, e, rest) \<Rightarrow>
          if rest \<noteq> [] then None
          else if length bs < 16 then (case e of None \<Rightarrow> None | Some i \<Rightarrow> Some (take i bs @ replicate (16 - length bs) 0 @ drop i bs))
          else if e \<noteq> None then None else Some bs)"

definition parse_ip :: "string \<Rightarrow> bool option" where
  \<comment> \<open>\<open>net.ParseIP\<close>, and whether \<open>To4\<close> is not nil; a zone is refused\<close>
  "parse_ip s = (case parse_ip4 s of Some v \<Rightarrow> Some True | None \<Rightarrow>
     (if \<not> contains s '':'' then None
      else map_option (\<lambda>b. take 10 b = replicate 10 0 \<and> b ! 10 = 255 \<and> b ! 11 = 255) (parse_ip6 s)))"

lemma parse_ip4_length: "parse_ip4 s = Some v \<Longrightarrow> length v = 4"
  by (auto simp: parse_ip4_def Let_def split: if_splits)

end
