(* ===== verification/Gate.thy ===== *)
theory Gate
  imports Collection Net
begin

text \<open>
  The release of a runner, internal/coordinator/network_gate.go: the workload's init container waits
  until the coordinator has verified the firewall of its sandbox on the node, armed the collector and
  patched a ConfigMap for exactly this pod and this invocation. \<open>Coordinator.Config\<close> is set, as
  \<open>Connect\<close> does.
\<close>

section \<open>Reading the cluster\<close>

definition gate_node :: string where
  "gate_node = ''cleanup-receipt-control-plane''"

definition gate_request_nonce :: "kconfig \<Rightarrow> ledger \<Rightarrow> gerr + string" where
  "gate_request_nonce request l =
     (let m = kc_meta request; nonce = lookup_or [] (kc_data request) ''nonce'' in
      if km_uid m = [] \<or> km_version m = [] \<or> km_deleting m \<or> \<not> owned_by l m
      then Inl (EMsg ''network gate request ConfigMap ownership mismatch'')
      else if nonce = [] then Inr []
      else if \<not> hex_n 64 nonce \<or> lookup_or [] (kc_data request) ''pod_uid'' \<noteq> l_pod_uid l
      then Inl (EMsg ''invalid network gate request nonce or pod UID'')
      else Inr nonce)"

definition gate_docker :: "'x capi \<Rightarrow> string list \<Rightarrow> ('x rworld, bytes) io" where
  "gate_docker K args = bind_io (api (ca_run K args)) (\<lambda>out.
     then_io (require (int (length out) \<le> 8388608) (EMsg ''CRI listing exceeds limit'')) (then_io (trace_event (Node_command args)) (ret out)))"

fun select_sandbox :: "string \<Rightarrow> string \<Rightarrow> string \<Rightarrow> (string \<times> string \<times> string \<times> string \<times> string) list \<Rightarrow> string \<Rightarrow> gerr + string" where
  \<comment> \<open>\<open>selectGateSandbox\<close>; the last argument is the sandbox selected so far\<close>
  "select_sandbox ns name uid [] selected = Inr selected"
| "select_sandbox ns name uid ((id', state, name', ns', uid') # items) selected =
     (if name' \<noteq> name \<or> ns' \<noteq> ns then select_sandbox ns name uid items selected
      else if uid' \<noteq> uid then Inl (EMsg ''CRI pod UID mismatch'')
      else if \<not> hex_n 64 id' then Inl (EMsg ''invalid CRI sandbox ID'')
      else if state \<noteq> ''SANDBOX_READY'' then select_sandbox ns name uid items selected
      else if selected \<noteq> [] then Inl (EMsg ''multiple ready runner sandboxes'')
      else select_sandbox ns name uid items id')"

fun node_endpoint :: "(string \<times> string) list \<Rightarrow> string \<Rightarrow> gerr + string" where
  "node_endpoint [] endpoint = Inr endpoint"
| "node_endpoint ((kind, address) # rest) endpoint = (case private_ip4 address of
     Some v \<Rightarrow> if kind \<noteq> ''InternalIP'' then node_endpoint rest endpoint
       else if endpoint \<noteq> [] \<and> endpoint \<noteq> show_ip4 v then Inl (EMsg ''ambiguous node IPv4 addresses'')
       else node_endpoint rest (show_ip4 v)
   | None \<Rightarrow> node_endpoint rest endpoint)"

section \<open>Releasing the gate\<close>

definition netgate_args :: "string \<Rightarrow> string \<Rightarrow> string \<Rightarrow> string \<Rightarrow> string \<Rightarrow> string list" where
  "netgate_args sandbox uid ns api_ip endpoint = [''exec'', gate_node, ''/usr/local/bin/proof-netgate'', ''--sandbox'', sandbox,
     ''--pod-uid'', uid, ''--namespace'', ns, ''--api-ip'', api_ip, ''--endpoint-ip'', endpoint]"

definition release_gate :: "'x capi \<Rightarrow> ledger \<Rightarrow> kconfig \<Rightarrow> string \<Rightarrow> ('x rworld, unit) io" where
  \<comment> \<open>the JSON patch, which tests the UID and the resource version it read\<close>
  "release_gate K l gate nonce =
     then_io (trace_event (Gate_released (l_pod_uid l) nonce))
       (api (ca_patch_gate K (l_runner_ns l) (km_uid (kc_meta gate)) (km_version (kc_meta gate))
         [(''ready'', ''true''), (''pod_uid'', l_pod_uid l), (''nonce'', nonce)]))"

definition release_unless_changed :: "'x capi \<Rightarrow> ledger \<Rightarrow> kconfig \<Rightarrow> kconfig \<Rightarrow> string \<Rightarrow> ('x rworld, unit) io" where
  "release_unless_changed K l gate request nonce =
     bind_io (catch_io (api (ca_config K (l_runner_ns l) ''runner-gate-request''))) (\<lambda>q. case q of
       Inl e \<Rightarrow> if not_found e then ret () else throw e
     | Inr latest \<Rightarrow> bind_io (lift_io (gate_request_nonce latest l)) (\<lambda>latest_nonce.
         if km_uid (kc_meta latest) \<noteq> km_uid (kc_meta request) \<or> km_version (kc_meta latest) \<noteq> km_version (kc_meta request) \<or>
            latest_nonce \<noteq> nonce \<or> lookup_or [] (kc_data latest) ''pod_uid'' \<noteq> lookup_or [] (kc_data request) ''pod_uid''
         then ret () else release_gate K l gate nonce))"

definition install_gate :: "'x capi \<Rightarrow> renv \<Rightarrow> ledger \<Rightarrow> string \<Rightarrow> string \<Rightarrow> string \<Rightarrow> kconfig \<Rightarrow> kconfig \<Rightarrow> string \<Rightarrow> ('x rworld, unit) io" where
  \<comment> \<open>from the sandbox on\<close>
  "install_gate K E l sandbox api_ip endpoint gate request nonce =
     bind_io (catch_io (gate_docker K (netgate_args sandbox (l_pod_uid l) (l_runner_ns l) api_ip endpoint))) (\<lambda>q. case q of
       Inl e \<Rightarrow> if exited 75 e then ret () else throw e
     | Inr _ \<Rightarrow> then_io (arm_collector K E sandbox) (release_unless_changed K l gate request nonce))"

definition find_sandbox :: "'x capi \<Rightarrow> renv \<Rightarrow> ledger \<Rightarrow> kpod \<Rightarrow> kconfig \<Rightarrow> kconfig \<Rightarrow> string \<Rightarrow> ('x rworld, unit) io" where
  "find_sandbox K E l pod gate request nonce =
     bind_io (api (ca_nodes K)) (\<lambda>nodes.
     then_io (require (map nd_name nodes = [gate_node]) (EMsg ''network gate requires the single-node cleanup-receipt cluster''))
     (bind_io (api (ca_service K)) (\<lambda>ip. (case private_ip4 ip of
       None \<Rightarrow> throw (EMsg ''network gate requires a private IPv4 API Service'')
     | Some v \<Rightarrow>
         bind_io (lift_io (node_endpoint (concat (map nd_addresses nodes)) [])) (\<lambda>endpoint.
         then_io (require (endpoint \<noteq> []) (EMsg ''no private IPv4 control-plane endpoint''))
         (bind_io (gate_docker K [''exec'', gate_node, ''/usr/local/bin/crictl'', ''--runtime-endpoint'', ''unix:///run/containerd/containerd.sock'',
             ''pods'', ''--namespace'', l_runner_ns l, ''--name'', kp_name pod, ''-o'', ''json'']) (\<lambda>listed.
         bind_io (lift_io (re_sandboxes E listed)) (\<lambda>items.
         bind_io (lift_io (select_sandbox (l_runner_ns l) (kp_name pod) (l_pod_uid l) items [])) (\<lambda>sandbox.
           if sandbox = [] then ret ()
           else install_gate K E l sandbox (show_ip4 v) endpoint gate request nonce)))))))))"

definition workload_started :: "kpod \<Rightarrow> bool" where
  "workload_started pod \<longleftrightarrow> list_ex (\<lambda>s. ks_state s \<noteq> Waiting) (kp_statuses pod)"

definition gate_waiting :: "kpod \<Rightarrow> bool" where
  "gate_waiting pod \<longleftrightarrow> list_ex (\<lambda>s. ks_name s = ''network-gate'' \<and> ks_state s = Running) (kp_init pod)"

definition open_gate :: "'x capi \<Rightarrow> renv \<Rightarrow> ledger \<Rightarrow> kpod \<Rightarrow> kconfig \<Rightarrow> kconfig \<Rightarrow> string \<Rightarrow> ('x rworld, unit) io" where
  \<comment> \<open>from the tests of the pod on\<close>
  "open_gate K E l pod gate request nonce =
     (if km_deleting (kp_meta pod) then ret ()
      else then_io (require (\<not> kp_host_network pod) (EMsg ''runner host networking refused''))
       (if kp_node pod = [] \<or> kp_ip pod = [] then ret ()
        else then_io (require (kp_node pod = gate_node) (EMsg ''network gate supports only the fixed kind control-plane node''))
         (then_io (require (\<not> workload_started pod) (EMsg ''workload started before network gate release''))
         (if \<not> gate_waiting pod then ret () else find_sandbox K E l pod gate request nonce))))"

definition pod_matches :: "ledger \<Rightarrow> kpod \<Rightarrow> bool" where
  "pod_matches l pod \<longleftrightarrow> l_pod_uid l \<noteq> [] \<and> km_uid (kp_meta pod) = l_pod_uid l \<and> kp_name pod = l_pod_name l \<and>
     kp_namespace pod = l_runner_ns l \<and> l_runner_ns l = ''proof-runner-'' @ l_token l \<and> run_pattern (l_token l) \<and>
     label run_label (kp_meta pod) = l_token l"

definition gate_body :: "'x capi \<Rightarrow> renv \<Rightarrow> kpod \<Rightarrow> ledger \<Rightarrow> ('x rworld, unit) io" where
  "gate_body K E pod l =
     then_io (require (pod_matches l pod) (EMsg ''network gate pod identity mismatch''))
     (bind_io (api (ca_config K (l_runner_ns l) ''runner-gate'')) (\<lambda>gate.
     let bound = lookup_or [] (kc_data gate) ''pod_uid''; ready = lookup_or [] (kc_data gate) ''ready'' in
     then_io (require (km_uid (kc_meta gate) \<noteq> [] \<and> \<not> km_deleting (kc_meta gate) \<and> owned_by l (kc_meta gate))
       (EMsg ''network gate ConfigMap ownership mismatch''))
     (then_io (require (bound = [] \<or> bound = l_pod_uid l) (EMsg ''network gate bound to another pod UID''))
     (bind_io (catch_io (api (ca_config K (l_runner_ns l) ''runner-gate-request''))) (\<lambda>q. case q of
        Inl e \<Rightarrow> if not_found e then ret () else throw e
      | Inr request \<Rightarrow>
          bind_io (lift_io (gate_request_nonce request l)) (\<lambda>nonce.
          if nonce = [] then ret ()
          else then_io (require (ready = ''true'' \<longrightarrow> bound = l_pod_uid l) (EMsg ''ready network gate lacks pod UID binding''))
           (if ready = ''true'' \<and> lookup_or [] (kc_data gate) ''nonce'' = nonce then ret ()
            else then_io (require (ready \<in> {[], ''false'', ''true''}) (EMsg ''invalid network gate ready state''))
              (open_gate K E l pod gate request nonce))))))))"

definition ensure_gate :: "'x capi \<Rightarrow> renv \<Rightarrow> kpod \<Rightarrow> ('x rworld, unit) io" where
  \<comment> \<open>\<open>ensureGateWith\<close>\<close>
  "ensure_gate K E pod = bind_io (led id) (gate_body K E pod)"

section \<open>The gate is released last\<close>

lemma steady_gate: "keeps (steady E) (ensure_gate K E pod)"
  unfolding ensure_gate_def gate_body_def open_gate_def find_sandbox_def install_gate_def release_unless_changed_def release_gate_def gate_docker_def Let_def
  by (intro steady_intros steady_arm)

definition untraced :: "'x rworld \<Rightarrow> 'x rworld \<Rightarrow> bool" where
  "untraced w w' \<longleftrightarrow> rw_trace w' = rw_trace w \<and> l_pod_uid (rw_ledger w') = l_pod_uid (rw_ledger w)"

interpretation unt: two_state untraced
  by unfold_locales (auto simp: untraced_def)

lemma untraced_api: "keeps untraced (api m)"
  by (auto simp: keeps_def lens_io_def untraced_def split: prod.split)

lemma untraced_led: "keeps untraced (led f)"
  by (simp add: led_def unt.keeps_get)

lemma untraced_tick: "keeps untraced (at_tick f)"
  by (auto simp: keeps_def at_tick_def untraced_def)

lemma untraced_save: "keeps untraced (save E)"
proof -
  have "untraced w w'" if s: "save E w = (r, w')" for w w' :: "'x rworld" and r
    using save_frame[OF s] by (simp add: untraced_def)
  then show ?thesis unfolding keeps_def by (metis prod.collapse)
qed

lemmas untraced_intros = unt.keeps_ret unt.keeps_throw unt.keeps_get unt.keeps_lift unt.keeps_require unt.keeps_bind unt.keeps_then
  unt.keeps_catch unt.keeps_if unt.keeps_sum unt.keeps_option untraced_api untraced_led untraced_tick untraced_save

lemma untraced_command: "keeps untraced (collector_command K r mode)"
  unfolding collector_command_def Let_def by (intro untraced_intros) (auto split: option.split intro!: untraced_intros)

lemma untraced_await: "keeps untraced (await_ready K E r n)"
  by (induction n) (auto intro!: untraced_intros untraced_command)

text \<open>
  The events of one call: when it asks for a release, they are the listing of the sandboxes, the
  firewall of one sandbox, the collector's proof for the same sandbox and the release, in this order.
\<close>

definition gate_sequence :: "ledger \<Rightarrow> gate_event list \<Rightarrow> bool" where
  "gate_sequence l ts \<longleftrightarrow> (\<forall>u n. Gate_released u n \<in> set ts \<longrightarrow> u = l_pod_uid l \<and>
     (\<exists>list sandbox api_ip endpoint r. ts = [Node_command list, Node_command (netgate_args sandbox u (l_runner_ns l) api_ip endpoint),
        Collector_armed r, Gate_released u n] \<and> q_sandbox r = sandbox \<and> q_uid r = u))"

definition traced :: "ledger \<Rightarrow> gate_event list \<Rightarrow> gate_event list \<Rightarrow> 'x rworld \<Rightarrow> bool" where
  "traced l t ts w \<longleftrightarrow> rw_trace w = t @ ts \<and> l_pod_uid (rw_ledger w) = l_pod_uid l"

abbreviation traced_ok :: "ledger \<Rightarrow> gate_event list \<Rightarrow> 'x rworld \<Rightarrow> bool" where
  "traced_ok l t w \<equiv> \<exists>ts. traced l t ts w \<and> gate_sequence l ts"

lemma triple_untraced:
  fixes m :: "('x rworld, 'a) io"
  assumes "keeps untraced m" "gate_sequence l ts"
  shows "triple (traced l t ts) m (\<lambda>_. traced l t ts) (traced_ok l t)"
proof (rule tripleI)
  fix w :: "'x rworld" assume w: "traced l t ts w"
  obtain r v where v: "m w = (r, v)" by fastforce
  have "untraced w v" using unt.keepsD[OF assms(1) v] .
  with w have "traced l t ts v" by (simp add: traced_def untraced_def)
  with v assms(2) show "case m w of (Inr x, v) \<Rightarrow> traced l t ts v | (Inl e, v) \<Rightarrow> traced_ok l t v" by (auto split: sum.split)
qed

lemma sequence_start: "gate_sequence l []" "gate_sequence l [Node_command a]" "gate_sequence l [Node_command a, Node_command b]"
  "gate_sequence l [Node_command a, Node_command b, Collector_armed r]"
  by (simp_all add: gate_sequence_def)

lemma traced_stop: "gate_sequence l ts \<Longrightarrow> triple (traced l t ts) (ret ()) (\<lambda>_. traced_ok l t) (traced_ok l t)"
  by (auto intro!: triple_ret)

lemma traced_fail: "gate_sequence l ts \<Longrightarrow> triple (traced l t ts) (throw x) (\<lambda>_. traced_ok l t) (traced_ok l t)"
  by (rule triple_error[OF triple_throw]) blast

lemma traced_done: "gate_sequence l ts \<Longrightarrow> triple (traced l t ts) m (\<lambda>_. traced_ok l t) (traced_ok l t) \<Longrightarrow>
    triple (traced l t ts) (if b then ret () else m) (\<lambda>_. traced_ok l t) (traced_ok l t)"
  by (auto simp: triple_def io_apply)

lemma traced_then:
  "gate_sequence l ts \<Longrightarrow> keeps untraced m \<Longrightarrow> triple (traced l t ts) n (\<lambda>_. traced_ok l t) (traced_ok l t) \<Longrightarrow>
   triple (traced l t ts) (then_io m n) (\<lambda>_. traced_ok l t) (traced_ok l t)"
  by (rule triple_then[OF triple_untraced])

lemma traced_bind:
  "gate_sequence l ts \<Longrightarrow> keeps untraced m \<Longrightarrow> (\<And>x. triple (traced l t ts) (f x) (\<lambda>_. traced_ok l t) (traced_ok l t)) \<Longrightarrow>
   triple (traced l t ts) (bind_io m f) (\<lambda>_. traced_ok l t) (traced_ok l t)"
  by (rule triple_bind[OF triple_untraced])

lemma traced_sum:
  "(\<And>e. triple P (f e) Q E) \<Longrightarrow> (\<And>x. triple P (g x) Q E) \<Longrightarrow> triple P (case r of Inl e \<Rightarrow> f e | Inr x \<Rightarrow> g x) Q E"
  by (cases r) simp_all

lemma traced_option:
  "triple P m Q E \<Longrightarrow> (\<And>x. triple P (g x) Q E) \<Longrightarrow> triple P (case r of None \<Rightarrow> m | Some x \<Rightarrow> g x) Q E"
  by (cases r) simp_all

lemmas traced_intros = traced_then traced_bind traced_sum traced_option traced_done traced_fail traced_stop sequence_start untraced_intros

lemma traced_event: "triple (traced l t ts) (trace_event ev) (\<lambda>_. traced l t (ts @ [ev])) X"
  by (simp add: trace_event_def triple_def io_apply traced_def)

lemma traced_docker:
  assumes "gate_sequence l ts"
  shows "triple (traced l t ts) (gate_docker K args) (\<lambda>_. traced l t (ts @ [Node_command args])) (traced l t ts)"
  unfolding gate_docker_def
  by (auto simp: triple_def io_apply lens_io_def trace_event_def traced_def split: prod.split sum.split)

text \<open>Arming the collector adds its proof, and only that.\<close>

lemma traced_arm:
  fixes K :: "'x capi"
  assumes s: "gate_sequence l ts"
  shows "triple (traced l t ts) (arm_collector K E sandbox)
    (\<lambda>_ w. \<exists>r. traced l t (ts @ [Collector_armed r]) w \<and> q_sandbox r = sandbox \<and> q_uid r = l_pod_uid l) (traced_ok l t)"
proof -
  let ?done = "\<lambda>(_ :: unit) (w :: 'x rworld). \<exists>r. traced l t (ts @ [Collector_armed r]) w \<and> q_sandbox r = sandbox \<and> q_uid r = l_pod_uid l"
  note u = triple_untraced[OF _ s]
  have ready: "triple (traced l t ts) (armed_ok E r data) ?done (traced_ok l t)" if "q_sandbox r = sandbox \<and> q_uid r = l_pod_uid l" for r data
    unfolding armed_ok_def
    by (rule triple_bind[OF u[OF unt.keeps_lift]], rule triple_then[OF u[OF unt.keeps_require]], rule triple_post[OF traced_event]) (use that in blast)
  have put: "keeps untraced (upd (\<lambda>l. l\<lparr>l_collector_request := q\<rparr>))" for q
    by (simp add: keeps_def upd_def io_apply untraced_def)
  have body: "triple (traced l t ts) (let r = collector_request_of E l' sandbox in
     then_io (lift_io (to_res (request_validate r)))
     (then_io (require (l_collector_request l' \<in> {None, Some r}) e)
     (then_io (if l_collector_request l' = None then then_io (upd (\<lambda>l. l\<lparr>l_collector_request := Some r\<rparr>)) (save E) else ret ())
     (bind_io (catch_io (collector_command K r ''ready'')) (\<lambda>q. case q of
        Inr data \<Rightarrow> armed_ok E r data
      | Inl _ \<Rightarrow> then_io (collector_command K r ''collect'') (bind_io (await_ready K E r (re_ticks E)) (armed_ok E r))))))) ?done (traced_ok l t)"
    if "l_pod_uid l' = l_pod_uid l" for l' e
    unfolding Let_def
    by (rule triple_then[OF u[OF unt.keeps_lift]], rule triple_then[OF u[OF unt.keeps_require]],
        rule triple_then[OF u[OF unt.keeps_if[OF unt.keeps_then[OF put untraced_save] unt.keeps_ret]]],
        rule triple_bind[OF u[OF unt.keeps_catch[OF untraced_command]]], rule traced_sum,
        rule triple_then[OF u[OF untraced_command]], rule triple_bind[OF u[OF untraced_await]], rule ready, use that in \<open>simp add: collector_request_of_def\<close>,
        rule ready, use that in \<open>simp add: collector_request_of_def\<close>)
  show ?thesis
  proof (rule tripleI)
    fix w :: "'x rworld" assume w: "traced l t ts w"
    then have l': "l_pod_uid (rw_ledger w) = l_pod_uid l" by (simp add: traced_def)
    show "case arm_collector K E sandbox w of (Inr x, v) \<Rightarrow> ?done x v | (Inl e, v) \<Rightarrow> traced_ok l t v"
      unfolding arm_collector_def by (subst bind_led, unfold id_apply, rule body[OF l', unfolded triple_def, rule_format, OF w])
  qed
qed

lemma traced_release:
  assumes "q_sandbox r = sandbox" "q_uid r = l_pod_uid l"
  shows "triple (traced l t [Node_command a, Node_command (netgate_args sandbox (l_pod_uid l) (l_runner_ns l) b c), Collector_armed r])
    (release_unless_changed K l gate request nonce) (\<lambda>_. traced_ok l t) (traced_ok l t)"
proof -
  let ?ts = "[Node_command a, Node_command (netgate_args sandbox (l_pod_uid l) (l_runner_ns l) b c), Collector_armed r]"
  have all: "gate_sequence l (?ts @ [Gate_released (l_pod_uid l) nonce])" using assms by (auto simp: gate_sequence_def)
  have rel: "triple (traced l t ?ts) (release_gate K l gate nonce) (\<lambda>_. traced_ok l t) (traced_ok l t)"
    unfolding release_gate_def
    by (rule triple_then[OF traced_event], rule triple_post[OF triple_untraced[OF untraced_api all]]) (use all in blast)
  show ?thesis unfolding release_unless_changed_def by (intro traced_intros rel)
qed

lemma traced_install: "triple (traced l t [Node_command a]) (install_gate K E l sandbox b c gate request nonce) (\<lambda>_. traced_ok l t) (traced_ok l t)"
proof -
  let ?c = "Node_command (netgate_args sandbox (l_pod_uid l) (l_runner_ns l) b c)"
  have cmd: "triple (traced l t [Node_command a]) (catch_io (gate_docker K (netgate_args sandbox (l_pod_uid l) (l_runner_ns l) b c)))
      (\<lambda>q. traced l t (case q of Inl _ \<Rightarrow> [Node_command a] | Inr _ \<Rightarrow> [Node_command a, ?c])) (traced_ok l t)"
    unfolding gate_docker_def
    by (auto simp: triple_def io_apply lens_io_def trace_event_def traced_def split: prod.split sum.split)
  have rel: "triple (\<lambda>w. \<exists>r. traced l t ([Node_command a, ?c] @ [Collector_armed r]) w \<and> q_sandbox r = sandbox \<and> q_uid r = l_pod_uid l)
      (release_unless_changed K l gate request nonce) (\<lambda>_. traced_ok l t) (traced_ok l t)"
    by (rule triple_ex, rule triple_pure) (simp add: traced_release)
  have ok: "triple (traced l t [Node_command a, ?c]) (then_io (arm_collector K E sandbox) (release_unless_changed K l gate request nonce))
      (\<lambda>_. traced_ok l t) (traced_ok l t)"
    by (rule triple_then[OF traced_arm[OF sequence_start(3)] rel])
  have no: "triple (traced l t [Node_command a]) (if b then ret () else throw e) (\<lambda>_. traced_ok l t) (traced_ok l t)" for b e
    by (intro traced_intros)
  show ?thesis unfolding install_gate_def
  proof (rule triple_bind[OF cmd])
    fix q :: "gerr + bytes"
    show "triple (traced l t (case q of Inl _ \<Rightarrow> [Node_command a] | Inr _ \<Rightarrow> [Node_command a, ?c])) (case q of
       Inl e \<Rightarrow> if exited 75 e then ret () else throw e
     | Inr _ \<Rightarrow> then_io (arm_collector K E sandbox) (release_unless_changed K l gate request nonce)) (\<lambda>_. traced_ok l t) (traced_ok l t)"
      by (cases q) (simp_all only: sum.case ok no)
  qed
qed

lemma traced_listing:
  assumes "\<And>x. triple (traced l t [Node_command args]) (f x) (\<lambda>_. traced_ok l t) (traced_ok l t)"
  shows "triple (traced l t []) (bind_io (gate_docker K args) f) (\<lambda>_. traced_ok l t) (traced_ok l t)"
proof (rule triple_bind)
  show "triple (traced l t []) (gate_docker K args) (\<lambda>_. traced l t [Node_command args]) (traced_ok l t)"
    by (rule triple_error[OF traced_docker[OF sequence_start(1), of l t K args, unfolded append_Nil]]) (use sequence_start(1) in blast)
qed (rule assms)

lemma traced_find: "triple (traced l t []) (find_sandbox K E l pod gate request nonce) (\<lambda>_. traced_ok l t) (traced_ok l t)"
  unfolding find_sandbox_def
  by (rule traced_bind[OF sequence_start(1) untraced_api], rule traced_then[OF sequence_start(1) unt.keeps_require],
      rule traced_bind[OF sequence_start(1) untraced_api], rule traced_option[OF traced_fail[OF sequence_start(1)]],
      rule traced_bind[OF sequence_start(1) unt.keeps_lift], rule traced_then[OF sequence_start(1) unt.keeps_require], rule traced_listing)
    (intro traced_intros traced_install)

lemma traced_open: "triple (traced l t []) (open_gate K E l pod gate request nonce) (\<lambda>_. traced_ok l t) (traced_ok l t)"
  unfolding open_gate_def by (intro traced_intros traced_find)

definition gate_may_open :: "ledger \<Rightarrow> kpod \<Rightarrow> bool" where
  "gate_may_open l pod \<longleftrightarrow> pod_matches l pod \<and> \<not> km_deleting (kp_meta pod) \<and> \<not> kp_host_network pod \<and> kp_node pod = gate_node \<and>
     \<not> workload_started pod \<and> gate_waiting pod"

lemma closed_gate:
  assumes "pod_matches l pod" "\<not> gate_may_open l pod"
  shows "keeps untraced (open_gate K E l pod gate request nonce)"
  using assms by (auto simp: keeps_def open_gate_def io_apply untraced_def gate_may_open_def)

lemma traced_body: "triple (traced l t []) (gate_body K E pod l) (\<lambda>_. traced_ok l t) (traced_ok l t)"
  unfolding gate_body_def Let_def by (intro traced_intros traced_open)

lemma closed_body:
  assumes "\<not> gate_may_open l pod"
  shows "keeps untraced (gate_body K E pod l)"
proof (cases "pod_matches l pod")
  case True
  show ?thesis unfolding gate_body_def Let_def by (intro untraced_intros closed_gate[OF True assms])
next
  case False
  then show ?thesis by (simp add: gate_body_def keeps_def io_apply untraced_def)
qed

lemma ensure_gate_sequence:
  assumes "ensure_gate K E pod w = (r, w')"
  shows "\<exists>ts. rw_trace w' = rw_trace w @ ts \<and> gate_sequence (rw_ledger w) ts \<and> (ts \<noteq> [] \<longrightarrow> gate_may_open (rw_ledger w) pod)"
proof -
  let ?l = "rw_ledger w"
  have b: "gate_body K E pod ?l w = (r, w')" using assms by (simp add: ensure_gate_def led_def io_apply)
  have start: "traced ?l (rw_trace w) [] w" by (simp add: traced_def)
  have "traced_ok ?l (rw_trace w) w'"
    using b start by (cases r) (auto dest: tripleD[OF traced_body] tripleE[OF traced_body])
  moreover have "rw_trace w' = rw_trace w" if "\<not> gate_may_open ?l pod"
    using unt.keepsD[OF closed_body[OF that] b] by (simp add: untraced_def)
  ultimately show ?thesis unfolding traced_def by (cases "gate_may_open ?l pod") auto
qed

end
