(* ===== verification/Provision.thy ===== *)
theory Provision
  imports Gate
begin

text \<open>
  Provisioning, internal/coordinator/provision.go: the two namespaces, their quotas and network
  policies, the guard's account, roles and staging objects, and, once all of it exists and the
  intent is durable, the single job.
\<close>

section \<open>What is created\<close>

definition labels :: "ledger \<Rightarrow> string gomap" where
  "labels l = [(run_label, l_token l), (''app.kubernetes.io/managed-by'', ''localci'')]"

definition ns_labels :: "ledger \<Rightarrow> string gomap" where
  "ns_labels l = labels l @ [(''pod-security.kubernetes.io/enforce'', ''restricted''), (''pod-security.kubernetes.io/enforce-version'', ''v1.36'')]"

definition run_budget :: "(string \<times> string) list" where
  "run_budget = [(''count/pods'', ''1''), (''count/secrets'', ''8''), (''count/configmaps'', ''16''), (''count/serviceaccounts'', ''8''),
     (''persistentvolumeclaims'', ''0'')]"

fun egress_rules :: "string \<Rightarrow> string list \<Rightarrow> gerr + egress_rule list" where
  "egress_rules service [] = Inr []"
| "egress_rules service (host # hosts) = (case parse_ip host of
     None \<Rightarrow> Inl (EMsg ''invalid API IP'')
   | Some is4 \<Rightarrow> (case egress_rules service hosts of Inl e \<Rightarrow> Inl e
     | Inr rules \<Rightarrow> Inr ((host @ (if is4 then ''/32'' else ''/128''), if host = service then 443 else 6443) # rules)))"

definition guard_resource_rules :: "policy_rule list" where
  "guard_resource_rules = [([''*''], [''*''], [], [''get'', ''list'']),
     ([[]], [''configmaps'', ''secrets'', ''serviceaccounts''], [], [''create'', ''delete''])]"

definition guard_stage_rules :: "policy_rule list" where
  "guard_stage_rules = [([[]], [''configmaps''], [''guard-stage'', ''runner-gate-request''], [''get'', ''patch'']),
     ([[]], [''configmaps''], [''runner-gate''], [''get''])]"

definition guard_cluster_rules :: "ledger \<Rightarrow> policy_rule list" where
  "guard_cluster_rules l = [([[]], [''namespaces''], [''kube-system'', l_resource_ns l], [''get'']),
     ([[]], [''namespaces''], [l_resource_ns l], [''delete'']),
     ([[]], [''persistentvolumes''], [], [''get'', ''list''])]"

definition kubeconfig :: "string \<Rightarrow> string" where
  "kubeconfig ip = concat (map (\<lambda>line. line @ [CHR 0x0A])
     [''apiVersion: v1'', ''kind: Config'', ''clusters:'', ''- name: local'', ''  cluster:'', ''    server: https://'' @ ip @ '':443'',
      ''    certificate-authority: /var/run/secrets/kubernetes.io/serviceaccount/ca.crt'', ''users:'', ''- name: guard'', ''  user:'',
      ''    tokenFile: /var/run/secrets/kubernetes.io/serviceaccount/token'', ''contexts:'', ''- name: assigned'', ''  context:'',
      ''    cluster: local'', ''    user: guard'', ''current-context: assigned''])"

definition run_assignment :: "ledger \<Rightarrow> assignment" where
  "run_assignment l = \<lparr>a_kind = ''cleanup-assignment/v1'', a_identity = l_identity l, a_token = l_token l,
     a_namespace = l_resource_ns l, a_namespace_uid = l_resource_uid l, a_cluster_uid = l_cluster_uid l\<rparr>"

definition run_job :: "ledger \<Rightarrow> manifest" where
  "run_job l = New_job (l_runner_ns l) (labels l) (l_image l) ([''/opt/guard/dist/local.js'', ''--''] @ l_command l) (l_timeout l + 240)
     [(''PROOF_CTL'', ''/usr/local/bin/proofctl''), (''PROOF_ASSIGNMENT'', ''/assignment/assignment.json''),
      (''PROOF_KUBECONFIG'', ''/assignment/kubeconfig''), (''PROOF_STATE'', ''/control/context.json''),
      (''PROOF_SANDBOX_ROOT'', ''/data''), (''PROOF_TRANSPORT'', ''kubernetes''),
      (''PROOF_STAGE_NAMESPACE'', l_runner_ns l), (''PROOF_STAGE_NAME'', ''guard-stage''),
      (''PROOF_JOB_TIMEOUT_MS'', show_int (l_timeout l * 1000)), (''PROOF_CLEANUP_TIMEOUT_MS'', ''120000'')]"

section \<open>Steps\<close>

definition claim_uid :: "(ledger \<Rightarrow> string) \<Rightarrow> (string \<Rightarrow> ledger \<Rightarrow> ledger) \<Rightarrow> string \<Rightarrow> gerr \<Rightarrow> bool \<times> gerr \<Rightarrow> ('x rworld, unit) io" where
  \<comment> \<open>refuse another UID than the recorded one, then one more check, then record it\<close>
  "claim_uid fld put u e further = bind_io (led fld) (\<lambda>old.
     then_io (require (old = [] \<or> old = u) e) (then_io (require (fst further) (snd further)) (upd (put u))))"

definition create_or_keep :: "'x capi \<Rightarrow> manifest \<Rightarrow> ('x rworld, unit) io" where
  "create_or_keep K m = bind_io (catch_io (api (ca_create K m))) (\<lambda>q. case q of
     Inl e \<Rightarrow> if already_exists e then ret () else throw e
   | Inr _ \<Rightarrow> ret ())"

definition create_or_get :: "'x capi \<Rightarrow> manifest \<Rightarrow> ('x, kmeta) io \<Rightarrow> ('x rworld, kmeta) io" where
  "create_or_get K m get = bind_io (catch_io (api (ca_create K m))) (\<lambda>q. case q of
     Inl e \<Rightarrow> if already_exists e then api get else throw e
   | Inr made \<Rightarrow> ret made)"

definition get_meta :: "('x, kconfig) io \<Rightarrow> ('x, kmeta) io" where
  "get_meta m = bind_io m (\<lambda>c. ret (kc_meta c))"

definition claim_namespace :: "'x capi \<Rightarrow> renv \<Rightarrow> slot \<Rightarrow> ('x rworld, unit) io" where
  "claim_namespace K E s = bind_io (led id) (\<lambda>l. let name = slot_name s l; mismatch = EMsg ''namespace intent ownership/UID mismatch'' in
     bind_io (catch_io (api (ca_get K Namespaces name))) (\<lambda>q.
     bind_io (case q of Inl e \<Rightarrow> if not_found e then api (ca_create K (New_namespace name (ns_labels l))) else throw e
              | Inr m \<Rightarrow> ret m) (\<lambda>m.
     then_io (require (owned_by l m \<and> \<not> km_deleting m) mismatch)
     (then_io (claim_uid (slot_uid s) (set_slot s) (km_uid m) mismatch
        (label ''pod-security.kubernetes.io/enforce'' m = ''restricted'' \<and> label ''pod-security.kubernetes.io/enforce-version'' m = ''v1.36'',
         EMsg ''namespace admission policy changed''))
       (save E)))))"

definition api_egress :: "'x capi \<Rightarrow> ('x rworld, egress_rule list) io" where
  "api_egress K = bind_io (api (ca_service K)) (\<lambda>service. bind_io (api (ca_nodes K)) (\<lambda>nodes.
     then_io (require (length nodes = 1) (EMsg ''this local CI profile supports exactly one kind node''))
     (lift_io (egress_rules service (service #
        map snd (filter (\<lambda>a. fst a = ''InternalIP'') (concat (map nd_addresses nodes))))))))"

definition isolate_namespace :: "'x capi \<Rightarrow> slot \<Rightarrow> ('x rworld, unit) io" where
  \<comment> \<open>quota and network policy of one namespace\<close>
  "isolate_namespace K s = bind_io (led id) (\<lambda>l. let ns = slot_name s l in
     then_io (create_or_keep K (New_quota ns (labels l) run_budget))
     (bind_io (if ns = l_runner_ns l then api_egress K else ret []) (\<lambda>egress.
      bind_io (catch_io (api (ca_create K (New_policy ns (labels l) egress)))) (\<lambda>q. case q of
        Inr _ \<Rightarrow> ret ()
      | Inl e \<Rightarrow> if already_exists e then bind_io (api (ca_policy K ns)) (\<lambda>live.
            require (lookup_or [] (fst live) run_label = l_token l \<and> snd live = Some egress) (EMsg ''network policy ownership/spec changed''))
          else throw e))))"

definition provision_stage :: "'x capi \<Rightarrow> renv \<Rightarrow> ('x rworld, unit) io" where
  \<comment> \<open>the guard's account and its ConfigMaps\<close>
  "provision_stage K E = bind_io (led id) (\<lambda>l. let ns = l_runner_ns l in
     then_io (create_or_keep K (New_account ns ''guard'' (labels l)))
     (bind_io (create_or_get K (New_config ns ''guard-stage'' (labels l) False []) (get_meta (ca_config K ns ''guard-stage''))) (\<lambda>stage.
     then_io (require (label run_label stage = l_token l) (EMsg ''stage UID changed''))
     (then_io (claim_uid l_stage_uid (\<lambda>u l. l\<lparr>l_stage_uid := u\<rparr>) (km_uid stage) (EMsg ''stage UID changed'') (True, EInvalid))
     (then_io (create_or_keep K (New_config ns ''runner-gate'' (labels l) False [(''ready'', ''false'')]))
     (then_io (create_or_keep K (New_config ns ''runner-gate-request'' (labels l) False []))
       (save E)))))))"

definition provision_roles :: "'x capi \<Rightarrow> renv \<Rightarrow> ('x rworld, unit) io" where
  "provision_roles K E = bind_io (led id) (\<lambda>l. let name = ''proof-guard-'' @ l_token l in
     then_io (for_io [(l_resource_ns l, ''guard-resources'', guard_resource_rules), (l_runner_ns l, ''guard-stage'', guard_stage_rules)]
       (\<lambda>(ns, role, rules). then_io (create_or_keep K (New_role ns role (labels l) rules))
          (create_or_keep K (New_role_binding ns role (labels l) (l_runner_ns l)))))
     (bind_io (create_or_get K (New_cluster_role name (labels l) (guard_cluster_rules l)) (ca_get K Cluster_roles name)) (\<lambda>role.
     then_io (require (label run_label role = l_token l) (EMsg ''role UID changed''))
     (then_io (claim_uid l_role_uid (\<lambda>u l. l\<lparr>l_role_uid := u\<rparr>) (km_uid role) (EMsg ''role UID changed'') (True, EInvalid))
     (bind_io (create_or_get K (New_cluster_role_binding name (labels l) (l_runner_ns l)) (ca_get K Cluster_role_bindings name)) (\<lambda>binding.
     then_io (require (label run_label binding = l_token l) (EMsg ''binding UID changed''))
     (then_io (claim_uid l_binding_uid (\<lambda>u l. l\<lparr>l_binding_uid := u\<rparr>) (km_uid binding) (EMsg ''binding UID changed'') (True, EInvalid))
       (save E))))))))"

definition provision_assignment :: "'x capi \<Rightarrow> renv \<Rightarrow> ('x rworld, unit) io" where
  "provision_assignment K E = bind_io (led id) (\<lambda>l.
     bind_io (lift_io (re_assignment E (run_assignment l))) (\<lambda>json.
     bind_io (api (ca_service K)) (\<lambda>ip.
     create_or_keep K (New_config (l_runner_ns l) ''assignment'' (labels l) True [(''assignment.json'', json), (''kubeconfig'', kubeconfig ip)]))))"

definition prepare_run :: "'x capi \<Rightarrow> renv \<Rightarrow> ('x rworld, unit) io" where
  \<comment> \<open>\<open>provision\<close> up to the assignment\<close>
  "prepare_run K E = bind_io (api (ca_get K Namespaces ''kube-system'')) (\<lambda>cluster.
     then_io (claim_uid l_cluster_uid (\<lambda>u l. l\<lparr>l_cluster_uid := u\<rparr>) (km_uid cluster) (EMsg ''cluster identity changed'') (True, EInvalid))
     (then_io (save E)
     (then_io (for_io [Runner_slot, Resource_slot] (claim_namespace K E))
     (then_io (for_io [Runner_slot, Resource_slot] (isolate_namespace K))
     (then_io (provision_stage K E)
     (then_io (provision_roles K E)
       (provision_assignment K E)))))))"

definition count_launch :: "('x rworld, unit) io" where
  "count_launch = mod_io (\<lambda>w. w\<lparr>rw_launches := Suc (rw_launches w)\<rparr>)"

definition intend_launch :: "renv \<Rightarrow> ('x rworld, unit) io" where
  "intend_launch E = then_io (upd (\<lambda>l. l\<lparr>l_phase := ''launching'', l_launch_attempted := True\<rparr>)) (save E)"

definition create_job :: "'x capi \<Rightarrow> renv \<Rightarrow> ledger \<Rightarrow> ('x rworld, unit) io" where
  "create_job K E l =
     bind_io (create_or_get K (run_job l) (bind_io (ca_job K (l_runner_ns l)) (\<lambda>j. ret (kj_meta j)))) (\<lambda>job.
     then_io (require (label run_label job = l_token l) (EMsg ''job UID changed''))
     (then_io (claim_uid l_job_uid (\<lambda>u l. l\<lparr>l_job_uid := u\<rparr>) (km_uid job) (EMsg ''job UID changed'') (True, EInvalid))
     (then_io (set_phase ''running'') (save E))))"

definition launch_job :: "'x capi \<Rightarrow> renv \<Rightarrow> ('x rworld, unit) io" where
  \<comment> \<open>from the durable intent on\<close>
  "launch_job K E = then_io (intend_launch E) (bind_io (led id) (\<lambda>l. then_io count_launch (create_job K E l)))"

definition launch :: "'x capi \<Rightarrow> renv \<Rightarrow> ('x rworld, unit) io" where
  "launch K E = bind_io (catch_io (stat_file E ''cancel.requested'')) (\<lambda>q. case q of
     Inr _ \<Rightarrow> then_io (upd (\<lambda>l. l\<lparr>l_cancel := True\<rparr>)) (then_io (set_phase ''collecting'') (save E))
   | Inl _ \<Rightarrow> bind_io (led l_launch_attempted) (\<lambda>attempted.
       then_io (require (\<not> attempted) (EMsg ''launch was already attempted; reconcile without repeating the command'')) (launch_job K E)))"

definition provision :: "'x capi \<Rightarrow> renv \<Rightarrow> ('x rworld, unit) io" where
  "provision K E = then_io (prepare_run K E) (launch K E)"

section \<open>Preparing is steady\<close>

lemma steady_claim:
  assumes s: "\<And>l. fld l = [] \<or> fld l = u \<Longrightarrow> evolved l (put u l) \<and> l_phase (put u l) = l_phase l"
  shows "keeps (steady E) (claim_uid fld put u e further)"
proof (rule std.keepsI)
  fix w :: "'a rworld"
  show "steady E w (snd (claim_uid fld put u e further w))"
    using s[of "rw_ledger w"] by (auto simp: claim_uid_def led_def upd_def io_apply disk_between_def std.refl_R intro!: steady_quiet)
qed

lemma steady_claim_slot: "keeps (steady E) (claim_uid (slot_uid s) (set_slot s) u e further)"
  by (rule steady_claim, cases s) (auto simp: evolved_def same_run_def same_uids_def once_def rank_def)

lemma steady_claims:
  "keeps (steady E) (claim_uid l_cluster_uid (\<lambda>u l. l\<lparr>l_cluster_uid := u\<rparr>) u e further)"
  "keeps (steady E) (claim_uid l_stage_uid (\<lambda>u l. l\<lparr>l_stage_uid := u\<rparr>) u e further)"
  "keeps (steady E) (claim_uid l_role_uid (\<lambda>u l. l\<lparr>l_role_uid := u\<rparr>) u e further)"
  "keeps (steady E) (claim_uid l_binding_uid (\<lambda>u l. l\<lparr>l_binding_uid := u\<rparr>) u e further)"
  "keeps (steady E) (claim_uid l_job_uid (\<lambda>u l. l\<lparr>l_job_uid := u\<rparr>) u e further)"
  by (rule steady_claim; auto simp: evolved_def same_run_def same_uids_def once_def rank_def)+

lemma steady_create: "keeps (steady E) (create_or_keep K m)" "keeps (steady E) (create_or_get K m g)"
  unfolding create_or_keep_def create_or_get_def by (intro steady_intros)+

lemma steady_prepare: "keeps (steady E) (prepare_run K E)"
  unfolding prepare_run_def claim_namespace_def isolate_namespace_def api_egress_def provision_stage_def provision_roles_def
    provision_assignment_def Let_def
  by (intro steady_intros steady_claim_slot steady_claims steady_create) (auto intro!: steady_intros steady_create)

end
