(* ===== verification/Coordinator.thy ===== *)
theory Coordinator
  imports Provision
begin

text \<open>
  The coordinator, internal/coordinator/coordinator.go: a run is started, followed to its end,
  collected, disposed of and published; after an interruption, collecting continues from the ledger
  file. The context of a call is a parameter: whether it is cancelled, and when its deadline passes.
\<close>

section \<open>Disposal\<close>

definition recover_ownership :: "renv \<Rightarrow> slot \<Rightarrow> kmeta \<Rightarrow> ('x rworld, unit) io" where
  "recover_ownership E s m = bind_io (led id) (\<lambda>l.
     then_io (require (km_uid m \<noteq> [] \<and> label run_label m = l_token l) (EMsg ''object ownership mismatch; replacement preserved''))
     (if slot_uid s l \<noteq> [] then require (slot_uid s l = km_uid m) (EMsg ''object UID mismatch; replacement preserved'')
      else then_io (require (label ''app.kubernetes.io/managed-by'' m = ''localci'') (EMsg ''partial object lacks coordinator ownership; preserved''))
        (then_io (upd (set_slot s (km_uid m))) (save E))))"

definition ask_delete :: "'x capi \<Rightarrow> okind \<Rightarrow> string \<Rightarrow> string \<Rightarrow> ('x rworld, unit) io" where
  \<comment> \<open>a deletion under a UID precondition; an object that is not found is no error\<close>
  "ask_delete K k name uid =
     then_io (mod_io (\<lambda>w. w\<lparr>rw_deletions := rw_deletions w @ [Deletion k name uid]\<rparr>))
     (bind_io (catch_io (api (ca_delete K k name uid))) (\<lambda>q. case q of
        Inl e \<Rightarrow> if not_found e then ret () else throw e
      | Inr _ \<Rightarrow> ret ()))"

fun await_gone :: "'x capi \<Rightarrow> renv \<Rightarrow> string \<Rightarrow> string \<Rightarrow> nat \<Rightarrow> ('x rworld, unit) io" where
  \<comment> \<open>the polling loop of \<open>deleteNamespace\<close>; the context ends after so many ticks\<close>
  "await_gone K E name uid n = bind_io (catch_io (api (ca_get K Namespaces name))) (\<lambda>q. case q of
     Inl e \<Rightarrow> if not_found e then ret () else throw e
   | Inr m \<Rightarrow> then_io (require (km_uid m = uid) (EMsg ''namespace replaced during disposal''))
       (case n of 0 \<Rightarrow> throw (EExt ''context'') | Suc k \<Rightarrow> await_gone K E name uid k))"

declare await_gone.simps [simp del]

definition delete_namespace :: "'x capi \<Rightarrow> renv \<Rightarrow> string \<Rightarrow> string \<Rightarrow> string \<Rightarrow> ('x rworld, unit) io" where
  "delete_namespace K E name uid token = bind_io (catch_io (api (ca_get K Namespaces name))) (\<lambda>q. case q of
     Inl e \<Rightarrow> if not_found e then ret () else throw e
   | Inr m \<Rightarrow> then_io (require (km_uid m = uid \<and> label run_label m = token) (EMsg ''namespace replacement preserved''))
       (then_io (ask_delete K Namespaces name uid) (await_gone K E name uid (re_ticks E))))"

definition dispose_namespace :: "'x capi \<Rightarrow> renv \<Rightarrow> slot \<Rightarrow> ('x rworld, unit) io" where
  "dispose_namespace K E s = bind_io (led (slot_name s)) (\<lambda>name.
     bind_io (catch_io (api (ca_get K Namespaces name))) (\<lambda>q. case q of
       Inl e \<Rightarrow> if not_found e then ret () else throw e
     | Inr m \<Rightarrow> then_io (recover_ownership E s m)
         (bind_io (led id) (\<lambda>l. delete_namespace K E name (slot_uid s l) (l_token l)))))"

definition pending_message :: "slot \<Rightarrow> string" where
  "pending_message s = (if s = Binding_slot then ''binding deletion still pending'' else ''role deletion still pending'')"

definition dispose_rbac :: "'x capi \<Rightarrow> renv \<Rightarrow> slot \<Rightarrow> ('x rworld, unit) io" where
  \<comment> \<open>\<open>disposeBinding\<close> and \<open>disposeRole\<close>, which differ in the kind of the object only\<close>
  "dispose_rbac K E s = bind_io (led (slot_name s)) (\<lambda>name.
     bind_io (catch_io (api (ca_get K (slot_kind s) name))) (\<lambda>q. case q of
       Inl e \<Rightarrow> if not_found e then ret () else throw e
     | Inr m \<Rightarrow> then_io (recover_ownership E s m)
         (then_io (ask_delete K (slot_kind s) name (km_uid m))
         (bind_io (catch_io (api (ca_get K (slot_kind s) name))) (\<lambda>p. case p of
            Inl e \<Rightarrow> if not_found e then ret () else throw e
          | Inr _ \<Rightarrow> throw (EMsg (pending_message s)))))))"

definition err_of :: "gerr + 'a \<Rightarrow> gerr option" where
  "err_of r = (case r of Inl e \<Rightarrow> Some e | Inr _ \<Rightarrow> None)"

definition dispose :: "'x capi \<Rightarrow> renv \<Rightarrow> ('x rworld, unit) io" where
  "dispose K E = bind_io (api (ca_get K Namespaces ''kube-system'')) (\<lambda>cluster.
     bind_io (led l_cluster_uid) (\<lambda>known.
     then_io (require (km_uid cluster = known) (EMsg ''cluster changed before disposal''))
     (bind_io (catch_io (dispose_namespace K E Resource_slot)) (\<lambda>a.
      then_io (upd (\<lambda>l. l\<lparr>l_resource_absent := (err_of a = None)\<rparr>))
     (bind_io (catch_io (dispose_namespace K E Runner_slot)) (\<lambda>b.
      then_io (upd (\<lambda>l. l\<lparr>l_runner_absent := (err_of b = None)\<rparr>))
     (bind_io (catch_io (dispose_rbac K E Binding_slot)) (\<lambda>c.
      then_io (upd (\<lambda>l. l\<lparr>l_binding_absent := (err_of c = None)\<rparr>))
     (bind_io (catch_io (dispose_rbac K E Role_slot)) (\<lambda>d.
      then_io (upd (\<lambda>l. l\<lparr>l_role_absent := (err_of d = None)\<rparr>))
        (lift_io (to_res (join_err (err_of a) (join_err (err_of b) (join_err (err_of c) (err_of d))))))))))))))))"

definition publish_now :: "renv \<Rightarrow> ('x rworld, unit) io" where
  \<comment> \<open>\<open>publishObservations\<close> on the coordinator's world\<close>
  "publish_now E w = (case publish_observations (re_wire E) (re_io E (rw_tick w)) (re_io E (Suc (rw_tick w))) (rw_ledger w) (rw_dir w) of
     (r, d) \<Rightarrow> (to_res r, w\<lparr>rw_dir := d, rw_tick := Suc (Suc (rw_tick w))\<rparr>))"

definition finish_disposal :: "'x capi \<Rightarrow> renv \<Rightarrow> ('x rworld, unit) io" where
  "finish_disposal K E = bind_io (catch_io (dispose K E)) (\<lambda>q. case q of
     Inl e \<Rightarrow> then_io (note_problem E ''disposal-incomplete'' (Some e)) (fail_saving E e)
   | Inr _ \<Rightarrow> then_io (set_phase ''complete'') (then_io (save E) (publish_now E)))"

section \<open>Collection\<close>

definition retryable :: "gerr \<Rightarrow> bool" where
  \<comment> \<open>\<open>retryableCollection\<close> of an error\<close>
  "retryable e \<longleftrightarrow> \<not> not_found e \<and> \<not> terminal e"

definition stage_step :: "'x capi \<Rightarrow> renv \<Rightarrow> ('x rworld, gerr option) io" where
  \<comment> \<open>the error that asks for a retry, if any\<close>
  "stage_step K E = bind_io (catch_io (collect_stage_io K E)) (\<lambda>q. case q of
     Inr _ \<Rightarrow> ret None
   | Inl e \<Rightarrow> then_io (note_problem E ''staging'' (Some e))
       (if retryable e then ret (Some e)
        else then_io (if not_found e then upd (\<lambda>l. l\<lparr>l_evidence_status := ''missing''\<rparr>) else ret ()) (ret None)))"

definition logs_step :: "'x capi \<Rightarrow> renv \<Rightarrow> ('x rworld, gerr option) io" where
  "logs_step K E = bind_io (catch_io (collect_logs K E)) (\<lambda>q. case q of
     Inr _ \<Rightarrow> ret None
   | Inl e \<Rightarrow> then_io (note_problem E ''logs'' (Some e)) (ret (if retryable e then Some e else None)))"

definition finish_collection :: "'x capi \<Rightarrow> renv \<Rightarrow> ('x rworld, unit) io" where
  "finish_collection K E = bind_io (stage_step K E) (\<lambda>a. bind_io (logs_step K E) (\<lambda>b.
     case join_err a b of
       Some e \<Rightarrow> then_io (set_phase ''collecting'') (fail_saving E e)
     | None \<Rightarrow> then_io (set_phase ''disposing'') (then_io (save E) (finish_disposal K E))))"

section \<open>Following the runner\<close>

fun watch_statuses :: "renv \<Rightarrow> kstatus list \<Rightarrow> bool \<Rightarrow> ('x rworld, bool \<times> bool) io" where
  \<comment> \<open>the loop over the container statuses: whether the guard ended, and whether the ledger changed\<close>
  "watch_statuses E [] changed = ret (False, changed)"
| "watch_statuses E (s # ss) changed =
     (if ks_name s \<noteq> ''guard'' then watch_statuses E ss changed
      else bind_io (led id) (\<lambda>l. let changed' = (changed \<or> l_container_id l \<noteq> ks_container s \<or> l_actual_image l \<noteq> ks_image s) in
        then_io (upd (\<lambda>l. l\<lparr>l_container_id := ks_container s, l_actual_image := ks_image s\<rparr>))
        (then_io (require (\<not> ks_restarts s > 0) (EMsg ''runner restarted unexpectedly''))
        (case ks_state s of
           Terminated code reason \<Rightarrow> then_io (upd (\<lambda>l. l\<lparr>l_exit := Some code, l_pod_reason := reason\<rparr>))
             (then_io (save E) (ret (True, changed')))
         | _ \<Rightarrow> watch_statuses E ss changed'))))"

definition observe_single :: "'x capi \<Rightarrow> renv \<Rightarrow> ledger \<Rightarrow> kpod \<Rightarrow> ('x rworld, bool) io" where
  \<comment> \<open>\<open>observePod\<close> once exactly one pod is listed\<close>
  "observe_single K E l pod =
     then_io (require ((l_job_uid l, ''Job'') \<in> set (kp_owners pod)) (EMsg ''runner pod UID/owner mismatch''))
     (then_io (require (l_pod_uid l = [] \<or> l_pod_uid l = km_uid (kp_meta pod)) (EMsg ''runner pod UID/owner mismatch''))
     (then_io (upd (\<lambda>l. l\<lparr>l_pod_uid := km_uid (kp_meta pod), l_pod_name := kp_name pod\<rparr>))
     (then_io (if l_pod_uid l = [] \<or> l_pod_name l \<noteq> kp_name pod then save E else ret ())
     (then_io (if kp_ip pod \<noteq> [] \<and> gate_waiting pod then ensure_gate K E pod else ret ())
     (bind_io (watch_statuses E (kp_statuses pod) False) (\<lambda>(ended, changed).
      if ended then ret True
      else if kp_phase pod = ''Failed'' \<or> kp_phase pod = ''Succeeded'' then
        then_io (upd (\<lambda>l. l\<lparr>l_pod_reason := kp_phase pod\<rparr>))
        (then_io (note_problem E ''runner-guard-end-missing'' None) (then_io (save E) (ret True)))
      else then_io (if changed then save E else ret ()) (ret False)))))))"

definition observe_listed :: "'x capi \<Rightarrow> renv \<Rightarrow> ledger \<Rightarrow> kjob \<Rightarrow> kpod list \<Rightarrow> ('x rworld, bool) io" where
  \<comment> \<open>\<open>observePod\<close> once the pods are listed\<close>
  "observe_listed K E l job pods = (case pods of
     [] \<Rightarrow> if l_pod_uid l \<noteq> [] then then_io (note_problem E ''runner-pod-missing'' None) (ret True)
       else if list_ex (\<lambda>c. fst c \<in> {''Failed'', ''Complete''} \<and> snd c) (kj_conditions job)
       then then_io (note_problem E ''runner-never-started'' None) (ret True)
       else ret False
   | [pod] \<Rightarrow> observe_single K E l pod
   | _ \<Rightarrow> throw (EMsg ''unexpected multiple runner pods''))"

definition observe_pod :: "'x capi \<Rightarrow> renv \<Rightarrow> ('x rworld, bool) io" where
  "observe_pod K E = bind_io (led id) (\<lambda>l.
     bind_io (catch_io (api (ca_job K (l_runner_ns l)))) (\<lambda>q. case q of
       Inl e \<Rightarrow> if not_found e then then_io (note_problem E ''runner-job-missing'' None) (ret True) else throw e
     | Inr job \<Rightarrow>
         then_io (require (km_uid (kj_meta job) = l_job_uid l \<and> label run_label (kj_meta job) = l_token l) (EMsg ''job UID/ownership mismatch''))
         (bind_io (api (ca_pods K (l_runner_ns l) (l_token l))) (observe_listed K E l job))))"

definition signal :: "'x capi \<Rightarrow> ('x rworld, unit) io" where
  "signal K = bind_io (led id) (\<lambda>l. bind_io (api (ca_pod K (l_runner_ns l) (l_pod_name l))) (\<lambda>pod.
     then_io (require (km_uid (kp_meta pod) = l_pod_uid l) (EMsg ''pod UID changed before cancellation''))
       (api (ca_signal K (l_runner_ns l) (l_pod_name l)))))"

definition request_cancel_io :: "renv \<Rightarrow> ('x rworld, unit) io" where
  "request_cancel_io E w = (case request_cancel (w_ledger (re_wire E)) (re_stamp E (rw_tick w)) (re_io E (rw_tick w))
       (i_run (l_identity (rw_ledger w))) (rw_dir w) of
     (r, d) \<Rightarrow> (to_res r, w\<lparr>rw_dir := d, rw_tick := Suc (rw_tick w)\<rparr>))"

definition note_cancellation :: "renv \<Rightarrow> ('x rworld, unit) io" where
  \<comment> \<open>the head of the loop of \<open>monitor\<close>\<close>
  "note_cancellation E = bind_io (at_tick (re_cancelled E)) (\<lambda>caller. bind_io (led l_cancel) (\<lambda>noted.
     then_io (if caller \<and> \<not> noted then request_cancel_io E else ret ())
     (bind_io (catch_io (stat_file E ''cancel.requested'')) (\<lambda>q.
      if err_of q = None \<and> \<not> noted then then_io (upd (\<lambda>l. l\<lparr>l_cancel := True\<rparr>)) (save E) else ret ()))))"

definition signal_due :: "'x capi \<Rightarrow> renv \<Rightarrow> time \<Rightarrow> ('x rworld, time) io" where
  \<comment> \<open>the time of the next signal\<close>
  "signal_due K E next = bind_io (led id) (\<lambda>l. bind_io (at_tick (re_now E)) (\<lambda>now.
     if l_cancel l \<and> l_pod_name l \<noteq> [] \<and> \<not> now < next then
       bind_io (catch_io (signal K)) (\<lambda>q.
       then_io (case q of Inl e \<Rightarrow> note_problem E ''cancel-signal-retry'' (Some e) | Inr _ \<Rightarrow> ret ())
         (bind_io (at_tick (re_now E)) (\<lambda>t. ret (t + second))))
     else ret next))"

definition deadline :: "renv \<Rightarrow> ('x rworld, 'a) io" where
  "deadline E = then_io (note_problem E ''monitor-deadline'' (Some (EExt ''context'')))
     (bind_io (catch_io (save E)) (\<lambda>_. throw (EExt ''context'')))"

definition monitor_round :: "'x capi \<Rightarrow> renv \<Rightarrow> time \<Rightarrow> ('x rworld, time option) io" where
  \<comment> \<open>one round: \<open>None\<close> when the runner has ended\<close>
  "monitor_round K E next = then_io (note_cancellation E)
     (bind_io (catch_io (observe_pod K E)) (\<lambda>q. case q of
        Inl e \<Rightarrow> then_io (note_problem E ''runner-observation'' (Some e)) (fail_saving E e)
      | Inr ended \<Rightarrow> if ended then ret None else bind_io (signal_due K E next) (\<lambda>t. ret (Some t))))"

fun monitor_loop :: "'x capi \<Rightarrow> renv \<Rightarrow> nat \<Rightarrow> time \<Rightarrow> ('x rworld, unit) io" where
  "monitor_loop K E n next = bind_io (monitor_round K E next) (\<lambda>r. case r of
     None \<Rightarrow> ret ()
   | Some t \<Rightarrow> (case n of 0 \<Rightarrow> deadline E | Suc k \<Rightarrow> monitor_loop K E k t))"

declare monitor_loop.simps [simp del]

definition monitor :: "'x capi \<Rightarrow> renv \<Rightarrow> ('x rworld, unit) io" where
  "monitor K E = bind_io (led l_phase) (\<lambda>p.
     if p = ''collecting'' then finish_collection K E
     else then_io (monitor_loop K E (re_ticks E) 0)
       (then_io (set_phase ''collecting'') (then_io (save E) (finish_collection K E))))"

section \<open>Collect\<close>

definition load_io :: "renv \<Rightarrow> string \<Rightarrow> ('x rworld, unit) io" where
  "load_io E run w = (case load_ledger (w_ledger (re_wire E)) run (rw_dir w) of
     Inl e \<Rightarrow> (Inl e, w) | Inr l \<Rightarrow> (Inr (), w\<lparr>rw_ledger := l\<rparr>))"

definition abandon :: "renv \<Rightarrow> gerr \<Rightarrow> ('x rworld, 'a) io" where
  \<comment> \<open>after a failed provisioning\<close>
  "abandon E e = bind_io (at_tick (re_cancelled E)) (\<lambda>cancelled.
     if cancelled then bind_io (catch_io (request_cancel_io E)) (\<lambda>q.
         then_io (upd (\<lambda>l. l\<lparr>l_cancel := (err_of q = None)\<rparr>))
           (fail_saving E (case q of Inl e' \<Rightarrow> EJoin e e' | Inr _ \<Rightarrow> e)))
     else fail_saving E e)"

definition resume_job :: "'x capi \<Rightarrow> renv \<Rightarrow> ('x rworld, bool) io" where
  \<comment> \<open>\<open>Collect\<close> when no job UID is recorded, so that the guard of \<open>claim_uid\<close> passes: whether monitoring follows\<close>
  "resume_job K E = bind_io (led id) (\<lambda>l.
     bind_io (catch_io (api (ca_job K (l_runner_ns l)))) (\<lambda>q. case q of
       Inr job \<Rightarrow>
         then_io (require (km_uid (kj_meta job) \<noteq> [] \<and> owned_by l (kj_meta job)) (EMsg ''job ownership mismatch''))
         (then_io (claim_uid l_job_uid (\<lambda>u l. l\<lparr>l_job_uid := u\<rparr>) (km_uid (kj_meta job)) EInvalid (True, EInvalid)) (then_io (set_phase ''running'') (then_io (save E) (ret True))))
     | Inl e \<Rightarrow>
         if \<not> not_found e then throw e
         else if l_launch_attempted l \<or> l_cancel l then
           then_io (note_problem E (if l_launch_attempted l then ''runner-launch-ambiguous'' else ''cancelled-before-launch'') None)
           (then_io (set_phase ''collecting'') (then_io (save E) (then_io (finish_collection K E) (ret False))))
         else bind_io (catch_io (provision K E)) (\<lambda>p. case p of Inl e' \<Rightarrow> abandon E e' | Inr _ \<Rightarrow> ret True)))"

definition note_cancel_file :: "renv \<Rightarrow> ('x rworld, unit) io" where
  "note_cancel_file E = bind_io (catch_io (stat_file E ''cancel.requested'')) (\<lambda>q. case q of
     Inr _ \<Rightarrow> upd (\<lambda>l. l\<lparr>l_cancel := True\<rparr>)
   | Inl e \<Rightarrow> if e = ENotExist then ret () else throw e)"

definition collect_active :: "'x capi \<Rightarrow> renv \<Rightarrow> ledger \<Rightarrow> ('x rworld, unit) io" where
  \<comment> \<open>the phases of \<open>Collect\<close>\<close>
  "collect_active K E l =
     (if l_phase l = ''disposing'' then finish_disposal K E
      else if l_phase l = ''collecting'' then finish_collection K E
      else bind_io (if l_job_uid l = [] then resume_job K E else ret True) (\<lambda>follow. if follow then monitor K E else ret ()))"

definition collect_loaded :: "'x capi \<Rightarrow> renv \<Rightarrow> ('x rworld, unit) io" where
  "collect_loaded K E = bind_io (led id) (\<lambda>l.
     if l_phase l = ''complete'' then publish_now E
     else bind_io (api (ca_get K Namespaces ''kube-system'')) (\<lambda>cluster.
       then_io (claim_uid l_cluster_uid (\<lambda>u l. l\<lparr>l_cluster_uid := u\<rparr>) (km_uid cluster) (EMsg ''cluster identity changed'') (True, EInvalid))
       (then_io (if l_cluster_uid l = [] then save E else ret ())
       (then_io (note_cancel_file E)
         (collect_active K E l)))))"

definition collect :: "'x capi \<Rightarrow> renv \<Rightarrow> string \<Rightarrow> ('x rworld, unit) io" where
  "collect K E run = then_io (load_io E run) (collect_loaded K E)"

section \<open>Start\<close>

definition start_arguments :: "string \<Rightarrow> string list \<Rightarrow> duration \<Rightarrow> gerr + bytes \<Rightarrow> gerr option" where
  \<comment> \<open>\<open>encoded\<close> is \<open>json.Marshal\<close> of the command\<close>
  "start_arguments img command timeout encoded = first_err [
     check (has_prefix img ''cleanup-receipt/runner@sha256:'' \<and> length img = length ''cleanup-receipt/runner@sha256:'' + 64)
       ''runner must use the preloaded local image digest'',
     check (\<not> (command = [] \<or> length command > 128 \<or> timeout < second \<or> timeout > 10 * minute)) ''command required; timeout must be 1s to 10m'',
     check (list_all (\<lambda>arg. length arg \<le> 16384) command) ''command argument too long'',
     check (case encoded of Inl _ \<Rightarrow> False | Inr data \<Rightarrow> length data \<le> 131072) ''serialized command exceeds 128 KiB limit'']"

fun pending_runs :: "ledger codec \<Rightarrow> (string \<times> dir) list \<Rightarrow> gerr option" where
  \<comment> \<open>the directories of the root: no earlier run may need recovery\<close>
  "pending_runs C [] = None"
| "pending_runs C ((name, d) # rest) =
     (if \<not> run_pattern name then pending_runs C rest
      else case load_ledger C name d of
        Inl e \<Rightarrow> Some e
      | Inr l \<Rightarrow> if l_phase l \<noteq> ''complete'' then Some (EMsg ''run requires collect before another run'') else pending_runs C rest)"

definition initial_ledger :: "state \<Rightarrow> identity \<Rightarrow> string \<Rightarrow> string list \<Rightarrow> duration \<Rightarrow> time \<Rightarrow> ledger" where
  "initial_ledger s i img command timeout now = \<lparr>l_kind = ''local-ci-run/v1'', l_identity = i, l_token = s_token s, l_cluster_uid = [],
     l_resource_ns = s_namespace s, l_resource_uid = [], l_runner_ns = ''proof-runner-'' @ s_token s, l_runner_uid = [], l_job_uid = [],
     l_launch_attempted = False, l_pod_name = [], l_pod_uid = [], l_stage_uid = [], l_role_uid = [], l_binding_uid = [], l_image = img,
     l_actual_image = [], l_command = command, l_timeout = timeout div second, l_phase = ''provisioning'', l_created = now, l_updated = 0,
     l_cancel = False, l_exit = None, l_pod_reason = [], l_evidence_status = ''missing'', l_evidence_digest = [], l_guard_digest = [],
     l_logs_status = ''missing'', l_logs_digest = [], l_logs_bytes = 0, l_resource_absent = False, l_runner_absent = False,
     l_role_absent = False, l_binding_absent = False, l_container_id = [], l_collector_request = None, l_collector_digest = [], l_errors = []\<rparr>"

definition publish_run :: "renv \<Rightarrow> publish_io \<Rightarrow> ('x rworld, unit) io" where
  \<comment> \<open>\<open>publish\<close> on the coordinator's world; the new directory replaces none\<close>
  "publish_run E p w = (case publish_ledger (w_ledger (re_wire E)) (re_now E (rw_tick w)) p (rw_ledger w) None of
     (r, l, target) \<Rightarrow> (to_res r, w\<lparr>rw_ledger := l, rw_dir := (case target of None \<Rightarrow> rw_dir w | Some d \<Rightarrow> d), rw_tick := Suc (rw_tick w)\<rparr>))"

definition start :: "'x capi \<Rightarrow> renv \<Rightarrow> publish_io \<Rightarrow> gerr + (string \<times> dir) list \<Rightarrow> gerr + nat list \<Rightarrow> gerr + bytes \<Rightarrow>
    identity \<Rightarrow> string \<Rightarrow> string list \<Rightarrow> duration \<Rightarrow> ('x rworld, unit) io" where
  "start K E p entries rand encoded i img command timeout =
     then_io (lift_io (to_res (start_arguments img command timeout encoded)))
     (bind_io (api (ca_ready K)) (\<lambda>(ready, desired).
     then_io (require (\<not> (ready < 1 \<or> ready \<noteq> desired)) (EMsg ''network policy controller is not ready''))
     (bind_io (lift_io entries) (\<lambda>runs.
     then_io (lift_io (to_res (pending_runs (w_ledger (re_wire E)) runs)))
     (bind_io (at_tick (re_now E)) (\<lambda>t0.
     bind_io (lift_io (new_state (i\<lparr>i_provider := ''local'', i_run := ''pending''\<rparr>) rand t0)) (\<lambda>s.
     bind_io (at_tick (re_now E)) (\<lambda>now.
     then_io (upd (\<lambda>_. initial_ledger s (i\<lparr>i_provider := ''local'', i_run := s_token s\<rparr>) img command timeout now))
     (then_io (publish_run E p)
     (bind_io (catch_io (provision K E)) (\<lambda>q. case q of
        Inl e \<Rightarrow> then_io (note_problem E ''provisioning-incomplete'' (Some e)) (abandon E e)
      | Inr _ \<Rightarrow> monitor K E)))))))))))"

section \<open>Steady operations\<close>

lemma quiet_simple: "(\<And>l. evolved l (f l)) \<Longrightarrow> (\<And>l. l_phase (f l) = l_phase l) \<Longrightarrow> quiet_update f"
  by (simp add: quiet_update_def)

lemma quiet_fields:
  "quiet_update (\<lambda>l. l\<lparr>l_resource_absent := b\<rparr>)" "quiet_update (\<lambda>l. l\<lparr>l_runner_absent := b\<rparr>)" "quiet_update (\<lambda>l. l\<lparr>l_binding_absent := b\<rparr>)"
  "quiet_update (\<lambda>l. l\<lparr>l_role_absent := b\<rparr>)" "quiet_update (\<lambda>l. l\<lparr>l_evidence_status := s\<rparr>)" "quiet_update (\<lambda>l. l\<lparr>l_cancel := b\<rparr>)"
  "quiet_update (\<lambda>l. l\<lparr>l_container_id := s, l_actual_image := t\<rparr>)" "quiet_update (\<lambda>l. l\<lparr>l_exit := x, l_pod_reason := s\<rparr>)"
  "quiet_update (\<lambda>l. l\<lparr>l_pod_reason := s\<rparr>)"
  by (simp_all add: quiet_update_def evolved_def same_run_def same_uids_def rank_def)

lemmas steady_fields = quiet_fields[THEN steady_upd]

lemma steady_recover: "keeps (steady E) (recover_ownership E s m)"
proof (rule std.keepsI)
  fix w :: "'a rworld"
  have u: "steady E w (snd (upd (set_slot s (km_uid m)) w))" if "slot_uid s (rw_ledger w) = []"
    using evolved_slot[OF that] by (auto simp: upd_def io_apply disk_between_def intro!: steady_quiet)
  have "steady E w (snd (then_io (upd (set_slot s (km_uid m))) (save E) w))" if "slot_uid s (rw_ledger w) = []"
    by (rule std.at_then, rule u[OF that], rule std.at_keeps[OF steady_save])
  then show "steady E w (snd (recover_ownership E s m w))"
    by (simp add: recover_ownership_def bind_led then_require std.refl_R) (simp add: io_apply std.refl_R)
qed

lemma steady_stage_step: "keeps (steady E) (stage_step K E)"
  unfolding stage_step_def by (intro steady_intros steady_stage steady_fields)

lemma steady_logs_step: "keeps (steady E) (logs_step K E)"
  unfolding logs_step_def by (intro steady_intros steady_logs)

lemma publish_keeps_run: "snd (publish_observations W io1 io2 l d) ''run.json'' = d ''run.json''"
  by (auto simp: publish_observations_def publish_pair_def Let_def split: sum.split prod.split option.split)

lemma steady_publish: "keeps (steady E) (publish_now E)"
proof -
  have "steady E w w'" if "publish_now E w = (r, w')" for w w' :: "'a rworld" and r
  proof -
    obtain q d where p: "publish_observations (re_wire E) (re_io E (rw_tick w)) (re_io E (Suc (rw_tick w))) (rw_ledger w) (rw_dir w) = (q, d)"
      by fastforce
    have "d ''run.json'' = rw_dir w ''run.json''"
      using publish_keeps_run[of "re_wire E" "re_io E (rw_tick w)" "re_io E (Suc (rw_tick w))" "rw_ledger w" "rw_dir w"] p by simp
    with that p show ?thesis by (auto simp: publish_now_def disk_between_def intro!: steady_quiet)
  qed
  then show ?thesis unfolding keeps_def by (metis prod.collapse)
qed

lemma steady_watch: "keeps (steady E) (watch_statuses E ss changed)"
proof (induction ss arbitrary: changed)
  case Nil
  show ?case by (simp add: std.keeps_ret)
next
  case (Cons s ss)
  show ?case
    by (cases "ks_state s") (auto simp: Let_def intro!: steady_intros steady_fields Cons.IH)
qed

lemma steady_single:
  assumes l: "rw_ledger w = l"
  shows "steady E w (snd (observe_single K E l pod w))"
proof -
  have u: "steady E w (snd (upd (\<lambda>l. l\<lparr>l_pod_uid := km_uid (kp_meta pod), l_pod_name := kp_name pod\<rparr>) w))"
    if "l_pod_uid l = [] \<or> l_pod_uid l = km_uid (kp_meta pod)"
    using that l by (auto simp: upd_def io_apply evolved_def same_run_def same_uids_def once_def rank_def disk_between_def intro!: steady_quiet)
  have rest: "keeps (steady E)
     (then_io (if l_pod_uid l = [] \<or> l_pod_name l \<noteq> kp_name pod then save E else ret ())
     (then_io (if kp_ip pod \<noteq> [] \<and> gate_waiting pod then ensure_gate K E pod else ret ())
     (bind_io (watch_statuses E (kp_statuses pod) False) (\<lambda>(ended, changed).
      if ended then ret True
      else if kp_phase pod = ''Failed'' \<or> kp_phase pod = ''Succeeded'' then
        then_io (upd (\<lambda>l. l\<lparr>l_pod_reason := kp_phase pod\<rparr>))
        (then_io (note_problem E ''runner-guard-end-missing'' None) (then_io (save E) (ret True)))
      else then_io (if changed then save E else ret ()) (ret False)))))"
    by (auto intro!: steady_intros steady_gate steady_watch steady_fields)
  show ?thesis unfolding observe_single_def
    by (rule at_require, rule at_require, rule std.at_then, erule u, rule std.at_keeps[OF rest])
qed

lemma api_ledger:
  "api m w = (r, t) \<Longrightarrow> rw_ledger t = rw_ledger w"
  "catch_io (api m) w = (q, t) \<Longrightarrow> rw_ledger t = rw_ledger w"
  by (auto simp: lens_io_def io_apply split: prod.splits)

lemma steady_listed: "rw_ledger w = l \<Longrightarrow> steady E w (snd (observe_listed K E l job pods w))"
  unfolding observe_listed_def
  by (cases pods rule: remdups_adj.cases) (auto intro!: std.at_keeps steady_intros simp: steady_single)

lemma steady_missing: "keeps (steady E) (then_io (note_problem E c e) (ret True))"
  by (intro steady_intros)

lemma steady_observe: "keeps (steady E) (observe_pod K E)"
proof (rule std.keepsI)
  fix w :: "'a rworld"
  show "steady E w (snd (observe_pod K E w))" unfolding observe_pod_def bind_led id_apply
  proof (rule std.at_bind, rule std.at_keeps, rule std.keeps_catch[OF steady_api])
    fix q t assume "catch_io (api (ca_job K (l_runner_ns (rw_ledger w)))) w = (Inr q, t)"
    then have t: "rw_ledger t = rw_ledger w" by (rule api_ledger(2))
    have listed: "steady E t (snd (bind_io (api m) (observe_listed K E (rw_ledger w) job) t))" for m job
      by (rule std.at_bind, rule std.at_keeps[OF steady_api], rule steady_listed) (use t in \<open>simp add: api_ledger(1)\<close>)
    show "steady E t (snd ((case q of
       Inl e \<Rightarrow> if not_found e then then_io (note_problem E ''runner-job-missing'' None) (ret True) else throw e
     | Inr job \<Rightarrow>
         then_io (require (km_uid (kj_meta job) = l_job_uid (rw_ledger w) \<and> label run_label (kj_meta job) = l_token (rw_ledger w))
           (EMsg ''job UID/ownership mismatch''))
         (bind_io (api (ca_pods K (l_runner_ns (rw_ledger w)) (l_token (rw_ledger w)))) (observe_listed K E (rw_ledger w) job))) t))"
      by (cases q) (auto intro!: at_require listed intro: std.at_keeps[OF steady_missing] std.at_keeps[OF std.keeps_throw])
  qed
qed

lemma steady_signal: "keeps (steady E) (signal K)"
  unfolding signal_def by (intro steady_intros)

lemma request_cancel_run: "snd (request_cancel C stamp io run d) ''run.json'' = d ''run.json''"
  by (auto simp: request_cancel_def split: sum.split prod.split)

lemma steady_request_cancel: "keeps (steady E) (request_cancel_io E)"
proof -
  have "steady E w w'" if "request_cancel_io E w = (r, w')" for w w' :: "'a rworld" and r
    using that request_cancel_run[of "w_ledger (re_wire E)" "re_stamp E (rw_tick w)" "re_io E (rw_tick w)" "i_run (l_identity (rw_ledger w))" "rw_dir w"]
    by (auto simp: request_cancel_io_def disk_between_def split: prod.splits intro!: steady_quiet)
  then show ?thesis unfolding keeps_def by (metis prod.collapse)
qed

lemma steady_note: "keeps (steady E) (note_cancellation E)" "keeps (steady E) (note_cancel_file E)"
  unfolding note_cancellation_def note_cancel_file_def by (intro steady_intros steady_request_cancel steady_fields)+

lemma steady_due: "keeps (steady E) (signal_due K E next)"
  unfolding signal_due_def by (intro steady_intros steady_signal)

lemma steady_deadline: "keeps (steady E) (deadline E)"
  unfolding deadline_def by (intro steady_intros)

lemma steady_round: "keeps (steady E) (monitor_round K E next)"
  unfolding monitor_round_def by (intro steady_intros steady_note steady_observe steady_due)

lemma steady_loop: "keeps (steady E) (monitor_loop K E n next)"
proof (induction n arbitrary: "next")
  case 0
  show ?case by (subst monitor_loop.simps) (auto intro!: steady_intros steady_round steady_deadline)
next
  case (Suc n)
  show ?case by (subst monitor_loop.simps) (auto intro!: steady_intros steady_round Suc.IH)
qed


section \<open>Disposal deletes own objects only\<close>

text \<open>Operations that leave the UID of a slot alone.\<close>

definition slot_kept :: "slot \<Rightarrow> 'x rworld \<Rightarrow> 'x rworld \<Rightarrow> bool" where
  "slot_kept s w w' \<longleftrightarrow> slot_uid s (rw_ledger w') = slot_uid s (rw_ledger w)"

interpretation kpt: two_state "slot_kept s" for s
  by unfold_locales (simp_all add: slot_kept_def)

lemma slot_stamp [simp]: "slot_uid s (l\<lparr>l_updated := t\<rparr>) = slot_uid s l" "slot_name s (l\<lparr>l_updated := t\<rparr>) = slot_name s l"
  by (cases s; simp)+

lemma slot_other [simp]: "s \<noteq> x \<Longrightarrow> slot_uid s (set_slot x u l) = slot_uid s l"
  by (cases s; cases x; simp)

lemma kept_api: "keeps (slot_kept s) (api m)"
  by (auto simp: keeps_def lens_io_def slot_kept_def split: prod.split)

lemma kept_led: "keeps (slot_kept s) (led f)"
  by (simp add: led_def kpt.keeps_get)

lemma kept_upd: "(\<And>l. slot_uid s (f l) = slot_uid s l) \<Longrightarrow> keeps (slot_kept s) (upd f)"
  by (simp add: keeps_def upd_def io_apply slot_kept_def)

lemma kept_save: "keeps (slot_kept s) (save E)"
proof -
  have "slot_kept s w w'" if "save E w = (r, w')" for w w' :: "'a rworld" and r
    using save_frame(1)[OF that] by (simp add: slot_kept_def)
  then show ?thesis unfolding keeps_def by (metis prod.collapse)
qed

lemma kept_tick: "keeps (slot_kept s) (at_tick f)"
  by (simp add: keeps_def at_tick_def slot_kept_def)

lemmas kept_intros = kpt.keeps_ret kpt.keeps_throw kpt.keeps_get kpt.keeps_lift kpt.keeps_require kpt.keeps_bind kpt.keeps_then
  kpt.keeps_catch kpt.keeps_if kpt.keeps_sum kept_api kept_led kept_save kept_tick

lemma kept_stat: "keeps (slot_kept s) (stat_file E name)"
  unfolding stat_file_def sys_def by (intro kept_intros)

lemma kept_recover: "s \<noteq> x \<Longrightarrow> keeps (slot_kept s) (recover_ownership E x m)"
  unfolding recover_ownership_def by (intro kept_intros kept_upd) simp_all

lemma kept_ask: "keeps (slot_kept s) (ask_delete K k name uid)"
proof -
  have "keeps (slot_kept s) (mod_io (\<lambda>w. w\<lparr>rw_deletions := rw_deletions w @ [Deletion k name uid]\<rparr>))"
    by (rule kpt.keeps_mod) (simp add: slot_kept_def)
  then show ?thesis unfolding ask_delete_def by (intro kept_intros)
qed

lemma kept_await: "keeps (slot_kept s) (await_gone K E name uid n)"
proof (induction n)
  case 0
  show ?case by (subst await_gone.simps) (auto intro!: kept_intros)
next
  case (Suc n)
  show ?case by (subst await_gone.simps) (auto intro!: kept_intros Suc.IH)
qed

lemma kept_dispose: "s \<noteq> x \<Longrightarrow> keeps (slot_kept s) (dispose_namespace K E x)" "s \<noteq> x \<Longrightarrow> keeps (slot_kept s) (dispose_rbac K E x)"
  unfolding dispose_namespace_def dispose_rbac_def delete_namespace_def by (intro kept_intros kept_recover kept_ask kept_await; simp)+

text \<open>A slot whose UID, if it has one, is the one on disk.\<close>

abbreviation slot_deletion :: "slot \<Rightarrow> ledger \<Rightarrow> deletion_request" where
  "slot_deletion s l \<equiv> Deletion (slot_kind s) (slot_name s l) (slot_uid s l)"

definition backed :: "renv \<Rightarrow> 'x rworld \<Rightarrow> slot \<Rightarrow> bool" where
  "backed E w s \<longleftrightarrow> slot_uid s (rw_ledger w) = [] \<or> firm (\<lambda>l. own_deletion l (slot_deletion s (rw_ledger w))) E w"

definition tidy :: "slot set \<Rightarrow> renv \<Rightarrow> 'x rworld \<Rightarrow> 'x rworld \<Rightarrow> bool" where
  \<comment> \<open>on the way from \<open>w\<close>, the slots of \<open>S\<close> still as on disk\<close>
  "tidy S E w s \<longleftrightarrow> shed E w s \<and> (\<forall>x \<in> S. backed E s x)"

lemma firm_cong: "rw_ledger t = rw_ledger w \<Longrightarrow> rw_dir t = rw_dir w \<Longrightarrow> firm P E t = firm P E w"
  by (simp add: firm_def)

lemma api_dir: "catch_io (api m) w = (q, t) \<Longrightarrow> rw_dir t = rw_dir w"
  by (auto simp: lens_io_def io_apply split: prod.splits)

lemma backed_kept:
  assumes "backed E w s" "shed E w t" "slot_kept s w t"
  shows "backed E t s"
proof -
  have e: "evolved (rw_ledger w) (rw_ledger t)" "disk_between E w t" using assms(2) by (auto simp: shed_def advance_def)
  have "slot_deletion s (rw_ledger t) = slot_deletion s (rw_ledger w)" using assms(3) slot_evolved(1)[OF e(1)] by (simp add: slot_kept_def)
  then show ?thesis using assms(1,3) own_persists[OF _ e] unfolding backed_def slot_kept_def by auto
qed

lemma backed_saved: "on_disk E (rw_ledger w) (rw_dir w ''run.json'') \<Longrightarrow> backed E w s"
  by (auto simp: backed_def firm_def own_deletion_def)

lemma then_upd: "then_io (upd f) m w = m (w\<lparr>rw_ledger := f (rw_ledger w)\<rparr>)"
  by (simp add: upd_def io_apply)

lemma recover_Inr:
  assumes r: "recover_ownership E s m w = (Inr u, w')" and b: "backed E w s"
  shows "firm (\<lambda>l. own_deletion l (slot_deletion s (rw_ledger w'))) E w' \<and> slot_uid s (rw_ledger w') = km_uid m \<and>
    slot_name s (rw_ledger w') = slot_name s (rw_ledger w)"
proof (cases "slot_uid s (rw_ledger w) = []")
  case True
  let ?v = "w\<lparr>rw_ledger := set_slot s (km_uid m) (rw_ledger w)\<rparr>"
  from r True have m: "km_uid m \<noteq> []" and s: "save E ?v = (Inr u, w')"
    by (simp_all add: recover_ownership_def bind_led then_require then_upd split: if_splits)
  have l: "slot_uid s (rw_ledger w') = km_uid m" "slot_name s (rw_ledger w') = slot_name s (rw_ledger w)"
    using save_frame(1)[OF s] by simp_all
  then have "own_deletion (rw_ledger w') (slot_deletion s (rw_ledger w'))" using m unfolding own_deletion_def by auto
  then show ?thesis using save_written[OF s] l by (auto simp: firm_def)
next
  case False
  from r False have "w' = w" "slot_uid s (rw_ledger w) = km_uid m"
    by (simp_all add: recover_ownership_def bind_led then_require require_def split: if_splits)
  with b False show ?thesis by (simp add: backed_def)
qed

lemma shed_ask:
  assumes "firm (\<lambda>l. own_deletion l (Deletion k name uid)) E w"
  shows "shed E w (snd (ask_delete K k name uid w))"
proof -
  have r: "keeps (shed E) (bind_io (catch_io (api (ca_delete K k name uid))) (\<lambda>q. case q of
      Inl e \<Rightarrow> if not_found e then ret () else throw e | Inr _ \<Rightarrow> ret ()))"
    by (rule steady_shed) (intro steady_intros)
  show ?thesis unfolding ask_delete_def
    by (rule shd.at_then[OF _ shd.at_keeps[OF r]])
      (use assms in \<open>auto simp: io_apply shed_def advance_def disk_between_def firm_def\<close>)
qed

lemma shed_await: "keeps (shed E) (await_gone K E' name uid n)"
proof (rule steady_shed, induction n)
  case 0
  show ?case by (subst await_gone.simps) (auto intro!: steady_intros)
next
  case (Suc n)
  show ?case by (subst await_gone.simps) (auto intro!: steady_intros Suc.IH)
qed

lemma shed_sum:
  "(\<And>e. r = Inl e \<Longrightarrow> shed E w (snd (f e w))) \<Longrightarrow> (\<And>x. r = Inr x \<Longrightarrow> shed E w (snd (g x w))) \<Longrightarrow>
   shed E w (snd ((case r of Inl e \<Rightarrow> f e | Inr x \<Rightarrow> g x) w))"
  by (cases r) simp_all

lemma shed_absent: "keeps (shed E) (if not_found e then ret () else throw e)"
  by (rule steady_shed) (intro steady_intros)

lemma shed_delete_namespace:
  assumes "firm (\<lambda>l. own_deletion l (Deletion Namespaces name uid)) E w"
  shows "shed E w (snd (delete_namespace K E' name uid token w))"
  unfolding delete_namespace_def
proof (rule shd.at_bind, rule shd.at_keeps[OF steady_shed], rule std.keeps_catch[OF steady_api])
  fix q t assume a: "catch_io (api (ca_get K Namespaces name)) w = (Inr q, t)"
  have t: "firm (\<lambda>l. own_deletion l (Deletion Namespaces name uid)) E t"
    using assms firm_cong[OF api_ledger(2)[OF a] api_dir[OF a]] by simp
  show "shed E t (snd ((case q of Inl e \<Rightarrow> if not_found e then ret () else throw e
     | Inr m \<Rightarrow> then_io (require (km_uid m = uid \<and> label run_label m = token) (EMsg ''namespace replacement preserved''))
       (then_io (ask_delete K Namespaces name uid) (await_gone K E' name uid (re_ticks E')))) t))"
    by (rule shed_sum, rule shd.at_keeps[OF shed_absent])
      (use t in \<open>auto simp: then_require shd.refl_R intro!: shd.at_then shed_ask shd.at_keeps[OF shed_await]\<close>)
qed

lemma backed_api: "catch_io (api m) w = (q, t) \<Longrightarrow> backed E w s \<Longrightarrow> backed E t s"
  by (simp add: backed_def firm_cong[of t w] api_ledger(2) api_dir)

lemma shed_dispose_namespace:
  assumes k: "slot_kind s = Namespaces" and b: "backed E w s"
  shows "shed E w (snd (dispose_namespace K E s w))"
proof -
  let ?n = "slot_name s (rw_ledger w)"
  show ?thesis unfolding dispose_namespace_def
  proof (subst bind_led, rule shd.at_bind, rule shd.at_keeps[OF steady_shed], rule std.keeps_catch[OF steady_api])
    fix q t
    assume a: "catch_io (api (ca_get K Namespaces ?n)) w = (Inr q, t)"
    then have t: "slot_name s (rw_ledger t) = ?n" by (simp add: api_ledger(2))
    show "shed E t (snd ((case q of Inl e \<Rightarrow> if not_found e then ret () else throw e
      | Inr m \<Rightarrow> then_io (recover_ownership E s m) (bind_io (led id) (\<lambda>l. delete_namespace K E ?n (slot_uid s l) (l_token l)))) t))"
    proof (rule shed_sum, rule shd.at_keeps[OF shed_absent], rule shd.at_then, rule shd.at_keeps[OF steady_shed[OF steady_recover]])
      fix m x v assume "recover_ownership E s m t = (Inr x, v)"
      note v = recover_Inr[OF this backed_api[OF a b]]
      show "shed E v (snd (bind_io (led id) (\<lambda>l. delete_namespace K E ?n (slot_uid s l) (l_token l)) v))"
        unfolding bind_led id_apply by (rule shed_delete_namespace) (use v[THEN conjunct1] v[THEN conjunct2] t k in simp)
    qed
  qed
qed

lemma shed_dispose_rbac:
  assumes b: "backed E w s"
  shows "shed E w (snd (dispose_rbac K E s w))"
proof -
  let ?n = "slot_name s (rw_ledger w)"
  have last: "keeps (shed E) (bind_io (catch_io (api (ca_get K (slot_kind s) ?n))) (\<lambda>p. case p of
      Inl e \<Rightarrow> if not_found e then ret () else throw e | Inr _ \<Rightarrow> throw (EMsg (pending_message s))))"
    by (rule steady_shed) (intro steady_intros)
  show ?thesis unfolding dispose_rbac_def bind_led
  proof (rule shd.at_bind, rule shd.at_keeps[OF steady_shed], rule std.keeps_catch[OF steady_api])
    fix q t assume a: "catch_io (api (ca_get K (slot_kind s) ?n)) w = (Inr q, t)"
    then have t: "slot_name s (rw_ledger t) = ?n" by (simp add: api_ledger(2))
    show "shed E t (snd ((case q of Inl e \<Rightarrow> if not_found e then ret () else throw e
      | Inr m \<Rightarrow> then_io (recover_ownership E s m) (then_io (ask_delete K (slot_kind s) ?n (km_uid m))
          (bind_io (catch_io (api (ca_get K (slot_kind s) ?n))) (\<lambda>p. case p of
            Inl e \<Rightarrow> if not_found e then ret () else throw e | Inr _ \<Rightarrow> throw (EMsg (pending_message s)))))) t))"
    proof (rule shed_sum, rule shd.at_keeps[OF shed_absent], rule shd.at_then, rule shd.at_keeps[OF steady_shed[OF steady_recover]])
      fix m x v assume "recover_ownership E s m t = (Inr x, v)"
      note v = recover_Inr[OF this backed_api[OF a b]]
      show "shed E v (snd (then_io (ask_delete K (slot_kind s) ?n (km_uid m)) (bind_io (catch_io (api (ca_get K (slot_kind s) ?n))) (\<lambda>p. case p of
            Inl e \<Rightarrow> if not_found e then ret () else throw e | Inr _ \<Rightarrow> throw (EMsg (pending_message s)))) v))"
        by (rule shd.at_then[OF shed_ask shd.at_keeps[OF last]]) (use v[THEN conjunct1] v[THEN conjunct2] t in simp)
    qed
  qed
qed

lemma tidy_step:
  assumes d: "\<And>s. backed E s x \<Longrightarrow> shed E s (snd (m s))" and k: "\<And>y. y \<noteq> x \<Longrightarrow> keeps (slot_kept y) m" and x: "x \<in> S"
  shows "triple (tidy S E w) (catch_io m) (\<lambda>_. tidy (S - {x}) E w) X"
proof (rule tripleI)
  fix s assume s: "tidy S E w s"
  obtain r t where t: "m s = (r, t)" by fastforce
  have st: "shed E s t" using d[of s] s x t by (simp add: tidy_def)
  have "backed E t y" if "y \<in> S - {x}" for y
    using that s backed_kept[OF _ st] kpt.keepsD[OF k t, of y] by (auto simp: tidy_def)
  moreover have "shed E w t" using s st shd.trans_R by (auto simp: tidy_def)
  ultimately show "case catch_io m s of (Inr q, t) \<Rightarrow> tidy (S - {x}) E w t | (Inl e, t) \<Rightarrow> X t"
    using t by (simp add: io_apply tidy_def)
qed

lemma tidy_keeps:
  assumes m: "keeps (shed E) m" and k: "\<And>y. keeps (slot_kept y) m"
  shows "triple (tidy S E w) m (\<lambda>_. tidy S E w) (shed E w)"
proof (rule tripleI)
  fix s assume s: "tidy S E w s"
  obtain r t where t: "m s = (r, t)" by fastforce
  have st: "shed E s t" using shd.keepsD[OF m t] .
  have "\<forall>y \<in> S. backed E t y" using s backed_kept[OF _ st] kpt.keepsD[OF k t] by (auto simp: tidy_def)
  moreover have "shed E w t" using s st shd.trans_R by (auto simp: tidy_def)
  ultimately show "case m s of (Inr q, t) \<Rightarrow> tidy S E w t | (Inl e, t) \<Rightarrow> shed E w t"
    using t by (auto simp: tidy_def split: sum.split)
qed

lemma tidy_flag:
  assumes "quiet_update f" "\<And>s l. slot_uid s (f l) = slot_uid s l"
  shows "triple (tidy S E w) (upd f) (\<lambda>_. tidy S E w) (shed E w)"
  by (rule tidy_keeps[OF steady_shed[OF steady_upd] kept_upd]) (use assms in simp_all)

lemma absent_slots:
  "slot_uid s (l\<lparr>l_resource_absent := b\<rparr>) = slot_uid s l" "slot_uid s (l\<lparr>l_runner_absent := b\<rparr>) = slot_uid s l"
  "slot_uid s (l\<lparr>l_binding_absent := b\<rparr>) = slot_uid s l" "slot_uid s (l\<lparr>l_role_absent := b\<rparr>) = slot_uid s l"
  "slot_uid s (l\<lparr>l_cluster_uid := u\<rparr>) = slot_uid s l" "slot_uid s (l\<lparr>l_cancel := b\<rparr>) = slot_uid s l"
  by (cases s; simp)+

lemma shed_dispose:
  assumes "\<forall>s. backed E w s"
  shows "shed E w (snd (dispose K E w))"
proof -
  have "triple (tidy UNIV E w) (dispose K E) (\<lambda>_. shed E w) (shed E w)" unfolding dispose_def
    by (rule triple_bind[OF tidy_keeps[OF steady_shed[OF steady_api] kept_api]],
        rule triple_bind[OF tidy_keeps[OF steady_shed[OF steady_led] kept_led]],
        rule triple_then[OF tidy_keeps[OF shd.keeps_require kpt.keeps_require]],
        rule triple_bind[OF tidy_step[OF shed_dispose_namespace kept_dispose(1)]], simp, assumption, assumption, simp,
        rule triple_then[OF tidy_flag[OF quiet_fields(1) absent_slots(1)]],
        rule triple_bind[OF tidy_step[OF shed_dispose_namespace kept_dispose(1)]], simp, assumption, assumption, simp,
        rule triple_then[OF tidy_flag[OF quiet_fields(2) absent_slots(2)]],
        rule triple_bind[OF tidy_step[OF shed_dispose_rbac kept_dispose(2)]], assumption, assumption, simp,
        rule triple_then[OF tidy_flag[OF quiet_fields(3) absent_slots(3)]],
        rule triple_bind[OF tidy_step[OF shed_dispose_rbac kept_dispose(2)]], assumption, assumption, simp,
        rule triple_then[OF tidy_flag[OF quiet_fields(4) absent_slots(4)]],
        rule triple_post[OF tidy_keeps[OF shd.keeps_lift kpt.keeps_lift]], simp add: tidy_def)
  moreover have "tidy UNIV E w w" using assms by (simp add: tidy_def shd.refl_R)
  ultimately show ?thesis by (cases "dispose K E w"; cases "fst (dispose K E w)") (auto dest: tripleD tripleE)
qed

section \<open>The course of collection\<close>

lemma triple_snd: "triple P m (\<lambda>_. R) R \<Longrightarrow> P s \<Longrightarrow> R (snd (m s))"
  by (cases "m s"; cases "fst (m s)") (auto dest: tripleD tripleE)

lemma triple_if: "triple P m Q X \<Longrightarrow> triple P n Q X \<Longrightarrow> triple P (if b then m else n) Q X"
  by simp

text \<open>The states disposal may start from.\<close>

definition disposable :: "renv \<Rightarrow> 'x rworld \<Rightarrow> bool" where
  "disposable E w \<longleftrightarrow> late E w \<and> (\<forall>s. backed E w s)"

lemma course_dispose:
  "triple (\<lambda>s. course E w s \<and> disposable E s \<and> l_phase (rw_ledger s) = p) (catch_io (dispose K E)) (\<lambda>_. at_phase E w p) X"
proof (rule tripleI)
  fix s assume s: "course E w s \<and> disposable E s \<and> l_phase (rw_ledger s) = p"
  obtain r t where t: "dispose K E s = (r, t)" by fastforce
  have st: "shed E s t" using shed_dispose[of E s K] s t by (simp add: disposable_def)
  then have "course E w t" "l_phase (rw_ledger t) = p"
    using s crs.trans_R shed_course[OF st] unfolding shed_def disposable_def by blast+
  then show "case catch_io (dispose K E) s of (Inr x, t) \<Rightarrow> at_phase E w p t | (Inl e, t) \<Rightarrow> X t"
    using t by (simp add: io_apply at_phase_def)
qed

lemma course_finish_disposal:
  "triple (\<lambda>s. course E w s \<and> disposable E s \<and> l_phase (rw_ledger s) = p) (finish_disposal K E) (\<lambda>_. course E w) (course E w)"
proof -
  have f: "triple (at_phase E w p) (then_io (note_problem E ''disposal-incomplete'' (Some e)) (fail_saving E e)) (\<lambda>_. course E w) (course E w)" for e
    by (rule triple_post[OF phase_steady phase_course]) (intro steady_intros)
  have s: "triple (at_phase E w p) (then_io (set_phase ''complete'') (then_io (save E) (publish_now E))) (\<lambda>_. course E w) (course E w)"
    by (rule triple_then[OF phase_set], simp add: phase_rank_def, rule triple_post[OF phase_steady phase_course])
      (intro steady_intros steady_publish)
  show ?thesis unfolding finish_disposal_def
    by (rule triple_bind[OF course_dispose traced_sum[OF f s]])
qed

lemma course_finish_collection:
  assumes "phase_rank p \<le> 1"
  shows "triple (at_phase E w p) (finish_collection K E) (\<lambda>_. course E w) (course E w)"
proof -
  have f: "triple (at_phase E w p) (then_io (set_phase ''collecting'') (fail_saving E e)) (\<lambda>_. course E w) (course E w)" for e
    by (rule triple_then[OF phase_set], use assms in \<open>simp add: phase_rank_def\<close>, rule triple_post[OF phase_steady[OF steady_fail_saving] phase_course])
  have l: "triple (\<lambda>s. at_phase E w ''disposing'' s \<and> on_disk E (rw_ledger s) (rw_dir s ''run.json'')) (finish_disposal K E) (\<lambda>_. course E w) (course E w)"
    by (rule triple_pre[OF course_finish_disposal[where p = "''disposing''"]])
      (auto simp: phase_rank_def at_phase_def disposable_def intro: late_saved[unfolded at_phase_def] backed_saved)
  have s: "triple (at_phase E w p) (then_io (set_phase ''disposing'') (then_io (save E) (finish_disposal K E))) (\<lambda>_. course E w) (course E w)"
    by (rule triple_then[OF phase_set], use assms in \<open>simp add: phase_rank_def\<close>, rule triple_then[OF phase_saved l])
  show ?thesis unfolding finish_collection_def
    by (rule triple_bind[OF phase_steady[OF steady_stage_step]], rule triple_bind[OF phase_steady[OF steady_logs_step]], rule traced_option[OF s f])
qed

lemma course_monitor:
  assumes "phase_rank p \<le> 1"
  shows "triple (at_phase E w p) (monitor K E) (\<lambda>_. course E w) (course E w)"
proof -
  have "triple (at_phase E w p) (then_io (monitor_loop K E (re_ticks E) 0)
      (then_io (set_phase ''collecting'') (then_io (save E) (finish_collection K E)))) (\<lambda>_. course E w) (course E w)"
    by (rule triple_then[OF phase_steady[OF steady_loop]], rule triple_then[OF phase_set], use assms in \<open>simp add: phase_rank_def\<close>,
        rule triple_then[OF phase_steady[OF steady_save]], rule course_finish_collection) (simp add: phase_rank_def)
  then show ?thesis unfolding monitor_def
    by (rule triple_bind[OF phase_steady[OF steady_led] triple_if[OF course_finish_collection[OF assms]]])
qed

section \<open>The course of provisioning\<close>

lemma course_intend:
  assumes "phase_rank p = 0"
  shows "triple (\<lambda>s. at_phase E w p s \<and> rw_launches s = rw_launches w \<and> \<not> l_launch_attempted (rw_ledger w)) (intend_launch E)
    (\<lambda>_ s. at_phase E w ''launching'' s \<and> launched E s \<and> rw_launches s = rw_launches w \<and> \<not> l_launch_attempted (rw_ledger w)) (course E w)"
proof (rule tripleI)
  fix s assume s: "at_phase E w p s \<and> rw_launches s = rw_launches w \<and> \<not> l_launch_attempted (rw_ledger w)"
  let ?t = "s\<lparr>rw_ledger := (rw_ledger s)\<lparr>l_phase := ''launching'', l_launch_attempted := True\<rparr>\<rparr>"
  have "course E s ?t" using s assms
    by (simp add: course_def advance_def disk_between_def at_phase_def evolved_def same_run_def same_uids_def rank_def phase_rank_def)
  then have t: "at_phase E w ''launching'' ?t" using s crs.trans_R unfolding at_phase_def by auto
  obtain r v where v: "save E ?t = (r, v)" by fastforce
  note f = save_frame[OF v]
  show "case intend_launch E s of (Inr x, v) \<Rightarrow> at_phase E w ''launching'' v \<and> launched E v \<and> rw_launches v = rw_launches w \<and> \<not> l_launch_attempted (rw_ledger w)
    | (Inl e, v) \<Rightarrow> course E w v"
  proof (cases r)
    case (Inl e)
    from tripleE[OF phase_saved t v[unfolded Inl]] show ?thesis using v Inl by (simp add: intend_launch_def upd_def io_apply)
  next
    case (Inr u)
    from tripleD[OF phase_saved t v[unfolded Inr]] show ?thesis using v Inr f s by (auto simp: intend_launch_def upd_def io_apply firm_def)
  qed
qed

lemma course_create:
  assumes "phase_rank p = 0"
  shows "triple (at_phase E w p) (create_job K E l) (\<lambda>_. at_phase E w ''running'') (course E w)"
  unfolding create_job_def
  by (rule triple_bind[OF phase_steady[OF steady_create(2)]], rule triple_then[OF phase_steady[OF std.keeps_require]],
      rule triple_then[OF phase_steady[OF steady_claims(5)]], rule triple_then[OF phase_set], use assms in \<open>simp add: phase_rank_def\<close>,
      rule phase_steady[OF steady_save])

lemma course_launch_job:
  assumes "phase_rank p = 0"
  shows "triple (\<lambda>s. at_phase E w p s \<and> rw_launches s = rw_launches w \<and> \<not> l_launch_attempted (rw_ledger w)) (launch_job K E)
    (\<lambda>_. at_phase E w ''running'') (course E w)"
proof -
  have c: "triple (\<lambda>s. at_phase E w ''launching'' s \<and> launched E s \<and> rw_launches s = rw_launches w \<and> \<not> l_launch_attempted (rw_ledger w))
      count_launch (\<lambda>_. at_phase E w ''launching'') (course E w)"
  proof (rule tripleI)
    fix s assume s: "at_phase E w ''launching'' s \<and> launched E s \<and> rw_launches s = rw_launches w \<and> \<not> l_launch_attempted (rw_ledger w)"
    then show "case count_launch s of (Inr x, t) \<Rightarrow> at_phase E w ''launching'' t | (Inl e, t) \<Rightarrow> course E w t"
      by (auto simp: count_launch_def io_apply at_phase_def course_def advance_def disk_between_def firm_def)
  qed
  have r: "triple (\<lambda>s. at_phase E w ''launching'' s \<and> launched E s \<and> rw_launches s = rw_launches w \<and> \<not> l_launch_attempted (rw_ledger w))
      (bind_io (led id) (\<lambda>l. then_io count_launch (create_job K E l))) (\<lambda>_. at_phase E w ''running'') (course E w)"
    unfolding led_def
    by (rule triple_bind[OF triple_get], assumption, rule triple_then[OF c], rule course_create) (simp add: phase_rank_def)
  show ?thesis unfolding launch_job_def by (rule triple_then[OF course_intend[OF assms] r])
qed

definition prelaunch :: "renv \<Rightarrow> 'x rworld \<Rightarrow> string \<Rightarrow> 'x rworld \<Rightarrow> bool" where
  "prelaunch E w p s \<longleftrightarrow> at_phase E w p s \<and> rw_launches s = rw_launches w"

lemma prelaunch_steady:
  assumes "keeps (steady E) m"
  shows "triple (prelaunch E w p) m (\<lambda>_. prelaunch E w p) (course E w)"
proof (rule tripleI)
  fix s assume s: "prelaunch E w p s"
  obtain r t where t: "m s = (r, t)" by fastforce
  have "rw_launches t = rw_launches s" using std.keepsD[OF assms t] by (simp add: steady_def shed_def)
  moreover have p: "at_phase E w p s" using s by (simp add: prelaunch_def)
  ultimately show "case m s of (Inr x, t) \<Rightarrow> prelaunch E w p t | (Inl e, t) \<Rightarrow> course E w t"
    using s t tripleD[OF phase_steady[OF assms] p] tripleE[OF phase_steady[OF assms] p]
    by (cases r) (simp_all add: prelaunch_def)
qed

lemma course_launch:
  assumes "phase_rank p = 0"
  shows "triple (prelaunch E w p) (launch K E) (\<lambda>_ s. at_phase E w ''running'' s \<or> at_phase E w ''collecting'' s) (course E w)"
proof -
  have 1: "triple (prelaunch E w p) (upd (\<lambda>l. l\<lparr>l_cancel := True\<rparr>)) (\<lambda>_. at_phase E w p) (course E w)"
    by (rule triple_post[OF prelaunch_steady[OF steady_fields(6)]]) (simp add: prelaunch_def)
  have 2: "triple (at_phase E w p) (set_phase ''collecting'') (\<lambda>_. at_phase E w ''collecting'') (course E w)"
    by (rule phase_set) (use assms in \<open>simp add: phase_rank_def\<close>)
  have 3: "triple (at_phase E w ''collecting'') (save E) (\<lambda>_ s. at_phase E w ''running'' s \<or> at_phase E w ''collecting'' s) (course E w)"
    by (rule triple_post[OF phase_steady[OF steady_save]]) simp
  note c = triple_then[OF 1 triple_then[OF 2 3]]
  have l: "triple (\<lambda>s. prelaunch E w p s \<and> l_launch_attempted (rw_ledger s) = a)
      (then_io (require (\<not> a) e) (launch_job K E)) (\<lambda>_ s. at_phase E w ''running'' s \<or> at_phase E w ''collecting'' s) (course E w)" for a e
  proof (cases a)
    case True
    then show ?thesis by (auto simp: triple_def io_apply prelaunch_def at_phase_def)
  next
    case False
    have n: "\<not> l_launch_attempted (rw_ledger w)" if "prelaunch E w p s" "\<not> l_launch_attempted (rw_ledger s)" for s
      using that by (auto simp: prelaunch_def at_phase_def course_def evolved_def dest: advance_evolved)
    have "triple (\<lambda>s. prelaunch E w p s \<and> \<not> l_launch_attempted (rw_ledger s)) (launch_job K E)
        (\<lambda>_ s. at_phase E w ''running'' s \<or> at_phase E w ''collecting'' s) (course E w)"
      by (rule triple_post[OF triple_pre[OF course_launch_job[OF assms]]]) (use n in \<open>auto simp: prelaunch_def\<close>)
    with False show ?thesis by (simp add: triple_def then_require)
  qed
  have r: "triple (prelaunch E w p) (bind_io (led l_launch_attempted) (\<lambda>a. then_io (require (\<not> a) e) (launch_job K E)))
      (\<lambda>_ s. at_phase E w ''running'' s \<or> at_phase E w ''collecting'' s) (course E w)" for e
    unfolding led_def by (rule triple_bind[OF triple_get l]) simp
  show ?thesis unfolding launch_def
    by (rule triple_bind[OF prelaunch_steady[OF std.keeps_catch[OF steady_stat]]], rule traced_sum[OF r c])
qed

lemma course_provision:
  assumes "phase_rank p = 0"
  shows "triple (prelaunch E w p) (provision K E) (\<lambda>_ s. at_phase E w ''running'' s \<or> at_phase E w ''collecting'' s) (course E w)"
  unfolding provision_def by (rule triple_then[OF prelaunch_steady[OF steady_prepare] course_launch[OF assms]])

section \<open>The course of a whole call\<close>

lemma triple_or: "triple P m Q X \<Longrightarrow> triple P' m Q X \<Longrightarrow> triple (\<lambda>s. P s \<or> P' s) m Q X"
  by (auto simp: triple_def)

lemma course_follow: "triple (\<lambda>s. at_phase E w ''running'' s \<or> at_phase E w ''collecting'' s) (monitor K E) (\<lambda>_. course E w) (course E w)"
  by (rule triple_or; rule course_monitor) (simp_all add: phase_rank_def)

lemma steady_abandon: "keeps (steady E) (abandon E e)"
  unfolding abandon_def by (intro steady_intros steady_request_cancel steady_fields)

lemma keeps_course:
  assumes "keeps (steady E) m"
  shows "triple (course E w) m (\<lambda>_. course E w) (course E w)"
proof (rule tripleI)
  fix s assume s: "course E w s"
  obtain r t where t: "m s = (r, t)" by fastforce
  from s steady_course[OF std.keepsD[OF assms t]] have "course E w t" by (rule crs.trans_R)
  with t show "case m s of (Inr x, t) \<Rightarrow> course E w t | (Inl e, t) \<Rightarrow> course E w t" by (simp split: sum.split)
qed

definition follows :: "renv \<Rightarrow> 'x rworld \<Rightarrow> bool \<Rightarrow> 'x rworld \<Rightarrow> bool" where
  "follows E w b s \<longleftrightarrow> (if b then at_phase E w ''running'' s \<or> at_phase E w ''collecting'' s else course E w s)"

lemma course_resume:
  assumes "phase_rank p = 0"
  shows "triple (prelaunch E w p) (resume_job K E) (follows E w) (course E w)"
proof -
  have known: "triple (prelaunch E w p) (then_io (require a e)
      (then_io (claim_uid l_job_uid (\<lambda>u l. l\<lparr>l_job_uid := u\<rparr>) u e' (True, EInvalid))
      (then_io (set_phase ''running'') (then_io (save E) (ret True))))) (follows E w) (course E w)" for a e u e'
  proof (rule triple_then[OF prelaunch_steady[OF std.keeps_require]], rule triple_then)
    show "triple (prelaunch E w p) (claim_uid l_job_uid (\<lambda>u l. l\<lparr>l_job_uid := u\<rparr>) u e' (True, EInvalid)) (\<lambda>_. at_phase E w p) (course E w)"
      by (rule triple_post[OF prelaunch_steady[OF steady_claims(5)]]) (simp add: prelaunch_def)
    show "triple (at_phase E w p) (then_io (set_phase ''running'') (then_io (save E) (ret True))) (follows E w) (course E w)"
    proof (rule triple_then[OF phase_set])
      show "phase_rank p \<le> phase_rank ''running''" using assms by simp
      show "triple (at_phase E w ''running'') (then_io (save E) (ret True)) (follows E w) (course E w)"
        by (rule triple_then[OF phase_steady[OF steady_save]], rule triple_ret) (simp add: follows_def)
    qed
  qed
  have stop: "triple (prelaunch E w p) (then_io (note_problem E c None)
      (then_io (set_phase ''collecting'') (then_io (save E) (then_io (finish_collection K E) (ret False))))) (follows E w) (course E w)" for c
  proof (rule triple_then)
    show "triple (prelaunch E w p) (note_problem E c None) (\<lambda>_. at_phase E w p) (course E w)"
      by (rule triple_post[OF prelaunch_steady[OF steady_problem]]) (simp add: prelaunch_def)
    show "triple (at_phase E w p) (then_io (set_phase ''collecting'') (then_io (save E) (then_io (finish_collection K E) (ret False)))) (follows E w) (course E w)"
    proof (rule triple_then[OF phase_set], use assms in simp, rule triple_then[OF phase_steady[OF steady_save]], rule triple_then[OF course_finish_collection])
      show "phase_rank ''collecting'' \<le> 1" by (simp add: phase_rank_def)
      show "triple (course E w) (ret False) (follows E w) (course E w)" by (rule triple_ret) (simp add: follows_def)
    qed
  qed
  have go: "triple (prelaunch E w p) (bind_io (catch_io (provision K E)) (\<lambda>q. case q of Inl e' \<Rightarrow> abandon E e' | Inr _ \<Rightarrow> ret True))
      (follows E w) (course E w)"
  proof (rule tripleI)
    fix s assume s: "prelaunch E w p s"
    obtain q t where t: "provision K E s = (q, t)" by fastforce
    show "case bind_io (catch_io (provision K E)) (\<lambda>q. case q of Inl e' \<Rightarrow> abandon E e' | Inr _ \<Rightarrow> ret True) s of
      (Inr x, t) \<Rightarrow> follows E w x t | (Inl e, t) \<Rightarrow> course E w t"
    proof (cases q)
      case (Inl e)
      from tripleE[OF course_provision[OF assms] s t[unfolded Inl]] have c: "course E w t" .
      obtain r :: "gerr + bool" and v where v: "abandon E e t = (r, v)" by fastforce
      have "course E w v" using c steady_course[OF std.keepsD[OF steady_abandon v]] by (rule crs.trans_R)
      moreover have "\<exists>x. r = Inl x" using v by (auto simp: abandon_def fail_saving_def io_apply split: prod.splits sum.splits if_splits)
      ultimately show ?thesis using t Inl v by (auto simp: io_apply)
    next
      case (Inr u)
      from tripleD[OF course_provision[OF assms] s t[unfolded Inr]] show ?thesis using t Inr by (simp add: io_apply follows_def)
    qed
  qed
  have err: "triple (prelaunch E w p) (throw e) (follows E w) (course E w)" for e
    by (simp add: triple_def io_apply prelaunch_def at_phase_def)
  show ?thesis unfolding resume_job_def
    by (rule triple_bind[OF prelaunch_steady[OF steady_led]], rule triple_bind[OF prelaunch_steady[OF std.keeps_catch[OF steady_api]]], rule traced_sum)
      (intro triple_if stop go err, rule known)
qed

text \<open>What \<open>Collect\<close> does from a ledger it has loaded, which is the one on disk.\<close>

lemma course_active:
  assumes "l_phase (rw_ledger w) \<noteq> ''complete''" "l_phase (rw_ledger w) \<noteq> ''disposing''"
  shows "triple (prelaunch E w (l_phase (rw_ledger w))) (collect_active K E (rw_ledger w)) (\<lambda>_. course E w) (course E w)"
proof -
  let ?p = "l_phase (rw_ledger w)"
  consider (collecting) "?p = ''collecting''" | (active) "phase_rank ?p = 0" "?p \<noteq> ''disposing''" "?p \<noteq> ''collecting''"
    using assms by (auto simp: phase_rank_def)
  then show ?thesis
  proof cases
    case collecting
    then show ?thesis unfolding collect_active_def
      by (simp add: collecting) (rule triple_pre[OF course_finish_collection[where p = "''collecting''"]]; simp add: prelaunch_def phase_rank_def)
  next
    case active
    have m: "triple (at_phase E w ?p) (monitor K E) (\<lambda>_. course E w) (course E w)"
      by (rule course_monitor) (use active in simp)
    have r: "triple (follows E w b) (if b then monitor K E else ret ()) (\<lambda>_. course E w) (course E w)" for b
    proof (cases b)
      case True
      then show ?thesis by simp (rule triple_pre[OF course_follow], simp add: follows_def)
    next
      case False
      then show ?thesis by simp (rule triple_ret, simp add: follows_def)
    qed
    have a: "triple (prelaunch E w ?p) (bind_io (resume_job K E) (\<lambda>follow. if follow then monitor K E else ret ())) (\<lambda>_. course E w) (course E w)"
      by (rule triple_bind[OF course_resume[OF active(1)] r])
    have b: "triple (prelaunch E w ?p) (bind_io (ret True) (\<lambda>follow. if follow then monitor K E else ret ())) (\<lambda>_. course E w) (course E w)"
      using m by (simp add: triple_def io_apply prelaunch_def)
    from active a b show ?thesis unfolding collect_active_def by simp
  qed
qed

definition before_disposal :: "renv \<Rightarrow> 'x rworld \<Rightarrow> 'x rworld \<Rightarrow> bool" where
  "before_disposal E w s \<longleftrightarrow> steady E w s \<and> (\<forall>x. slot_kept x w s)"

lemma before_disposal_keeps:
  assumes m: "keeps (steady E) m" and k: "\<And>x. keeps (slot_kept x) m"
  shows "triple (before_disposal E w) m (\<lambda>_. before_disposal E w) (course E w)"
proof (rule tripleI)
  fix s assume s: "before_disposal E w s"
  obtain r t where t: "m s = (r, t)" by fastforce
  have "before_disposal E w t"
    using s std.trans_R[OF _ std.keepsD[OF m t]] kpt.trans_R[OF _ kpt.keepsD[OF k t]] by (auto simp: before_disposal_def)
  then show "case m s of (Inr q, t) \<Rightarrow> before_disposal E w t | (Inl e, t) \<Rightarrow> course E w t"
    using t by (auto simp: before_disposal_def steady_course split: sum.split)
qed

lemma disposable_loaded:
  assumes d: "on_disk E (rw_ledger w) (rw_dir w ''run.json'')" "l_phase (rw_ledger w) = ''disposing''" and s: "before_disposal E w s"
  shows "course E w s \<and> disposable E s \<and> l_phase (rw_ledger s) = ''disposing''"
proof -
  have st: "shed E w s" using s by (simp add: before_disposal_def steady_def)
  have "late E w" using d by (auto simp: firm_def rank_def phase_rank_def)
  moreover have "\<forall>x. backed E s x"
    using s backed_kept[OF backed_saved[OF d(1)] st] by (simp add: before_disposal_def)
  ultimately show ?thesis
    using s st late_advance[of E w s] d(2) by (auto simp: disposable_def before_disposal_def steady_course shed_def)
qed

lemma kept_claim_cluster: "keeps (slot_kept s) (claim_uid l_cluster_uid (\<lambda>u l. l\<lparr>l_cluster_uid := u\<rparr>) u e further)"
  unfolding claim_uid_def by (intro kept_intros kept_upd absent_slots(5))

lemma kept_note: "keeps (slot_kept s) (note_cancel_file E)"
  unfolding note_cancel_file_def by (intro kept_intros kept_stat kept_upd absent_slots(6))

lemma course_collect_loaded:
  assumes "on_disk E (rw_ledger w) (rw_dir w ''run.json'')"
  shows "course E w (snd (collect_loaded K E w))"
proof -
  let ?l = "rw_ledger w"
  let ?m = "bind_io (api (ca_get K Namespaces ''kube-system'')) (\<lambda>cluster.
       then_io (claim_uid l_cluster_uid (\<lambda>u l. l\<lparr>l_cluster_uid := u\<rparr>) (km_uid cluster) (EMsg ''cluster identity changed'') (True, EInvalid))
       (then_io (if l_cluster_uid ?l = [] then save E else ret ())
       (then_io (note_cancel_file E) (collect_active K E ?l))))"
  consider (complete) "l_phase ?l = ''complete''" | (disposing) "l_phase ?l = ''disposing''"
    | (active) "l_phase ?l \<noteq> ''complete''" "l_phase ?l \<noteq> ''disposing''" by blast
  then show ?thesis
  proof cases
    case complete
    then show ?thesis using steady_course[OF std.at_keeps[OF steady_publish]] by (simp add: collect_loaded_def bind_led)
  next
    case disposing
    have f: "collect_active K E ?l = finish_disposal K E" using disposing by (simp add: collect_active_def)
    have t: "triple (before_disposal E w) ?m (\<lambda>_. course E w) (course E w)" unfolding f
      by (rule triple_bind[OF before_disposal_keeps[OF steady_api kept_api]],
          rule triple_then[OF before_disposal_keeps[OF steady_claims(1) kept_claim_cluster]],
          rule triple_then[OF before_disposal_keeps[OF std.keeps_if[OF steady_save std.keeps_ret] kpt.keeps_if[OF kept_save kpt.keeps_ret]]],
          rule triple_then[OF before_disposal_keeps[OF steady_note(2) kept_note]],
          rule triple_pre[OF course_finish_disposal], rule disposable_loaded[OF assms disposing])
    have "before_disposal E w w" by (simp add: before_disposal_def std.refl_R kpt.refl_R)
    then show ?thesis using triple_snd[OF t] disposing unfolding collect_loaded_def bind_led id_apply by simp
  next
    case active
    have t: "triple (prelaunch E w (l_phase ?l)) ?m (\<lambda>_. course E w) (course E w)"
      by (rule triple_bind[OF prelaunch_steady[OF steady_api]], rule triple_then[OF prelaunch_steady[OF steady_claims(1)]],
          rule triple_then[OF prelaunch_steady[OF std.keeps_if[OF steady_save std.keeps_ret]]], rule triple_then[OF prelaunch_steady[OF steady_note(2)]],
          rule course_active[OF active])
    have p: "prelaunch E w (l_phase ?l) w" by (simp add: prelaunch_def at_phase_def crs.refl_R)
    show ?thesis using triple_snd[OF t p] active(1) unfolding collect_loaded_def bind_led id_apply by (simp only: if_False)
  qed
qed

section \<open>Over the whole life of a run\<close>

text \<open>
  The lives of one run directory: a start, then any number of collections and cancellation requests by
  other processes, each in an environment of its own and against a cluster that anybody may have changed
  in between. A crash is an environment in which every write from some point on fails.
\<close>

lemma on_disk_loads:
  assumes "sound_codec (w_ledger (re_wire E))" "on_disk E l n"
  shows "\<exists>data. n = Regular data \<and> dec (w_ledger (re_wire E)) data = Inr l"
  using assms by (auto simp: on_disk_def sound_codec_def)

definition disk_ledger :: "ledger codec \<Rightarrow> 'x rworld \<Rightarrow> ledger option" where
  "disk_ledger C w = (case rw_dir w ''run.json'' of Regular data \<Rightarrow> (case dec C data of Inr l \<Rightarrow> Some l | Inl _ \<Rightarrow> None) | _ \<Rightarrow> None)"

lemma disk_ledger_on_disk:
  assumes "sound_codec (w_ledger (re_wire E))" "on_disk E l (rw_dir w ''run.json'')"
  shows "disk_ledger (w_ledger (re_wire E)) w = Some l"
  using on_disk_loads[OF assms] by (auto simp: disk_ledger_def)

lemma load_io_loads:
  assumes "load_io E run w = (Inr u, v)"
  shows "\<exists>l. disk_ledger (w_ledger (re_wire E)) w = Some l \<and> v = w\<lparr>rw_ledger := l\<rparr> \<and> on_disk E l (rw_dir w ''run.json'')"
  using assms
  by (auto simp: load_io_def load_ledger_def disk_ledger_def on_disk_def read_bounded_def split: sum.splits node.splits if_splits option.splits)

text \<open>One collection.\<close>

lemma collect_course:
  assumes "collect K E run w = (r, w')"
  shows "w' = w \<or> (\<exists>l. disk_ledger (w_ledger (re_wire E)) w = Some l \<and> course E (w\<lparr>rw_ledger := l\<rparr>) w')"
proof -
  obtain q v where v: "load_io E run w = (q, v)" by fastforce
  show ?thesis
  proof (cases q)
    case (Inl e)
    with v have "v = w" by (auto simp: load_io_def split: sum.splits)
    with assms v Inl show ?thesis by (simp add: collect_def io_apply)
  next
    case (Inr u)
    from load_io_loads[OF v[unfolded Inr]] obtain l where l: "disk_ledger (w_ledger (re_wire E)) w = Some l" "v = w\<lparr>rw_ledger := l\<rparr>"
      "on_disk E l (rw_dir w ''run.json'')" by blast
    then have "course E v (snd (collect_loaded K E v))" by (intro course_collect_loaded) simp
    moreover have "collect_loaded K E v = (r, w')" using assms v Inr by (simp add: collect_def io_apply)
    ultimately show ?thesis using l by auto
  qed
qed

lemma course_disk:
  assumes c: "course E (w\<lparr>rw_ledger := l\<rparr>) w'" and s: "sound_codec (w_ledger (re_wire E))" and d: "disk_ledger (w_ledger (re_wire E)) w = Some l"
  shows "\<exists>l'. disk_ledger (w_ledger (re_wire E)) w' = Some l' \<and> evolved l l'"
proof -
  from c have "disk_between E (w\<lparr>rw_ledger := l\<rparr>) w'" by (simp add: course_def advance_def)
  then consider (same) "rw_dir w' ''run.json'' = rw_dir w ''run.json''" | (new) m where "evolved l m" "on_disk E m (rw_dir w' ''run.json'')"
    by (auto simp: disk_between_def)
  then show ?thesis
  proof cases
    case same
    with d show ?thesis by (auto simp: disk_ledger_def)
  next
    case new
    with disk_ledger_on_disk[OF s] show ?thesis by blast
  qed
qed

text \<open>
  \<open>afterwards C run w v\<close>: \<open>v\<close> is a world the run directory of \<open>w\<close> may be found in later. Between two calls
  the cluster may change in any way, and another process has its own memory.
\<close>

inductive afterwards :: "ledger codec \<Rightarrow> string \<Rightarrow> 'x rworld \<Rightarrow> 'x rworld \<Rightarrow> bool" for C :: "ledger codec" and run :: string and w :: "'x rworld" where
  later_now: "afterwards C run w w"
| later_outside: "afterwards C run w v \<Longrightarrow> afterwards C run w (v\<lparr>rw_ext := x, rw_ledger := l, rw_tick := n\<rparr>)"
| later_collects: "afterwards C run w v \<Longrightarrow> w_ledger (re_wire E) = C \<Longrightarrow> collect K E run v = (r, u) \<Longrightarrow> afterwards C run w u"
| later_cancels: "afterwards C run w v \<Longrightarrow> request_cancel C stamp io run (rw_dir v) = (q, d) \<Longrightarrow> afterwards C run w (v\<lparr>rw_dir := d\<rparr>)"

lemma disk_ledger_cong: "rw_dir v ''run.json'' = rw_dir w ''run.json'' \<Longrightarrow> disk_ledger C v = disk_ledger C w"
  by (simp add: disk_ledger_def)

lemma cancel_disk: "request_cancel C stamp io run (rw_dir v) = (q, d) \<Longrightarrow> disk_ledger C (v\<lparr>rw_dir := d\<rparr>) = disk_ledger C v"
  using request_cancel_run[of C stamp io run "rw_dir v"] by (simp add: disk_ledger_def)

lemma collect_evolves:
  assumes "sound_codec C" "w_ledger (re_wire E) = C" "collect K E run v = (r, u)" "disk_ledger C v = Some l"
  shows "\<exists>l'. disk_ledger C u = Some l' \<and> evolved l l'"
  using collect_course[OF assms(3)] assms(1,2,4) course_disk[of E l v u] by (auto intro: evolved_refl)

text \<open>The ledger on disk evolves.\<close>

lemma later_evolves:
  assumes "afterwards C run w v" "sound_codec C" "disk_ledger C w = Some l"
  shows "\<exists>l'. disk_ledger C v = Some l' \<and> evolved l l'"
  using assms(1)
proof induction
  case later_now
  with assms(3) show ?case by (auto intro: evolved_refl)
next
  case (later_outside v x m n)
  then show ?case by (simp add: disk_ledger_def)
next
  case (later_collects v E K r u)
  from later_collects(4) obtain k where k: "disk_ledger C v = Some k" "evolved l k" by blast
  from collect_evolves[OF assms(2) later_collects(2,3) k(1)] k(2) show ?case by (blast intro: evolved_trans)
next
  case (later_cancels v stamp io q d)
  then show ?case by (simp add: cancel_disk)
qed

text \<open>What was asked of the cluster is covered by the ledger on disk.\<close>

definition covered :: "ledger codec \<Rightarrow> 'x rworld \<Rightarrow> bool" where
  "covered C w \<longleftrightarrow> rw_launches w \<le> 1 \<and>
     (rw_launches w = 1 \<longrightarrow> (\<exists>l. disk_ledger C w = Some l \<and> l_launch_attempted l)) \<and>
     (\<forall>d \<in> set (rw_deletions w). \<exists>l. disk_ledger C w = Some l \<and> 2 \<le> rank l \<and> own_deletion l d)"

lemma firm_disk:
  assumes "sound_codec (w_ledger (re_wire E))" "firm P E w"
  shows "\<exists>l. disk_ledger (w_ledger (re_wire E)) w = Some l \<and> P l"
  using disk_ledger_on_disk[OF assms(1)] assms(2) unfolding firm_def by blast

lemma firm_disk_Some:
  "sound_codec (w_ledger (re_wire E)) \<Longrightarrow> firm P E w \<Longrightarrow> disk_ledger (w_ledger (re_wire E)) w = Some l \<Longrightarrow> P l"
  using firm_disk by fastforce

lemma course_new:
  assumes s: "sound_codec (w_ledger (re_wire E))" and c: "course E v w"
    and d: "rw_deletions w = rw_deletions v @ ds" "x \<in> set ds"
  shows "\<exists>l. disk_ledger (w_ledger (re_wire E)) w = Some l \<and> 2 \<le> rank l \<and> own_deletion l x"
proof -
  from c d(1) have "\<forall>x \<in> set ds. firm (\<lambda>l. own_deletion l x) E w" by (auto simp: course_def advance_def)
  then have o: "firm (\<lambda>l. own_deletion l x) E w" using d(2) by blast
  have "late E w" using c d by (auto simp: course_def)
  from firm_disk[OF s this] obtain l where "disk_ledger (w_ledger (re_wire E)) w = Some l" "2 \<le> rank l" by blast
  with firm_disk_Some[OF s o] show ?thesis by blast
qed

lemma course_deletions: "course E v w \<Longrightarrow> \<exists>ds. rw_deletions w = rw_deletions v @ ds"
  by (auto simp: course_def advance_def)

lemma covered_new:
  assumes s: "sound_codec (w_ledger (re_wire E))" and c: "course E v w" and n: "rw_launches v = 0" "rw_deletions v = []"
  shows "covered (w_ledger (re_wire E)) w"
proof -
  have "rw_launches w = 0 \<or> rw_launches w = 1 \<and> launched E w" using c n(1) by (auto simp: course_def)
  then have "rw_launches w \<le> 1" "rw_launches w = 1 \<Longrightarrow> \<exists>l. disk_ledger (w_ledger (re_wire E)) w = Some l \<and> l_launch_attempted l"
    using firm_disk[OF s] by auto
  moreover have "\<exists>l. disk_ledger (w_ledger (re_wire E)) w = Some l \<and> 2 \<le> rank l \<and> own_deletion l x" if "x \<in> set (rw_deletions w)" for x
    using course_new[OF s c _ that] n(2) by simp
  ultimately show ?thesis by (simp add: covered_def)
qed

lemma covered_course:
  assumes s: "sound_codec (w_ledger (re_wire E))" and c: "course E (w\<lparr>rw_ledger := l\<rparr>) w'"
    and d: "disk_ledger (w_ledger (re_wire E)) w = Some l" and p: "covered (w_ledger (re_wire E)) w"
  shows "covered (w_ledger (re_wire E)) w'"
proof -
  let ?C = "w_ledger (re_wire E)"
  from course_disk[OF c s d] obtain l' where l': "disk_ledger ?C w' = Some l'" "evolved l l'" by blast
  from c have "rw_launches w' = rw_launches w \<or> rw_launches w' = Suc (rw_launches w) \<and> \<not> l_launch_attempted l \<and> launched E w'"
    by (simp add: course_def)
  then have launch: "rw_launches w' \<le> 1 \<and> (rw_launches w' = 1 \<longrightarrow> l_launch_attempted l')"
  proof (elim disjE conjE)
    assume "rw_launches w' = rw_launches w"
    then show ?thesis using p d l'(2) by (auto simp: covered_def evolved_def)
  next
    assume a: "rw_launches w' = Suc (rw_launches w)" "\<not> l_launch_attempted l" "launched E w'"
    then have "rw_launches w = 0" using p d by (auto simp: covered_def le_Suc_eq)
    then show ?thesis using a firm_disk_Some[OF s a(3) l'(1)] by simp
  qed
  from course_deletions[OF c] obtain ds where ds: "rw_deletions w' = rw_deletions w @ ds" by auto
  have del: "2 \<le> rank l' \<and> own_deletion l' x" if "x \<in> set (rw_deletions w')" for x
  proof (cases "x \<in> set ds")
    case True
    with course_new[OF s c _ True] ds l'(1) show ?thesis by simp
  next
    case False
    with that ds p d have "2 \<le> rank l" "own_deletion l x" by (auto simp: covered_def)
    with l'(2) own_deletion_evolved show ?thesis by (auto simp: evolved_def)
  qed
  show ?thesis unfolding covered_def using launch del l'(1) by blast
qed

lemma later_covered:
  assumes "afterwards C run w v" "sound_codec C" "covered C w"
  shows "covered C v"
  using assms(1)
proof induction
  case later_now
  then show ?case by (rule assms(3))
next
  case (later_outside v x m n)
  then show ?case by (simp add: covered_def disk_ledger_def)
next
  case (later_collects v E K r u)
  with assms(2) show ?case using collect_course[OF later_collects(3)] covered_course[of E _ v u] by auto
next
  case (later_cancels v stamp io q d)
  then show ?case by (simp add: covered_def cancel_disk)
qed

text \<open>Starting a run: before its ledger is published nothing is asked of the cluster.\<close>

definition idle :: "'x rworld \<Rightarrow> 'x rworld \<Rightarrow> bool" where
  "idle w w' \<longleftrightarrow> rw_launches w' = rw_launches w \<and> rw_deletions w' = rw_deletions w"

interpretation idl: two_state idle
  by unfold_locales (simp_all add: idle_def)

lemma idle_triple:
  assumes "keeps idle m"
  shows "triple (idle w) m (\<lambda>_. idle w) (idle w)"
proof (rule tripleI)
  fix s assume s: "idle w s"
  obtain r t where t: "m s = (r, t)" by fastforce
  have "idle w t" using s idl.keepsD[OF assms t] by (rule idl.trans_R)
  with t show "case m s of (Inr x, t) \<Rightarrow> idle w t | (Inl e, t) \<Rightarrow> idle w t" by (simp split: sum.split)
qed

lemma idle_api: "keeps idle (api m)"
  by (auto simp: keeps_def lens_io_def idle_def split: prod.split)

lemma idle_tick: "keeps idle (at_tick f)"
  by (simp add: keeps_def at_tick_def idle_def)

definition begun :: "renv \<Rightarrow> 'x rworld \<Rightarrow> 'x rworld \<Rightarrow> bool" where
  "begun E w w' \<longleftrightarrow> idle w w' \<or> (\<exists>v. idle w v \<and> course E v w')"

lemma publish_begins:
  "triple (\<lambda>s. idle w s \<and> l_phase (rw_ledger s) = p) (publish_run E io) (\<lambda>_ s. idle w s \<and> l_phase (rw_ledger s) = p) (begun E w)"
proof -
  have "l_phase l' = l_phase l" if "publish_ledger C now io l tgt = (r, l', d)" for C now l tgt r l' d
    using that by (auto simp: publish_ledger_def ledger_bytes_def Let_def split: if_splits sum.splits prod.splits option.splits)
  then show ?thesis
    by (auto simp: triple_def publish_run_def idle_def begun_def split: prod.splits sum.splits)
qed

lemma provision_begins:
  assumes p: "phase_rank p = 0"
  shows "triple (\<lambda>s. idle w s \<and> l_phase (rw_ledger s) = p) (bind_io (catch_io (provision K E)) (\<lambda>q. case q of
        Inl e \<Rightarrow> then_io (note_problem E c (Some e)) (abandon E e) | Inr _ \<Rightarrow> monitor K E)) (\<lambda>_. begun E w) (begun E w)"
proof (rule tripleI)
  fix s assume s: "idle w s \<and> l_phase (rw_ledger s) = p"
  then have pre: "prelaunch E s p s" by (simp add: prelaunch_def at_phase_def crs.refl_R)
  obtain q t where t: "provision K E s = (q, t)" by fastforce
  note tr = course_provision[OF p, of E s K]
  have "course E s (snd (bind_io (catch_io (provision K E)) (\<lambda>q. case q of
        Inl e \<Rightarrow> then_io (note_problem E c (Some e)) (abandon E e) | Inr _ \<Rightarrow> monitor K E) s))"
  proof (cases q)
    case (Inl e)
    have "course E s t" by (rule tripleE[OF tr pre t[unfolded Inl]])
    moreover have "keeps (steady E) (then_io (note_problem E c (Some e)) (abandon E e))"
      by (intro std.keeps_then steady_problem steady_abandon)
    ultimately have "course E s (snd (then_io (note_problem E c (Some e)) (abandon E e) t))"
      by (rule crs.trans_R[OF _ steady_course[OF std.at_keeps]])
    with t Inl show ?thesis by (simp add: catch_io_def bind_io_def)
  next
    case (Inr u)
    have "at_phase E s ''running'' t \<or> at_phase E s ''collecting'' t" by (rule tripleD[OF tr pre t[unfolded Inr]])
    then have "course E s (snd (monitor K E t))" by (rule triple_snd[OF course_follow])
    with t Inr show ?thesis by (simp add: catch_io_def bind_io_def)
  qed
  then show "case bind_io (catch_io (provision K E)) (\<lambda>q. case q of
        Inl e \<Rightarrow> then_io (note_problem E c (Some e)) (abandon E e) | Inr _ \<Rightarrow> monitor K E) s of (Inr x, t) \<Rightarrow> begun E w t | (Inl e, t) \<Rightarrow> begun E w t"
    using s by (auto simp: begun_def split: prod.split sum.split)
qed

lemma start_begins: "begun E w (snd (start K E p entries rand encoded i img command timeout w))"
proof -
  have x: "triple (idle w) m Q (idle w) \<Longrightarrow> triple (idle w) m Q (begun E w)" for m :: "('a rworld, 'b) io" and Q
    by (fastforce simp: triple_def begun_def split: prod.splits sum.splits)
  note q = x[OF idle_triple]
  have l: "triple (idle w) (upd (\<lambda>_. initial_ledger s j img command timeout now)) (\<lambda>_ s. idle w s \<and> l_phase (rw_ledger s) = ''provisioning'') (begun E w)" for s j now
    by (simp add: triple_def upd_def io_apply idle_def initial_ledger_def)
  have r: "phase_rank ''provisioning'' = 0" by (simp add: phase_rank_def)
  have "triple (idle w) (start K E p entries rand encoded i img command timeout) (\<lambda>_. begun E w) (begun E w)"
    unfolding start_def
    by (rule triple_then[OF q[OF idl.keeps_lift]], rule triple_bind[OF q[OF idle_api]], unfold split_beta,
        rule triple_then[OF q[OF idl.keeps_require]], rule triple_bind[OF q[OF idl.keeps_lift]], rule triple_then[OF q[OF idl.keeps_lift]],
        rule triple_bind[OF q[OF idle_tick]], rule triple_bind[OF q[OF idl.keeps_lift]], rule triple_bind[OF q[OF idle_tick]],
        rule triple_then[OF l triple_then[OF publish_begins provision_begins[OF r]]])
  then show ?thesis by (rule triple_snd) (simp add: idl.refl_R)
qed

text \<open>A life: an attempt to start a run, and what may come later.\<close>

inductive lives :: "ledger codec \<Rightarrow> 'x rworld \<Rightarrow> bool" for C where
  life: "rw_launches w = 0 \<Longrightarrow> rw_deletions w = [] \<Longrightarrow> w_ledger (re_wire E) = C \<Longrightarrow>
    start K E p entries rand encoded i img command timeout w = (r, v) \<Longrightarrow> afterwards C run v u \<Longrightarrow> lives C u"

lemma lives_covered:
  assumes l: "lives C u" and s: "sound_codec C"
  shows "covered C u"
  using l
proof cases
  case (life w E K p entries rand encoded i img command timeout r v run)
  from start_begins[of E w K p entries rand encoded i img command timeout] life(4) have "begun E w v" by simp
  then have "covered C v" unfolding begun_def
  proof (elim disjE exE conjE)
    assume "idle w v"
    with life(1,2) show ?thesis by (simp add: idle_def covered_def)
  next
    fix t assume "idle w t" "course E t v"
    with life(1,2) s show ?thesis using covered_new[of E t v] life(3) by (simp add: idle_def)
  qed
  with later_covered[OF life(5) s] show ?thesis .
qed

end
