(* ===== verification/Disposal.thy ===== *)
theory Disposal
  imports Coordinator
begin

text \<open>
  What a finished disposal means for the cluster: under the documented answers of the API server, an
  object whose UID the ledger records no longer exists when disposal has reported success.
\<close>

section \<open>What the API server answers\<close>

text \<open>
  Objects are named by kind, name and UID. A UID is never assigned twice; a name that is not found has
  no object; an object that is returned is known.
\<close>

type_synonym okey = "okind \<times> string \<times> string"

definition answers :: "(okey \<Rightarrow> 'x \<Rightarrow> bool) \<Rightarrow> (okey \<Rightarrow> 'x \<Rightarrow> bool) \<Rightarrow> 'x capi \<Rightarrow> bool" where
  "answers known live K \<longleftrightarrow>
     (\<forall>k n. keeps (forward known live) (ca_get K k n)) \<and> (\<forall>k n u. keeps (forward known live) (ca_delete K k n u)) \<and>
     (\<forall>k n x e y u. ca_get K k n x = (Inl e, y) \<longrightarrow> not_found e \<longrightarrow> \<not> live (k, n, u) y) \<and>
     (\<forall>k n x m y. ca_get K k n x = (Inr m, y) \<longrightarrow> known (k, n, km_uid m) y)"

definition slot_key :: "slot \<Rightarrow> ledger \<Rightarrow> okey" where
  "slot_key s l = (slot_kind s, slot_name s l, slot_uid s l)"

definition cleared :: "(okey \<Rightarrow> 'x \<Rightarrow> bool) \<Rightarrow> (okey \<Rightarrow> 'x \<Rightarrow> bool) \<Rightarrow> slot set \<Rightarrow> 'x rworld \<Rightarrow> bool" where
  \<comment> \<open>the recorded objects are known, and those of \<open>S\<close> are gone\<close>
  "cleared known live S w \<longleftrightarrow> (\<forall>x. slot_uid x (rw_ledger w) \<noteq> [] \<longrightarrow> known (slot_key x (rw_ledger w)) (rw_ext w) \<and>
     (x \<in> S \<longrightarrow> \<not> live (slot_key x (rw_ledger w)) (rw_ext w)))"

lemma cleared_ext:
  "cleared known live S w \<Longrightarrow> rw_ledger t = rw_ledger w \<Longrightarrow> forward known live (rw_ext w) (rw_ext t) \<Longrightarrow> cleared known live S t"
  unfolding cleared_def forward_def by metis

lemma cleared_same:
  assumes "cleared known live S w" "rw_ext t = rw_ext w" "\<And>x. slot_uid x (rw_ledger t) = slot_uid x (rw_ledger w)"
    "\<And>x. slot_name x (rw_ledger t) = slot_name x (rw_ledger w)"
  shows "cleared known live S t"
  using assms by (simp add: cleared_def slot_key_def)

definition at_slot :: "(okey \<Rightarrow> 'x \<Rightarrow> bool) \<Rightarrow> (okey \<Rightarrow> 'x \<Rightarrow> bool) \<Rightarrow> slot set \<Rightarrow> slot \<Rightarrow> string \<Rightarrow> 'x rworld \<Rightarrow> bool" where
  "at_slot known live S s n w \<longleftrightarrow> cleared known live S w \<and> slot_name s (rw_ledger w) = n"

lemma at_slot_cleared: "at_slot known live S s n w \<Longrightarrow> cleared known live S w"
  by (simp add: at_slot_def)

lemma triple_case: "triple P m Q X \<Longrightarrow> P s \<Longrightarrow> (case m s of (Inr x, t) \<Rightarrow> Q x t | (Inl e, t) \<Rightarrow> X t)"
  by (simp add: triple_def)

lemma slot_api:
  assumes "keeps (forward known live) m"
  shows "triple (at_slot known live S s n) (catch_io (api m)) (\<lambda>_. at_slot known live S s n) X"
proof (rule tripleI)
  fix w assume w: "at_slot known live S s n w"
  obtain q y where q: "m (rw_ext w) = (q, y)" by fastforce
  have "forward known live (rw_ext w) y" using assms q unfolding keeps_def by (metis snd_conv)
  then show "case catch_io (api m) w of (Inr x, t) \<Rightarrow> at_slot known live S s n t | (Inl e, t) \<Rightarrow> X t"
    using w cleared_ext[of known live S w "w\<lparr>rw_ext := y\<rparr>"] q by (simp add: io_apply lens_io_def at_slot_def)
qed

text \<open>Looking an object up.\<close>

lemma slot_get:
  assumes K: "answers known live K"
  shows "triple (at_slot known live S s n) (catch_io (api (ca_get K (slot_kind s) n)))
    (\<lambda>q w. at_slot known live S s n w \<and> (case q of Inl e \<Rightarrow> not_found e \<longrightarrow> cleared known live (insert s S) w
       | Inr m \<Rightarrow> known (slot_kind s, n, km_uid m) (rw_ext w))) X"
proof (rule tripleI)
  fix w assume w: "at_slot known live S s n w"
  obtain q y where q: "ca_get K (slot_kind s) n (rw_ext w) = (q, y)" by fastforce
  let ?t = "w\<lparr>rw_ext := y\<rparr>"
  have "forward known live (rw_ext w) y" using K q unfolding answers_def keeps_def by (metis snd_conv)
  then have t: "at_slot known live S s n ?t" using w cleared_ext[of known live S w ?t] by (simp add: at_slot_def)
  have "case q of Inl e \<Rightarrow> not_found e \<longrightarrow> cleared known live (insert s S) ?t | Inr m \<Rightarrow> known (slot_kind s, n, km_uid m) (rw_ext ?t)"
  proof (cases q)
    case (Inl e)
    have "\<not> live (slot_kind s, n, u) y" if "not_found e" for u using K q Inl that unfolding answers_def by blast
    with Inl t show ?thesis by (auto simp: cleared_def at_slot_def slot_key_def)
  next
    case (Inr m)
    with K q show ?thesis unfolding answers_def by auto
  qed
  with t q show "case catch_io (api (ca_get K (slot_kind s) n)) w of
      (Inr q, w) \<Rightarrow> at_slot known live S s n w \<and> (case q of Inl e \<Rightarrow> not_found e \<longrightarrow> cleared known live (insert s S) w
       | Inr m \<Rightarrow> known (slot_kind s, n, km_uid m) (rw_ext w)) | (Inl e, t) \<Rightarrow> X t"
    by (simp add: io_apply lens_io_def)
qed

lemma slot_absent:
  "triple (\<lambda>w. at_slot known live S s n w \<and> (not_found e \<longrightarrow> cleared known live (insert s S) w))
     (if not_found e then ret () else throw e) (\<lambda>_. cleared known live (insert s S)) (cleared known live S)"
  by (auto simp: triple_def io_apply at_slot_def)

lemma slot_bind_get:
  assumes K: "answers known live K" and k: "k = slot_kind s"
    and f: "\<And>m. triple (\<lambda>w. at_slot known live S s n w \<and> known (slot_kind s, n, km_uid m) (rw_ext w)) (f m)
      (\<lambda>_. cleared known live (insert s S)) (cleared known live S)"
  shows "triple (at_slot known live S s n) (bind_io (catch_io (api (ca_get K k n))) (\<lambda>q. case q of
     Inl e \<Rightarrow> if not_found e then ret () else throw e | Inr m \<Rightarrow> f m)) (\<lambda>_. cleared known live (insert s S)) (cleared known live S)"
proof (unfold k, rule triple_bind[OF slot_get[OF K]])
  fix q :: "gerr + kmeta"
  show "triple (\<lambda>w. at_slot known live S s n w \<and> (case q of Inl e \<Rightarrow> not_found e \<longrightarrow> cleared known live (insert s S) w
       | Inr m \<Rightarrow> known (slot_kind s, n, km_uid m) (rw_ext w)))
     (case q of Inl e \<Rightarrow> if not_found e then ret () else throw e | Inr m \<Rightarrow> f m) (\<lambda>_. cleared known live (insert s S)) (cleared known live S)"
    by (cases q) (simp_all only: sum.case slot_absent f)
qed

lemma slot_require:
  "triple (\<lambda>w. at_slot known live S s n w \<and> R w) (require b e) (\<lambda>_. at_slot known live S s n) (cleared known live S)"
  by (simp add: triple_def io_apply at_slot_def)

lemma await_clears:
  assumes K: "answers known live K" and k: "slot_kind s = Namespaces"
  shows "triple (at_slot known live S s n) (await_gone K E n uid i) (\<lambda>_. cleared known live (insert s S)) (cleared known live S)"
proof (induction i)
  case 0
  show ?case by (subst await_gone.simps, rule slot_bind_get[OF K], simp add: k, rule triple_then[OF slot_require])
      (simp add: triple_def io_apply at_slot_def)
next
  case (Suc i)
  show ?case by (subst await_gone.simps, rule slot_bind_get[OF K], simp add: k, rule triple_then[OF slot_require]) (simp add: Suc.IH)
qed

lemma ask_clears:
  assumes K: "answers known live K"
  shows "triple (at_slot known live S s n) (ask_delete K k name uid) (\<lambda>_. at_slot known live S s n) (cleared known live S)"
  unfolding ask_delete_def
proof (rule triple_then)
  show "triple (at_slot known live S s n) (mod_io (\<lambda>w. w\<lparr>rw_deletions := rw_deletions w @ [Deletion k name uid]\<rparr>))
      (\<lambda>_. at_slot known live S s n) (cleared known live S)"
    by (simp add: triple_def io_apply at_slot_def cleared_def)
  have d: "keeps (forward known live) (ca_delete K k name uid)" using K by (simp add: answers_def)
  show "triple (at_slot known live S s n) (bind_io (catch_io (api (ca_delete K k name uid))) (\<lambda>q. case q of
        Inl e \<Rightarrow> if not_found e then ret () else throw e | Inr _ \<Rightarrow> ret ())) (\<lambda>_. at_slot known live S s n) (cleared known live S)"
    by (rule triple_bind[OF slot_api[OF d]]) (auto simp: triple_def io_apply at_slot_def split: sum.split)
qed

lemma delete_clears:
  assumes K: "answers known live K" and k: "slot_kind s = Namespaces"
  shows "triple (at_slot known live S s n) (delete_namespace K E n uid token) (\<lambda>_. cleared known live (insert s S)) (cleared known live S)"
  unfolding delete_namespace_def
  by (rule slot_bind_get[OF K k[symmetric]], rule triple_then[OF slot_require], rule triple_then[OF ask_clears[OF K] await_clears[OF K k]])

lemma recover_clears:
  "triple (\<lambda>w. at_slot known live S s n w \<and> known (slot_kind s, n, km_uid m) (rw_ext w)) (recover_ownership E s m)
     (\<lambda>_. at_slot known live (S - {s}) s n) (cleared known live (S - {s}))"
proof (rule tripleI)
  fix w assume w: "at_slot known live S s n w \<and> known (slot_kind s, n, km_uid m) (rw_ext w)"
  then have c: "at_slot known live (S - {s}) s n w" by (simp add: at_slot_def cleared_def)
  let ?v = "w\<lparr>rw_ledger := set_slot s (km_uid m) (rw_ledger w)\<rparr>"
  have v: "at_slot known live (S - {s}) s n ?v"
    unfolding at_slot_def cleared_def
  proof (intro conjI allI impI)
    fix x assume x: "slot_uid x (rw_ledger ?v) \<noteq> []"
    show "known (slot_key x (rw_ledger ?v)) (rw_ext ?v)"
      using w x by (cases "x = s") (simp_all add: slot_key_def at_slot_def cleared_def)
    show "x \<in> S - {s} \<Longrightarrow> \<not> live (slot_key x (rw_ledger ?v)) (rw_ext ?v)"
      using w x by (simp add: slot_key_def at_slot_def cleared_def)
  qed (use w in \<open>simp add: at_slot_def\<close>)
  have sv: "at_slot known live (S - {s}) s n t" if "save E ?v = (r, t)" for r t
    using v cleared_same[of known live "S - {s}" ?v t] save_frame[OF that] by (simp add: at_slot_def)
  obtain r t where t: "save E ?v = (r, t)" by fastforce
  show "case recover_ownership E s m w of (Inr x, t) \<Rightarrow> at_slot known live (S - {s}) s n t | (Inl e, t) \<Rightarrow> cleared known live (S - {s}) t"
    unfolding recover_ownership_def bind_led then_require then_upd id_apply
    using c sv[OF t] at_slot_cleared[OF c] at_slot_cleared[OF sv[OF t]] by (cases r) (simp_all add: require_def t)
qed

text \<open>One slot.\<close>

lemma namespace_clears:
  assumes K: "answers known live K" and k: "slot_kind s = Namespaces" and s: "s \<notin> S"
  shows "triple (cleared known live S) (dispose_namespace K E s) (\<lambda>_. cleared known live (insert s S)) (cleared known live S)"
proof (rule tripleI)
  fix w assume w: "cleared known live S w"
  let ?n = "slot_name s (rw_ledger w)"
  have r: "triple (\<lambda>w. at_slot known live S s ?n w \<and> known (slot_kind s, ?n, km_uid m) (rw_ext w)) (recover_ownership E s m)
     (\<lambda>_. at_slot known live S s ?n) (cleared known live S)" for m
    using recover_clears[of known live S s ?n m E] s by simp
  have d: "triple (at_slot known live S s ?n) (bind_io (led id) (\<lambda>l. delete_namespace K E ?n (slot_uid s l) (l_token l)))
     (\<lambda>_. cleared known live (insert s S)) (cleared known live S)"
    unfolding led_def by (rule triple_bind[OF triple_get delete_clears[OF K k]])
  have t: "triple (at_slot known live S s ?n) (bind_io (catch_io (api (ca_get K Namespaces ?n))) (\<lambda>q. case q of
       Inl e \<Rightarrow> if not_found e then ret () else throw e
     | Inr m \<Rightarrow> then_io (recover_ownership E s m) (bind_io (led id) (\<lambda>l. delete_namespace K E ?n (slot_uid s l) (l_token l)))))
     (\<lambda>_. cleared known live (insert s S)) (cleared known live S)"
    by (rule slot_bind_get[OF K k[symmetric] triple_then[OF r d]])
  show "case dispose_namespace K E s w of (Inr x, t) \<Rightarrow> cleared known live (insert s S) t | (Inl e, t) \<Rightarrow> cleared known live S t"
    by (unfold dispose_namespace_def, subst bind_led, rule triple_case[OF t]) (use w in \<open>simp add: at_slot_def\<close>)
qed

lemma rbac_clears:
  assumes K: "answers known live K" and s: "s \<notin> S"
  shows "triple (cleared known live S) (dispose_rbac K E s) (\<lambda>_. cleared known live (insert s S)) (cleared known live S)"
proof (rule tripleI)
  fix w assume w: "cleared known live S w"
  let ?n = "slot_name s (rw_ledger w)"
  have r: "triple (\<lambda>w. at_slot known live S s ?n w \<and> known (slot_kind s, ?n, km_uid m) (rw_ext w)) (recover_ownership E s m)
     (\<lambda>_. at_slot known live S s ?n) (cleared known live S)" for m
    using recover_clears[of known live S s ?n m E] s by simp
  have p: "triple (\<lambda>w. at_slot known live S s ?n w \<and> R w) (throw e) (\<lambda>_. cleared known live (insert s S)) (cleared known live S)"
    for e and R :: "'a rworld \<Rightarrow> bool"
    by (simp add: triple_def io_apply at_slot_def)
  have t: "triple (at_slot known live S s ?n) (bind_io (catch_io (api (ca_get K (slot_kind s) ?n))) (\<lambda>q. case q of
       Inl e \<Rightarrow> if not_found e then ret () else throw e
     | Inr m \<Rightarrow> then_io (recover_ownership E s m) (then_io (ask_delete K (slot_kind s) ?n (km_uid m))
         (bind_io (catch_io (api (ca_get K (slot_kind s) ?n))) (\<lambda>p. case p of
            Inl e \<Rightarrow> if not_found e then ret () else throw e | Inr _ \<Rightarrow> throw (EMsg (pending_message s)))))))
     (\<lambda>_. cleared known live (insert s S)) (cleared known live S)"
    by (rule slot_bind_get[OF K refl], rule triple_then[OF r], rule triple_then[OF ask_clears[OF K]], rule slot_bind_get[OF K refl p])
  show "case dispose_rbac K E s w of (Inr x, t) \<Rightarrow> cleared known live (insert s S) t | (Inl e, t) \<Rightarrow> cleared known live S t"
    by (unfold dispose_rbac_def, subst bind_led, rule triple_case[OF t]) (use w in \<open>simp add: at_slot_def\<close>)
qed

section \<open>A finished disposal\<close>

fun absent_flag :: "slot \<Rightarrow> ledger \<Rightarrow> bool" where
  "absent_flag Resource_slot l = l_resource_absent l"
| "absent_flag Runner_slot l = l_runner_absent l"
| "absent_flag Binding_slot l = l_binding_absent l"
| "absent_flag Role_slot l = l_role_absent l"

definition flags_kept :: "'x rworld \<Rightarrow> 'x rworld \<Rightarrow> bool" where
  "flags_kept w w' \<longleftrightarrow> (\<forall>s. absent_flag s (rw_ledger w') = absent_flag s (rw_ledger w))"

interpretation flg: two_state flags_kept
  by unfold_locales (simp_all add: flags_kept_def)

lemma flags_api: "keeps flags_kept (api m)"
  by (auto simp: keeps_def lens_io_def flags_kept_def split: prod.split)

lemma flags_led: "keeps flags_kept (led f)"
  by (simp add: led_def flg.keeps_get)

lemma flag_stamp [simp]: "absent_flag s (l\<lparr>l_updated := t\<rparr>) = absent_flag s l" "absent_flag s (set_slot x u l) = absent_flag s l"
  by (cases s; cases x; simp)+

lemma flags_save: "keeps flags_kept (save E)"
proof -
  have "flags_kept w w'" if "save E w = (r, w')" for w w' :: "'a rworld" and r
    using save_frame(1)[OF that] by (simp add: flags_kept_def)
  then show ?thesis unfolding keeps_def by (metis prod.collapse)
qed

lemmas flags_intros = flg.keeps_ret flg.keeps_throw flg.keeps_get flg.keeps_lift flg.keeps_require flg.keeps_bind flg.keeps_then
  flg.keeps_catch flg.keeps_if flg.keeps_sum flags_api flags_led flags_save

lemma flags_recover: "keeps flags_kept (recover_ownership E s m)"
proof -
  have "keeps flags_kept (upd (set_slot s u))" for u
    by (simp add: keeps_def upd_def io_apply flags_kept_def)
  then show ?thesis unfolding recover_ownership_def by (intro flags_intros)
qed

lemma flags_ask: "keeps flags_kept (ask_delete K k name uid)"
proof -
  have "keeps flags_kept (mod_io (\<lambda>w. w\<lparr>rw_deletions := rw_deletions w @ [Deletion k name uid]\<rparr>))"
    by (rule flg.keeps_mod) (simp add: flags_kept_def)
  then show ?thesis unfolding ask_delete_def by (intro flags_intros)
qed

lemma flags_await: "keeps flags_kept (await_gone K E name uid n)"
proof (induction n)
  case 0
  show ?case by (subst await_gone.simps) (auto intro!: flags_intros)
next
  case (Suc n)
  show ?case by (subst await_gone.simps) (auto intro!: flags_intros Suc.IH)
qed

lemma flags_dispose: "keeps flags_kept (dispose_namespace K E s)" "keeps flags_kept (dispose_rbac K E s)"
  unfolding dispose_namespace_def dispose_rbac_def delete_namespace_def by (intro flags_intros flags_recover flags_ask flags_await)+

text \<open>The slots of \<open>S\<close> are done; those of \<open>G\<close> among them are gone, and the ledger says so.\<close>

definition done_so_far :: "(okey \<Rightarrow> 'x \<Rightarrow> bool) \<Rightarrow> (okey \<Rightarrow> 'x \<Rightarrow> bool) \<Rightarrow> slot set \<Rightarrow> slot set \<Rightarrow> 'x rworld \<Rightarrow> bool" where
  "done_so_far known live S G w \<longleftrightarrow> cleared known live G w \<and> (\<forall>s \<in> S. absent_flag s (rw_ledger w) = (s \<in> G))"

lemma progress_step:
  assumes d: "triple (cleared known live G) m (\<lambda>_. cleared known live (insert x G)) (cleared known live G)" and f: "keeps flags_kept m"
    and u: "\<And>b s l. absent_flag s (put b l) = (if s = x then b else absent_flag s l)"
      "\<And>b s l. slot_uid s (put b l) = slot_uid s l" "\<And>b s l. slot_name s (put b l) = slot_name s l"
    and x: "x \<notin> G"
    and n: "\<And>a. triple (done_so_far known live (insert x S) (if err_of a = None then insert x G else G)) (n a) Q X"
  shows "triple (done_so_far known live S G) (bind_io (catch_io m) (\<lambda>a. then_io (upd (put (err_of a = None))) (n a))) Q X"
proof (rule tripleI)
  fix w assume w: "done_so_far known live S G w"
  obtain a t where t: "m w = (a, t)" by fastforce
  let ?G = "if err_of a = None then insert x G else G"
  have "cleared known live G w" using w by (simp add: done_so_far_def)
  from triple_case[OF d this] t have c: "cleared known live ?G t" by (auto simp: err_of_def split: sum.splits)
  have k: "absent_flag s (rw_ledger t) = absent_flag s (rw_ledger w)" for s using flg.keepsD[OF f t] by (simp add: flags_kept_def)
  let ?v = "t\<lparr>rw_ledger := put (err_of a = None) (rw_ledger t)\<rparr>"
  have "cleared known live ?G ?v" by (rule cleared_same[OF c]) (simp_all add: u)
  then have "done_so_far known live (insert x S) ?G ?v" using w k x by (auto simp: done_so_far_def u)
  from triple_case[OF n this] t
  show "case bind_io (catch_io m) (\<lambda>a. then_io (upd (put (err_of a = None))) (n a)) w of (Inr x, t) \<Rightarrow> Q x t | (Inl e, t) \<Rightarrow> X t"
    by (simp add: bind_io_def catch_io_def then_upd)
qed

lemma absent_puts:
  "absent_flag s (l\<lparr>l_resource_absent := b\<rparr>) = (if s = Resource_slot then b else absent_flag s l)"
  "absent_flag s (l\<lparr>l_runner_absent := b\<rparr>) = (if s = Runner_slot then b else absent_flag s l)"
  "absent_flag s (l\<lparr>l_binding_absent := b\<rparr>) = (if s = Binding_slot then b else absent_flag s l)"
  "absent_flag s (l\<lparr>l_role_absent := b\<rparr>) = (if s = Role_slot then b else absent_flag s l)"
  "slot_name s (l\<lparr>l_resource_absent := b\<rparr>) = slot_name s l" "slot_name s (l\<lparr>l_runner_absent := b\<rparr>) = slot_name s l"
  "slot_name s (l\<lparr>l_binding_absent := b\<rparr>) = slot_name s l" "slot_name s (l\<lparr>l_role_absent := b\<rparr>) = slot_name s l"
  by (cases s; simp)+

lemma all_slots: "insert Role_slot (insert Binding_slot (insert Runner_slot {Resource_slot})) = UNIV"
  by (auto intro: slot.exhaust)

lemma dispose_clears:
  assumes K: "answers known live K"
  shows "triple (cleared known live {}) (dispose K E) (\<lambda>_. done_so_far known live UNIV UNIV) (\<lambda>_. True)"
proof -
  have n: "triple (cleared known live G) (dispose_namespace K E s) (\<lambda>_. cleared known live (insert s G)) (cleared known live G)"
    if "s \<notin> G" "slot_kind s = Namespaces" for s G using namespace_clears[OF K] that by blast
  have last: "triple (done_so_far known live (insert Role_slot (insert Binding_slot (insert Runner_slot (insert Resource_slot {}))))
      (if err_of d = None then insert Role_slot G3 else G3)) (lift_io (to_res (join_err a (join_err b (join_err c (err_of d))))))
      (\<lambda>_. done_so_far known live UNIV UNIV) (\<lambda>_. True)"
    if "a = None \<Longrightarrow> b = None \<Longrightarrow> c = None \<Longrightarrow> G3 = insert Binding_slot (insert Runner_slot {Resource_slot})"
    for a b c G3 and d :: "gerr + unit"
    using that by (auto simp: triple_def io_apply all_slots to_res_def split: option.splits sum.splits)
  have head: "triple (cleared known live {}) (api (ca_get K Namespaces ''kube-system'')) (\<lambda>_. done_so_far known live {} {}) (\<lambda>_. True)"
  proof (rule tripleI)
    fix w assume w: "cleared known live {} w"
    obtain q y where q: "ca_get K Namespaces ''kube-system'' (rw_ext w) = (q, y)" by fastforce
    have "forward known live (rw_ext w) y" using K q unfolding answers_def keeps_def by (metis snd_conv)
    then have "cleared known live {} (w\<lparr>rw_ext := y\<rparr>)" using w cleared_ext[of known live "{}" w "w\<lparr>rw_ext := y\<rparr>"] by simp
    with q show "case api (ca_get K Namespaces ''kube-system'') w of (Inr x, t) \<Rightarrow> done_so_far known live {} {} t | (Inl e, t) \<Rightarrow> True"
      by (simp add: lens_io_def done_so_far_def split: sum.split)
  qed
  have mid: "triple (done_so_far known live {} {}) (led f) (\<lambda>_. done_so_far known live {} {}) (\<lambda>_. True)"
    "triple (done_so_far known live {} {}) (require b e) (\<lambda>_. done_so_far known live {} {}) (\<lambda>_. True)" for f :: "ledger \<Rightarrow> string" and b e
    by (simp_all add: triple_def led_def io_apply)
  show ?thesis unfolding dispose_def
    by (rule triple_bind[OF head], rule triple_bind[OF mid(1)], rule triple_then[OF mid(2)],
        rule progress_step[OF n flags_dispose(1) absent_puts(1) absent_slots(1) absent_puts(5)], simp, simp, simp,
        rule progress_step[OF n flags_dispose(1) absent_puts(2) absent_slots(2) absent_puts(6)], simp, simp, simp,
        rule progress_step[OF rbac_clears[OF K] flags_dispose(2) absent_puts(3) absent_slots(3) absent_puts(7)], simp, simp,
        rule progress_step[OF rbac_clears[OF K] flags_dispose(2) absent_puts(4) absent_slots(4) absent_puts(8)], simp, simp,
        rule last) (simp split: if_splits)
qed

text \<open>After \<open>finishDisposal\<close> reported success.\<close>

definition disposed :: "(okey \<Rightarrow> 'x \<Rightarrow> bool) \<Rightarrow> renv \<Rightarrow> 'x rworld \<Rightarrow> bool" where
  "disposed live E w \<longleftrightarrow> (\<forall>s. absent_flag s (rw_ledger w) \<and> (slot_uid s (rw_ledger w) \<noteq> [] \<longrightarrow> \<not> live (slot_key s (rw_ledger w)) (rw_ext w))) \<and>
     l_phase (rw_ledger w) = ''complete'' \<and> on_disk E (rw_ledger w) (rw_dir w ''run.json'')"

lemma finish_disposes:
  assumes K: "answers known live K" and w: "cleared known live {} w" and f: "finish_disposal K E w = (Inr u, w')"
  shows "disposed live E w'"
proof -
  obtain q t where t: "dispose K E w = (q, t)" by fastforce
  have "q = Inr ()"
    using f t by (cases q) (auto simp: finish_disposal_def bind_io_def catch_io_def fail_saving_def then_io_def throw_def split: prod.splits sum.splits)
  with t have t: "dispose K E w = (Inr (), t)" by simp
  have p: "done_so_far known live UNIV UNIV t" by (rule tripleD[OF dispose_clears[OF K] w t])
  let ?v = "t\<lparr>rw_ledger := (rw_ledger t)\<lparr>l_phase := ''complete''\<rparr>\<rparr>"
  have "then_io (set_phase ''complete'') (then_io (save E) (publish_now E)) t = (Inr u, w')"
    using f t by (simp add: finish_disposal_def bind_io_def catch_io_def)
  then have "then_io (save E) (publish_now E) ?v = (Inr u, w')" by (simp only: set_phase_def then_upd)
  then obtain s x where s: "save E ?v = (Inr x, s)" and b: "publish_now E s = (Inr u, w')" by (auto simp: then_Inr_iff)
  have l: "rw_ledger w' = rw_ledger s" "rw_ext w' = rw_ext s" "rw_dir w' ''run.json'' = rw_dir s ''run.json''"
    using b publish_keeps_run[of "re_wire E" "re_io E (rw_tick s)" "re_io E (Suc (rw_tick s))" "rw_ledger s" "rw_dir s"]
    by (auto simp: publish_now_def split: prod.splits)
  have k: "slot_uid y (l\<lparr>l_phase := c\<rparr>) = slot_uid y l" "slot_name y (l\<lparr>l_phase := c\<rparr>) = slot_name y l"
    "absent_flag y (l\<lparr>l_phase := c\<rparr>) = absent_flag y l" for y l c
    by (cases y; simp)+
  have "cleared known live UNIV w'"
    by (rule cleared_same[of known live UNIV t]) (use p l save_frame[OF s] k in \<open>simp_all add: done_so_far_def\<close>)
  moreover have "absent_flag y (rw_ledger w')" for y using p l save_frame(1)[OF s] k(3) by (simp add: done_so_far_def)
  ultimately show ?thesis using l save_frame(1)[OF s] save_written[OF s[unfolded unit_eq[of x]]]
    by (simp add: disposed_def cleared_def)
qed

end
