(* ===== verification/Samples.thy ===== *)
theory Samples
  imports Documents Api Delivery Cleanup Disposal
begin

text \<open>
  One complete run: a ledger with every kind of trusted observation, the directory the coordinator
  publishes for it, an archive, a signer and an environment without faults. The properties with
  hypotheses are applied to it.
\<close>

section \<open>The coordinator's documents\<close>

definition sample_run :: string where "sample_run = replicate 32 (CHR ''a'')"
definition sample_hex :: string where "sample_hex = replicate 64 (CHR ''c'')"
definition sample_uid :: string where
  "sample_uid = map (\<lambda>dash. if dash then CHR ''-'' else CHR ''d'') uuid_shape"
definition sample_time :: time where "sample_time = (62135596800 + 1700000000) * second"
definition sample_end :: time where "sample_end = sample_time + minute"
definition sample_log :: bytes where "sample_log = ''hello''"

definition sample_identity :: identity where
  "sample_identity = \<lparr>i_provider = ''local'', i_repository = ''acme/widget'', i_run = sample_run, i_attempt = 1,
     i_job = ''build'', i_revision = replicate 40 (CHR ''b'')\<rparr>"

definition sample_pinned :: ledger where
  \<comment> \<open>the ledger before the collector's result is bound to it\<close>
  "sample_pinned = \<lparr>l_kind = ''local-ci-run/v1'', l_identity = sample_identity, l_token = sample_run,
     l_cluster_uid = ''cluster'', l_resource_ns = ''proof-'' @ sample_run, l_resource_uid = ''resource'',
     l_runner_ns = ''proof-runner-'' @ sample_run, l_runner_uid = ''runner'', l_job_uid = ''job'', l_launch_attempted = True,
     l_pod_name = ''job-abcde'', l_pod_uid = ''pod'', l_stage_uid = ''stage'', l_role_uid = ''role'', l_binding_uid = ''rolebinding'',
     l_image = ''image'', l_actual_image = ''image@1'', l_command = [''true''], l_timeout = 60, l_phase = ''complete'',
     l_created = sample_time, l_updated = sample_end, l_cancel = False, l_exit = Some 0, l_pod_reason = [],
     l_evidence_status = ''accepted-untrusted'', l_evidence_digest = digest ''EVIDENCE'', l_guard_digest = [],
     l_logs_status = ''complete'', l_logs_digest = digest sample_log, l_logs_bytes = 5, l_resource_absent = True,
     l_runner_absent = True, l_role_absent = True, l_binding_absent = True, l_container_id = ''containerd://'' @ sample_hex,
     l_collector_request = None, l_collector_digest = digest ''RESULT'', l_errors = []\<rparr>"

definition sample_binding :: "binding_doc \<Rightarrow> bytes" where
  "sample_binding d = put (pair_part identity_part (pair_part (list_part string_part) (list_part string_part)))
     (b_identity d, b_strings d, b_command d)"

definition sample_request :: request where
  "sample_request = \<lparr>q_run = sample_run, q_pod = ''job-abcde'', q_uid = sample_uid, q_sandbox = sample_hex,
     q_binding = digest (sample_binding \<lparr>b_identity = sample_identity,
       b_strings = [''cluster'', ''proof-'' @ sample_run, ''resource'', ''proof-runner-'' @ sample_run, ''runner'',
         ''job'', ''job-abcde'', ''pod'', ''stage'', ''role'', ''rolebinding'', ''image''], b_command = [''true'']\<rparr>), q_seconds = 60\<rparr>"

definition sample_finding :: finding where
  "sample_finding = \<lparr>f_status = ''verified'', f_reason = ''observed''\<rparr>"

definition sample_result :: result where
  "sample_result = \<lparr>x_kind = ''kind-node-observation/v1'', x_request = sample_request, x_armed = sample_time,
     x_completed = sample_end, x_start_proven = True, x_termination_proven = True, x_container = sample_hex,
     x_image = ''image@1'', x_started = unix_nano sample_time + 1, x_finished = unix_nano sample_time + 2, x_exit = 0,
     x_log_device = 1, x_log_inode = 1, x_logs = sample_finding, x_logs_digest = digest sample_log, x_logs_bytes = 5,
     x_workspace = sample_finding, x_credentials = sample_finding\<rparr>"

definition sample_ledger :: ledger where
  "sample_ledger = sample_pinned\<lparr>l_collector_request := Some sample_request\<rparr>"

definition sample_evidence :: evidence where
  "sample_evidence = \<lparr>p_kind = ''cleanup-evidence/v1'', p_identity = sample_identity, p_namespace = ''proof-'' @ sample_run,
     p_namespace_uid = ''resource'', p_cluster_uid = ''cluster'', p_started = sample_time, p_completed = Some (sample_time + second),
     p_attempts = 1, p_inventory_complete = True, p_resources = [],
     p_coverage = map (\<lambda>k. (k, if k = ''workspace'' then obs ''verified'' ''job'' ''removed''
       else obs ''unobservable'' ''none'' ''not observed'')) components,
     p_verdict = ''partial'', p_signature_state = ''unsigned''\<rparr>"

definition sample_observations :: observations where
  "sample_observations = \<lparr>v_kind = ''local-ci-observations/v1'', v_identity = sample_identity, v_ledger_digest = digest ''LEDGER'',
     v_coverage = collector_coverage sample_ledger sample_result (base_coverage sample_ledger), v_logs_digest = digest sample_log,
     v_logs_bytes = 5, v_evidence_digest = digest ''EVIDENCE'', v_guard_digest = [], v_collector = Some sample_result\<rparr>"

definition sample_wire :: wire where
  "sample_wire = \<lparr>w_ledger = only sample_ledger ''LEDGER'', w_observations = only sample_observations ''OBSERVATIONS'',
     w_ready = only (ready_doc sample_ledger ''LEDGER'' ''OBSERVATIONS'') ''READY'', w_result = only sample_result ''RESULT'',
     w_evidence = only sample_evidence ''EVIDENCE'', w_binding = sample_binding, w_shape = \<lambda>_. None\<rparr>"

definition sample_fwire :: fwire where
  "sample_fwire = \<lparr>fw_base = sample_wire, fw_receipt = document receipt_part, fw_outcome = document outcome_part,
     fw_retry = document retry_part, fw_snapshots = \<lambda>s. Inr (put (gomap_part snapshot_part) s), fw_key = put identity_part\<rparr>"

definition sample_dir :: dir where
  "sample_dir = (\<lambda>_. Missing)(''run.json'' := Regular ''LEDGER'', ''observations.json'' := Regular ''OBSERVATIONS'',
     ''cleanup-evidence.json'' := Regular ''EVIDENCE'', ''job.log'' := Regular sample_log,
     ''finalization-ready.json'' := Regular ''READY'')"

lemma sample_fwire_sound:
  "sound_codec (fw_receipt sample_fwire)" "sound_codec (fw_outcome sample_fwire)" "sound_codec (fw_retry sample_fwire)"
  "sound_codec (w_observations sample_wire)" "sound_codec (w_ledger sample_wire)" "sound_codec (w_ready sample_wire)"
  "fw_base sample_fwire = sample_wire"
  by (simp_all add: sample_fwire_def sample_wire_def document_sound document_parts_ok only_sound)

lemma sample_fwire_encodes: "encodes sample_fwire"
  using receipt_length by (simp add: encodes_def sample_fwire_def document_def)

lemma sample_hex_n: "hex_n 32 sample_run" "hex_n 64 sample_hex" "uuid_pattern sample_uid" "pod_name ''job-abcde''"
  "revision_pattern (replicate 40 (CHR ''b''))"
  by (simp_all add: hex_n_def sample_run_def sample_hex_def lower_hex_def in_rng_def list_all_iff uuid_pattern_def sample_uid_def
      list_all2_map2 list.rel_refl_strong pod_name_def revision_pattern_def)

lemma sample_identity_ok: "identity_validate sample_identity = None"
  by (simp add: identity_validate_None_iff sample_identity_def sample_hex_n sample_run_def)

lemma sample_result_ok: "result_validate sample_result = None"
  by (simp add: result_validate_def request_validate_def sample_result_def sample_request_def sample_hex_n hex_n_digest
      sample_finding_def finding_ok_def max_logs_def sample_end_def sample_time_def unix_nano_def)

lemma sample_matches: "collector_matches sample_wire sample_ledger sample_result = None"
  by (simp add: collector_matches_def sample_result_ok)
    (simp add: sample_wire_def only_def sample_ledger_def sample_pinned_def sample_result_def sample_request_def
      collector_binding_def sample_finding_def)

lemma sample_ledger_simps:
  "l_kind sample_ledger = ''local-ci-run/v1''" "l_identity sample_ledger = sample_identity" "l_token sample_ledger = sample_run"
  "l_resource_ns sample_ledger = ''proof-'' @ sample_run" "l_runner_ns sample_ledger = ''proof-runner-'' @ sample_run"
  "l_phase sample_ledger = ''complete''" "l_created sample_ledger = sample_time" "l_updated sample_ledger = sample_end"
  "l_logs_digest sample_ledger = digest sample_log" "l_logs_bytes sample_ledger = 5" "l_logs_status sample_ledger = ''complete''"
  "l_evidence_digest sample_ledger = digest ''EVIDENCE''" "l_evidence_status sample_ledger = ''accepted-untrusted''"
  "l_guard_digest sample_ledger = []" "l_collector_digest sample_ledger = digest ''RESULT''"
  "l_cluster_uid sample_ledger = ''cluster''" "l_resource_uid sample_ledger = ''resource''" "l_runner_uid sample_ledger = ''runner''"
  "l_job_uid sample_ledger = ''job''" "l_pod_uid sample_ledger = ''pod''" "l_resource_absent sample_ledger"
  "runner_disposed sample_ledger"
  by (simp_all add: sample_ledger_def sample_pinned_def runner_disposed_def)

lemma sample_identity_simps:
  "i_provider sample_identity = ''local''" "i_run sample_identity = sample_run" "i_repository sample_identity = ''acme/widget''"
  "i_job sample_identity = ''build''"
  by (simp_all add: sample_identity_def)

lemma sample_wire_simps:
  "dec (w_ledger sample_wire) ''LEDGER'' = Inr sample_ledger" "enc (w_ledger sample_wire) sample_ledger = Inr ''LEDGER''"
  "dec (w_observations sample_wire) ''OBSERVATIONS'' = Inr sample_observations"
  "enc (w_observations sample_wire) sample_observations = Inr ''OBSERVATIONS''"
  "enc (w_ready sample_wire) (ready_doc sample_ledger ''LEDGER'' ''OBSERVATIONS'') = Inr ''READY''"
  "dec (w_result sample_wire) ''RESULT'' = Inr sample_result" "enc (w_result sample_wire) sample_result = Inr ''RESULT''"
  "dec (w_evidence sample_wire) ''EVIDENCE'' = Inr sample_evidence" "enc (w_evidence sample_wire) sample_evidence = Inr ''EVIDENCE''"
  by (simp_all add: sample_wire_def only_def)

lemma sample_derived: "derive_observations sample_wire sample_ledger ''LEDGER'' (Some sample_result) = Inr sample_observations"
  by (simp add: derive_observations_def sample_wire_simps sample_ledger_simps sample_identity_simps sample_matches
      sample_observations_def)

lemma sample_validated: "validate_observations sample_wire ''OBSERVATIONS'' sample_ledger ''LEDGER'' = Inr sample_observations"
proof -
  have "v_collector sample_observations = Some sample_result" by (simp add: sample_observations_def)
  then show ?thesis by (simp add: validate_observations_def sample_wire_simps sample_derived)
qed

lemma sample_ready: "validate_ready sample_wire ''READY'' ''LEDGER'' ''OBSERVATIONS'' = None"
  by (simp add: validate_ready_def sample_wire_simps sample_validated)

lemma sample_evidence_ok: "validate_evidence sample_wire sample_end ''EVIDENCE'' sample_ledger = None"
  by (simp add: validate_evidence_def sample_wire_simps)
    (simp add: sample_evidence_def sample_ledger_simps evidence_times_ok_def sample_end_def sample_time_def components_def evidence_obs_check_def
      list_ex_iff Let_def)

section \<open>A run without faults\<close>

definition sample_ref :: "bytes \<Rightarrow> aref" where
  "sample_ref data = \<lparr>rf_store = ''store'', rf_bucket = ''bucket'', rf_key = ''object'', rf_version = ''v1'',
     rf_sha = digest data, rf_size = int (length data)\<rparr>"

definition sample_archiver :: "nat archiver" where
  \<comment> \<open>the state counts the calls\<close>
  "sample_archiver = \<lparr>ar_put = \<lambda>name data n. (Inr (sample_ref data), Suc n), ar_verify = \<lambda>ref n. (Inr (), Suc n),
     ar_protect = \<lambda>ref n. (Inr (), Suc n)\<rparr>"

definition sample_signer :: "nat signer" where
  "sample_signer = \<lparr>sn_sign = \<lambda>data n. (Inr ''BUNDLE'', Suc n), sn_verify = \<lambda>data bundle n.
     (if bundle = ''BUNDLE'' then Inr () else Inl (EExt ''signature''), Suc n)\<rparr>"

definition sample_env :: fenv where
  "sample_env = \<lparr>fe_durable = \<lambda>_. durable_ok, fe_input = \<lambda>_. sample_dir, fe_fault = \<lambda>_. False,
     fe_now = \<lambda>_. sample_end, fe_sync = \<lambda>_. None, fe_private = \<lambda>_. None, fe_lock = \<lambda>_. None\<rparr>"

lemma sample_env_simps:
  "fe_input sample_env t = sample_dir" "fe_private sample_env t = None" "fe_now sample_env t = sample_end"
  by (simp_all add: sample_env_def)

definition sample_policy :: signer_policy where
  "sample_policy = \<lparr>sp_revision = replicate 40 (CHR ''b''), sp_issuer = ''issuer'', sp_identity = ''finalizer'',
     sp_trust_root = digest ''TRUST'', sp_cosign = digest ''COSIGN'', sp_signing_config = digest ''CONFIG''\<rparr>"

definition sample_config :: fconfig where
  "sample_config = \<lparr>fc_input = ''/in'', fc_state = ''/state'', fc_output = ''/out'', fc_policy = sample_policy\<rparr>"

definition sample_world :: "nat fworld" where
  "sample_world = \<lparr>fd_state = \<lambda>_ _. Missing, fd_out = \<lambda>_ _. Missing,
     fd_mem = fresh_state sample_policy sample_identity [] [] 0, fd_ext = 0, fd_tick = 0\<rparr>"

definition sample_input :: "bytes gomap" where
  "sample_input = [(''run.json'', ''LEDGER''), (''observations.json'', ''OBSERVATIONS''), (''cleanup-evidence.json'', ''EVIDENCE''),
     (''job.log'', sample_log), (''finalization-ready.json'', ''READY'')]"

definition sample_snapshots :: "snapshot gomap" where
  "sample_snapshots = map (\<lambda>(k, b). (k, \<lparr>sn_sha = digest b, sn_size = int (length b), sn_status = ''present''\<rparr>)) sample_input"

lemma sample_ref_ok: "int (length data) \<le> 104857600 \<Longrightarrow> validate_ref (sample_ref data) = None"
  by (simp add: sample_ref_def validate_ref_def safe_text_ascii contains_any_def)

lemma sample_archive_works: "working_archive sample_archiver"
  by (simp add: working_archive_def sample_archiver_def sample_ref_ok ref_matches_def) (simp add: sample_ref_def)

lemma sample_signer_works: "working_signer sample_signer"
  by (simp add: working_signer_def sample_signer_def max_bundle_def)

lemma sample_calm: "calm sample_env sample_dir sample_end"
  by (simp add: calm_def sample_env_def)

lemma sample_texts: "receipt_texts_ok sample_ledger sample_policy"
  by (simp add: receipt_texts_ok_def sample_ledger_simps sample_identity_simps sample_policy_def sample_hex_n safe_text_ascii)

lemma sample_utf8: "utf8_valid ''LEDGER''"
  by (simp add: utf8_valid_def)

lemma sample_canonical: "strict_canonical (w_ledger sample_wire) max_receipt ''LEDGER'' = Inr sample_ledger"
  by (simp add: strict_canonical_def sample_utf8 sample_wire_simps max_receipt_def)

lemma sample_inputs: "fst (read_inputs sample_fwire sample_env sample_run sample_world) =
  Inr (sample_ledger, sample_input, sample_snapshots, digest (put (gomap_part snapshot_part) sample_snapshots))"
proof -
  have arts: "read_artifacts sample_env artifact_limits [] [] w = (Inr (sample_input, sample_snapshots), w\<lparr>fd_tick := fd_tick w + 5\<rparr>)"
    for w :: "nat fworld"
    by (simp add: artifact_limits_def io_apply read_input_def tick_io_def sample_env_def sample_dir_def read_bounded_def
        max_receipt_def sample_log_def sample_input_def sample_snapshots_def)
  have "check_inputs sample_fwire sample_run ''READY'' sample_input sample_snapshots =
      Inr (sample_ledger, digest (put (gomap_part snapshot_part) sample_snapshots))"
    by (simp add: check_inputs_def sample_fwire_sound sample_input_def sample_canonical sample_ready sample_ledger_simps sample_identity_simps
        sample_identity_ok sample_end_def sample_time_def check_def)
      (simp add: sample_fwire_def)
  then show ?thesis
    by (simp add: read_inputs_def io_apply arts sys_io_def tick_io_def read_input_def sample_env_simps sample_dir_def read_bounded_def)
qed

lemma sample_completes:
  "\<exists>res w. fin_run sample_fwire sample_env sample_config sample_archiver sample_signer sample_run sample_world = (Inr res, w) \<and>
    rt_status (fd_mem w) = ''complete'' \<and> rt_attempts (fd_mem w) = 1 \<and> oc_identity res = l_identity sample_ledger"
  by (rule fresh_run_completes[OF sample_calm sample_fwire_encodes sample_archive_works sample_signer_works _ sample_hex_n(1)
        _ _ _ _ _ sample_inputs])
    (simp_all add: sample_fwire_sound sample_config_def is_abs_def overlaps_def path_parts_def sample_texts sample_ledger_simps sample_end_def sample_time_def
      year_10000_def sample_world_def)

section \<open>A passing receipt\<close>

definition sample_objects :: "aref gomap" where
  "sample_objects = map (\<lambda>(k, b). (k, sample_ref b)) (butlast sample_input)"

definition sample_state :: retry where
  "sample_state = (fresh_state sample_policy sample_identity [] sample_snapshots sample_end)\<lparr>rt_objects := Some sample_objects\<rparr>"

lemma sample_snapshot_archived: "snapshot_archived sample_input sample_objects"
  by (simp add: snapshot_archived_def sample_objects_def sample_input_def artifact_names_def sample_ref_ok sample_log_def
      max_receipt_def) (simp add: sample_ref_def)

lemma sample_accepted: "accepted_ledger sample_run sample_ledger"
  by (simp add: accepted_ledger_def sample_hex_n sample_ledger_simps sample_identity_simps sample_identity_ok sample_end_def sample_time_def)

lemma sample_coverage: "v_coverage sample_observations =
  map (\<lambda>k. (k, if k = ''credentials'' then obs_credentials else if k = ''resources'' then obs_resources
     else if k = ''runner_disposal'' then obs_disposal else obs ''verified'' ''trusted'' ''observed'')) components"
proof -
  have b: "base_coverage sample_ledger = map (\<lambda>k. (k, if k = ''resources'' then obs_resources
     else if k = ''runner_disposal'' then obs_disposal else unavailable)) components"
    by (simp add: base_coverage_def sample_ledger_simps components_def Let_def)
  show ?thesis
    by (simp add: sample_observations_def collector_coverage_def b sample_ledger_simps)
      (simp add: sample_result_def sample_finding_def trusted_finding_def components_def Let_def)
qed

lemma sample_evidenced: "\<exists>c. receipt_evidence sample_wire sample_end sample_ledger sample_input sample_snapshots =
    Inr (''accepted-untrusted'', c) \<and> (\<forall>k. o_status (cov c k) \<noteq> ''failed'')"
proof -
  have m: "merge_evidence (p_coverage sample_evidence) (map (\<lambda>k. (k, no_observation)) components) =
    map (\<lambda>k. (k, if k = ''workspace'' then bounded_obs (obs ''verified'' ''job'' ''removed'')
      else bounded_obs (obs ''unobservable'' ''none'' ''not observed''))) components"
    by (simp add: sample_evidence_def components_def)
  have e: "map_of sample_input ''cleanup-evidence.json'' = Some ''EVIDENCE''" by (simp add: sample_input_def)
  have ok: "o_status (cov (map (\<lambda>k. (k, if k = ''workspace'' then bounded_obs (obs ''verified'' ''job'' ''removed'')
      else bounded_obs (obs ''unobservable'' ''none'' ''not observed''))) components) k) \<noteq> ''failed''" for k
    by (simp add: components_def bounded_obs_def zero_obs_def)
  show ?thesis
    unfolding receipt_evidence_def e Let_def
    by (simp add: sample_ledger_simps sample_evidence_ok sample_wire_simps m ok)
qed

lemma merge_observed_verified:
  assumes "\<forall>k \<in> set ks. o_status (cov c k) \<noteq> ''failed'' \<and> o_status (cov oc k) = ''verified'' \<and> o_observer (cov oc k) = ''trusted''"
  shows "\<forall>k. k \<in> set ks \<or> o_status (cov c k) = ''verified'' \<and> o_observer (cov c k) = ''trusted'' \<longrightarrow>
    o_status (cov (merge_observed oc ks c) k) = ''verified'' \<and> o_observer (cov (merge_observed oc ks c) k) = ''trusted''"
  using assms
proof (induction oc ks c rule: merge_observed.induct)
  case (2 oc k ks c)
  have "merge_observed oc (k # ks) c = merge_observed oc ks (AList.update k (bounded_obs (cov oc k)) c)"
    using 2(4) by (simp add: Let_def bounded_obs_def)
  moreover have "\<forall>k'. k' \<in> set ks \<or> o_status (cov (AList.update k (bounded_obs (cov oc k)) c) k') = ''verified'' \<and>
      o_observer (cov (AList.update k (bounded_obs (cov oc k)) c) k') = ''trusted'' \<longrightarrow>
    o_status (cov (merge_observed oc ks (AList.update k (bounded_obs (cov oc k)) c)) k') = ''verified'' \<and>
    o_observer (cov (merge_observed oc ks (AList.update k (bounded_obs (cov oc k)) c)) k') = ''trusted''"
    using 2(4) by (intro 2(2)[OF refl]) (auto simp: bounded_obs_def)
  ultimately show ?case using 2(4) by (auto simp: bounded_obs_def)
qed simp

lemma sample_passes: "\<exists>r. build_receipt sample_wire sample_end sample_ledger sample_input sample_state = Inr r \<and>
  rc_verdict r = ''pass''"
proof -
  obtain c where c: "receipt_evidence sample_wire sample_end sample_ledger sample_input sample_snapshots =
    Inr (''accepted-untrusted'', c)" "\<forall>k. o_status (cov c k) \<noteq> ''failed''" using sample_evidenced by blast
  have s: "rt_snapshots sample_state = sample_snapshots" "rt_objects sample_state = Some sample_objects"
    "rt_policy sample_state = sample_policy" "rt_finalized sample_state = sample_end"
    by (simp_all add: sample_state_def fresh_state_def)
  let ?m = "merge_observed (v_coverage sample_observations) components c"
  have obsd: "receipt_observed sample_wire sample_ledger sample_input c = ?m"
    by (simp add: receipt_observed_def sample_input_def sample_validated)
  have all: "\<forall>k \<in> set components. o_status (cov ?m k) = ''verified'' \<and> o_observer (cov ?m k) = ''trusted''"
  proof -
    have "\<forall>k \<in> set components. o_status (cov c k) \<noteq> ''failed'' \<and> o_status (cov (v_coverage sample_observations) k) = ''verified'' \<and>
        o_observer (cov (v_coverage sample_observations) k) = ''trusted''"
      using c(2) by (auto simp: sample_coverage components_def obs_credentials_def obs_resources_def obs_disposal_def)
    from merge_observed_verified[OF this] show ?thesis by blast
  qed
  have "receipt_log_objects sample_objects \<noteq> []"
    by (simp add: receipt_log_objects_def sample_objects_def sample_input_def)
  moreover have "map_of sample_input ''job.log'' = Some sample_log" by (simp add: sample_input_def)
  ultimately have f: "final_coverage sample_wire sample_ledger sample_input sample_state ''accepted-untrusted'' c = ?m"
    by (simp add: final_coverage_def obsd s settle_workspace_def settle_logs_def sample_ledger_simps) (simp add: sample_log_def)
  obtain r where r: "build_receipt sample_wire sample_end sample_ledger sample_input sample_state = Inr r"
    using build_receipt_total[OF sample_accepted _ _ sample_snapshot_archived s(2) _ sample_fwire_sound(4)]
    by (auto simp: s sample_texts sample_ledger_simps sample_input_def)
  then have "rc_verdict r = verdict ?m"
    by (auto simp: build_receipt_def s c(1) f Let_def receipt_draft_def split: option.splits)
  moreover have "verdict ?m = ''pass''" using all verdict_pass_iff by blast
  ultimately show ?thesis using r by auto
qed

lemma part_utf8: "part_ok P \<Longrightarrow> utf8_valid (put P x)"
  using part_ascii[of P _ x] by (auto simp: utf8_valid_def list_all_iff runes_ascii)

lemma sample_parsed:
  assumes "build_receipt sample_wire now sample_ledger sample_input sample_state = Inr r"
  shows "parse_receipt sample_fwire (put receipt_part r) = Inr r"
proof -
  from assms have v: "receipt_validate r = None" "rc_started r = sample_time" "rc_finalized r = sample_end"
    by (auto simp: receipt_draft_def sample_ledger_simps sample_state_def fresh_state_def elim!: build_receipt_Inr)
  have len: "int (length (put receipt_part r)) \<le> max_receipt"
    by (rule receipt_length[OF v(1)]) (simp_all add: v sample_end_def sample_time_def year_10000_def)
  have "put receipt_part r \<noteq> []" using part_get[OF document_parts_ok(1), of r "[]"] part_get[OF document_parts_ok(1), of "r\<lparr>rc_kind := rc_kind r @ ''x''\<rparr>" "[]"]
    by (auto simp: receipt_part_def put_map put_pair string_part_def list_part_def elim: put_list.elims)
  with v(1) len part_utf8[OF document_parts_ok(1), of r] document_sound[OF document_parts_ok(1)] show ?thesis
    by (auto simp: parse_receipt_def strict_canonical_def sample_fwire_def sound_codec_def document_def)
qed

lemma sample_archived_facts:
  "rt_objects sample_state = Some sample_objects" "distinct_keys sample_objects" "distinct_keys sample_input"
  "lookup_or [] sample_input ''run.json'' = ''LEDGER''" "map_of sample_input ''run.json'' = Some ''LEDGER''"
  "rt_policy sample_state = sample_policy" "rt_finalized sample_state = sample_end"
  by (simp_all add: sample_state_def fresh_state_def sample_objects_def sample_input_def)

lemma sample_archived_refs:
  assumes "k \<in> set artifact_names"
  shows "case map_of sample_input k of None \<Rightarrow> \<not> has_key sample_objects k
      | Some b \<Rightarrow> \<exists>ref. map_of sample_objects k = Some ref \<and> rf_size ref = int (length b) \<and> rf_sha ref = digest b"
  using sample_snapshot_archived assms unfolding snapshot_archived_def by (fastforce split: option.splits)

lemma sample_archived_valid:
  assumes "build_receipt sample_wire sample_end sample_ledger sample_input sample_state = Inr r"
  shows "validate_archived sample_fwire sample_end r (archived_part sample_input) = None"
  by (rule validate_archived_complete[where now = sample_end and s = sample_state and l = sample_ledger,
        OF _ _ _ _ _ _ _ _ _ sample_archived_refs])
    (simp_all add: assms sample_canonical sample_fwire_sound sample_archived_facts sample_ledger_simps sample_identity_simps)

section \<open>The archive and the signer\<close>

definition sample_archive :: archive_config where
  "sample_archive = \<lparr>ac_store = ''store'', ac_endpoint = ''https://archive'', ac_bucket = ''bucket'', ac_prefix = ''evidence'',
     ac_region = ''region'', ac_kms = ''key'', ac_max = 1048576\<rparr>"

definition sample_stored :: aref where
  "sample_stored = (put_ref sample_archive sample_log)\<lparr>rf_version := ''v1''\<rparr>"

definition sample_s3 :: "time s3" where
  \<comment> \<open>a store that holds the log; the state is the retention horizon of the object\<close>
  "sample_s3 = \<lparr>s3_put = \<lambda>_ _ _ _ t. (Inr ''v1'', t),
     s3_stat = \<lambda>_ _ _ t. (Inr \<lparr>st_version = ''v1'', st_size = 5, st_sse = ''aws:kms'', st_kms = ''key'', st_type = ''text/plain'',
       st_modified = sample_time\<rparr>, t),
     s3_get = \<lambda>_ _ _ t. (Inr sample_log, t), s3_retention = \<lambda>_ _ _ t. (Inr (Some compliance, Some t), t),
     s3_retain = \<lambda>_ _ _ _ d _. (Inr (), d), s3_media = \<lambda>_. True\<rparr>"

definition sample_cosign :: cosign where
  "sample_cosign = \<lparr>cs_binary = ''/cosign'', cs_config = ''/config'', cs_trust = ''/trust'', cs_tls_ca = [], cs_policy = sample_policy\<rparr>"

definition sample_cosign_env :: "nat cosign_env" where
  "sample_cosign_env = \<lparr>ce_binary = Regular ''COSIGN'', ce_config = Regular ''CONFIG'', ce_trust = Regular ''TRUST'', ce_ca = Missing,
     ce_tmp = Inr ''/tmp/x'', ce_write = \<lambda>_. None, ce_token = None, ce_run = \<lambda>_ fs n. (Inr fs, Suc n)\<rparr>"

lemma contains_not: "c \<notin> set s \<Longrightarrow> \<not> contains s (c # p)"
  by (induction s) auto

lemma lower_hex_not: "hex_n n s \<Longrightarrow> \<not> lower_hex c \<Longrightarrow> c \<notin> set s"
  by (auto simp: hex_n_def list_all_iff)

lemma digest_chars: "CHR ''.'' \<notin> set (digest b)" "CHR 0x5C \<notin> set (digest b)" "CHR 0x0D \<notin> set (digest b)"
  "CHR 0x0A \<notin> set (digest b)" "CHR 0x00 \<notin> set (digest b)"
  by (rule lower_hex_not[OF hex_n_digest], simp add: lower_hex_def in_rng_def)+

lemma sample_stored_valid: "client_validate sample_archive sample_stored = None"
proof -
  have "rf_key sample_stored = ''evidence/sha256/'' @ digest sample_log" "rf_sha sample_stored = digest sample_log"
    by (simp_all add: sample_stored_def put_ref_def sample_archive_def sha_segment_def)
  moreover have "\<not> contains (''evidence/sha256/'' @ digest sample_log) ''..''"
    by (rule contains_not) (simp add: digest_chars)
  moreover have "\<not> contains_any (''evidence/sha256/'' @ digest sample_log) [CHR 0x5C, CHR 0x0D, CHR 0x0A, CHR 0x00]"
    using digest_chars[of sample_log] by (auto simp: contains_any_def list_ex_iff)
  moreover have "length (digest sample_log) = 64" using hex_n_digest by (rule hex_n_length)
  moreover have "has_suffix (''evidence'' @ sha_segment (digest sample_log)) (sha_segment (digest sample_log))"
    by (rule has_suffix_append)
  ultimately show ?thesis
    by (simp add: client_validate_def aref_validate_def sha_segment_def)
      (simp add: sample_stored_def put_ref_def sample_archive_def component_pattern_def alnum_def in_rng_def contains_any_def
        max_object_bytes_def sample_log_def)
qed

lemma sample_read: "archive_read sample_archive sample_s3 sample_stored (sample_time + 8 * 24 * hour) =
  (Inr sample_log, sample_time + 8 * 24 * hour)"
proof -
  have "stat_ok sample_archive sample_s3 sample_stored \<lparr>st_version = ''v1'', st_size = 5, st_sse = ''aws:kms'', st_kms = ''key'',
      st_type = ''text/plain'', st_modified = sample_time\<rparr> = None"
    by (simp add: stat_ok_def sample_s3_def sample_stored_def put_ref_def sample_archive_def sample_log_def)
  then have "check_metadata sample_archive sample_s3 sample_stored t = (Inr (), t)" if "t = sample_time + 8 * 24 * hour" for t
    by (simp add: check_metadata_def io_apply) (simp add: sample_s3_def retained_until_def that io_apply)
  moreover have "rf_size sample_stored = 5" "rf_sha sample_stored = digest sample_log" "length sample_log = 5"
    by (simp_all add: sample_stored_def put_ref_def sample_log_def)
  ultimately show ?thesis
    by (simp add: archive_read_def io_apply sample_stored_valid) (simp add: sample_s3_def io_apply)
qed

lemma sample_verifies:
  assumes "build_receipt sample_wire now sample_ledger sample_input sample_state = Inr r"
  shows "cosign_verify sample_fwire sample_cosign sample_cosign_env (put receipt_part r) ''BUNDLE'' n = (Inr (), Suc n)"
proof -
  have p: "policy_receipt sample_fwire sample_cosign (put receipt_part r) = Inr r"
    using assms by (auto simp: policy_receipt_def sample_parsed[OF assms] sample_cosign_def receipt_draft_def sample_archived_facts
        elim!: build_receipt_Inr)
  have len: "int (length (put receipt_part r)) \<le> max_receipt"
    using parse_receipt_Inr(3)[OF sample_parsed[OF assms]] .
  show ?thesis
    using len by (simp add: cosign_verify_def io_apply p max_bundle_def private_inputs_def cosign_inputs_def)
      (simp add: sample_cosign_def sample_cosign_env_def is_abs_def read_bounded_def max_receipt_def sample_policy_def
        cosign_command_def io_apply)
qed

section \<open>A cleanup context and a watchdog state\<close>

definition sample_context :: state where
  "sample_context = \<lparr>s_kind = ''cleanup-context/v1'', s_identity = sample_identity, s_token = sample_run,
     s_namespace = ''proof-'' @ sample_run, s_namespace_uid = ''namespace'', s_namespace_scoped = True, s_cluster_uid = ''cluster'',
     s_sandbox = ''/sandbox/proof-'' @ sample_run,
     s_directories = map (\<lambda>k. (k, \<lparr>d_device = 1, d_inode = 2\<rparr>)) [''root'', ''workspace'', ''credentials''],
     s_started = sample_time, s_completed = None, s_inventory_complete = False, s_resources = [],
     s_coverage = map (\<lambda>k. (k, not_observed)) components, s_attempts = 0\<rparr>"

lemma split_on_plain: "d \<notin> set s \<Longrightarrow> split_on d s = [s]"
  by (induction s) auto

lemma sample_context_ok: "state_validate sample_context = None"
proof -
  have base: "path_base (''/sandbox/proof-'' @ sample_run) = ''proof-'' @ sample_run"
    by (simp add: path_base_def sample_run_def split_on_plain)
  show ?thesis
    by (simp add: state_validate_def sample_context_def base[simplified] sample_identity_ok sample_hex_n is_abs_def components_def
        not_observed_def obs_shape_def zero_dir_def sample_time_def)
qed

definition report_part :: "report part" where
  "report_part = map_part
     (\<lambda>r. (rp_identity r, rp_number r, rp_stage r, rp_status r, rp_error r, rp_receipt r, rp_next r, rp_owner r, rp_lease r))
     (\<lambda>(a, b, c, d, e, f, g, h, i). \<lparr>rp_identity = a, rp_number = b, rp_stage = c, rp_status = d, rp_error = e, rp_receipt = f,
        rp_next = g, rp_owner = h, rp_lease = i\<rparr>)
     (pair_part identity_part (pair_part int_part (pair_part string_part (pair_part string_part (pair_part string_part
       (pair_part string_part (pair_part (option_part int_part) (pair_part string_part (option_part int_part)))))))))"

definition wstate_part :: "wstate part" where
  "wstate_part = map_part (\<lambda>s. (ws_kind s, ws_identity s, ws_current s, ws_history s, ws_updated s))
     (\<lambda>(a, b, c, d, e). \<lparr>ws_kind = a, ws_identity = b, ws_current = c, ws_history = d, ws_updated = e\<rparr>)
     (pair_part string_part (pair_part identity_part (pair_part report_part (pair_part (list_part report_part) int_part))))"

lemma wstate_part_ok: "part_ok wstate_part"
proof -
  have r: "part_ok report_part"
    unfolding report_part_def by (intro map_part_ok part_intros record_parts_ok string_part_ok int_part_ok, simp)
  show ?thesis
    unfolding wstate_part_def by (intro map_part_ok part_intros r record_parts_ok string_part_ok int_part_ok, simp)
qed

definition bounded_document :: "nat \<Rightarrow> 'a part \<Rightarrow> 'a codec" where
  "bounded_document n P = \<lparr>enc = \<lambda>x. if length (put P x) \<le> n then Inr (put P x) else Inl (EMsg ''document too large''),
     dec = dec (document P)\<rparr>"

lemma bounded_document_ok: "part_ok P \<Longrightarrow> sound_codec (bounded_document n P) \<and> bounded_codec (bounded_document n P) n"
  using document_sound[of P] by (simp add: sound_codec_def bounded_codec_def bounded_document_def document_def)

definition sample_wenv :: wenv where
  "sample_wenv = \<lparr>we_durable = \<lambda>_. durable_ok, we_now = \<lambda>_. sample_time, we_rand = \<lambda>_. replicate 16 0, we_fault = \<lambda>_. False\<rparr>"

definition sample_backend :: "nat backend" where
  \<comment> \<open>recovery fails; the state counts the calls\<close>
  "sample_backend = \<lparr>bk_reconcile = \<lambda>_ n. (Inr [], Suc n),
     bk_recover = \<lambda>_ n. ((\<lparr>ro_receipt = [], ro_stage = ''archive'', ro_permanent = False, ro_exhausted = False, ro_not_before = None\<rparr>,
       Some (EExt ''unavailable'')), Suc n), bk_report = \<lambda>_ n. (Inr (), Suc n)\<rparr>"

lemma sample_wenv_ok: "wd_ok (bounded_document 65536 wstate_part) sample_wenv"
  using bounded_document_ok[OF wstate_part_ok] by (simp add: wd_ok_def sample_wenv_def sample_time_def)

lemma sample_backend_sane: "sane_backend sample_backend"
  by (simp add: sane_backend_def sample_backend_def recovery_stages_def)

section \<open>The tables of the API\<close>

definition sample_txn :: txn where
  "sample_txn = \<lparr>tx_begin = True, tx_insert = True, tx_select = True, tx_exec = True, tx_commit = True, tx_ambiguous = False, tx_uuid = ''id''\<rparr>"

definition sample_verified :: verified where
  "sample_verified = \<lparr>vd_result = fin_result sample_state, vd_receipt = receipt_draft sample_ledger sample_input sample_state ''missing'' []\<rparr>"

definition sample_db :: db where
  "sample_db = \<lparr>db_receipts = [], db_incidents = [], db_attempts = []\<rparr>"

lemma sample_identity_valid: "valid_identity sample_identity"
  by (simp add: valid_identity_def sample_identity_ok) (simp add: sample_identity_simps sample_hex_n identifier_ok_def alnum_def in_rng_def)

lemma sample_verified_simps: "rc_identity (vd_receipt sample_verified) = sample_identity"
    "rc_verdict (vd_receipt sample_verified) = ''partial''"
  by (simp_all add: sample_verified_def receipt_draft_def sample_ledger_simps verdict_def components_def zero_obs_def)

lemma sample_ingest: "ingest sample_txn sample_verified sample_db =
  (Inr \<lparr>cm_id = ''id'', cm_duplicate = False\<rparr>,
   sample_db\<lparr>db_receipts := [receipt_row_of ''id'' sample_verified], db_incidents := [incident_of ''id'' ''partial'']\<rparr>)"
  by (simp add: ingest_def Let_def sample_verified_simps sample_identity_valid sample_txn_def sample_db_def finish_txn_def)

section \<open>The delivery queue\<close>

definition attempt_part :: "attempt part" where
  "attempt_part = map_part
     (\<lambda>a. (at_identity a, at_number a, at_stage a, at_result a, at_error a, at_next a))
     (\<lambda>(a, b, c, d, e, f). \<lparr>at_identity = a, at_number = b, at_stage = c, at_result = d, at_error = e, at_next = f\<rparr>)
     (pair_part identity_part (pair_part int_part (pair_part string_part (pair_part string_part
       (pair_part string_part (option_part int_part))))))"

definition qstate_part :: "qstate part" where
  "qstate_part = map_part
     (\<lambda>s. (qs_result s, qs_tries s, qs_status s, qs_receipt_id s, qs_next s, qs_failures s))
     (\<lambda>(a, b, c, d, e, f). \<lparr>qs_result = a, qs_tries = b, qs_status = c, qs_receipt_id = d, qs_next = e, qs_failures = f\<rparr>)
     (pair_part outcome_part (pair_part int_part (pair_part string_part (pair_part string_part
       (pair_part (option_part int_part) (list_part attempt_part))))))"

lemma qstate_part_ok: "part_ok qstate_part"
proof -
  have a: "part_ok attempt_part"
    unfolding attempt_part_def by (intro map_part_ok part_intros record_parts_ok string_part_ok int_part_ok, simp)
  show ?thesis
    unfolding qstate_part_def by (intro map_part_ok part_intros a document_parts_ok string_part_ok int_part_ok, simp)
qed

definition sample_outcome :: outcome where
  "sample_outcome = \<lparr>oc_kind = ''cleanup-finalization-result/v1'', oc_identity = sample_identity,
     oc_receipt = sample_stored, oc_bundle = sample_stored, oc_signature = ''verified''\<rparr>"

definition sample_qfwire :: fwire where
  "sample_qfwire = sample_fwire\<lparr>fw_outcome := only sample_outcome ''OUTCOME''\<rparr>"

definition sample_qwire :: qwire where
  "sample_qwire = \<lparr>qw_state = document qstate_part, qw_attempt = put attempt_part, qw_commit = Inr, qw_page = \<lambda>_. Inl EInvalid\<rparr>"

definition sample_http :: "int \<Rightarrow> nat http" where
  \<comment> \<open>a server that answers every request with one status; its state counts the requests\<close>
  "sample_http status = (\<lambda>method path data n. (Inr (status, ''id'', None), Suc n))"

definition sample_qenv :: qenv where
  "sample_qenv = \<lparr>qe_durable = \<lambda>_. durable_ok, qe_fault = \<lambda>_. False, qe_now = \<lambda>_. sample_end, qe_mkdir = \<lambda>_. None,
     qe_resolved = \<lambda>_. Inr ''/queue'', qe_open = \<lambda>_. None, qe_lock = \<lambda>_. None\<rparr>"

definition sample_qworld :: "nat qworld" where
  "sample_qworld = \<lparr>qd_files = \<lambda>_. Missing, qd_ext = 0, qd_log = [], qd_tick = 0\<rparr>"

definition sample_queued :: qstate where
  "sample_queued = (qinitial sample_outcome)\<lparr>qs_tries := 1, qs_status := ''complete'', qs_receipt_id := ''id''\<rparr>"

lemma sample_qwire_sound: "sound_codec (qw_state sample_qwire)"
  by (simp add: sample_qwire_def document_sound qstate_part_ok)

lemma sample_outcome_parsed: "parse_result sample_qfwire ''OUTCOME'' = Inr sample_outcome"
proof -
  have "outcome_ok sample_outcome"
    using sample_stored_valid
    by (simp add: outcome_ok_def sample_outcome_def sample_identity_ok client_validate_def)
      (simp add: sample_stored_def put_ref_def sample_log_def max_receipt_def max_bundle_def)
  then show ?thesis by (simp add: parse_result_def strict_canonical_def sample_qfwire_def only_def utf8_valid_def runes_ascii)
qed

lemma sample_prepared: "qprepare sample_qenv ''/queue'' w = (Inr (), w\<lparr>qd_tick := qd_tick w + 4\<rparr>)"
  by (simp add: qprepare_def qsys_def qtick_def io_apply sample_qenv_def is_abs_def clean_abs_def path_parts_def to_res_def)

lemma sample_q_simps:
  "qe_durable sample_qenv = (\<lambda>_. durable_ok)" "qe_fault sample_qenv = (\<lambda>_. False)" "qe_now sample_qenv = (\<lambda>_. sample_end)"
  "enc (qw_state sample_qwire) = (\<lambda>s. Inr (put qstate_part s))" "qw_commit sample_qwire = Inr" "qw_page sample_qwire = (\<lambda>_. Inl EInvalid)"
  "sample_http status m p d n = (Inr (status, ''id'', None), Suc n)"
  "qd_files sample_qworld = (\<lambda>_. Missing)" "qd_log sample_qworld = []"
  by (simp_all add: sample_qenv_def sample_qwire_def document_def sample_http_def sample_qworld_def)

lemma sample_delivers:
  "fst (deliver sample_qfwire sample_qwire (sample_http 201) sample_qenv ''/queue'' ''OUTCOME'' sample_qworld) =
    Inr (sample_queued, None)"
  by (simp add: deliver_def io_apply sample_outcome_parsed sample_prepared sample_q_simps qload_def qread_def qinitial_def
      qinterrupted_def qsave_def qreconcile_def qrequest_io_def qcall_def qpending_def qattempt_def qtick_def qanswered_def
      qcomplete_def delivered_def sample_queued_def Let_def to_res_def read_bounded_def)

section \<open>A cleanup\<close>

definition sample_ref_key :: string where
  "sample_ref_key = ref_key \<lparr>r_group = [], r_version = ''v1'', r_resource = ''configmaps'', r_namespace = s_namespace sample_context,
     r_name = ''cm'', r_uid = ''uid''\<rparr>"

definition sample_kube :: "bool kube" where
  \<comment> \<open>a namespace with one object; the state tells whether it exists\<close>
  "sample_kube = \<lparr>
     kb_namespace = \<lambda>n x. (if n = ''kube-system'' then Inr \<lparr>kn_uid = s_cluster_uid sample_context, kn_labels = [], kn_terminating = False\<rparr>
        else if x then Inr \<lparr>kn_uid = s_namespace_uid sample_context, kn_labels = [(run_label, s_token sample_context)], kn_terminating = False\<rparr>
        else Inl ENotFound, x),
     kb_create_namespace = \<lambda>n l x. (Inl EAlreadyExists, x), kb_delete_namespace = \<lambda>n u x. (Inr (), False),
     kb_discover = \<lambda>x. (Inr [(''v1'', [\<lparr>ap_name = ''configmaps'', ap_namespaced = True, ap_verbs = [''list'']\<rparr>])], x),
     kb_group_version = \<lambda>s. Inr ([], s), kb_list = \<lambda>gvr n c x. (Inr (if x then [(''cm'', ''uid'')] else [], []), x),
     kb_volumes = \<lambda>c x. (Inr ([], []), x), kb_get = \<lambda>l x. (if x then Inr ''uid'' else Inl ENotFound, x),
     kb_delete = \<lambda>l u x. (Inr (), x), kb_volume = \<lambda>n x. (Inl ENotFound, x), kb_claim = \<lambda>n m x. (Inl ENotFound, x)\<rparr>"

definition sample_senv :: senv where
  "sample_senv = \<lparr>se_ctx = \<lambda>_. None, se_fault = \<lambda>_. None, se_appear = \<lambda>_. [], se_inode = \<lambda>n. \<lparr>d_device = 1, d_inode = int n\<rparr>\<rparr>"

definition sample_cenv :: cenv where
  "sample_cenv = \<lparr>ce_files = sample_senv, ce_text = \<lambda>_. ''error'', ce_pages = 2, ce_ticks = 1, ce_now = sample_end\<rparr>"

definition sample_cworld :: "bool cworld" where
  "sample_cworld = \<lparr>cw_state = sample_context, cw_ext = True,
     cw_files = \<lparr>fs_at = (\<lambda>_. None)(s_sandbox sample_context := Some (Dir (lookup_or zero_dir (s_directories sample_context) ''root'')
       [(''.proof-owner'', Plain (s_token sample_context)),
        (''workspace'', Dir (lookup_or zero_dir (s_directories sample_context) ''workspace'') [(''output'', Plain ''data'')]),
        (''credentials'', Dir (lookup_or zero_dir (s_directories sample_context) ''credentials'') [(''key'', Special_file)])])), fs_tick = 0\<rparr>,
     cw_deletions = []\<rparr>"

lemma sample_honest: "honest (\<lambda>_ _. True) (\<lambda>k x. x \<and> k = sample_ref_key) sample_kube"
  by (simp add: honest_def kube_steps_def absence_answers_def list_answers_def volume_answers_def keeps_def forward_def sample_kube_def)

lemma sample_unhindered: "unhindered sample_senv"
  by (simp add: unhindered_def sample_senv_def)

lemma state_validate_mark: "state_validate (s\<lparr>s_inventory_complete := c\<rparr>) = state_validate s"
  by (simp add: state_validate_def ref_in_scope_def cong: option.case_cong)

lemma state_validate_attempts: "state_validate s = None \<Longrightarrow> state_validate (s\<lparr>s_attempts := s_attempts s + 1\<rparr>) = None"
  by (auto simp: state_validate_def ref_in_scope_def split: option.splits)

lemma state_validate_refs:
  assumes "state_validate s = None" "\<And>r. r \<in> set rs \<Longrightarrow> r_uid r \<noteq> [] \<and> r_name r \<noteq> [] \<and> r_version r \<noteq> [] \<and> r_resource r \<noteq> [] \<and> ref_in_scope s r"
  shows "state_validate (s\<lparr>s_resources := rs\<rparr>) = None"
  using assms by (auto simp: state_validate_def ref_in_scope_def split: option.splits)

definition sample_cm :: kref where
  "sample_cm = \<lparr>r_group = [], r_version = ''v1'', r_resource = ''configmaps'', r_namespace = s_namespace sample_context, r_name = ''cm'', r_uid = ''uid''\<rparr>"

lemma sample_kube_simps:
  "kb_namespace sample_kube n x = (if n = ''kube-system'' then Inr \<lparr>kn_uid = s_cluster_uid sample_context, kn_labels = [], kn_terminating = False\<rparr>
        else if x then Inr \<lparr>kn_uid = s_namespace_uid sample_context, kn_labels = [(run_label, s_token sample_context)], kn_terminating = False\<rparr>
        else Inl ENotFound, x)"
  "kb_delete_namespace sample_kube n u x = (Inr (), False)"
  "kb_discover sample_kube x = (Inr [(''v1'', [\<lparr>ap_name = ''configmaps'', ap_namespaced = True, ap_verbs = [''list'']\<rparr>])], x)"
  "kb_group_version sample_kube v = Inr ([], v)" "kb_list sample_kube gvr n c x = (Inr (if x then [(''cm'', ''uid'')] else [], []), x)"
  "kb_volumes sample_kube c x = (Inr ([], []), x)"
  by (simp_all add: sample_kube_def)

lemma sample_namespace: "s_namespace sample_context \<noteq> ''kube-system''" "s_namespace sample_context \<noteq> []"
  by (simp_all add: sample_context_def)

definition sample_like :: "state \<Rightarrow> bool" where
  "sample_like s \<longleftrightarrow> state_validate s = None \<and> s_namespace s = s_namespace sample_context \<and> s_cluster_uid s = s_cluster_uid sample_context \<and>
     s_namespace_uid s = s_namespace_uid sample_context \<and> s_token s = s_token sample_context \<and> s_namespace_scoped s"

lemma sample_check:
  assumes "sample_like (cw_state w)"
  shows "check_namespace sample_kube w = (Inr (if cw_ext w then
    Some \<lparr>kn_uid = s_namespace_uid sample_context, kn_labels = [(run_label, s_token sample_context)], kn_terminating = False\<rparr> else None), w)"
  using assms by (simp add: check_namespace_def io_apply lens_io_def sample_like_def sample_kube_simps sample_namespace)

lemma sample_inventory:
  assumes s: "sample_like (cw_state w)" and r: "s_resources (cw_state w) = (if cw_ext w then [] else [sample_cm])"
  shows "inventory sample_kube 2 w = (Inr (), w\<lparr>cw_state := (cw_state w)\<lparr>s_resources := [sample_cm], s_inventory_complete := True\<rparr>\<rparr>)"
proof -
  let ?w = "w\<lparr>cw_state := (cw_state w)\<lparr>s_inventory_complete := False\<rparr>\<rparr>"
  have "sample_like (cw_state ?w)" using s by (simp add: sample_like_def state_validate_mark)
  note c = sample_check[OF this]
  have n: "s_namespace (cw_state w) = s_namespace sample_context" using s by (simp add: sample_like_def)
  have k: "add_ref sample_cm [] = [(ref_key sample_cm, sample_cm)]" by (simp add: add_ref_def)
  show ?thesis
  proof (cases "cw_ext w")
    case True
    with c r show ?thesis
      by (simp add: inventory_def io_apply set_state_def scan_namespaced_def lens_io_def sample_kube_simps scan_group_def recorded_refs_def
          numeral_eq_Suc n sample_cm_def[symmetric] k)
  next
    case False
    with c r show ?thesis
      by (simp add: inventory_def io_apply set_state_def scan_namespaced_def lens_io_def sample_kube_simps recorded_refs_def numeral_eq_Suc k)
  qed
qed

lemma sample_removed:
  assumes s: "sample_like (cw_state w)" and r: "s_resources (cw_state w) = []" "cw_ext w"
  shows "\<exists>v. remove_resources sample_kube 2 1 w = (Inr (), v)"
proof -
  let ?s = "(cw_state w)\<lparr>s_resources := [sample_cm], s_inventory_complete := True\<rparr>"
  have "state_validate ((cw_state w)\<lparr>s_resources := [sample_cm]\<rparr>) = None"
    by (rule state_validate_refs) (use s in \<open>auto simp: sample_like_def sample_cm_def ref_in_scope_def\<close>)
  then have v: "sample_like ?s" using s state_validate_mark[where c = True and s = "(cw_state w)\<lparr>s_resources := [sample_cm]\<rparr>"] by (simp add: sample_like_def)
  have i: "inventory sample_kube 2 w = (Inr (), w\<lparr>cw_state := ?s\<rparr>)" by (rule sample_inventory) (use s r in simp_all)
  let ?v = "w\<lparr>cw_state := ?s, cw_deletions := cw_deletions w @ [Deleted_namespace (s_namespace ?s) (s_namespace_uid ?s)], cw_ext := False\<rparr>"
  have c: "check_owned sample_kube (w\<lparr>cw_state := ?s\<rparr>) = (Inr True, w\<lparr>cw_state := ?s\<rparr>)"
    using sample_check[of "w\<lparr>cw_state := ?s\<rparr>"] v r(2) by (simp add: check_owned_def io_apply)
  have c': "check_owned sample_kube ?v = (Inr False, ?v)" using sample_check[of ?v] v by (simp add: check_owned_def io_apply)
  have i': "inventory sample_kube 2 ?v = (Inr (), ?v)" using sample_inventory[of ?v] v by simp
  have cm: "r_namespace sample_cm \<noteq> []" using sample_namespace by (simp add: sample_cm_def)
  have sc: "s_namespace_scoped (cw_state w)" using s by (simp add: sample_like_def)
  have "removal_round sample_kube 2 ?v = (Inr True, ?v)"
    using c' i' cm sc by (simp add: removal_round_def io_apply)
  then have a: "await_absence sample_kube 2 1 ?v = (Inr (), ?v)" by (simp add: io_apply)
  then show ?thesis
    using i c by (simp add: remove_resources_def io_apply log_deletion_def ignore_missing_def lens_io_def sample_kube_simps)
qed

fun simple_file :: "fnode \<Rightarrow> bool" where
  "simple_file (Plain b) = True"
| "simple_file Special_file = True"
| "simple_file x = False"

lemma sample_wiped:
  assumes "state_validate s = None" "s_sandbox s = s_sandbox sample_context" "s_directories s = s_directories sample_context"
    "s_token s = s_token sample_context" "name \<in> {''workspace'', ''credentials''}"
    and f: "fs_at f (s_sandbox sample_context) = Some (Dir (lookup_or zero_dir (s_directories sample_context) ''root'') es)"
    and m: "map_of es ''.proof-owner'' = Some (Plain (s_token sample_context))"
    and c: "map_of es name = Some (Dir (lookup_or zero_dir (s_directories sample_context) name) [(n, x)])" "simple_file x"
  shows "\<exists>g. wipe sample_senv s name f = (Inr (), g) \<and>
    fs_at g (s_sandbox sample_context) = Some (Dir (lookup_or zero_dir (s_directories sample_context) ''root'')
      (AList.update name (Dir (lookup_or zero_dir (s_directories sample_context) name) []) es))"
proof -
  have "wipeable 129 [(n, x)]" "node_count 129 [(n, x)] \<le> 10000" using c(2) by (cases x; simp add: numeral_eq_Suc)+
  then have "\<exists>g. wipe sample_senv s name f = (Inr (), g)"
    by (intro wipe_works[OF sample_unhindered]) (use assms in auto)
  then obtain g where g: "wipe sample_senv s name f = (Inr (), g)" by blast
  from wipe_wiped[OF g] assms f c show ?thesis using g by (auto simp: wiped_def)
qed

lemma sample_workspace_wipes: "\<exists>w. wipe sample_senv sample_context ''workspace'' (cw_files sample_cworld) = (Inr (), w)"
  by (rule wipe_works[OF sample_unhindered sample_context_ok, where inner = "[(''output'', Plain ''data'')]"])
    (simp_all add: sample_cworld_def numeral_eq_Suc)+

lemma sample_cleans: "\<exists>w. cleanup sample_kube sample_cenv sample_cworld = (Inr None, w)"
proof -
  let ?s1 = "sample_context\<lparr>s_attempts := s_attempts sample_context + 1\<rparr>"
  let ?msg = "''Disposable directory is empty; symlink targets were not followed''"
  let ?s2 = "record_obs ''workspace'' ''verified'' ?msg ?s1"
  let ?s3 = "record_obs ''credentials'' ''verified'' ?msg ?s2"
  have v1: "state_validate ?s1 = None" using state_validate_attempts[OF sample_context_ok] .
  have v2: "state_validate ?s2 = None" by (rule state_validate_record[OF v1]) (simp_all add: components_def)
  have v3: "state_validate ?s3 = None" by (rule state_validate_record[OF v2]) (simp_all add: components_def)
  let ?es = "[(''.proof-owner'', Plain (s_token sample_context)),
        (''workspace'', Dir (lookup_or zero_dir (s_directories sample_context) ''workspace'') [(''output'', Plain ''data'')]),
        (''credentials'', Dir (lookup_or zero_dir (s_directories sample_context) ''credentials'') [(''key'', Special_file)])]"
  have "\<exists>g. wipe sample_senv ?s1 ''workspace'' (cw_files sample_cworld) = (Inr (), g) \<and>
    fs_at g (s_sandbox sample_context) = Some (Dir (lookup_or zero_dir (s_directories sample_context) ''root'')
      (AList.update ''workspace'' (Dir (lookup_or zero_dir (s_directories sample_context) ''workspace'') []) ?es))"
    by (rule sample_wiped[OF v1, where n = "''output''" and x = "Plain ''data''"]) (simp_all add: sample_cworld_def)
  then obtain g1 where g1: "wipe sample_senv ?s1 ''workspace'' (cw_files sample_cworld) = (Inr (), g1)"
    "fs_at g1 (s_sandbox sample_context) = Some (Dir (lookup_or zero_dir (s_directories sample_context) ''root'')
      (AList.update ''workspace'' (Dir (lookup_or zero_dir (s_directories sample_context) ''workspace'') []) ?es))" by blast
  have "s_token ?s2 = s_token sample_context" "s_token ?s3 = s_token sample_context"
    "s_cluster_uid ?s3 = s_cluster_uid sample_context" by (simp_all add: record_obs_def Let_def)
  then have more: "s_token ?s2 = s_token sample_context" "sample_like ?s3" using v3 by (simp_all add: sample_like_def) (simp add: sample_context_def)
  have "\<exists>g. wipe sample_senv ?s2 ''credentials'' g1 = (Inr (), g) \<and>
    fs_at g (s_sandbox sample_context) = Some (Dir (lookup_or zero_dir (s_directories sample_context) ''root'')
      (AList.update ''credentials'' (Dir (lookup_or zero_dir (s_directories sample_context) ''credentials'') [])
        (AList.update ''workspace'' (Dir (lookup_or zero_dir (s_directories sample_context) ''workspace'') []) ?es)))"
    by (rule sample_wiped[OF v2 _ _ _ _ g1(2), where n = "''key''" and x = Special_file]) (simp_all add: more)
  then obtain g2 where g2: "wipe sample_senv ?s2 ''credentials'' g1 = (Inr (), g2)" by blast
  let ?w3 = "sample_cworld\<lparr>cw_state := ?s3, cw_files := g2\<rparr>"
  have "\<exists>v. remove_resources sample_kube 2 1 ?w3 = (Inr (), v)"
    by (rule sample_removed) (use more in \<open>simp_all add: sample_cworld_def sample_context_def\<close>)
  then obtain v where v: "remove_resources sample_kube 2 1 ?w3 = (Inr (), v)" by blast
  have a: "wipe_recorded sample_cenv ''workspace'' (sample_cworld\<lparr>cw_state := ?s1\<rparr>) = (Inr None, sample_cworld\<lparr>cw_state := ?s2, cw_files := g1\<rparr>)"
    using g1(1) by (simp add: wipe_recorded_def io_apply lens_io_def set_state_def sample_cenv_def)
  have b: "wipe_recorded sample_cenv ''credentials'' (sample_cworld\<lparr>cw_state := ?s2, cw_files := g1\<rparr>) = (Inr None, ?w3)"
    using g2 by (simp add: wipe_recorded_def io_apply lens_io_def set_state_def sample_cenv_def)
  have s: "cw_state sample_cworld = sample_context" by (simp add: sample_cworld_def)
  show ?thesis using a b v by (simp add: cleanup_def io_apply set_state_def s removal_recorded_def sample_cenv_def)
qed

end
