(* ===== verification/Rehearsal.thy ===== *)
theory Rehearsal
  imports Samples
begin

text \<open>
  Concrete clusters and runs: a start whose job creation is not answered, a disposal that deletes four
  objects, and the release of a gate. The properties of the run coordinator are applied to them.
\<close>

section \<open>A small cluster\<close>

definition owned_meta :: "string \<Rightarrow> kmeta" where
  "owned_meta u = \<lparr>km_uid = u, km_labels = [(run_label, sample_run), (''app.kubernetes.io/managed-by'', ''localci''),
     (''pod-security.kubernetes.io/enforce'', ''restricted''), (''pod-security.kubernetes.io/enforce-version'', ''v1.36'')],
     km_deleting = False, km_version = ''1''\<rparr>"

definition object_uid :: "okind \<Rightarrow> string \<Rightarrow> string" where
  "object_uid k n = (case k of Cluster_roles \<Rightarrow> ''role'' | Cluster_role_bindings \<Rightarrow> ''rolebinding''
     | Namespaces \<Rightarrow> if n = ''kube-system'' then ''cluster'' else if n = ''proof-'' @ sample_run then ''resource'' else ''runner'')"

definition refuse :: "('x, 'a) io" where
  "refuse x = (Inl ENotFound, x)"

text \<open>The state of the cluster: which of the coordinator's objects were deleted. Creating a job is not answered.\<close>

definition sample_cluster :: "(okind \<times> string) list capi" where
  "sample_cluster = \<lparr>ca_get = \<lambda>k n x. (if (k, n) \<in> set x then Inl ENotFound else Inr (owned_meta (object_uid k n)), x),
     ca_delete = \<lambda>k n u x. (Inr (), (k, n) # x),
     ca_create = \<lambda>m x. (case m of New_job _ _ _ _ _ _ \<Rightarrow> Inl (EExt ''timeout'') | New_config _ _ _ _ _ \<Rightarrow> Inr (owned_meta ''stage'')
       | New_cluster_role _ _ _ \<Rightarrow> Inr (owned_meta ''role'') | New_cluster_role_binding _ _ _ \<Rightarrow> Inr (owned_meta ''rolebinding'')
       | _ \<Rightarrow> Inr (owned_meta ''made''), x),
     ca_config = \<lambda>_ _. refuse, ca_policy = \<lambda>_. refuse, ca_service = ret ''10.96.0.1'',
     ca_nodes = ret [\<lparr>nd_name = gate_node, nd_addresses = [(''InternalIP'', ''172.18.0.2'')]\<rparr>],
     ca_ready = ret (1, 1), ca_job = \<lambda>_. refuse, ca_pods = \<lambda>_ _. refuse, ca_pod = \<lambda>_ _. refuse, ca_signal = \<lambda>_ _. refuse,
     ca_logs = \<lambda>_ _. refuse, ca_patch_gate = \<lambda>_ _ _ _. ret (), ca_run = \<lambda>_. refuse, ca_docker = \<lambda>_. refuse\<rparr>"

lemma sample_answers: "answers (\<lambda>_ _. True) (\<lambda>(k, n, u) x. (k, n) \<notin> set x) sample_cluster"
  by (auto simp: answers_def sample_cluster_def keeps_def forward_def split: if_splits)

lemma cluster_simps [simp]:
  "ca_get sample_cluster k n x = (if (k, n) \<in> set x then Inl ENotFound else Inr (owned_meta (object_uid k n)), x)"
  "ca_delete sample_cluster k n u x = (Inr (), (k, n) # x)"
  "ca_service sample_cluster = ret ''10.96.0.1''"
  "ca_nodes sample_cluster = ret [\<lparr>nd_name = gate_node, nd_addresses = [(''InternalIP'', ''172.18.0.2'')]\<rparr>]"
  "ca_ready sample_cluster = ret (1, 1)"
  "ca_create sample_cluster (New_namespace a1 b1) x = (Inr (owned_meta ''made''), x)"
  "ca_create sample_cluster (New_quota a1 b1 c1) x = (Inr (owned_meta ''made''), x)"
  "ca_create sample_cluster (New_policy a1 b1 d1) x = (Inr (owned_meta ''made''), x)"
  "ca_create sample_cluster (New_account a1 a2 b1) x = (Inr (owned_meta ''made''), x)"
  "ca_create sample_cluster (New_config a1 a2 b1 e1 b2) x = (Inr (owned_meta ''stage''), x)"
  "ca_create sample_cluster (New_role a1 a2 b1 f1) x = (Inr (owned_meta ''made''), x)"
  "ca_create sample_cluster (New_role_binding a1 a2 b1 a3) x = (Inr (owned_meta ''made''), x)"
  "ca_create sample_cluster (New_cluster_role a1 b1 f1) x = (Inr (owned_meta ''role''), x)"
  "ca_create sample_cluster (New_cluster_role_binding a1 b1 a2) x = (Inr (owned_meta ''rolebinding''), x)"
  "ca_create sample_cluster (New_job a1 b1 a2 g1 h1 c1) x = (Inl (EExt ''timeout''), x)"
  by (simp_all add: sample_cluster_def)

lemma owned_simps [simp]:
  "km_uid (owned_meta u) = u" "km_deleting (owned_meta u) = False" "km_version (owned_meta u) = ''1''"
  "label run_label (owned_meta u) = sample_run" "label ''app.kubernetes.io/managed-by'' (owned_meta u) = ''localci''"
  "label ''pod-security.kubernetes.io/enforce'' (owned_meta u) = ''restricted''"
  "label ''pod-security.kubernetes.io/enforce-version'' (owned_meta u) = ''v1.36''"
  by (simp_all add: owned_meta_def label_def run_label_def)

definition smooth :: durable_io where
  "smooth = \<lparr>d_create = True, d_write = True, d_sync = True, d_close = True, d_rename = True, d_dir_open = True, d_dir_sync = True\<rparr>"

lemma smooth_durable [simp]: "durable smooth a b = (None, a)"
  by (simp add: durable_def smooth_def)

section \<open>A disposal\<close>

definition disposal_env :: renv where
  "disposal_env = \<lparr>re_wire = sample_wire, re_now = \<lambda>_. sample_end, re_io = \<lambda>_. smooth, re_fault = \<lambda>_. None, re_cancelled = \<lambda>_. False,
     re_expired = \<lambda>_. False, re_stamp = \<lambda>_. ''now'', re_text = \<lambda>_. ''error'', re_sandboxes = \<lambda>_. Inl EInvalid,
     re_assignment = \<lambda>_. Inr ''assignment'', re_ticks = 0\<rparr>"

definition disposal_world :: "(okind \<times> string) list rworld" where
  "disposal_world = \<lparr>rw_ledger = sample_ledger\<lparr>l_phase := ''disposing'', l_resource_absent := False, l_role_absent := False\<rparr>,
     rw_dir = sample_dir(''collector.json'' := Regular ''RESULT'', ''observations.json'' := Missing, ''finalization-ready.json'' := Missing),
     rw_ext = [], rw_tick = 0, rw_deletions = [], rw_launches = 1, rw_trace = []\<rparr>"

lemma disposal_namespace:
  assumes "slot_kind s = Namespaces" "slot_uid s (rw_ledger w) = object_uid Namespaces (slot_name s (rw_ledger w))"
    "slot_uid s (rw_ledger w) \<noteq> []" "l_token (rw_ledger w) = sample_run" "(Namespaces, slot_name s (rw_ledger w)) \<notin> set (rw_ext w)"
  shows "dispose_namespace sample_cluster E s w = (Inr (), w\<lparr>rw_ext := (Namespaces, slot_name s (rw_ledger w)) # rw_ext w,
     rw_deletions := rw_deletions w @ [slot_deletion s (rw_ledger w)]\<rparr>)"
  using assms
  by (simp add: dispose_namespace_def recover_ownership_def delete_namespace_def led_def io_apply lens_io_def ask_delete_def await_gone.simps)

lemma disposal_rbac:
  assumes "slot_uid s (rw_ledger w) = object_uid (slot_kind s) (slot_name s (rw_ledger w))"
    "slot_uid s (rw_ledger w) \<noteq> []" "l_token (rw_ledger w) = sample_run" "(slot_kind s, slot_name s (rw_ledger w)) \<notin> set (rw_ext w)"
  shows "dispose_rbac sample_cluster E s w = (Inr (), w\<lparr>rw_ext := (slot_kind s, slot_name s (rw_ledger w)) # rw_ext w,
     rw_deletions := rw_deletions w @ [slot_deletion s (rw_ledger w)]\<rparr>)"
  using assms by (simp add: dispose_rbac_def recover_ownership_def led_def io_apply lens_io_def ask_delete_def)

lemma sample_ledger_uids:
  "l_resource_uid sample_ledger = ''resource''" "l_runner_uid sample_ledger = ''runner''" "l_role_uid sample_ledger = ''role''"
  "l_binding_uid sample_ledger = ''rolebinding''" "l_cluster_uid sample_ledger = ''cluster''" "l_token sample_ledger = sample_run"
  "l_resource_ns sample_ledger = ''proof-'' @ sample_run" "l_runner_ns sample_ledger = ''proof-runner-'' @ sample_run"
  by (simp_all add: sample_ledger_def sample_pinned_def)

lemma sample_not_kube: "''proof-'' @ sample_run \<noteq> ''kube-system''" "''proof-runner-'' @ sample_run \<noteq> ''kube-system''"
  "''proof-runner-'' @ sample_run \<noteq> ''proof-'' @ sample_run"
  by (simp_all add: sample_run_def)

lemma sample_flags: "sample_ledger\<lparr>l_phase := ''disposing'', l_resource_absent := True, l_runner_absent := True, l_binding_absent := True,
   l_role_absent := True\<rparr> = sample_ledger\<lparr>l_phase := ''disposing''\<rparr>" "sample_ledger\<lparr>l_phase := ''complete'', l_updated := sample_end\<rparr> = sample_ledger"
  by (simp_all add: sample_ledger_def sample_pinned_def)

lemma sample_disposes: "\<exists>w. dispose sample_cluster disposal_env disposal_world = (Inr (), w) \<and> rw_ledger w = sample_ledger\<lparr>l_phase := ''disposing''\<rparr> \<and>
   rw_dir w = rw_dir disposal_world \<and> length (rw_deletions w) = 4"
  unfolding dispose_def
  by (simp add: sample_flags io_apply lens_io_def led_def upd_def disposal_world_def disposal_namespace disposal_rbac sample_ledger_uids object_uid_def sample_not_kube err_of_def
     to_res_def)

lemma sample_published: "d ''run.json'' = Regular ''LEDGER'' \<Longrightarrow> d ''collector.json'' = Regular ''RESULT'' \<Longrightarrow> d ''job.log'' = Regular sample_log \<Longrightarrow>
   d ''cleanup-evidence.json'' = Regular ''EVIDENCE'' \<Longrightarrow> observation_inputs sample_wire sample_ledger d = Inr (''LEDGER'', ''OBSERVATIONS'')"
  by (simp add: observation_inputs_def sample_derived check_artifacts_def read_bounded_def sample_ledger_simps sample_identity_simps sample_wire_simps)
    (simp add: run_pattern_def sample_hex_n first_err_Cons check_def verify_file_def sample_log_def max_logs_def sample_wire_simps)

lemma sample_finishes:
  "\<exists>w. finish_disposal sample_cluster disposal_env disposal_world = (Inr (), w) \<and> length (rw_deletions w) = 4"
proof -
  obtain w where w: "dispose sample_cluster disposal_env disposal_world = (Inr (), w)" "rw_ledger w = sample_ledger\<lparr>l_phase := ''disposing''\<rparr>"
    "rw_dir w = rw_dir disposal_world" "length (rw_deletions w) = 4" using sample_disposes by blast
  let ?d = "(rw_dir disposal_world)(''run.json'' := Regular ''LEDGER'')"
  let ?v = "w\<lparr>rw_ledger := sample_ledger, rw_dir := ?d, rw_tick := Suc (rw_tick w)\<rparr>"
  have e: "re_wire disposal_env = sample_wire" "re_io disposal_env n = smooth" "re_now disposal_env n = sample_end" for n
    by (simp_all add: disposal_env_def)
  have s: "save disposal_env (w\<lparr>rw_ledger := sample_ledger\<lparr>l_phase := ''complete''\<rparr>\<rparr>) = (Inr (), ?v)"
    using w(3) by (simp add: save_def save_ledger_def ledger_bytes_def e sample_flags(2) sample_wire_simps Let_def sample_ledger_simps sample_identity_simps
        run_pattern_def sample_hex_n to_res_def)
  have i: "observation_inputs sample_wire sample_ledger ?d = Inr (''LEDGER'', ''OBSERVATIONS'')"
    by (rule sample_published) (simp_all add: disposal_world_def sample_dir_def)
  have p: "\<exists>d. publish_now disposal_env ?v = (Inr (), ?v\<lparr>rw_dir := d, rw_tick := Suc (Suc (Suc (rw_tick w)))\<rparr>)"
    by (simp add: publish_now_def publish_observations_def e i publish_pair_def publish_immutable_def sample_wire_simps to_res_def)
      (simp add: disposal_world_def read_bounded_def Let_def sample_wire_simps publish_immutable_def, blast)
  show ?thesis
    using w s p by (auto simp: finish_disposal_def bind_io_def catch_io_def upd_def io_apply(4) set_phase_def then_io_def)
qed

section \<open>A start\<close>

text \<open>The ledgers of a start, by what is recorded so far; their encoding is one character for each field.\<close>

definition pick :: "bool \<Rightarrow> string \<Rightarrow> string" where
  "pick b s = (if b then s else [])"

definition sample_image :: string where
  "sample_image = ''cleanup-receipt/runner@sha256:'' @ sample_hex"

fun trial_ledger :: "bool list \<Rightarrow> ledger" where
  "trial_ledger [b0, b1, b2, b3, b4, b5, b6, b7] = \<lparr>l_kind = ''local-ci-run/v1'', l_identity = sample_identity, l_token = sample_run,
     l_cluster_uid = pick b0 ''cluster'', l_resource_ns = ''proof-'' @ sample_run, l_resource_uid = pick b2 ''resource'',
     l_runner_ns = ''proof-runner-'' @ sample_run, l_runner_uid = pick b1 ''runner'', l_job_uid = [], l_launch_attempted = b6,
     l_pod_name = [], l_pod_uid = [], l_stage_uid = pick b3 ''stage'', l_role_uid = pick b4 ''role'', l_binding_uid = pick b5 ''rolebinding'',
     l_image = sample_image, l_actual_image = [], l_command = [''true''], l_timeout = 60,
     l_phase = (if b6 then ''launching'' else ''provisioning''), l_created = 0, l_updated = 0, l_cancel = False, l_exit = None,
     l_pod_reason = [], l_evidence_status = ''missing'', l_evidence_digest = [], l_guard_digest = [], l_logs_status = ''missing'',
     l_logs_digest = [], l_logs_bytes = 0, l_resource_absent = False, l_runner_absent = False, l_role_absent = False,
     l_binding_absent = False, l_container_id = [], l_collector_request = None, l_collector_digest = [],
     l_errors = (if b7 then [''provisioning-incomplete: error''] else [])\<rparr>"
| "trial_ledger _ = sample_ledger"

definition trial_bits :: "ledger \<Rightarrow> bool list" where
  "trial_bits l = [l_cluster_uid l \<noteq> [], l_runner_uid l \<noteq> [], l_resource_uid l \<noteq> [], l_stage_uid l \<noteq> [], l_role_uid l \<noteq> [],
     l_binding_uid l \<noteq> [], l_launch_attempted l, l_errors l \<noteq> []]"

definition trial_bytes :: "bool list \<Rightarrow> bytes" where
  "trial_bytes bs = map (\<lambda>b. if b then CHR ''1'' else CHR ''0'') bs"

definition trial_codec :: "ledger codec" where
  "trial_codec = \<lparr>enc = \<lambda>l. if l = trial_ledger (trial_bits l) then Inr (trial_bytes (trial_bits l)) else Inl EInvalid,
     dec = \<lambda>b. Inr (trial_ledger (map (\<lambda>c. c = CHR ''1'') b))\<rparr>"

lemma trial_decode: "map (\<lambda>c. c = CHR ''1'') (trial_bytes bs) = bs"
  by (induction bs) (auto simp: trial_bytes_def)

lemma trial_sound: "sound_codec trial_codec"
  by (auto simp: sound_codec_def trial_codec_def trial_decode split: if_splits)

lemma trial_bits_ledger [simp]: "trial_bits (trial_ledger [b0, b1, b2, b3, b4, b5, b6, b7]) = [b0, b1, b2, b3, b4, b5, b6, b7]"
  by (simp add: trial_bits_def pick_def)

lemma trial_enc [simp]: "enc trial_codec (trial_ledger [b0, b1, b2, b3, b4, b5, b6, b7]) = Inr (trial_bytes [b0, b1, b2, b3, b4, b5, b6, b7])"
  by (simp only: trial_codec_def codec.simps trial_bits_ledger if_True refl)

definition trial_env :: renv where
  "trial_env = \<lparr>re_wire = sample_wire\<lparr>w_ledger := trial_codec\<rparr>, re_now = \<lambda>_. 0, re_io = \<lambda>_. smooth, re_fault = \<lambda>_. None, re_cancelled = \<lambda>_. False,
     re_expired = \<lambda>_. False, re_stamp = \<lambda>_. ''now'', re_text = \<lambda>_. ''error'', re_sandboxes = \<lambda>_. Inl EInvalid,
     re_assignment = \<lambda>_. Inr ''assignment'', re_ticks = 0\<rparr>"

definition trial_world :: "bool list \<Rightarrow> bool list \<Rightarrow> nat \<Rightarrow> nat \<Rightarrow> (okind \<times> string) list rworld" where
  \<comment> \<open>in memory, on disk, launches, time\<close>
  "trial_world m d k t = \<lparr>rw_ledger = trial_ledger m, rw_dir = (\<lambda>_. Missing)(''run.json'' := Regular (trial_bytes d)), rw_ext = [], rw_tick = t,
     rw_deletions = [], rw_launches = k, rw_trace = []\<rparr>"

lemma trial_env_simps [simp]:
  "w_ledger (re_wire trial_env) = trial_codec" "re_now trial_env t = 0" "re_io trial_env t = smooth" "re_fault trial_env t = None"
  "re_cancelled trial_env t = False" "re_text trial_env e = ''error''" "re_assignment trial_env a = Inr ''assignment''"
  by (simp_all add: trial_env_def)

lemma trial_stamp [simp]: "(trial_ledger [b0, b1, b2, b3, b4, b5, b6, b7])\<lparr>l_updated := 0\<rparr> = trial_ledger [b0, b1, b2, b3, b4, b5, b6, b7]"
  by simp

lemma sample_run_ok: "run_pattern sample_run"
  by (simp add: run_pattern_def sample_hex_n)

lemma trial_run: "i_run (l_identity (trial_ledger [b0, b1, b2, b3, b4, b5, b6, b7])) = sample_run"
  by (simp add: sample_identity_def)

lemma trial_save:
  "save trial_env (trial_world [b0, b1, b2, b3, b4, b5, b6, b7] d k t) =
     (Inr (), trial_world [b0, b1, b2, b3, b4, b5, b6, b7] [b0, b1, b2, b3, b4, b5, b6, b7] k (Suc t))"
  by (simp add: save_def save_ledger_def ledger_bytes_def trial_world_def Let_def trial_stamp trial_enc trial_run sample_run_ok to_res_def
      trial_bytes_def del: trial_ledger.simps)

lemma trial_fields [simp]:
  "l_token (trial_ledger [b0, b1, b2, b3, b4, b5, b6, b7]) = sample_run"
  "l_cluster_uid (trial_ledger [b0, b1, b2, b3, b4, b5, b6, b7]) = pick b0 ''cluster''"
  "l_runner_uid (trial_ledger [b0, b1, b2, b3, b4, b5, b6, b7]) = pick b1 ''runner''"
  "l_resource_uid (trial_ledger [b0, b1, b2, b3, b4, b5, b6, b7]) = pick b2 ''resource''"
  "l_stage_uid (trial_ledger [b0, b1, b2, b3, b4, b5, b6, b7]) = pick b3 ''stage''"
  "l_role_uid (trial_ledger [b0, b1, b2, b3, b4, b5, b6, b7]) = pick b4 ''role''"
  "l_binding_uid (trial_ledger [b0, b1, b2, b3, b4, b5, b6, b7]) = pick b5 ''rolebinding''"
  "l_launch_attempted (trial_ledger [b0, b1, b2, b3, b4, b5, b6, b7]) = b6"
  "l_resource_ns (trial_ledger [b0, b1, b2, b3, b4, b5, b6, b7]) = ''proof-'' @ sample_run"
  "l_runner_ns (trial_ledger [b0, b1, b2, b3, b4, b5, b6, b7]) = ''proof-runner-'' @ sample_run"
  by simp_all

lemma trial_updates [simp]:
  "(trial_ledger [b0, b1, b2, b3, b4, b5, b6, b7])\<lparr>l_cluster_uid := ''cluster''\<rparr> = trial_ledger [True, b1, b2, b3, b4, b5, b6, b7]"
  "(trial_ledger [b0, b1, b2, b3, b4, b5, b6, b7])\<lparr>l_runner_uid := ''runner''\<rparr> = trial_ledger [b0, True, b2, b3, b4, b5, b6, b7]"
  "(trial_ledger [b0, b1, b2, b3, b4, b5, b6, b7])\<lparr>l_resource_uid := ''resource''\<rparr> = trial_ledger [b0, b1, True, b3, b4, b5, b6, b7]"
  "(trial_ledger [b0, b1, b2, b3, b4, b5, b6, b7])\<lparr>l_stage_uid := ''stage''\<rparr> = trial_ledger [b0, b1, b2, True, b4, b5, b6, b7]"
  "(trial_ledger [b0, b1, b2, b3, b4, b5, b6, b7])\<lparr>l_role_uid := ''role''\<rparr> = trial_ledger [b0, b1, b2, b3, True, b5, b6, b7]"
  "(trial_ledger [b0, b1, b2, b3, b4, b5, b6, b7])\<lparr>l_binding_uid := ''rolebinding''\<rparr> = trial_ledger [b0, b1, b2, b3, b4, True, b6, b7]"
  "(trial_ledger [b0, b1, b2, b3, b4, b5, b6, b7])\<lparr>l_phase := ''launching'', l_launch_attempted := True\<rparr> = trial_ledger [b0, b1, b2, b3, b4, b5, True, b7]"
  "problem ''provisioning-incomplete'' (Some ''error'') (trial_ledger [b0, b1, b2, b3, b4, b5, b6, False]) = trial_ledger [b0, b1, b2, b3, b4, b5, b6, True]"
  by (simp_all add: pick_def problem_def Let_def) code_simp

declare trial_ledger.simps [simp del]

lemma pick_simps [simp]: "pick True s = s" "pick False s = []"
  by (simp_all add: pick_def)

lemma trial_world_simps [simp]:
  "rw_ledger (trial_world m d k t) = trial_ledger m" "rw_ext (trial_world m d k t) = []" "rw_tick (trial_world m d k t) = t"
  "(trial_world m d k t)\<lparr>rw_ledger := trial_ledger m'\<rparr> = trial_world m' d k t" "(trial_world m d k t)\<lparr>rw_tick := t'\<rparr> = trial_world m d k t'"
  "(trial_world m d k t)\<lparr>rw_ext := []\<rparr> = trial_world m d k t" "(trial_world m d k t)\<lparr>rw_launches := k'\<rparr> = trial_world m d k' t"
  "rw_launches (trial_world m d k t) = k" "rw_dir (trial_world m d k t) ''cancel.requested'' = Missing"
  by (simp_all add: trial_world_def)

lemma trial_api: "api m (trial_world b d k t) = (case m [] of (r, x) \<Rightarrow> (r, (trial_world b d k t)\<lparr>rw_ext := x\<rparr>))"
  by (simp add: lens_io_def)

lemma trial_claims:
  "claim_namespace sample_cluster trial_env Runner_slot (trial_world [True, False, False, b3, b4, b5, b6, b7] d k t) =
     (Inr (), trial_world [True, True, False, b3, b4, b5, b6, b7] [True, True, False, b3, b4, b5, b6, b7] k (Suc t))"
  "claim_namespace sample_cluster trial_env Resource_slot (trial_world [True, True, False, b3, b4, b5, b6, b7] d k t) =
     (Inr (), trial_world [True, True, True, b3, b4, b5, b6, b7] [True, True, True, b3, b4, b5, b6, b7] k (Suc t))"
  by (simp_all add: claim_namespace_def claim_uid_def led_def upd_def io_apply trial_api Let_def object_uid_def sample_not_kube owned_by_def trial_save)

lemma sample_addresses: "parse_ip ''10.96.0.1'' = Some True" "parse_ip ''172.18.0.2'' = Some True"
  by code_simp+

lemma trial_isolates:
  "isolate_namespace sample_cluster s (trial_world [b0, b1, b2, b3, b4, b5, b6, b7] d k t) = (Inr (), trial_world [b0, b1, b2, b3, b4, b5, b6, b7] d k t)"
  by (simp add: isolate_namespace_def create_or_keep_def api_egress_def led_def io_apply trial_api Let_def sample_addresses)

lemma trial_stages:
  "provision_stage sample_cluster trial_env (trial_world [b0, b1, b2, False, b4, b5, b6, b7] d k t) =
     (Inr (), trial_world [b0, b1, b2, True, b4, b5, b6, b7] [b0, b1, b2, True, b4, b5, b6, b7] k (Suc t))"
  "provision_roles sample_cluster trial_env (trial_world [b0, b1, b2, b3, False, False, b6, b7] d k t) =
     (Inr (), trial_world [b0, b1, b2, b3, True, True, b6, b7] [b0, b1, b2, b3, True, True, b6, b7] k (Suc t))"
  "provision_assignment sample_cluster trial_env (trial_world [b0, b1, b2, b3, b4, b5, b6, b7] d k t) =
     (Inr (), trial_world [b0, b1, b2, b3, b4, b5, b6, b7] d k t)"
  by (simp_all add: provision_stage_def provision_roles_def provision_assignment_def create_or_keep_def create_or_get_def claim_uid_def led_def upd_def
      io_apply trial_api Let_def trial_save)

abbreviation "trial_new \<equiv> [False, False, False, False, False, False, False, False]"
abbreviation "trial_sent \<equiv> [True, True, True, True, True, True, True, False]"
abbreviation "trial_end \<equiv> [True, True, True, True, True, True, True, True]"

lemma trial_prepared:
  "prepare_run sample_cluster trial_env (trial_world trial_new d k t) =
     (Inr (), trial_world [True, True, True, True, True, True, False, False] [True, True, True, True, True, True, False, False] k (Suc (Suc (Suc (Suc (Suc t))))))"
  by (simp add: prepare_run_def claim_uid_def led_def upd_def io_apply trial_api object_uid_def trial_save trial_claims trial_isolates trial_stages)

lemma trial_launched:
  "launch sample_cluster trial_env (trial_world [True, True, True, True, True, True, False, False] d k t) =
     (Inl (EExt ''timeout''), trial_world trial_sent trial_sent (Suc k) (t + 2))"
  by (simp add: launch_def stat_file_def sys_def at_tick_def led_def upd_def io_apply trial_api launch_job_def intend_launch_def trial_save count_launch_def
      create_job_def create_or_get_def run_job_def to_res_def)

definition trial_publish :: publish_io where
  "trial_publish = \<lparr>p_mkdir = True, p_file = smooth, p_rename = True, p_sync = True\<rparr>"

lemma trial_token: "\<exists>s. new_state (sample_identity\<lparr>i_provider := ''local'', i_run := ''pending''\<rparr>) (Inr (replicate 16 170)) 0 = Inr s \<and>
   initial_ledger s (sample_identity\<lparr>i_provider := ''local'', i_run := s_token s\<rparr>) sample_image [''true''] 60000000000 0 = trial_ledger trial_new"
proof -
  have i: "identity_validate (sample_identity\<lparr>i_provider := ''local'', i_run := ''pending''\<rparr>) = None" by code_simp
  have h: "hex_bytes (replicate 16 170) = sample_run" by code_simp
  have j: "sample_identity\<lparr>i_provider := ''local'', i_run := sample_run\<rparr> = sample_identity" by (simp add: sample_identity_def)
  show ?thesis using i h by (simp add: new_state_def initial_ledger_def j trial_ledger.simps pick_def)
qed

definition blank_world :: "nat \<Rightarrow> (okind \<times> string) list rworld" where
  "blank_world t = (trial_world trial_new [] 0 t)\<lparr>rw_dir := \<lambda>_. Missing\<rparr>"

lemma blank_simps [simp]:
  "rw_tick (blank_world t) = t" "(blank_world t)\<lparr>rw_tick := u\<rparr> = blank_world u" "rw_ext (blank_world t) = []" "rw_launches (blank_world t) = 0"
  "rw_deletions (blank_world t) = []"
  "(blank_world t)\<lparr>rw_ext := []\<rparr> = blank_world t" "rw_ledger (blank_world t) = trial_ledger trial_new"
  "(blank_world t)\<lparr>rw_ledger := trial_ledger trial_new\<rparr> = blank_world t"
  by (simp_all add: blank_world_def trial_world_def)

lemma blank_published: "publish_run trial_env trial_publish (blank_world t) = (Inr (), trial_world trial_new trial_new 0 (Suc t))"
  by (simp add: publish_run_def publish_ledger_def ledger_bytes_def Let_def trial_run sample_run_ok trial_publish_def to_res_def blank_world_def
      trial_world_def trial_bytes_def)

lemma trial_provisioned: "provision sample_cluster trial_env (trial_world trial_new trial_new 0 t) =
    (Inl (EExt ''timeout''), trial_world trial_sent trial_sent 1 (Suc (Suc (Suc (Suc (Suc (Suc (Suc t))))))))"
  by (simp add: provision_def io_apply trial_prepared trial_launched)

lemma trial_starts: "\<exists>r t. start sample_cluster trial_env trial_publish (Inr []) (Inr (replicate 16 170)) (Inr ''[]'') sample_identity sample_image [''true'']
    60000000000 (blank_world 0) = (r, trial_world trial_end trial_end 1 t)"
proof -
  have a: "start_arguments sample_image [''true''] 60000000000 (Inr ''[]'') = None"
    by (simp add: start_arguments_def first_err_Cons check_def sample_image_def sample_hex_def)
  obtain s where s: "new_state (sample_identity\<lparr>i_provider := ''local'', i_run := ''pending''\<rparr>) (Inr (replicate 16 170)) 0 = Inr s"
    "initial_ledger s (sample_identity\<lparr>i_provider := ''local'', i_run := s_token s\<rparr>) sample_image [''true''] 60000000000 0 = trial_ledger trial_new"
    using trial_token by blast
  show ?thesis
    by (simp add: start_def io_apply a lens_io_def at_tick_def s upd_def to_res_def blank_published trial_provisioned abandon_def note_problem_def
        fail_saving_def trial_save, blast)
qed

lemma trial_lives: "\<exists>t. lives trial_codec (trial_world trial_end trial_end 1 t)"
proof -
  obtain r t where "start sample_cluster trial_env trial_publish (Inr []) (Inr (replicate 16 170)) (Inr ''[]'') sample_identity sample_image [''true'']
    60000000000 (blank_world 0) = (r, trial_world trial_end trial_end 1 t)" using trial_starts by blast
  from life[OF _ _ _ this later_now] show ?thesis by auto
qed

section \<open>A gate\<close>

definition gate_nonce :: string where
  "gate_nonce = sample_hex"

definition gate_ledger :: ledger where
  "gate_ledger = sample_pinned\<lparr>l_pod_uid := sample_uid, l_phase := ''running'', l_collector_request := None\<rparr>"

definition gate_pod :: kpod where
  "gate_pod = \<lparr>kp_name = ''job-abcde'', kp_namespace = ''proof-runner-'' @ sample_run, kp_meta = owned_meta sample_uid,
     kp_owners = [(''job'', ''Job'')], kp_host_network = False, kp_node = gate_node, kp_ip = ''10.244.0.5'',
     kp_init = [\<lparr>ks_name = ''network-gate'', ks_container = [], ks_image = [], ks_restarts = 0, ks_state = Running\<rparr>],
     kp_statuses = [\<lparr>ks_name = ''guard'', ks_container = [], ks_image = [], ks_restarts = 0, ks_state = Waiting\<rparr>], kp_phase = ''Pending''\<rparr>"

definition gate_wire :: wire where
  "gate_wire = sample_wire\<lparr>w_ledger := \<lparr>enc = \<lambda>_. Inr ''LEDGER'', dec = \<lambda>_. Inl EInvalid\<rparr>, w_result := \<lparr>enc = \<lambda>_. Inl EInvalid,
     dec = \<lambda>_. Inr (sample_result\<lparr>x_request := \<lparr>q_run = sample_run, q_pod = ''job-abcde'', q_uid = sample_uid, q_sandbox = sample_hex,
       q_binding = collector_binding sample_wire gate_ledger, q_seconds = 360\<rparr>\<rparr>)\<rparr>\<rparr>"

definition gate_env :: renv where
  "gate_env = disposal_env\<lparr>re_wire := gate_wire,
     re_sandboxes := \<lambda>_. Inr [(sample_hex, ''SANDBOX_READY'', ''job-abcde'', ''proof-runner-'' @ sample_run, sample_uid)]\<rparr>"

definition gate_cluster :: "(okind \<times> string) list capi" where
  "gate_cluster = sample_cluster\<lparr>ca_config := \<lambda>ns n. ret \<lparr>kc_meta = owned_meta n,
       kc_data = (if n = ''runner-gate'' then [(''ready'', ''false'')] else [(''nonce'', gate_nonce), (''pod_uid'', sample_uid)])\<rparr>,
     ca_run := \<lambda>_. ret ''ok'', ca_docker := \<lambda>_. ret ([''armed''], [], None)\<rparr>"

definition gate_world :: "(okind \<times> string) list rworld" where
  "gate_world = \<lparr>rw_ledger = gate_ledger, rw_dir = (\<lambda>_. Missing), rw_ext = [], rw_tick = 0, rw_deletions = [], rw_launches = 1, rw_trace = []\<rparr>"

lemma gate_request_ok: "request_validate (collector_request_of gate_env gate_ledger sample_hex) = None"
  by (simp add: request_validate_def collector_request_of_def gate_ledger_def sample_pinned_def sample_hex_n collector_binding_def check_def)

lemma gate_command: "collector_command gate_cluster (collector_request_of gate_env gate_ledger sample_hex) mode w = (Inr ''armed'', w)"
  by (simp add: collector_command_def gate_request_ok io_apply to_res_def gate_cluster_def lens_io_def Let_def max_logs_def)

lemma gate_env_simps:
  "re_wire gate_env = gate_wire" "re_io gate_env t = smooth" "re_now gate_env t = sample_end" "re_fault gate_env t = None"
  "dec (w_result gate_wire) b = Inr (sample_result\<lparr>x_request := collector_request_of gate_env gate_ledger sample_hex\<rparr>)"
  "enc (w_ledger gate_wire) l = Inr ''LEDGER''"
  by (simp_all add: gate_env_def disposal_env_def gate_wire_def collector_request_of_def gate_ledger_def sample_pinned_def collector_binding_def)

lemma gate_armed:
  assumes "rw_ledger w = gate_ledger"
  shows "\<exists>v. arm_collector gate_cluster gate_env sample_hex w = (Inr (), v) \<and>
    rw_trace v = rw_trace w @ [Collector_armed (collector_request_of gate_env gate_ledger sample_hex)]"
proof -
  let ?r = "collector_request_of gate_env gate_ledger sample_hex"
  have a: "armed_ok gate_env ?r b w = (Inr (), w\<lparr>rw_trace := rw_trace w @ [Collector_armed ?r]\<rparr>)" for b and w :: "(okind \<times> string) list rworld"
    by (simp add: armed_ok_def gate_env_simps io_apply trace_event_def) (simp add: sample_result_def sample_time_def)
  obtain v where s: "save gate_env (w\<lparr>rw_ledger := gate_ledger\<lparr>l_collector_request := Some ?r\<rparr>\<rparr>) = (Inr (), v)" "rw_ledger v = gate_ledger\<lparr>l_collector_request := Some ?r, l_updated := sample_end\<rparr>"
    "rw_trace v = rw_trace w" "rw_ext v = rw_ext w"
    by (simp add: save_def save_ledger_def ledger_bytes_def Let_def gate_env_simps to_res_def gate_ledger_def sample_pinned_def sample_identity_def sample_run_ok)
  have n: "l_collector_request gate_ledger = None" by (simp add: gate_ledger_def)
  show ?thesis
    using s by (simp add: arm_collector_def led_def upd_def io_apply Let_def assms gate_request_ok to_res_def n gate_command a)
qed

lemma gate_opens: "\<exists>w r. ensure_gate gate_cluster gate_env gate_pod gate_world = (Inr (), w) \<and>
   (\<exists>c d. rw_trace w = [c, d, Collector_armed r, Gate_released sample_uid gate_nonce])"
proof -
  have l: "l_token gate_ledger = sample_run" "l_runner_ns gate_ledger = ''proof-runner-'' @ sample_run" "l_pod_uid gate_ledger = sample_uid"
    "l_pod_name gate_ledger = ''job-abcde''"
    by (simp_all add: gate_ledger_def sample_pinned_def)
  have g: "ca_config gate_cluster ns n = ret \<lparr>kc_meta = owned_meta n,
       kc_data = (if n = ''runner-gate'' then [(''ready'', ''false'')] else [(''nonce'', gate_nonce), (''pod_uid'', sample_uid)])\<rparr>"
    "ca_run gate_cluster a = ret ''ok''" "ca_nodes gate_cluster = ca_nodes sample_cluster" "ca_service gate_cluster = ca_service sample_cluster"
    "ca_patch_gate gate_cluster ns u v m = ret ()" for ns n a u v m
    by (simp_all add: gate_cluster_def sample_cluster_def)
  have nonce: "gate_request_nonce \<lparr>kc_meta = owned_meta ''runner-gate-request'', kc_data = [(''nonce'', gate_nonce), (''pod_uid'', sample_uid)]\<rparr> gate_ledger = Inr gate_nonce"
    by (simp add: gate_request_nonce_def owned_by_def l Let_def gate_nonce_def sample_hex_n)
  have ne: "gate_nonce \<noteq> []" "sample_hex \<noteq> []" "sample_uid \<noteq> []" by (simp_all add: gate_nonce_def sample_hex_def sample_uid_def uuid_shape_def)
  have ip: "private_ip4 ''10.96.0.1'' = Some [10, 96, 0, 1]" "private_ip4 ''172.18.0.2'' = Some [172, 18, 0, 2]" "show_ip4 [172, 18, 0, 2] = ''172.18.0.2''"
    by code_simp+
  have box: "re_sandboxes gate_env b = Inr [(sample_hex, ''SANDBOX_READY'', ''job-abcde'', ''proof-runner-'' @ sample_run, sample_uid)]" for b
    by (simp add: gate_env_def)
  have pod: "pod_matches gate_ledger gate_pod" "\<not> workload_started gate_pod" "gate_waiting gate_pod"
    by (simp_all add: pod_matches_def l gate_pod_def ne sample_run_ok workload_started_def gate_waiting_def)
  have w: "rw_ledger gate_world = gate_ledger" "rw_trace gate_world = []" "rw_ext gate_world = []" "gate_world\<lparr>rw_ext := []\<rparr> = gate_world"
    by (simp_all add: gate_world_def)
  have p: "kp_name gate_pod = ''job-abcde''" "kp_meta gate_pod = owned_meta sample_uid" "\<not> kp_host_network gate_pod" "kp_node gate_pod = gate_node"
    "kp_ip gate_pod = ''10.244.0.5''" "gate_node \<noteq> []"
    by (simp_all add: gate_pod_def gate_node_def)
  have arm: "\<exists>v. arm_collector gate_cluster gate_env sample_hex (gate_world\<lparr>rw_trace := t\<rparr>) = (Inr (), v) \<and>
      rw_trace v = t @ [Collector_armed (collector_request_of gate_env gate_ledger sample_hex)]" for t
    using gate_armed[of "gate_world\<lparr>rw_trace := t\<rparr>"] by (auto simp: w)
  let ?c = "Node_command [''exec'', gate_node, ''/usr/local/bin/crictl'', ''--runtime-endpoint'', ''unix:///run/containerd/containerd.sock'',
             ''pods'', ''--namespace'', ''proof-runner-'' @ sample_run, ''--name'', ''job-abcde'', ''-o'', ''json'']"
  let ?d = "Node_command (netgate_args sample_hex sample_uid (''proof-runner-'' @ sample_run) (show_ip4 [10, 96, 0, 1]) ''172.18.0.2'')"
  obtain v where v: "arm_collector gate_cluster gate_env sample_hex (gate_world\<lparr>rw_trace := [?c, ?d]\<rparr>) = (Inr (), v)"
    "rw_trace v = [?c, ?d] @ [Collector_armed (collector_request_of gate_env gate_ledger sample_hex)]"
    using arm[of "[?c, ?d]"] by blast
  show ?thesis
    using v by (simp add: ensure_gate_def gate_body_def led_def io_apply lens_io_def Let_def l g nonce ne ip box pod owned_by_def open_gate_def w p
        find_sandbox_def gate_docker_def install_gate_def release_unless_changed_def release_gate_def trace_event_def sample_hex_n)
qed

end
