(* ===== verification/Operator.thy ===== *)
theory Operator
  imports Coordinator Watchdog
begin

text \<open>
  The operator of the recovery watchdog (cmd/watchdog): the backend with which a step of the watchdog
  resumes a run through the coordinator, restarts the finalizer and the delivery in containers, and asks
  for what they published; and the cycle over all runs. Docker and the JSON decoders are parameters.
\<close>

section \<open>Configuration\<close>

record operator_config =
  wc_root :: path
  wc_state :: path
  wc_finalizer_image :: string
  wc_api_image :: string
  wc_finalizer_config :: path
  wc_files :: "string gomap"

definition pinned_image :: "string \<Rightarrow> bool" where
  \<comment> \<open>the regular expression \<open>^sha256:[a-f0-9]{64}$\<close>\<close>
  "pinned_image s \<longleftrightarrow> has_prefix s ''sha256:'' \<and> hex_n 64 (drop 7 s)"

definition operator_validate :: "(path \<Rightarrow> node) \<Rightarrow> operator_config \<Rightarrow> gerr option" where
  "operator_validate files c =
     (if \<not> is_abs (wc_root c) \<or> \<not> is_abs (wc_state c) \<or> \<not> is_abs (wc_finalizer_config c) \<or> length (wc_files c) < 2
      then Some (EMsg ''invalid operator configuration'')
      else if \<not> list_all pinned_image [wc_api_image c, wc_finalizer_image c] then Some (EMsg ''image must be pinned'')
      else if \<not> list_all (\<lambda>(p, dg). case read_bounded (files p) 104857600 of Inl _ \<Rightarrow> False | Inr b \<Rightarrow> digest b = dg) (wc_files c)
      then Some (EMsg ''installed operator artifact changed'')
      else check (lookup_or [] (wc_files c) (wc_finalizer_config c) \<noteq> []) ''finalizer config must be pinned'')"

section \<open>The world of the operator\<close>

text \<open>
  \<open>recovery_view\<close> is what \<open>recoverybridge inspect\<close> prints (\<open>watchdog.Inspection\<close>). The backend is the one of a fixed
  run: its coordinator's world, the world of docker, and what \<open>Reconcile\<close> found. The log lists the
  arguments of the docker commands.
\<close>

record recovery_view =
  rv_receipt :: string
  rv_published :: bool
  rv_fin_status :: string
  rv_fin_stage :: string
  rv_fin_tries :: int
  rv_fin_due :: "time option"
  rv_del_status :: string
  rv_del_due :: "time option"

definition no_view :: recovery_view where
  "no_view = \<lparr>rv_receipt = [], rv_published = False, rv_fin_status = [], rv_fin_stage = [], rv_fin_tries = 0, rv_fin_due = None,
     rv_del_status = [], rv_del_due = None\<rparr>"

record ('x, 'y) oworld =
  ow_run :: "'x rworld"
  ow_ext :: 'y
  ow_tick :: nat
  ow_view :: recovery_view
  ow_view_err :: "gerr option"
  ow_log :: "string list list"

record ('x, 'y) oenv =
  oe_config :: operator_config
  oe_root :: path \<comment> \<open>\<open>Coordinator.Root\<close>\<close>
  oe_cluster :: "'x capi"
  oe_env :: "nat \<Rightarrow> renv" \<comment> \<open>the environment of the call made at that tick\<close>
  oe_docker :: "bytes option \<Rightarrow> string list \<Rightarrow> 'y \<Rightarrow> (bytes \<times> gerr option) \<times> 'y"
  oe_rand :: "nat \<Rightarrow> 8 word list"
  oe_now :: "nat \<Rightarrow> time"
  oe_decode :: "bytes \<Rightarrow> recovery_view \<times> gerr option" \<comment> \<open>\<open>json.Unmarshal\<close>, which may fill part of its target\<close>
  oe_report :: "report \<Rightarrow> bytes"
  oe_lenient :: "bytes \<Rightarrow> gerr + ledger"

definition otick :: "(nat \<Rightarrow> 'a) \<Rightarrow> (('x, 'y) oworld, 'a) io" where
  "otick f w = (Inr (f (ow_tick w)), w\<lparr>ow_tick := Suc (ow_tick w)\<rparr>)"

definition on_run :: "('x, 'y) oenv \<Rightarrow> (renv \<Rightarrow> ('x rworld, 'a) io) \<Rightarrow> (('x, 'y) oworld, 'a) io" where
  \<comment> \<open>a call of the coordinator, in an environment of its own\<close>
  "on_run B m = bind_io (otick (oe_env B)) (\<lambda>E. lens_io ow_run (\<lambda>x w. w\<lparr>ow_run := x\<rparr>) (m E))"

section \<open>Commands\<close>

definition labelled :: "string \<Rightarrow> string list \<Rightarrow> string list" where
  "labelled name args = (if args \<noteq> [] \<and> hd args = ''run''
     then [''run'', ''--name'', name, ''--label'', ''cleanup-receipt.watchdog=operator''] @ tl args else args)"

definition operator_command :: "('x, 'y) oenv \<Rightarrow> bytes option \<Rightarrow> string list \<Rightarrow> (('x, 'y) oworld, bytes) io" where
  \<comment> \<open>\<open>backend.command\<close>; its callers use the output of a command that succeeded only\<close>
  "operator_command B input args = bind_io (otick (oe_rand B)) (\<lambda>rand w.
     case oe_docker B input (labelled (''proof-watchdog-'' @ uuid_text rand) args) (ow_ext w) of ((out, err), y) \<Rightarrow>
       ((if length out > 2097152 then Inl (EMsg ''bounded output exceeded'') else case err of Some e \<Rightarrow> Inl e | None \<Rightarrow> Inr out),
        w\<lparr>ow_ext := y, ow_log := ow_log w @ [args]\<rparr>))"

definition container_args :: "string \<Rightarrow> string list" where
  "container_args memory = [''run'', ''--rm'', ''--pull=never'', ''--read-only'', ''--cap-drop=ALL'', ''--security-opt=no-new-privileges'',
     ''--user'', ''65532:65532'', ''--memory'', memory]"

definition mounts :: "string list \<Rightarrow> string list" where
  "mounts vs = concat (map (\<lambda>v. [''-v'', v]) vs)"

definition bridge_args :: "operator_config \<Rightarrow> string \<Rightarrow> string \<Rightarrow> bool \<Rightarrow> string list" where
  "bridge_args c mode key input = container_args ''128m'' @ [''--pids-limit'', ''32'', ''--network'', ''cleanup-receipt-api_delivery''] @
     mounts [''cleanup-receipt-api_auth:/run/auth:ro'', ''cleanup-receipt-finalizer_state:/finalizer:ro'',
       ''cleanup-receipt-finalizer_output:/input:ro'', ''cleanup-receipt-api_delivery:/delivery:ro''] @
     (if input then [''-i''] else []) @ [wc_api_image c, ''/usr/local/bin/recoverybridge'', mode] @ (if key \<noteq> [] then [key] else [])"

definition finalizer_args :: "operator_config \<Rightarrow> path \<Rightarrow> string \<Rightarrow> string list" where
  "finalizer_args c root run = container_args ''768m'' @ [''--cpus'', ''1'', ''--pids-limit'', ''64'', ''--tmpfs'',
     ''/tmp:rw,noexec,nosuid,size=384m,uid=65532,gid=65532,mode=700'', ''--network'', ''cleanup-receipt-archive'',
     ''--network'', ''cleanup-receipt-sigstore_sigstore'', ''-e'', ''GOMEMLIMIT=512MiB'', ''-e'', ''GOMAXPROCS=2''] @
     mounts [root @ '':/input:ro'', wc_finalizer_config c @ '':/config/finalizer.json:ro'', ''cleanup-receipt-archive_finalizer:/secrets/archive:ro'',
       ''cleanup-receipt-sigstore_finalizer-identity:/secrets/signing:ro'', ''cleanup-receipt-sigstore_sigstore-trust:/trust:ro'',
       ''cleanup-receipt-finalizer_state:/state'', ''cleanup-receipt-finalizer_output:/output''] @
     [wc_finalizer_image c, ''--config'', ''/config/finalizer.json'', ''--run'', run]"

definition deliver_args :: "operator_config \<Rightarrow> string \<Rightarrow> string list" where
  "deliver_args c key = container_args ''128m'' @ [''--pids-limit'', ''32'', ''--network'', ''cleanup-receipt-api_delivery''] @
     mounts [''cleanup-receipt-api_auth:/run/auth:ro'', ''cleanup-receipt-api_delivery:/delivery'', ''cleanup-receipt-finalizer_output:/input:ro''] @
     [wc_api_image c, ''/usr/local/bin/deliver'', ''/input/'' @ key @ ''/result.json'']"

text \<open>\<open>watchdog.Key\<close> of an identity, by which its files and containers are named, is the argument \<open>key\<close>.\<close>

definition operator_inspect :: "('x, 'y) oenv \<Rightarrow> string \<Rightarrow> (('x, 'y) oworld, recovery_view \<times> gerr option) io" where
  "operator_inspect B key = bind_io (catch_io (operator_command B None (bridge_args (oe_config B) ''inspect'' key False))) (\<lambda>q. case q of
     Inl e \<Rightarrow> ret (no_view, Some e) | Inr data \<Rightarrow> ret (oe_decode B data))"

definition operator_reconcile :: "('x, 'y) oenv \<Rightarrow> string \<Rightarrow> (('x, 'y) oworld, string) io" where
  "operator_reconcile B key = bind_io (operator_inspect B key) (\<lambda>(v, e).
     then_io (mod_io (\<lambda>w. w\<lparr>ow_view := v, ow_view_err := e\<rparr>)) (case e of None \<Rightarrow> ret (rv_receipt v) | Some x \<Rightarrow> throw x))"

definition operator_report :: "('x, 'y) oenv \<Rightarrow> report \<Rightarrow> (('x, 'y) oworld, unit) io" where
  "operator_report B r = (let r' = (if rp_status r = ''running'' then r\<lparr>rp_next := None\<rparr> else r) in
     then_io (operator_command B (Some (oe_report B r')) (bridge_args (oe_config B) ''report'' [] True)) (ret ()))"

section \<open>Recovery\<close>

definition failed_at :: "string \<Rightarrow> recovery_outcome" where
  "failed_at stage = \<lparr>ro_receipt = [], ro_stage = stage, ro_permanent = False, ro_exhausted = False, ro_not_before = None\<rparr>"

definition canonical_ledger :: "('x, 'y) oenv \<Rightarrow> wire \<Rightarrow> identity \<Rightarrow> bytes \<Rightarrow> bool" where
  "canonical_ledger B W ident data = (case oe_lenient B data of Inl _ \<Rightarrow> False | Inr l \<Rightarrow>
     \<not> (l_identity l \<noteq> ident \<or> l_phase l \<noteq> ''complete'') \<and> enc (w_ledger W) l = Inr data)"

definition validate_inputs :: "('x, 'y) oenv \<Rightarrow> wire \<Rightarrow> identity \<Rightarrow> dir \<Rightarrow> gerr option" where
  "validate_inputs B W ident d = (case read_bounded (d ''run.json'') 1048576 of Inl e \<Rightarrow> Some e | Inr ledger_data \<Rightarrow>
     (case read_bounded (d ''finalization-ready.json'') 16384 of Inl e \<Rightarrow> Some e | Inr ready \<Rightarrow>
     (case read_bounded (d ''observations.json'') 1048576 of Inl e \<Rightarrow> Some e | Inr observations \<Rightarrow>
       if \<not> canonical_ledger B W ident ledger_data \<or> validate_ready W ready ledger_data observations \<noteq> None then Some EInvalidInputs else None)))"

fun invalid_inputs :: "gerr \<Rightarrow> bool" where
  \<comment> \<open>\<open>errors.Is(e, errInvalidInputs)\<close>\<close>
  "invalid_inputs EInvalidInputs = True"
| "invalid_inputs (ETerminal e) = invalid_inputs e"
| "invalid_inputs (EJoin a b) = (invalid_inputs a \<or> invalid_inputs b)"
| "invalid_inputs e = False"

definition resume_run :: "('x, 'y) oenv \<Rightarrow> string \<Rightarrow> (('x, 'y) oworld, unit) io" where
  \<comment> \<open>from the test of the readiness marker to \<open>Collect\<close>\<close>
  "resume_run B run = bind_io (catch_io (on_run B (\<lambda>E. stat_file E ''finalization-ready.json''))) (\<lambda>q.
     bind_io (get_io (\<lambda>w. rw_ledger (ow_run w))) (\<lambda>l.
       if err_of q \<noteq> None \<or> l_phase l \<noteq> ''complete'' then
         then_io (if l_job_uid l = [] \<and> \<not> l_launch_attempted l then on_run B request_cancel_io else ret ())
           (on_run B (\<lambda>E. collect (oe_cluster B) E run))
       else ret ()))"

definition deliver_result :: "('x, 'y) oenv \<Rightarrow> string \<Rightarrow> (('x, 'y) oworld, recovery_outcome \<times> gerr option) io" where
  "deliver_result B key = bind_io (catch_io (operator_command B None (deliver_args (oe_config B) key))) (\<lambda>d.
     bind_io (operator_inspect B key) (\<lambda>(v, e).
       if e = None \<and> rv_receipt v \<noteq> [] then ret ((failed_at [])\<lparr>ro_receipt := rv_receipt v\<rparr>, None)
       else ret ((failed_at ''ingest'')\<lparr>ro_not_before := rv_del_due v, ro_exhausted := rv_del_status v = ''exhausted''\<rparr>,
         Some (case d of Inl x \<Rightarrow> x | Inr _ \<Rightarrow> EMsg ''verified receipt not yet visible''))))"

definition finalize_result :: "('x, 'y) oenv \<Rightarrow> string \<Rightarrow> string \<Rightarrow> (('x, 'y) oworld, recovery_outcome \<times> gerr option) io" where
  \<comment> \<open>from the validated inputs on\<close>
  "finalize_result B key run = bind_io (get_io ow_view_err) (\<lambda>ve. case ve of
     Some e \<Rightarrow> ret (failed_at ''archive'', Some e)
   | None \<Rightarrow> bind_io (get_io ow_view) (\<lambda>v.
       if rv_published v then deliver_result B key
       else if rv_fin_status v = ''exhausted'' then ret ((failed_at ''sign'')\<lparr>ro_exhausted := True\<rparr>, Some (EMsg ''finalizer exhausted''))
       else bind_io (otick (oe_now B)) (\<lambda>now.
         if (case rv_fin_due v of None \<Rightarrow> False | Some due \<Rightarrow> now < due)
         then ret ((failed_at ''sign'')\<lparr>ro_not_before := rv_fin_due v\<rparr>, Some (EMsg ''finalizer retry pending''))
         else bind_io (catch_io (operator_command B None (finalizer_args (oe_config B) (oe_root B) run))) (\<lambda>q. case q of
             Inr _ \<Rightarrow> deliver_result B key
           | Inl e \<Rightarrow> bind_io (operator_inspect B key) (\<lambda>(a, _).
               ret ((failed_at (if rv_fin_stage a = ''archive'' \<or> rv_fin_stage a = ''sign'' then rv_fin_stage a else ''sign''))
                 \<lparr>ro_not_before := rv_fin_due a, ro_exhausted := rv_fin_status a = ''exhausted''\<rparr>, Some e))))))"

definition operator_recover :: "('x, 'y) oenv \<Rightarrow> string \<Rightarrow> identity \<Rightarrow> (('x, 'y) oworld, recovery_outcome \<times> gerr option) io" where
  \<comment> \<open>\<open>backend.Recover\<close>\<close>
  "operator_recover B key ident = bind_io (catch_io (on_run B (\<lambda>E. load_io E (i_run ident)))) (\<lambda>q.
     bind_io (get_io (\<lambda>w. l_identity (rw_ledger (ow_run w)))) (\<lambda>found.
     if err_of q \<noteq> None \<or> found \<noteq> ident then ret ((failed_at ''collect'')\<lparr>ro_permanent := True\<rparr>, Some (EMsg ''ledger identity changed''))
     else bind_io (catch_io (resume_run B (i_run ident))) (\<lambda>p. case p of
         Inl e \<Rightarrow> ret (failed_at ''collect'', Some e)
       | Inr _ \<Rightarrow> bind_io (otick (oe_env B)) (\<lambda>E. bind_io (get_io (\<lambda>w. rw_dir (ow_run w))) (\<lambda>d.
           case validate_inputs B (re_wire E) ident d of
             Some e \<Rightarrow> ret ((failed_at ''collect'')\<lparr>ro_permanent := invalid_inputs e\<rparr>, Some e)
           | None \<Rightarrow> finalize_result B key (i_run ident))))))"

definition operator_backend :: "('x, 'y) oenv \<Rightarrow> (identity \<Rightarrow> string) \<Rightarrow> ('x, 'y) oworld backend" where
  "operator_backend B key = \<lparr>bk_reconcile = \<lambda>i. operator_reconcile B (key i),
     bk_recover = \<lambda>i w. (case operator_recover B (key i) i w of (Inr oe, w') \<Rightarrow> (oe, w') | (Inl e, w') \<Rightarrow> ((failed_at [], Some e), w')),
     bk_report = operator_report B\<rparr>"

section \<open>The cycle\<close>

definition orphan_id :: "string \<Rightarrow> bool" where
  \<comment> \<open>the regular expression \<open>^[a-f0-9]{12,64}$\<close>\<close>
  "orphan_id s \<longleftrightarrow> 12 \<le> length s \<and> length s \<le> 64 \<and> list_all lower_hex s"

fun due_runs :: "(nat \<Rightarrow> time) \<Rightarrow> string \<Rightarrow> (string \<times> bool \<times> (gerr + ledger)) list \<Rightarrow> nat \<Rightarrow> identity list" where
  \<comment> \<open>the loop over the entries of the root: name, whether it is a directory, its ledger\<close>
  "due_runs now only [] n = []"
| "due_runs now only ((name, dir, found) # es) n =
     (if \<not> dir \<or> \<not> run_pattern name \<or> (only \<noteq> [] \<and> name \<noteq> only) then due_runs now only es n
      else case found of
        Inl _ \<Rightarrow> due_runs now only es n
      | Inr l \<Rightarrow> (if now n - l_created l < l_timeout l * second + minute \<and> l_phase l \<noteq> ''complete'' then due_runs now only es (Suc n)
          else l_identity l # due_runs now only es (Suc n)))"

fun each_run :: "(identity \<Rightarrow> ('w, unit) io) \<Rightarrow> ('w \<Rightarrow> bool) \<Rightarrow> identity list \<Rightarrow> ('w, unit) io" where
  \<comment> \<open>the steps of a cycle, until its context ends; the outcome of a step is only printed\<close>
  "each_run step expired [] = ret ()"
| "each_run step expired (i # is) = bind_io (get_io expired) (\<lambda>x. if x then throw (EExt ''context'')
     else bind_io (catch_io (step i)) (\<lambda>_. each_run step expired is))"

end
