(* ===== verification/Recovery.thy ===== *)
theory Recovery
  imports Operator
begin

text \<open>
  Proofs about the operator of the watchdog: a recovery never launches a job, it hands validated inputs to
  the finalizer and the delivery only, and its outcomes are what the watchdog expects of a backend.
\<close>

section \<open>Recovery never launches a job\<close>

definition unlaunched :: "'x rworld \<Rightarrow> 'x rworld \<Rightarrow> bool" where
  "unlaunched w w' \<longleftrightarrow> rw_launches w' = rw_launches w"

interpretation unl: two_state unlaunched
  by unfold_locales (simp_all add: unlaunched_def)

lemma unl_steady: "keeps (steady E) m \<Longrightarrow> keeps unlaunched m"
  by (simp add: keeps_def steady_def shed_def unlaunched_def)

lemma unl_phase: "keeps unlaunched (set_phase p)" "keeps unlaunched (upd f)"
  by (simp_all add: set_phase_def upd_def unl.keeps_mod unlaunched_def)

lemmas unl_intros = unl.keeps_ret unl.keeps_throw unl.keeps_get unl.keeps_lift unl.keeps_require unl.keeps_bind unl.keeps_then
  unl.keeps_catch unl.keeps_if unl.keeps_sum unl.keeps_option unl_phase unl_steady[OF steady_api] unl_steady[OF steady_led]
  unl_steady[OF steady_save] unl_steady[OF steady_problem] unl_steady[OF steady_fail_saving]

lemma unl_ask: "keeps unlaunched (ask_delete K k name uid)"
  unfolding ask_delete_def by (intro unl_intros unl.keeps_mod) (simp add: unlaunched_def)

lemma unl_await: "keeps unlaunched (await_gone K E name uid n)"
proof (induction n)
  case 0
  show ?case unfolding await_gone.simps[of K E name uid 0] by (intro unl_intros) (simp add: unl.keeps_throw)
next
  case (Suc n)
  then show ?case unfolding await_gone.simps[of K E name uid "Suc n"] by (intro unl_intros) simp
qed

lemma unl_dispose: "keeps unlaunched (dispose K E)"
  unfolding dispose_def dispose_namespace_def dispose_rbac_def delete_namespace_def
  by (intro unl_intros unl_ask unl_await unl_steady[OF steady_recover])

lemma unl_disposal: "keeps unlaunched (finish_disposal K E)"
  unfolding finish_disposal_def by (intro unl_intros unl_dispose unl_steady[OF steady_publish])

lemma unl_collection: "keeps unlaunched (finish_collection K E)"
  unfolding finish_collection_def
  by (intro unl_intros unl_disposal unl_steady[OF steady_stage_step] unl_steady[OF steady_logs_step])

lemma unl_monitor: "keeps unlaunched (monitor K E)"
  unfolding monitor_def by (intro unl_intros unl_collection unl_steady[OF steady_loop])

lemma unl_claim: "keeps unlaunched (claim_uid fld put u e further)"
  by (auto simp: keeps_def claim_uid_def led_def upd_def io_apply unlaunched_def)

lemma unl_resume:
  assumes "l_launch_attempted (rw_ledger w) \<or> l_cancel (rw_ledger w)"
  shows "unlaunched w (snd (resume_job K E w))"
  unfolding resume_job_def
proof (rule unl.at_bind)
  show "unlaunched w (snd (led id w))" by (simp add: led_def io_apply unlaunched_def)
next
  fix l t assume "led id w = (Inr l, t)"
  then have l: "l_launch_attempted l \<or> l_cancel l" using assms by (auto simp: led_def io_apply)
  show "unlaunched t (snd (bind_io (catch_io (api (ca_job K (l_runner_ns l)))) (\<lambda>q. case q of
       Inr job \<Rightarrow>
         then_io (require (km_uid (kj_meta job) \<noteq> [] \<and> owned_by l (kj_meta job)) (EMsg ''job ownership mismatch''))
         (then_io (claim_uid l_job_uid (\<lambda>u l. l\<lparr>l_job_uid := u\<rparr>) (km_uid (kj_meta job)) EInvalid (True, EInvalid)) (then_io (set_phase ''running'') (then_io (save E) (ret True))))
     | Inl e \<Rightarrow>
         if \<not> not_found e then throw e
         else if l_launch_attempted l \<or> l_cancel l then
           then_io (note_problem E (if l_launch_attempted l then ''runner-launch-ambiguous'' else ''cancelled-before-launch'') None)
           (then_io (set_phase ''collecting'') (then_io (save E) (then_io (finish_collection K E) (ret False))))
         else bind_io (catch_io (provision K E)) (\<lambda>p. case p of Inl e' \<Rightarrow> abandon E e' | Inr _ \<Rightarrow> ret True)) t))"
    unfolding if_P[OF l] by (rule unl.at_keeps) (intro unl_intros unl_collection unl_claim)
qed

text \<open>A run that must not be launched: a launch was attempted, a job is known, or the cancellation is on disk.\<close>

definition barred :: "ledger \<Rightarrow> dir \<Rightarrow> bool" where
  "barred l d \<longleftrightarrow> l_job_uid l \<noteq> [] \<or> l_launch_attempted l \<or> d ''cancel.requested'' \<noteq> Missing"

definition honest_faults :: "renv \<Rightarrow> bool" where
  \<comment> \<open>a failing system call does not say that the file does not exist\<close>
  "honest_faults E \<longleftrightarrow> (\<forall>n. re_fault E n \<noteq> Some ENotExist)"

lemma cancel_noted:
  assumes "honest_faults E" "note_cancel_file E w = (Inr u, w')" "rw_dir w ''cancel.requested'' \<noteq> Missing"
  shows "l_cancel (rw_ledger w')"
  using assms
  by (auto simp: note_cancel_file_def stat_file_def sys_def at_tick_def io_apply upd_def honest_faults_def to_res_def split: prod.splits option.splits if_splits)

lemma cancel_frame: "snd (note_cancel_file E w) = w\<lparr>rw_ledger := rw_ledger (snd (note_cancel_file E w)), rw_tick := Suc (rw_tick w)\<rparr> \<and>
   l_launch_attempted (rw_ledger (snd (note_cancel_file E w))) = l_launch_attempted (rw_ledger w)"
  by (auto simp: note_cancel_file_def stat_file_def sys_def at_tick_def io_apply upd_def to_res_def split: prod.splits option.splits)

lemma unl_cancel: "keeps unlaunched (note_cancel_file E)"
  unfolding keeps_def unlaunched_def using cancel_frame by (metis rworld.surjective rworld.update_convs(1,4) rworld.select_convs(6))

definition held :: "'x rworld \<Rightarrow> 'x rworld \<Rightarrow> bool" where
  "held w w' \<longleftrightarrow> rw_launches w' = rw_launches w \<and> l_launch_attempted (rw_ledger w') = l_launch_attempted (rw_ledger w) \<and>
     rw_dir w' ''cancel.requested'' = rw_dir w ''cancel.requested''"

interpretation hld: two_state held
  by unfold_locales (simp_all add: held_def)

lemma held_save: "keeps held (save E)"
proof (rule hld.keepsI)
  fix w :: "'a rworld"
  obtain r w' where s: "save E w = (r, w')" by fastforce
  show "held w (snd (save E w))" using save_frame[OF s] save_cases(2)[OF s] s by (auto simp: held_def)
qed

lemma held_api: "keeps held (api m)"
  by (auto simp: keeps_def lens_io_def held_def split: prod.split)

lemma held_cluster: "keeps held (claim_uid l_cluster_uid (\<lambda>u l. l\<lparr>l_cluster_uid := u\<rparr>) u e further)"
  by (auto simp: keeps_def claim_uid_def led_def upd_def io_apply held_def)

lemma active_unlaunched:
  assumes "l_job_uid l \<noteq> [] \<or> l_launch_attempted (rw_ledger w) \<or> l_cancel (rw_ledger w)"
  shows "unlaunched w (snd (collect_active K E l w))"
proof -
  have f: "keeps unlaunched (if follow then monitor K E else ret ())" for follow by (intro unl_intros unl_monitor)
  have "unlaunched w (snd ((if l_job_uid l = [] then resume_job K E else ret True) w))"
    using assms unl_resume[of w K E] by (simp add: io_apply unl.refl_R)
  then have "unlaunched w (snd (bind_io (if l_job_uid l = [] then resume_job K E else ret True) (\<lambda>follow. if follow then monitor K E else ret ()) w))"
    by (rule unl.at_bind[OF _ unl.at_keeps[OF f]])
  then show ?thesis
    unfolding collect_active_def
    by (cases "l_phase l = ''disposing''"; cases "l_phase l = ''collecting''")
      (simp_all add: unl.at_keeps[OF unl_disposal] unl.at_keeps[OF unl_collection] split del: if_split)
qed

lemma loaded_unlaunched:
  assumes "honest_faults E" "barred (rw_ledger w) (rw_dir w)"
  shows "unlaunched w (snd (collect_loaded K E w))"
  unfolding collect_loaded_def
proof (rule unl.at_bind)
  show "unlaunched w (snd (led id w))" by (simp add: led_def io_apply unl.refl_R)
next
  fix l t assume "led id w = (Inr l, t)"
  then have l: "l = rw_ledger w" "t = w" by (auto simp: led_def io_apply)
  let ?rest = "bind_io (api (ca_get K Namespaces ''kube-system'')) (\<lambda>cluster.
       then_io (claim_uid l_cluster_uid (\<lambda>u l. l\<lparr>l_cluster_uid := u\<rparr>) (km_uid cluster) (EMsg ''cluster identity changed'') (True, EInvalid))
       (then_io (if l_cluster_uid l = [] then save E else ret ())
       (then_io (note_cancel_file E)
         (collect_active K E l))))"
  have "unlaunched w (snd (?rest w))"
  proof (rule unl.at_bind[OF unl.at_keeps[OF unl_steady[OF steady_api]]])
    fix c w1 assume 1: "api (ca_get K Namespaces ''kube-system'') w = (Inr c, w1)"
    show "unlaunched w1 (snd (then_io (claim_uid l_cluster_uid (\<lambda>u l. l\<lparr>l_cluster_uid := u\<rparr>) (km_uid c) (EMsg ''cluster identity changed'') (True, EInvalid))
       (then_io (if l_cluster_uid l = [] then save E else ret ()) (then_io (note_cancel_file E) (collect_active K E l))) w1))"
    proof (rule unl.at_then[OF unl.at_keeps[OF unl_claim]])
      fix u2 w2 assume 2: "claim_uid l_cluster_uid (\<lambda>u l. l\<lparr>l_cluster_uid := u\<rparr>) (km_uid c) (EMsg ''cluster identity changed'') (True, EInvalid) w1 = (Inr u2, w2)"
      show "unlaunched w2 (snd (then_io (if l_cluster_uid l = [] then save E else ret ()) (then_io (note_cancel_file E) (collect_active K E l)) w2))"
      proof (rule unl.at_then[OF unl.at_keeps], intro unl_intros)
        fix u3 w3 assume 3: "(if l_cluster_uid l = [] then save E else ret ()) w2 = (Inr u3, w3)"
        have k: "keeps held (if l_cluster_uid l = [] then save E else ret ())" by (intro hld.keeps_if held_save hld.keeps_ret)
        have h: "held w w3"
          by (rule hld.trans_R[OF hld.keepsD[OF held_api 1] hld.trans_R[OF hld.keepsD[OF held_cluster 2] hld.keepsD[OF k 3]]])
        show "unlaunched w3 (snd (then_io (note_cancel_file E) (collect_active K E l) w3))"
        proof (rule unl.at_then[OF unl.at_keeps[OF unl_cancel]])
          fix u4 w4 assume 4: "note_cancel_file E w3 = (Inr u4, w4)"
          have "l_launch_attempted (rw_ledger w4) = l_launch_attempted (rw_ledger w3)" using cancel_frame[of E w3] 4 by simp
          moreover have "rw_dir w ''cancel.requested'' \<noteq> Missing \<Longrightarrow> l_cancel (rw_ledger w4)"
            using cancel_noted[OF assms(1) 4] h by (simp add: held_def)
          ultimately show "unlaunched w4 (snd (collect_active K E l w4))"
            using assms(2) h l(1) by (intro active_unlaunched) (auto simp: barred_def held_def)
        qed
      qed
    qed
  qed
  with l show "unlaunched t (snd ((if l_phase l = ''complete'' then publish_now E else ?rest) t))"
    by (simp add: unl.at_keeps[OF unl_steady[OF steady_publish]])
qed

lemma collect_unlaunched:
  assumes "honest_faults E" "\<And>v. load_io E run w = (Inr (), v) \<Longrightarrow> barred (rw_ledger v) (rw_dir v)"
  shows "unlaunched w (snd (collect K E run w))"
  unfolding collect_def
proof (rule unl.at_then)
  show "unlaunched w (snd (load_io E run w))" by (simp add: load_io_def unlaunched_def split: sum.split)
next
  fix x t assume "load_io E run w = (Inr x, t)"
  with assms(1) assms(2)[of t] loaded_unlaunched[of E t K] show "unlaunched t (snd (collect_loaded K E t))" by simp
qed

section \<open>The operator\<close>

definition run_kept :: "('x, 'y) oworld \<Rightarrow> ('x, 'y) oworld \<Rightarrow> bool" where
  "run_kept w w' \<longleftrightarrow> unlaunched (ow_run w) (ow_run w')"

interpretation rkp: two_state run_kept
  by unfold_locales (simp_all add: run_kept_def unlaunched_def)

definition operator_sound :: "('x, 'y) oenv \<Rightarrow> ledger codec \<Rightarrow> bool" where
  \<comment> \<open>every environment reads ledgers in the same format, and its faults are honest\<close>
  "operator_sound B C \<longleftrightarrow> (\<forall>n. honest_faults (oe_env B n) \<and> w_ledger (re_wire (oe_env B n)) = C)"

lemma kept_otick: "keeps run_kept (otick f)"
  by (simp add: keeps_def otick_def run_kept_def unlaunched_def)

lemma kept_on_run: "(\<And>E. keeps unlaunched (m E)) \<Longrightarrow> keeps run_kept (on_run B m)"
proof -
  assume m: "\<And>E. keeps unlaunched (m E)"
  have "keeps run_kept (lens_io ow_run (\<lambda>x w. w\<lparr>ow_run := x\<rparr>) (m E))" for E
    using unl.keepsD[OF m] by (auto simp: keeps_def lens_io_def run_kept_def split: prod.split)
  then show ?thesis unfolding on_run_def by (intro rkp.keeps_bind kept_otick)
qed

lemma kept_command: "keeps run_kept (operator_command B input args)"
  unfolding operator_command_def
  by (intro rkp.keeps_bind kept_otick) (auto simp: keeps_def run_kept_def unlaunched_def split: prod.split)

lemmas kept_intros = rkp.keeps_ret rkp.keeps_throw rkp.keeps_get rkp.keeps_lift rkp.keeps_require rkp.keeps_bind rkp.keeps_then
  rkp.keeps_catch rkp.keeps_if rkp.keeps_sum rkp.keeps_option kept_otick kept_command

lemma kept_inspect: "keeps run_kept (operator_inspect B key)"
  unfolding operator_inspect_def by (intro kept_intros)

lemma kept_reconcile: "keeps run_kept (operator_reconcile B key)"
  unfolding operator_reconcile_def split_beta
  by (intro kept_intros kept_inspect rkp.keeps_mod) (simp add: run_kept_def unlaunched_def)

lemma kept_report: "keeps run_kept (operator_report B r)"
  unfolding operator_report_def Let_def by (intro kept_intros)

lemma kept_deliver: "keeps run_kept (deliver_result B key)"
  unfolding deliver_result_def split_beta by (intro kept_intros kept_inspect)

lemma kept_finalize: "keeps run_kept (finalize_result B key run)"
  unfolding finalize_result_def split_beta by (intro kept_intros kept_inspect kept_deliver)

lemma on_run_cases:
  assumes "on_run B m w = (r, w')"
  shows "\<exists>v. m (oe_env B (ow_tick w)) (ow_run w) = (r, v) \<and> w' = w\<lparr>ow_run := v, ow_tick := Suc (ow_tick w)\<rparr>"
  using assms by (auto simp: on_run_def otick_def io_apply lens_io_def split: prod.splits)

lemma stat_frame: "stat_file E name w = (r, v) \<Longrightarrow> rw_ledger v = rw_ledger w \<and> rw_dir v = rw_dir w \<and> rw_launches v = rw_launches w"
  by (auto simp: stat_file_def sys_def at_tick_def io_apply to_res_def split: prod.splits option.splits if_splits)

lemma request_barred:
  assumes "request_cancel_io E w = (Inr u, v)"
  shows "rw_dir v ''cancel.requested'' \<noteq> Missing" "rw_launches v = rw_launches w"
  using assms by (auto simp: request_cancel_io_def request_cancel_def dest: durable_None split: prod.splits sum.splits)

definition loaded :: "ledger codec \<Rightarrow> string \<Rightarrow> 'x rworld \<Rightarrow> bool" where
  "loaded C run w \<longleftrightarrow> load_ledger C run (rw_dir w) = Inr (rw_ledger w)"

lemma load_loaded: "load_io E run w = (Inr u, v) \<Longrightarrow> loaded (w_ledger (re_wire E)) run v \<and> rw_dir v = rw_dir w \<and> rw_launches v = rw_launches w"
  by (auto simp: load_io_def loaded_def split: sum.splits)

lemma collect_barred:
  assumes "operator_sound B C" "barred (rw_ledger (ow_run w)) (rw_dir (ow_run w))" "loaded C run (ow_run w) \<or> rw_dir (ow_run w) ''cancel.requested'' \<noteq> Missing"
  shows "run_kept w (snd (on_run B (\<lambda>E. collect (oe_cluster B) E run) w))"
proof -
  obtain r w' where w: "on_run B (\<lambda>E. collect (oe_cluster B) E run) w = (r, w')" by fastforce
  let ?E = "oe_env B (ow_tick w)"
  have E: "honest_faults ?E" "w_ledger (re_wire ?E) = C" using assms(1) by (simp_all add: operator_sound_def)
  obtain v where v: "collect (oe_cluster B) ?E run (ow_run w) = (r, v)" "w' = w\<lparr>ow_run := v, ow_tick := Suc (ow_tick w)\<rparr>"
    using on_run_cases[OF w] by blast
  have "barred (rw_ledger u) (rw_dir u)" if u: "load_io ?E run (ow_run w) = (Inr (), u)" for u
    using assms(2,3) u E(2) by (auto simp: load_io_def loaded_def barred_def split: sum.splits)
  from collect_unlaunched[OF E(1) this, where run = run and w = "ow_run w" and K = "oe_cluster B"] v w show ?thesis by (simp add: run_kept_def)
qed

lemma resume_kept:
  assumes "operator_sound B C" "loaded C run (ow_run w)"
  shows "run_kept w (snd (resume_run B run w))"
  unfolding resume_run_def
proof (rule rkp.at_bind)
  show "run_kept w (snd (catch_io (on_run B (\<lambda>E. stat_file E ''finalization-ready.json'')) w))"
    by (rule rkp.at_keeps) (intro kept_intros kept_on_run unl_steady[OF steady_stat])
next
  fix q w1 assume 1: "catch_io (on_run B (\<lambda>E. stat_file E ''finalization-ready.json'')) w = (Inr q, w1)"
  then obtain r where "on_run B (\<lambda>E. stat_file E ''finalization-ready.json'') w = (r, w1)" by (auto simp: io_apply split: prod.splits)
  from on_run_cases[OF this] have f: "rw_ledger (ow_run w1) = rw_ledger (ow_run w)" "rw_dir (ow_run w1) = rw_dir (ow_run w)"
    by (auto dest: stat_frame)
  then have l1: "loaded C run (ow_run w1)" using assms(2) by (simp add: loaded_def)
  let ?l = "rw_ledger (ow_run w1)"
  let ?cancel = "if l_job_uid ?l = [] \<and> \<not> l_launch_attempted ?l then on_run B request_cancel_io else ret ()"
  have "run_kept w1 (snd (then_io ?cancel (on_run B (\<lambda>E. collect (oe_cluster B) E run)) w1))"
  proof (rule rkp.at_then)
    show "run_kept w1 (snd (?cancel w1))" by (rule rkp.at_keeps) (intro kept_intros kept_on_run unl_steady[OF steady_request_cancel])
  next
    fix u w2 assume 2: "?cancel w1 = (Inr u, w2)"
    show "run_kept w2 (snd (on_run B (\<lambda>E. collect (oe_cluster B) E run) w2))"
    proof (cases "l_job_uid ?l = [] \<and> \<not> l_launch_attempted ?l")
      case True
      with 2 have "on_run B request_cancel_io w1 = (Inr u, w2)" by simp
      from on_run_cases[OF this] have "rw_dir (ow_run w2) ''cancel.requested'' \<noteq> Missing" by (auto dest: request_barred)
      then show ?thesis by (intro collect_barred[OF assms(1)]) (simp_all add: barred_def)
    next
      case False
      with 2 have "w2 = w1" by (auto simp: io_apply)
      with False l1 show ?thesis by (intro collect_barred[OF assms(1)]) (auto simp: barred_def)
    qed
  qed
  then show "run_kept w1 (snd (bind_io (get_io (\<lambda>w. rw_ledger (ow_run w))) (\<lambda>l.
       if err_of q \<noteq> None \<or> l_phase l \<noteq> ''complete'' then
         then_io (if l_job_uid l = [] \<and> \<not> l_launch_attempted l then on_run B request_cancel_io else ret ())
           (on_run B (\<lambda>E. collect (oe_cluster B) E run))
       else ret ()) w1))"
    by (simp add: io_apply(3,8) split del: if_split) (simp add: io_apply(1) rkp.refl_R)
qed

lemma recover_kept:
  assumes "operator_sound B C"
  shows "keeps run_kept (operator_recover B key ident)"
proof (rule rkp.keepsI)
  fix w :: "('a, 'b) oworld"
  show "run_kept w (snd (operator_recover B key ident w))"
    unfolding operator_recover_def
  proof (rule rkp.at_bind)
    show "run_kept w (snd (catch_io (on_run B (\<lambda>E. load_io E (i_run ident))) w))"
      by (rule rkp.at_keeps, intro kept_intros kept_on_run) (simp add: keeps_def load_io_def unlaunched_def split: sum.split)
  next
    fix q w1 assume 1: "catch_io (on_run B (\<lambda>E. load_io E (i_run ident))) w = (Inr q, w1)"
    then have o: "on_run B (\<lambda>E. load_io E (i_run ident)) w = (q, w1)" by (auto simp: io_apply split: prod.splits)
    have l: "loaded C (i_run ident) (ow_run w1)" if n: "err_of q = None"
    proof -
      obtain u where "q = Inr u" using n by (cases q) (auto simp: err_of_def)
      with on_run_cases[OF o] assms show ?thesis by (auto simp: operator_sound_def dest!: load_loaded)
    qed
    have r: "run_kept w1 (snd (bind_io (catch_io (resume_run B (i_run ident))) f w1))" if "err_of q = None" "\<And>p. keeps run_kept (f p)"
      for f :: "gerr + unit \<Rightarrow> (('a, 'b) oworld, recovery_outcome \<times> gerr option) io"
    proof (rule rkp.at_bind)
      show "run_kept w1 (snd (catch_io (resume_run B (i_run ident)) w1))"
        using resume_kept[OF assms l[OF that(1)]] by (simp add: io_apply split_beta)
      show "run_kept t (snd (f p t))" for p t by (rule rkp.at_keeps[OF that(2)])
    qed
    show "run_kept w1 (snd (bind_io (get_io (\<lambda>w. l_identity (rw_ledger (ow_run w)))) (\<lambda>found.
     if err_of q \<noteq> None \<or> found \<noteq> ident then ret ((failed_at ''collect'')\<lparr>ro_permanent := True\<rparr>, Some (EMsg ''ledger identity changed''))
     else bind_io (catch_io (resume_run B (i_run ident))) (\<lambda>p. case p of
         Inl e \<Rightarrow> ret (failed_at ''collect'', Some e)
       | Inr _ \<Rightarrow> bind_io (otick (oe_env B)) (\<lambda>E. bind_io (get_io (\<lambda>w. rw_dir (ow_run w))) (\<lambda>d.
           case validate_inputs B (re_wire E) ident d of
             Some e \<Rightarrow> ret ((failed_at ''collect'')\<lparr>ro_permanent := invalid_inputs e\<rparr>, Some e)
           | None \<Rightarrow> finalize_result B key (i_run ident))))) w1))"
    proof (rule rkp.at_bind[OF rkp.at_keeps[OF rkp.keeps_get]])
      fix found t assume "get_io (\<lambda>w. l_identity (rw_ledger (ow_run w))) w1 = (Inr found, t)"
      then have t: "t = w1" by (simp add: io_apply)
      show "run_kept t (snd ((if err_of q \<noteq> None \<or> found \<noteq> ident
         then ret ((failed_at ''collect'')\<lparr>ro_permanent := True\<rparr>, Some (EMsg ''ledger identity changed''))
         else bind_io (catch_io (resume_run B (i_run ident))) (\<lambda>p. case p of
             Inl e \<Rightarrow> ret (failed_at ''collect'', Some e)
           | Inr _ \<Rightarrow> bind_io (otick (oe_env B)) (\<lambda>E. bind_io (get_io (\<lambda>w. rw_dir (ow_run w))) (\<lambda>d.
               case validate_inputs B (re_wire E) ident d of
                 Some e \<Rightarrow> ret ((failed_at ''collect'')\<lparr>ro_permanent := invalid_inputs e\<rparr>, Some e)
               | None \<Rightarrow> finalize_result B key (i_run ident))))) t))"
      proof (cases "err_of q \<noteq> None \<or> found \<noteq> ident")
        case True
        then show ?thesis by (simp add: io_apply rkp.refl_R)
      next
        case False
        show ?thesis unfolding if_not_P[OF False] t
          by (rule r) (use False in \<open>auto intro!: kept_intros kept_finalize\<close>)
      qed
    qed
  qed
qed

text \<open>A step of the watchdog with this backend.\<close>

definition step_kept :: "('x, 'y) oworld wworld \<Rightarrow> ('x, 'y) oworld wworld \<Rightarrow> bool" where
  "step_kept w w' \<longleftrightarrow> run_kept (ww_ext w) (ww_ext w')"

interpretation stk: two_state step_kept
  by unfold_locales (simp add: step_kept_def rkp.refl_R, auto simp: step_kept_def intro: rkp.trans_R)

lemma step_wtick: "keeps step_kept (wtick f)"
  by (simp add: keeps_def wtick_def step_kept_def rkp.refl_R)

lemma step_wext: "keeps run_kept m \<Longrightarrow> keeps step_kept (wext m)"
  using rkp.keepsD[of m] by (auto simp: keeps_def[of step_kept] wext_def step_kept_def split: prod.split)

lemma step_load: "keeps step_kept (wload C E ident)"
  unfolding wload_def
  by (intro stk.keeps_then stk.keeps_lift stk.keeps_require)
    (auto intro!: stk.keepsI stk.at_bind stk.at_keeps[OF step_wtick] stk.at_keeps[OF stk.keeps_lift])

lemma step_save: "keeps step_kept (wsave C E s)"
  unfolding wsave_def Let_def
  by (intro stk.keeps_bind step_wtick stk.keeps_lift) (auto simp: keeps_def step_kept_def rkp.refl_R split: prod.split)

lemma step_history: "keeps step_kept (flush_history (operator_backend B key) rs)"
  by (induction rs) (auto simp: operator_backend_def intro!: stk.keeps_ret stk.keeps_bind stk.keeps_catch stk.keeps_sum step_wext kept_report)

lemma step_flush: "keeps step_kept (wflush (operator_backend B key) s)"
  unfolding wflush_def
  by (auto simp: operator_backend_def intro!: stk.keeps_ret stk.keeps_bind stk.keeps_catch stk.keeps_if step_wext kept_report step_history[unfolded operator_backend_def])

lemmas step_intros = stk.keeps_ret stk.keeps_throw stk.keeps_get stk.keeps_lift stk.keeps_require stk.keeps_bind stk.keeps_then
  stk.keeps_catch stk.keeps_if stk.keeps_sum stk.keeps_option step_wtick step_save step_flush step_load

lemma step_recover:
  assumes "operator_sound B C"
  shows "keeps step_kept (wext (\<lambda>x. case bk_recover (operator_backend B key) i x of (oe, x') \<Rightarrow> (Inr oe, x')))"
proof (rule step_wext, rule rkp.keepsI)
  fix w :: "('a, 'b) oworld"
  obtain r v where v: "operator_recover B (key i) i w = (r, v)" by fastforce
  have "run_kept w v" using rkp.keepsD[OF recover_kept[OF assms] v] .
  with v show "run_kept w (snd (case bk_recover (operator_backend B key) i w of (oe, x') \<Rightarrow> (Inr oe, x')))"
    by (auto simp: operator_backend_def split: sum.split)
qed

lemma step_attempt:
  assumes "operator_sound B C"
  shows "keeps step_kept (wattempt WC E (operator_backend B key) ident s)"
  unfolding wattempt_def wfinish_def
  by (intro step_intros step_recover[OF assms] step_wext) (auto simp: operator_backend_def kept_report intro!: step_intros)

lemma step_pending:
  assumes "operator_sound B C"
  shows "keeps step_kept (wpending WC E (operator_backend B key) ident s)"
  unfolding wpending_def by (intro step_intros step_attempt[OF assms])

lemma step_keeps:
  assumes "operator_sound B C"
  shows "keeps step_kept (wstep WC E (operator_backend B key) ident)"
proof -
  have "keeps step_kept (wext (bk_reconcile (operator_backend B key) ident))"
    by (rule step_wext) (simp add: operator_backend_def kept_reconcile)
  then show ?thesis unfolding wstep_def by (intro step_intros step_pending[OF assms])
qed

section \<open>What a recovery runs\<close>

text \<open>Calls of the coordinator run no command of the operator; the commands leave the run alone.\<close>

definition unlogged :: "('x, 'y) oworld \<Rightarrow> ('x, 'y) oworld \<Rightarrow> bool" where
  "unlogged w w' \<longleftrightarrow> ow_log w' = ow_log w"

interpretation ulg: two_state unlogged
  by unfold_locales (simp_all add: unlogged_def)

lemma unlogged_on_run: "keeps unlogged (on_run B m)"
  by (auto simp: keeps_def on_run_def otick_def io_apply lens_io_def unlogged_def split: prod.split)

lemma unlogged_resume: "keeps unlogged (resume_run B run)"
  unfolding resume_run_def
  by (intro ulg.keeps_bind ulg.keeps_then ulg.keeps_if ulg.keeps_catch ulg.keeps_get ulg.keeps_ret unlogged_on_run)

lemma command_cases:
  assumes "operator_command B input args w = (r, w')"
  shows "ow_log w' = ow_log w @ [args] \<and> ow_run w' = ow_run w"
  using assms by (auto simp: operator_command_def otick_def io_apply split: prod.splits)

lemma inspect_cases:
  assumes "operator_inspect B key w = (r, w')"
  shows "ow_log w' = ow_log w @ [bridge_args (oe_config B) ''inspect'' key False] \<and> ow_run w' = ow_run w \<and>
    (\<exists>v e. r = Inr (v, e) \<and> (v = no_view \<or> (\<exists>data. v = fst (oe_decode B data))))"
proof -
  obtain q w1 where c: "operator_command B None (bridge_args (oe_config B) ''inspect'' key False) w = (q, w1)" by fastforce
  with assms have "w' = w1" "\<exists>v e. r = Inr (v, e) \<and> (v = no_view \<or> (\<exists>data. v = fst (oe_decode B data)))"
    by (auto simp: operator_inspect_def io_apply split: sum.splits) (metis prod.collapse fst_conv)
  with command_cases[OF c] show ?thesis by simp
qed

text \<open>The outcomes that can occur, and what a successful one has run last.\<close>

definition final_commands :: "('x, 'y) oenv \<Rightarrow> string \<Rightarrow> string list list" where
  "final_commands B key = [deliver_args (oe_config B) key, bridge_args (oe_config B) ''inspect'' key False]"

definition fair_outcome :: "('x, 'y) oenv \<Rightarrow> string \<Rightarrow> recovery_outcome \<times> gerr option \<Rightarrow> string list list \<Rightarrow> bool" where
  "fair_outcome B key oe cs \<longleftrightarrow> (ro_stage (fst oe) = [] \<or> ro_stage (fst oe) \<in> set recovery_stages) \<and>
     (ro_receipt (fst oe) = [] \<or> (\<exists>data. ro_receipt (fst oe) = rv_receipt (fst (oe_decode B data)))) \<and>
     (snd oe = None \<longrightarrow> ro_receipt (fst oe) \<noteq> [] \<and> (\<exists>pre. cs = pre @ final_commands B key))"

lemma failed_fields [simp]: "ro_receipt (failed_at s) = []" "ro_stage (failed_at s) = s"
  by (simp_all add: failed_at_def)

lemma deliver_cases:
  assumes "deliver_result B key w = (r, w')"
  shows "ow_log w' = ow_log w @ final_commands B key \<and> ow_run w' = ow_run w \<and> (\<exists>oe. r = Inr oe \<and> (\<forall>pre. fair_outcome B key oe (pre @ final_commands B key)))"
proof -
  obtain d w1 where d: "operator_command B None (deliver_args (oe_config B) key) w = (d, w1)" by fastforce
  obtain q w2 where q: "operator_inspect B key w1 = (q, w2)" by fastforce
  from inspect_cases[OF q] obtain v e where v: "q = Inr (v, e)" "v = no_view \<or> (\<exists>data. v = fst (oe_decode B data))" by blast
  have r: "deliver_result B key w = (if e = None \<and> rv_receipt v \<noteq> [] then ret ((failed_at [])\<lparr>ro_receipt := rv_receipt v\<rparr>, None) w2
       else ret ((failed_at ''ingest'')\<lparr>ro_not_before := rv_del_due v, ro_exhausted := rv_del_status v = ''exhausted''\<rparr>,
         Some (case d of Inl x \<Rightarrow> x | Inr _ \<Rightarrow> EMsg ''verified receipt not yet visible'')) w2)"
    using d q v(1) by (simp add: deliver_result_def io_apply(7,8))
  have w2: "ow_log w2 = ow_log w @ final_commands B key" "ow_run w2 = ow_run w"
    using command_cases[OF d] inspect_cases[OF q] by (simp_all add: final_commands_def)
  show ?thesis
  proof (cases "e = None \<and> rv_receipt v \<noteq> []")
    case True
    then have "fair_outcome B key ((failed_at [])\<lparr>ro_receipt := rv_receipt v\<rparr>, None) (pre @ final_commands B key)" for pre
      using v(2) by (auto simp: fair_outcome_def no_view_def)
    with True r assms w2 show ?thesis by (auto simp: io_apply(1))
  next
    case False
    have "fair_outcome B key ((failed_at ''ingest'')\<lparr>ro_not_before := rv_del_due v, ro_exhausted := rv_del_status v = ''exhausted''\<rparr>, Some x) cs" for x cs
      by (simp add: fair_outcome_def recovery_stages_def)
    with False r assms w2 show ?thesis by (auto simp: io_apply(1))
  qed
qed

lemma fair_failure: "stage \<in> set recovery_stages \<Longrightarrow> ro_stage out = stage \<Longrightarrow> ro_receipt out = [] \<Longrightarrow> fair_outcome B key (out, Some e) cs"
  by (simp add: fair_outcome_def)

lemma finalize_cases:
  assumes "finalize_result B key run w = (r, w')"
  shows "\<exists>cs oe. ow_log w' = ow_log w @ cs \<and> ow_run w' = ow_run w \<and> r = Inr oe \<and> fair_outcome B key oe cs"
proof -
  have st: "''sign'' \<in> set recovery_stages" "''archive'' \<in> set recovery_stages" by (simp_all add: recovery_stages_def)
  have dl: ?thesis if "deliver_result B key v = (r, w')" "ow_log v = ow_log w @ pre" "ow_run v = ow_run w" for v pre
    using deliver_cases[OF that(1)] that(2,3) by auto
  show ?thesis
  proof (cases "ow_view_err w")
    case (Some e)
    with assms have "r = Inr (failed_at ''archive'', Some e)" "w' = w" by (auto simp: finalize_result_def io_apply)
    then show ?thesis using st by (auto simp: fair_outcome_def)
  next
    case None
    let ?v = "ow_view w"
    consider (published) "rv_published ?v" | (exhausted) "\<not> rv_published ?v" "rv_fin_status ?v = ''exhausted''"
      | (todo) "\<not> rv_published ?v" "rv_fin_status ?v \<noteq> ''exhausted''" by blast
    then show ?thesis
    proof cases
      case published
      with assms None have "deliver_result B key w = (r, w')" by (simp add: finalize_result_def io_apply(3,8))
      then show ?thesis by (rule dl[where pre = "[]"]) simp_all
    next
      case exhausted
      with assms None have "r = Inr ((failed_at ''sign'')\<lparr>ro_exhausted := True\<rparr>, Some (EMsg ''finalizer exhausted''))" "w' = w"
        by (auto simp: finalize_result_def io_apply)
      then show ?thesis using st by (auto intro!: fair_failure)
    next
      case todo
      let ?w = "w\<lparr>ow_tick := Suc (ow_tick w)\<rparr>"
      let ?due = "case rv_fin_due ?v of None \<Rightarrow> False | Some due \<Rightarrow> oe_now B (ow_tick w) < due"
      show ?thesis
      proof (cases ?due)
        case True
        with assms None todo have "r = Inr ((failed_at ''sign'')\<lparr>ro_not_before := rv_fin_due ?v\<rparr>, Some (EMsg ''finalizer retry pending''))" "w' = ?w"
          by (auto simp: finalize_result_def io_apply otick_def)
        then show ?thesis using st by (auto intro!: fair_failure)
      next
        case False
        obtain q v where q: "operator_command B None (finalizer_args (oe_config B) (oe_root B) run) ?w = (q, v)" by fastforce
        note c = command_cases[OF q]
        show ?thesis
        proof (cases q)
          case (Inr u)
          with assms None todo False q have "deliver_result B key v = (r, w')" by (simp add: finalize_result_def io_apply(3,7,8) otick_def)
          then show ?thesis by (rule dl) (use c in simp_all)
        next
          case (Inl e)
          obtain p u where p: "operator_inspect B key v = (p, u)" by fastforce
          from inspect_cases[OF p] obtain a x where a: "p = Inr (a, x)" by blast
          let ?stage = "if rv_fin_stage a = ''archive'' \<or> rv_fin_stage a = ''sign'' then rv_fin_stage a else ''sign''"
          have "r = Inr ((failed_at ?stage)\<lparr>ro_not_before := rv_fin_due a, ro_exhausted := rv_fin_status a = ''exhausted''\<rparr>, Some e)" "w' = u"
            using assms None todo False q Inl p a by (simp_all add: finalize_result_def io_apply(1,3,7,8) otick_def split: prod.splits)
          moreover have "?stage \<in> set recovery_stages" using st by auto
          then have "fair_outcome B key ((failed_at ?stage)\<lparr>ro_not_before := rv_fin_due a, ro_exhausted := rv_fin_status a = ''exhausted''\<rparr>, Some e) cs" for cs
            by (rule fair_failure) simp_all
          moreover have "ow_log u = ow_log w @ [finalizer_args (oe_config B) (oe_root B) run, bridge_args (oe_config B) ''inspect'' key False]"
            "ow_run u = ow_run w" using c inspect_cases[OF p] by simp_all
          ultimately show ?thesis by blast
        qed
      qed
    qed
  qed
qed

definition recovered :: "('x, 'y) oenv \<Rightarrow> wire \<Rightarrow> string \<Rightarrow> identity \<Rightarrow> ('x, 'y) oworld \<Rightarrow> gerr + recovery_outcome \<times> gerr option \<Rightarrow> ('x, 'y) oworld \<Rightarrow> bool" where
  "recovered B W key ident w r w' \<longleftrightarrow> (\<exists>cs oe. ow_log w' = ow_log w @ cs \<and> r = Inr oe \<and> fair_outcome B key oe cs \<and>
     (cs \<noteq> [] \<longrightarrow> validate_inputs B W ident (rw_dir (ow_run w')) = None))"

lemma recover_cases:
  assumes "operator_recover B key ident w = (r, w')" "\<forall>n. re_wire (oe_env B n) = W"
  shows "recovered B W key ident w r w'"
proof -
  have st: "''collect'' \<in> set recovery_stages" by (simp add: recovery_stages_def)
  have fail: "recovered B W key ident w (Inr (out, Some e)) v" if "ow_log v = ow_log w" "ro_stage out = ''collect''" "ro_receipt out = []" for v out e
    unfolding recovered_def using that st by (intro exI[of _ "[]"] exI[of _ "(out, Some e)"]) (auto intro: fair_failure)
  obtain q w1 where q: "on_run B (\<lambda>E. load_io E (i_run ident)) w = (q, w1)" by fastforce
  have l1: "ow_log w1 = ow_log w" using ulg.keepsD[OF unlogged_on_run q] by (simp add: unlogged_def)
  show ?thesis
  proof (cases "err_of q \<noteq> None \<or> l_identity (rw_ledger (ow_run w1)) \<noteq> ident")
    case True
    with assms(1) q have "r = Inr ((failed_at ''collect'')\<lparr>ro_permanent := True\<rparr>, Some (EMsg ''ledger identity changed''))" "w' = w1"
      by (auto simp: operator_recover_def io_apply(1,3,7,8))
    then show ?thesis using l1 by (auto intro!: fail)
  next
    case False
    obtain p w2 where p: "resume_run B (i_run ident) w1 = (p, w2)" by fastforce
    have l2: "ow_log w2 = ow_log w" using ulg.keepsD[OF unlogged_resume p] l1 by (simp add: unlogged_def)
    show ?thesis
    proof (cases p)
      case (Inl e)
      with assms(1) q False p have "r = Inr (failed_at ''collect'', Some e)" "w' = w2" by (auto simp: operator_recover_def io_apply(1,3,7,8))
      then show ?thesis using l2 by (auto intro!: fail)
    next
      case (Inr u)
      let ?w = "w2\<lparr>ow_tick := Suc (ow_tick w2)\<rparr>"
      show ?thesis
      proof (cases "validate_inputs B W ident (rw_dir (ow_run w2))")
        case (Some e)
        with assms q False p Inr have "r = Inr ((failed_at ''collect'')\<lparr>ro_permanent := invalid_inputs e\<rparr>, Some e)" "w' = ?w"
          by (auto simp: operator_recover_def io_apply(1,3,7,8) otick_def)
        then show ?thesis using l2 by (auto intro!: fail)
      next
        case None
        with assms q False p Inr have f: "finalize_result B key (i_run ident) ?w = (r, w')"
          by (simp add: operator_recover_def io_apply(1,3,7,8) otick_def)
        from finalize_cases[OF this] l2 None show ?thesis by (auto simp: recovered_def)
      qed
    qed
  qed
qed

lemma operator_sane:
  assumes "\<And>data. rv_receipt (fst (oe_decode B data)) = [] \<or> uuid_pattern (rv_receipt (fst (oe_decode B data)))" "\<forall>n. re_wire (oe_env B n) = W"
  shows "sane_backend (operator_backend B key)"
proof -
  have n: "rv_receipt no_view = []" by (simp add: no_view_def)
  have "rcpt = [] \<or> uuid_pattern rcpt" if c: "operator_reconcile B (key i) x = (Inr rcpt, x')" for i x rcpt x'
  proof -
    obtain q y where q: "operator_inspect B (key i) x = (q, y)" by fastforce
    from inspect_cases[OF q] obtain v e where v: "q = Inr (v, e)" "v = no_view \<or> (\<exists>data. v = fst (oe_decode B data))" by blast
    with c q have "rcpt = rv_receipt v" by (auto simp: operator_reconcile_def io_apply split: option.splits)
    then show ?thesis using v(2) assms(1) n by auto
  qed
  moreover have "(ro_receipt out = [] \<or> uuid_pattern (ro_receipt out)) \<and> (ro_stage out = [] \<or> ro_stage out \<in> set recovery_stages)"
    if c: "bk_recover (operator_backend B key) i x = ((out, e), x')" for i x out e x'
  proof -
    obtain r y where r: "operator_recover B (key i) i x = (r, y)" by fastforce
    from recover_cases[OF r assms(2)] obtain oe cs where oe: "r = Inr oe" "fair_outcome B (key i) oe cs" by (auto simp: recovered_def)
    then have "oe = (out, e)" using c r by (auto simp: operator_backend_def)
    with oe(2) have "ro_receipt out = [] \<or> (\<exists>data. ro_receipt out = rv_receipt (fst (oe_decode B data)))"
      "ro_stage out = [] \<or> ro_stage out \<in> set recovery_stages" by (simp_all add: fair_outcome_def)
    then show ?thesis using assms(1) by metis
  qed
  ultimately show ?thesis by (auto simp: sane_backend_def operator_backend_def)
qed

end
