(* ===== verification/Recovery_Sample.thy ===== *)
theory Recovery_Sample
  imports Rehearsal Recovery
begin

text \<open>
  Two recoveries: of a run that was never launched, and of a complete run whose result was not published.
\<close>

definition sample_operator :: "renv \<Rightarrow> ((okind \<times> string) list, nat) oenv" where
  \<comment> \<open>docker counts its calls; the receipt is there from the third one on\<close>
  "sample_operator E = \<lparr>oe_config = \<lparr>wc_root = ''/ci'', wc_state = ''/state'', wc_finalizer_image = ''sha256:'' @ sample_hex,
       wc_api_image = ''sha256:'' @ sample_hex, wc_finalizer_config = ''/finalizer.json'', wc_files = []\<rparr>,
     oe_root = ''/ci/.build/coordinator'', oe_cluster = sample_cluster, oe_env = \<lambda>_. E,
     oe_docker = \<lambda>input args n. ((if n \<ge> 2 then ''visible'' else [], None), Suc n), oe_rand = \<lambda>_. replicate 16 0, oe_now = \<lambda>_. sample_end,
     oe_decode = \<lambda>b. (if b = ''visible'' then no_view\<lparr>rv_receipt := sample_uid, rv_published := True\<rparr> else no_view, None),
     oe_report = \<lambda>_. ''report'', oe_lenient = \<lambda>b. dec (w_ledger (re_wire E)) b\<rparr>"

definition operator_world :: "'x rworld \<Rightarrow> ('x, nat) oworld" where
  "operator_world w = \<lparr>ow_run = w, ow_ext = 0, ow_tick = 0, ow_view = no_view, ow_view_err = None, ow_log = []\<rparr>"

lemma trial_operator_sound: "operator_sound (sample_operator trial_env) trial_codec"
  by (simp add: operator_sound_def sample_operator_def honest_faults_def trial_env_def)

definition complete_world :: "(okind \<times> string) list rworld" where
  "complete_world = \<lparr>rw_ledger = sample_ledger, rw_dir = sample_dir, rw_ext = [], rw_tick = 0, rw_deletions = [], rw_launches = 1, rw_trace = []\<rparr>"

lemma complete_inputs: "validate_inputs (sample_operator disposal_env) sample_wire sample_identity sample_dir = None"
  by (simp add: validate_inputs_def canonical_ledger_def sample_operator_def disposal_env_def sample_dir_def read_bounded_def sample_wire_simps
      sample_ready sample_ledger_simps)

lemma complete_loads: "load_io disposal_env sample_run complete_world = (Inr (), complete_world)"
  by (simp add: load_io_def load_ledger_def complete_world_def sample_dir_def read_bounded_def disposal_env_def sample_wire_simps sample_ledger_simps
      sample_identity_simps sample_hex_n run_pattern_def sample_identity_ok)

lemma complete_recovers:
  "\<exists>out w. operator_recover (sample_operator disposal_env) ''key'' sample_identity (operator_world complete_world) = (Inr (out, None), w)"
proof -
  have s: "stat_file disposal_env ''finalization-ready.json'' complete_world = (Inr (), complete_world\<lparr>rw_tick := 1\<rparr>)"
    by (simp add: stat_file_def sys_def at_tick_def io_apply disposal_env_def complete_world_def sample_dir_def)
  have d: "rw_dir complete_world = sample_dir" "rw_ledger complete_world = sample_ledger" by (simp_all add: complete_world_def)
  have o: "oe_env (sample_operator disposal_env) n = disposal_env" "re_wire disposal_env = sample_wire" for n
    by (simp_all add: sample_operator_def disposal_env_def)
  have cmd: "operator_command (sample_operator disposal_env) input args w = (Inr (if ow_ext w \<ge> 2 then ''visible'' else []),
      w\<lparr>ow_ext := Suc (ow_ext w), ow_tick := Suc (ow_tick w), ow_log := ow_log w @ [args]\<rparr>)" for input args w
    by (simp add: operator_command_def otick_def io_apply sample_operator_def)
  have dec: "oe_decode (sample_operator disposal_env) ''visible'' = (no_view\<lparr>rv_receipt := sample_uid, rv_published := True\<rparr>, None)"
    by (simp add: sample_operator_def)
  have run: "operator_inspect (sample_operator disposal_env) key w = (Inr (if ow_ext w \<ge> 2 then (no_view\<lparr>rv_receipt := sample_uid, rv_published := True\<rparr>, None)
      else oe_decode (sample_operator disposal_env) []),
      w\<lparr>ow_ext := Suc (ow_ext w), ow_tick := Suc (ow_tick w), ow_log := ow_log w @ [bridge_args (oe_config (sample_operator disposal_env)) ''inspect'' key False]\<rparr>)" for key w
    by (simp add: operator_inspect_def cmd io_apply dec)
  have n: "rv_published no_view = False" "rv_fin_status no_view = []" "rv_fin_due no_view = None" "sample_uid \<noteq> []"
    by (simp_all add: no_view_def sample_uid_def uuid_shape_def)
  have r: "resume_run (sample_operator disposal_env) sample_run (operator_world complete_world\<lparr>ow_tick := 1\<rparr>) =
      (Inr (), operator_world (complete_world\<lparr>rw_tick := 1\<rparr>)\<lparr>ow_tick := 2\<rparr>)"
    by (simp add: resume_run_def on_run_def otick_def lens_io_def io_apply o operator_world_def s err_of_def d sample_ledger_simps)
  have f: "\<exists>out v. finalize_result (sample_operator disposal_env) ''key'' sample_run (operator_world (complete_world\<lparr>rw_tick := 1\<rparr>)\<lparr>ow_tick := 3\<rparr>) = (Inr (out, None), v)"
    by (simp add: finalize_result_def deliver_result_def io_apply operator_world_def otick_def n cmd run)
  have i: "i_run sample_identity = sample_run" "l_identity sample_ledger = sample_identity" by (simp_all add: sample_identity_simps sample_ledger_simps)
  show ?thesis
    using f by (simp add: operator_recover_def on_run_def otick_def lens_io_def io_apply o i complete_loads operator_world_def d err_of_def complete_inputs
        r[unfolded operator_world_def oworld.simps, simplified])
qed

end
