(* ===== verification/Netgate.thy ===== *)
theory Netgate
  imports Net
begin

text \<open>
  The firewall helper on the node (cmd/netgate/main.go): it completes the exact firewall of one pinned
  pod network namespace by appending to it, and verifies it. The tools it runs (crictl, nsenter with
  iptables and ip6tables) and the JSON decoder are parameters; everything it runs or inspects is logged.
\<close>

section \<open>Words\<close>

text \<open>A string as its runes with their bytes; \<open>strings.Fields\<close>, \<open>strings.TrimSpace\<close> and \<open>strings.Join\<close>.\<close>

function chunks :: "string \<Rightarrow> (nat \<times> string) list" where
  "chunks [] = []"
| "chunks (c # s) = (let k = rune_width (of_char c) (map of_char s) in
     (snd (hd (runes (map of_char (c # s)))), take k (c # s)) # chunks (drop k (c # s)))"
  by pat_completeness auto
termination
  by (relation "measure length") (auto split: option.splits)

definition space_chunk :: "nat \<times> string \<Rightarrow> bool" where
  "space_chunk p \<longleftrightarrow> is_space (fst p)"

fun words_of :: "string \<Rightarrow> (nat \<times> string) list \<Rightarrow> string list" where
  "words_of cur [] = (if cur = [] then [] else [cur])"
| "words_of cur (p # ps) =
     (if space_chunk p then (if cur = [] then words_of [] ps else cur # words_of [] ps) else words_of (cur @ snd p) ps)"

definition fields_of :: "string \<Rightarrow> string list" where
  "fields_of s = words_of [] (chunks s)"

definition trim_space :: "string \<Rightarrow> string" where
  "trim_space s = concat (map snd (rev (dropWhile space_chunk (rev (dropWhile space_chunk (chunks s))))))"

fun join_words :: "string list \<Rightarrow> string" where
  "join_words [] = []"
| "join_words [w] = w"
| "join_words (w # v # ws) = w @ CHR '' '' # join_words (v # ws)"

definition word :: "string \<Rightarrow> bool" where
  "word w \<longleftrightarrow> w \<noteq> [] \<and> (\<forall>c \<in> set w. (33::nat) \<le> of_char c \<and> (of_char c::nat) < 127)"

lemma chunks_ascii: "(of_char c::nat) < 128 \<Longrightarrow> chunks (c # s) = (of_char c, [c]) # chunks s"
  by (simp add: Let_def)

declare chunks.simps(2) [simp del]

lemma words_of_word:
  "\<forall>c \<in> set w. (33::nat) \<le> of_char c \<and> (of_char c::nat) < 127 \<Longrightarrow> words_of cur (chunks (w @ s)) = words_of (cur @ w) (chunks s)"
  by (induction w arbitrary: cur) (auto simp: chunks_ascii space_chunk_def is_space_def in_rng_def)

lemma words_of_space: "words_of cur (chunks (CHR '' '' # s)) = (if cur = [] then [] else [cur]) @ words_of [] (chunks s)"
  by (simp add: chunks_ascii space_chunk_def is_space_def)

lemma fields_join: "\<forall>w \<in> set ws. word w \<Longrightarrow> fields_of (join_words ws) = ws"
  unfolding fields_of_def
proof (induction ws rule: join_words.induct)
  case (2 w)
  then show ?case using words_of_word[of w "[]" "[]"] by (simp add: word_def)
next
  case (3 w v ws)
  then show ?case by (simp add: words_of_word words_of_space word_def)
qed simp

section \<open>What the helper is told and what the runtime answers\<close>

record options =
  op_sandbox :: string
  op_uid :: string
  op_ns :: string
  op_api :: string
  op_endpoint :: string

definition runner_ns_pattern :: "string \<Rightarrow> bool" where
  \<comment> \<open>the regular expression \<open>^proof-runner-[0-9a-f]{32}$\<close>\<close>
  "runner_ns_pattern s \<longleftrightarrow> has_prefix s ''proof-runner-'' \<and> hex_n 32 (drop 13 s)"

definition canonical_private :: "string \<Rightarrow> bool" where
  "canonical_private s = (case private_ip4 s of None \<Rightarrow> False | Some v \<Rightarrow> show_ip4 v = s)"

definition options_ok :: "options \<Rightarrow> bool" where
  \<comment> \<open>\<open>options.validate\<close> returns nil\<close>
  "options_ok q \<longleftrightarrow> hex_n 64 (op_sandbox q) \<and> uuid_pattern (op_uid q) \<and> runner_ns_pattern (op_ns q) \<and>
     canonical_private (op_api q) \<and> canonical_private (op_endpoint q)"

record inspection =
  in_id :: string
  in_state :: string
  in_uid :: string
  in_ns :: string
  in_network :: bytes
  in_pid :: int

record container =
  ct_sandbox :: string
  ct_state :: string
  ct_name :: string
  ct_pod :: string

definition check_inspection :: "options \<Rightarrow> inspection \<Rightarrow> gerr option" where
  "check_inspection q s =
     (if in_id s \<noteq> op_sandbox q \<or> in_uid s \<noteq> op_uid q \<or> in_ns s \<noteq> op_ns q then Some (EMsg ''CRI sandbox identity mismatch'')
      else if in_state s \<noteq> ''SANDBOX_READY'' \<or> in_pid s \<le> 1 then Some EPending
      else check (in_network s = [CHR 0x22] @ ''POD'' @ [CHR 0x22] \<or> in_network s = ''0'') ''CRI sandbox does not use pod networking'')"

fun gate_running :: "options \<Rightarrow> container list \<Rightarrow> bool \<Rightarrow> gerr + bool" where
  \<comment> \<open>the loop of \<open>initWaiting\<close>\<close>
  "gate_running q [] waiting = Inr waiting"
| "gate_running q (c # cs) waiting =
     (if ct_state c \<noteq> ''CONTAINER_RUNNING'' then gate_running q cs waiting
      else if ct_sandbox c \<noteq> op_sandbox q \<or> ct_name c \<noteq> ''network-gate'' \<or> ct_pod c \<noteq> op_uid q
      then Inl (EMsg ''refusing partial firewall installation with a workload already running'')
      else gate_running q cs True)"

section \<open>The firewall\<close>

type_synonym table = "string list gomap"

record firewall =
  fw_binary :: path
  fw_expected :: table

definition reject4 :: string where "reject4 = ''-j REJECT --reject-with icmp-port-unreachable''"
definition reject6 :: string where "reject6 = ''-j REJECT --reject-with icmp6-port-unreachable''"
definition accept_known :: string where "accept_known = ''-m conntrack --ctstate RELATED,ESTABLISHED -j ACCEPT''"

definition gate_model :: "options \<Rightarrow> firewall list" where
  "gate_model q =
    [\<lparr>fw_binary = ''/usr/sbin/iptables'', fw_expected =
        [(''PROOF-EGRESS'', [''-o lo -j ACCEPT'', ''-d '' @ op_api q @ ''/32 -p tcp -m tcp --dport 443 -j ACCEPT'',
           ''-d '' @ op_endpoint q @ ''/32 -p tcp -m tcp --dport 6443 -j ACCEPT'', reject4]),
         (''PROOF-INGRESS'', [''-i lo -j ACCEPT'', accept_known, reject4])]\<rparr>,
     \<lparr>fw_binary = ''/usr/sbin/ip6tables'', fw_expected =
        [(''PROOF-EGRESS'', [''-o lo -j ACCEPT'', reject6]), (''PROOF-INGRESS'', [''-i lo -j ACCEPT'', accept_known, reject6])]\<rparr>]"

definition namespace_args :: "path \<Rightarrow> string list \<Rightarrow> string list" where
  "namespace_args binary args = [''--net=/proc/self/fd/3'', ''--'', binary, ''-w'', ''5'', ''-t'', ''filter''] @ args"

fun parse_lines :: "string list \<Rightarrow> table \<Rightarrow> gerr + table" where
  "parse_lines [] t = Inr t"
| "parse_lines (line # ls) t = (case fields_of line of
     kind # name # rule \<Rightarrow>
       (if kind = ''-N'' \<or> kind = ''-P'' then
          (if has_key t name then Inl (EMsg ''duplicate chain'') else parse_lines ls (AList.update name [] t))
        else if kind = ''-A'' then
          (if \<not> has_key t name then Inl (EMsg ''rule before chain'')
           else parse_lines ls (AList.update name (lookup_or [] t name @ [join_words rule]) t))
        else Inl (EMsg ''unexpected iptables listing''))
   | _ \<Rightarrow> Inl (EMsg ''invalid iptables listing''))"

definition parse_table :: "bytes \<Rightarrow> gerr + table" where
  "parse_table out = parse_lines (split_on (CHR 0x0A) (trim_space out)) []"

fun scan_jump :: "string \<Rightarrow> string list \<Rightarrow> bool \<Rightarrow> bool \<Rightarrow> gerr + bool" where
  \<comment> \<open>the loop over the rules of a builtin chain: is this its first rule, and was the jump found\<close>
  "scan_jump jump [] first found = Inr found"
| "scan_jump jump (r # rs) first found =
     (if contains r ''PROOF-'' then
        (if r \<noteq> jump \<or> \<not> first \<or> found then Inl (EMsg ''unexpected gate jump'') else scan_jump jump rs False True)
      else scan_jump jump rs False found)"

definition plan_chain :: "table \<Rightarrow> firewall \<Rightarrow> string \<times> string \<Rightarrow> gerr + string list list" where
  "plan_chain actual fw = (\<lambda>(chain, base).
     let expected = lookup_or [] (fw_expected fw) chain; current = lookup_or [] actual chain in
     if length current > length expected \<or> current \<noteq> take (length current) expected
     then Inl (EMsg ''existing rules differ from exact expected policy'')
     else if \<not> has_key actual base then Inl (EMsg ''missing builtin chain'')
     else (case scan_jump (''-j '' @ chain) (lookup_or [] actual base) True False of
         Inl e \<Rightarrow> Inl e
       | Inr found \<Rightarrow> Inr ((if has_key actual chain then [] else [[''-N'', chain]]) @
            map (\<lambda>rule. [''-A'', chain] @ fields_of rule) (drop (length current) expected) @
            (if found then [] else [[''-I'', base, ''1'', ''-j'', chain]]))))"

definition gate_chains :: "(string \<times> string) list" where
  "gate_chains = [(''PROOF-EGRESS'', ''OUTPUT''), (''PROOF-INGRESS'', ''INPUT'')]"

fun plan_chains :: "table \<Rightarrow> firewall \<Rightarrow> (string \<times> string) list \<Rightarrow> gerr + string list list" where
  "plan_chains actual fw [] = Inr []"
| "plan_chains actual fw (p # ps) = (case plan_chain actual fw p of
     Inl e \<Rightarrow> Inl e
   | Inr cs \<Rightarrow> (case plan_chains actual fw ps of Inl e \<Rightarrow> Inl e | Inr ds \<Rightarrow> Inr (cs @ ds)))"

definition plan :: "table \<Rightarrow> firewall \<Rightarrow> gerr + string list list" where
  "plan actual fw = plan_chains actual fw gate_chains"

section \<open>The installation\<close>

text \<open>
  The node: running a program, with the descriptor it gets as number 3; the lock file; opening and
  inspecting a network namespace, which is named by its inode; the JSON of crictl.
\<close>

record 'x nodeio =
  no_run :: "nat option \<Rightarrow> path \<Rightarrow> string list \<Rightarrow> ('x, bytes) io"
  no_lock_file :: "path \<Rightarrow> ('x, unit) io"
  no_flock :: "('x, bool) io" \<comment> \<open>False when it would block\<close>
  no_open_ns :: "int \<Rightarrow> ('x, nat) io"
  no_stat_fd :: "nat \<Rightarrow> ('x, nat) io"
  no_stat_pid :: "int \<Rightarrow> ('x, nat) io"
  no_stat_self :: "('x, nat) io"
  no_inspection :: "bytes \<Rightarrow> gerr + inspection"
  no_containers :: "bytes \<Rightarrow> gerr + container list"

datatype node_event =
    Ran "nat option" path "string list" "gerr + bytes"
  | Stat_fd nat "gerr + nat"
  | Stat_pid int "gerr + nat"
  | Stat_self "gerr + nat"

record 'x nworld =
  nw_ext :: 'x
  nw_log :: "node_event list"

definition observed :: "('x, 'a) io \<Rightarrow> (gerr + 'a \<Rightarrow> node_event list) \<Rightarrow> ('x nworld, 'a) io" where
  "observed m ev w = (case m (nw_ext w) of (r, x) \<Rightarrow> (r, w\<lparr>nw_ext := x, nw_log := nw_log w @ ev r\<rparr>))"

definition node_command :: "'x nodeio \<Rightarrow> nat option \<Rightarrow> path \<Rightarrow> string list \<Rightarrow> ('x nworld, bytes) io" where
  \<comment> \<open>\<open>command\<close>\<close>
  "node_command N fd binary args = bind_io (observed (no_run N fd binary args) (\<lambda>r. [Ran fd binary args r])) (\<lambda>out.
     then_io (require (length out \<le> 8388608) (EMsg ''trusted command output exceeds limit'')) (ret out))"

definition inspect_args :: "options \<Rightarrow> string list" where
  "inspect_args q = [''--runtime-endpoint'', ''unix:///run/containerd/containerd.sock'', ''inspectp'', op_sandbox q]"

definition inspect_pod :: "'x nodeio \<Rightarrow> options \<Rightarrow> ('x nworld, inspection) io" where
  "inspect_pod N q = bind_io (catch_io (node_command N None ''/usr/local/bin/crictl'' (inspect_args q))) (\<lambda>r. case r of
     Inl e \<Rightarrow> throw (case e of EExit n \<Rightarrow> EPending | _ \<Rightarrow> e)
   | Inr out \<Rightarrow> bind_io (lift_io (no_inspection N out)) (\<lambda>s. then_io (lift_io (to_res (check_inspection q s))) (ret s)))"

definition verify_pinned :: "'x nodeio \<Rightarrow> options \<Rightarrow> nat \<Rightarrow> int \<Rightarrow> ('x nworld, unit) io" where
  "verify_pinned N q fd pid = bind_io (inspect_pod N q) (\<lambda>s.
     then_io (require (in_pid s = pid) (EMsg ''sandbox PID changed''))
     (bind_io (observed (no_stat_fd N fd) (\<lambda>r. [Stat_fd fd r])) (\<lambda>pinned.
     bind_io (catch_io (observed (no_stat_pid N pid) (\<lambda>r. [Stat_pid pid r]))) (\<lambda>r. case r of
       Inl e \<Rightarrow> throw EPending
     | Inr current \<Rightarrow> bind_io (observed (no_stat_self N) (\<lambda>r. [Stat_self r])) (\<lambda>host.
         require (pinned \<noteq> host \<and> pinned = current) (EMsg ''host namespace or changed sandbox network namespace refused''))))))"

definition ps_args :: "options \<Rightarrow> string list" where
  "ps_args q = [''--runtime-endpoint'', ''unix:///run/containerd/containerd.sock'', ''ps'', ''--pod'', op_sandbox q, ''-o'', ''json'']"

definition init_waiting :: "'x nodeio \<Rightarrow> options \<Rightarrow> ('x nworld, unit) io" where
  "init_waiting N q = bind_io (node_command N None ''/usr/local/bin/crictl'' (ps_args q)) (\<lambda>out.
     bind_io (lift_io (no_containers N out)) (\<lambda>cs.
     bind_io (lift_io (gate_running q cs False)) (\<lambda>waiting. require waiting EPending)))"

definition namespace_command :: "'x nodeio \<Rightarrow> nat \<Rightarrow> path \<Rightarrow> string list \<Rightarrow> ('x nworld, bytes) io" where
  "namespace_command N fd binary args = node_command N (Some fd) ''/usr/bin/nsenter'' (namespace_args binary args)"

definition read_table :: "'x nodeio \<Rightarrow> nat \<Rightarrow> firewall \<Rightarrow> ('x nworld, table) io" where
  "read_table N fd fw = bind_io (namespace_command N fd (fw_binary fw) [''-S'']) (\<lambda>out. lift_io (parse_table out))"

fun flock_loop :: "'x nodeio \<Rightarrow> nat \<Rightarrow> ('x nworld, unit) io" where
  \<comment> \<open>the context ends after so many attempts\<close>
  "flock_loop N n = bind_io (observed (no_flock N) (\<lambda>_. [])) (\<lambda>got.
     if got then ret () else (case n of 0 \<Rightarrow> throw (EExt ''context'') | Suc k \<Rightarrow> flock_loop N k))"

declare flock_loop.simps [simp del]

fun read_plans :: "'x nodeio \<Rightarrow> nat \<Rightarrow> firewall list \<Rightarrow> ('x nworld, string list list list) io" where
  "read_plans N fd [] = ret []"
| "read_plans N fd (fw # fws) = bind_io (read_table N fd fw) (\<lambda>actual. bind_io (lift_io (plan actual fw)) (\<lambda>cs.
     bind_io (read_plans N fd fws) (\<lambda>rest. ret (cs # rest))))"

definition run_plans :: "'x nodeio \<Rightarrow> nat \<Rightarrow> (firewall \<times> string list list) list \<Rightarrow> ('x nworld, unit) io" where
  "run_plans N fd ps = for_io ps (\<lambda>(fw, cs). for_io cs (\<lambda>args. then_io (namespace_command N fd (fw_binary fw) args) (ret ())))"

definition verify_table :: "'x nodeio \<Rightarrow> nat \<Rightarrow> firewall \<Rightarrow> ('x nworld, unit) io" where
  "verify_table N fd fw = bind_io (read_table N fd fw) (\<lambda>actual. bind_io (lift_io (plan actual fw)) (\<lambda>remaining.
     require (remaining = []) (EMsg ''firewall verification incomplete'')))"

definition gate_pinned :: "'x nodeio \<Rightarrow> options \<Rightarrow> nat \<Rightarrow> int \<Rightarrow> ('x nworld, unit) io" where
  \<comment> \<open>\<open>install\<close> from the pinned namespace on\<close>
  "gate_pinned N q fd pid =
     then_io (verify_pinned N q fd pid)
     (bind_io (read_plans N fd (gate_model q)) (\<lambda>plans.
     then_io (if list_all (\<lambda>cs. cs = []) plans then ret ()
       else then_io (init_waiting N q) (run_plans N fd (zip (gate_model q) plans)))
     (then_io (for_io (gate_model q) (verify_table N fd))
       (verify_pinned N q fd pid))))"

definition install :: "'x nodeio \<Rightarrow> nat \<Rightarrow> options \<Rightarrow> ('x nworld, unit) io" where
  "install N n q =
     then_io (require (options_ok q) EInvalid)
     (then_io (observed (no_lock_file N (''/run/proof-netgate-'' @ op_uid q @ ''.lock'')) (\<lambda>_. []))
     (then_io (flock_loop N n)
     (bind_io (inspect_pod N q) (\<lambda>s.
     bind_io (catch_io (observed (no_open_ns N (in_pid s)) (\<lambda>_. []))) (\<lambda>r. case r of
       Inl e \<Rightarrow> throw EPending
     | Inr fd \<Rightarrow> gate_pinned N q fd (in_pid s))))))"

end
