(* ===== verification/Firewall.thy ===== *)
theory Firewall
  imports Netgate
begin

text \<open>
  Proofs about the firewall helper: its rules are normal, an empty plan means an exact firewall, an interrupted
  plan is completed, and what the log of an installation looks like.
\<close>

section \<open>The expected rules are normal\<close>

lemma hex_word: "hex_n n s \<Longrightarrow> 0 < n \<Longrightarrow> word s"
  by (auto simp: word_def hex_n_def list_all_iff lower_hex_def in_rng_def)

definition normal_rule :: "string \<Rightarrow> bool" where
  "normal_rule r \<longleftrightarrow> join_words (fields_of r) = r \<and> fields_of r \<noteq> []"

lemma normal_join: "\<forall>w \<in> set ws. word w \<Longrightarrow> ws \<noteq> [] \<Longrightarrow> normal_rule (join_words ws)"
  by (simp add: normal_rule_def fields_join)

lemma digit_word: "is_digit c \<Longrightarrow> (33::nat) \<le> of_char c \<and> (of_char c::nat) < 127"
  by (auto simp: is_digit_def in_rng_def)

lemma show_nat_digits: "c \<in> set (show_nat n) \<Longrightarrow> is_digit c"
proof (induction n rule: show_nat.induct)
  case (1 n)
  have d: "is_digit (char_of (48 + m))" if "m < 10" for m :: nat
    using that by (simp add: is_digit_def in_rng_def)
  show ?case using 1 by (cases "n < 10") (auto simp: show_nat.simps[of n] d)
qed

lemma show_ip4_word: "c \<in> set (show_ip4 v) \<Longrightarrow> (33::nat) \<le> of_char c \<and> (of_char c::nat) < 127"
  by (auto simp: show_ip4_def split: list.splits if_splits dest!: show_nat_digits digit_word)

lemma canonical_word: "canonical_private s \<Longrightarrow> c \<in> set s \<Longrightarrow> (33::nat) \<le> of_char c \<and> (of_char c::nat) < 127"
  unfolding canonical_private_def using show_ip4_word by (auto split: option.splits)

lemma model_normal:
  assumes "options_ok q" "fw \<in> set (gate_model q)" "(chain, rules) \<in> set (fw_expected fw)" "r \<in> set rules"
  shows "normal_rule r"
proof -
  have a: "word (op_api q @ ''/32'')" "word (op_endpoint q @ ''/32'')"
    using assms(1) canonical_word by (auto simp: word_def options_ok_def)
  have n: "normal_rule (join_words ws)" if "list_all word ws" "ws \<noteq> []" for ws
    using that normal_join[of ws] by (simp add: list_all_iff)
  have "normal_rule (join_words [''-d'', op_api q @ ''/32'', ''-p'', ''tcp'', ''-m'', ''tcp'', ''--dport'', ''443'', ''-j'', ''ACCEPT''])"
    "normal_rule (join_words [''-d'', op_endpoint q @ ''/32'', ''-p'', ''tcp'', ''-m'', ''tcp'', ''--dport'', ''6443'', ''-j'', ''ACCEPT''])"
    by (rule n; simp add: a; simp add: word_def)+
  moreover have "normal_rule (join_words [''-j'', ''REJECT'', ''--reject-with'', ''icmp-port-unreachable''])"
    "normal_rule (join_words [''-j'', ''REJECT'', ''--reject-with'', ''icmp6-port-unreachable''])"
    "normal_rule (join_words [''-m'', ''conntrack'', ''--ctstate'', ''RELATED,ESTABLISHED'', ''-j'', ''ACCEPT''])"
    "normal_rule (join_words [''-o'', ''lo'', ''-j'', ''ACCEPT''])" "normal_rule (join_words [''-i'', ''lo'', ''-j'', ''ACCEPT''])"
    by (rule n; simp add: word_def)+
  ultimately show ?thesis
    using assms(2-) by (auto simp: gate_model_def reject4_def reject6_def accept_known_def)
qed

section \<open>An empty plan is an exact firewall\<close>

definition exact_table :: "table \<Rightarrow> firewall \<Rightarrow> bool" where
  "exact_table t fw \<longleftrightarrow> (\<forall>(chain, base) \<in> set gate_chains. map_of t chain = Some (lookup_or [] (fw_expected fw) chain) \<and>
     (\<exists>rest. map_of t base = Some ((''-j '' @ chain) # rest) \<and> (\<forall>r \<in> set rest. \<not> contains r ''PROOF-'')))"

lemma scan_later: "scan_jump jump rs False found = Inr b \<longleftrightarrow> b = found \<and> (\<forall>r \<in> set rs. \<not> contains r ''PROOF-'')"
  by (induction rs) auto

lemma scan_first:
  assumes "contains jump ''PROOF-''"
  shows "scan_jump jump rs True False = Inr b \<longleftrightarrow>
    (if b then \<exists>rest. rs = jump # rest \<and> (\<forall>r \<in> set rest. \<not> contains r ''PROOF-'') else \<forall>r \<in> set rs. \<not> contains r ''PROOF-'')"
  using assms by (cases rs) (auto simp: scan_later)

lemma gate_jumps: "(chain, base) \<in> set gate_chains \<Longrightarrow> contains (''-j '' @ chain) ''PROOF-''"
  by (auto simp: gate_chains_def)

lemma plan_chain_iff:
  "plan_chain t fw (chain, base) = Inr cs \<longleftrightarrow>
     (let expected = lookup_or [] (fw_expected fw) chain; current = lookup_or [] t chain in
      current = take (length current) expected \<and> has_key t base \<and>
      (\<exists>found. scan_jump (''-j '' @ chain) (lookup_or [] t base) True False = Inr found \<and>
        cs = (if has_key t chain then [] else [[''-N'', chain]]) @ map (\<lambda>rule. [''-A'', chain] @ fields_of rule) (drop (length current) expected) @
          (if found then [] else [[''-I'', base, ''1'', ''-j'', chain]])))"
proof -
  have le: "\<not> length c > length e" if "c = take (length c) e" for c e :: "string list"
    using that by (metis length_take min.cobounded1 not_le)
  show ?thesis
    unfolding plan_chain_def prod.case Let_def using le
    by (cases "scan_jump (''-j '' @ chain) (lookup_or [] t base) True False") auto
qed

lemma plan_chains_Nil: "plan_chains t fw ps = Inr [] \<longleftrightarrow> (\<forall>p \<in> set ps. plan_chain t fw p = Inr [])"
  by (induction ps) (auto split: sum.splits)

lemma plan_exact: "plan t fw = Inr [] \<longleftrightarrow> exact_table t fw"
proof -
  have "plan_chain t fw (chain, base) = Inr [] \<longleftrightarrow> map_of t chain = Some (lookup_or [] (fw_expected fw) chain) \<and>
     (\<exists>rest. map_of t base = Some ((''-j '' @ chain) # rest) \<and> (\<forall>r \<in> set rest. \<not> contains r ''PROOF-''))"
    if "(chain, base) \<in> set gate_chains" for chain base
    unfolding plan_chain_iff Let_def scan_first[OF gate_jumps[OF that]]
    by (cases "map_of t chain"; cases "map_of t base") (auto simp: has_key_def split: if_splits)
  then show ?thesis unfolding plan_def plan_chains_Nil exact_table_def by auto
qed

section \<open>An interrupted plan is completed\<close>

text \<open>
  What the code relies on of iptables, on the table it lists: a new chain is empty, a rule is appended and
  listed as it was given, a jump is inserted as the first rule.
\<close>

definition iptables_laws :: "(table \<Rightarrow> string list \<Rightarrow> table option) \<Rightarrow> string set \<Rightarrow> bool" where
  "iptables_laws ex rules \<longleftrightarrow>
     (\<forall>t c. \<not> has_key t c \<longrightarrow> (\<exists>u. ex t [''-N'', c] = Some u \<and> map_of u = (map_of t)(c \<mapsto> []))) \<and>
     (\<forall>t c rs ws. map_of t c = Some rs \<and> join_words ws \<in> rules \<longrightarrow>
        (\<exists>u. ex t ([''-A'', c] @ ws) = Some u \<and> map_of u = (map_of t)(c \<mapsto> rs @ [join_words ws]))) \<and>
     (\<forall>t b c rs. map_of t b = Some rs \<and> has_key t c \<longrightarrow>
        (\<exists>u. ex t [''-I'', b, ''1'', ''-j'', c] = Some u \<and> map_of u = (map_of t)(b \<mapsto> (''-j '' @ c) # rs)))"

fun run_commands :: "(table \<Rightarrow> string list \<Rightarrow> table option) \<Rightarrow> table \<Rightarrow> string list list \<Rightarrow> table option" where
  "run_commands ex t [] = Some t"
| "run_commands ex t (c # cs) = (case ex t c of None \<Rightarrow> None | Some u \<Rightarrow> run_commands ex u cs)"

definition jumped :: "table \<Rightarrow> string \<times> string \<Rightarrow> bool" where
  "jumped t p \<longleftrightarrow> ''-j '' @ fst p \<in> set (lookup_or [] t (snd p))"

definition complete_chain :: "table \<Rightarrow> firewall \<Rightarrow> string \<times> string \<Rightarrow> bool" where
  "complete_chain t fw p \<longleftrightarrow> map_of t (fst p) = Some (lookup_or [] (fw_expected fw) (fst p))"

lemma plan_chain_cong: "map_of t chain = map_of u chain \<Longrightarrow> map_of t base = map_of u base \<Longrightarrow> plan_chain t fw (chain, base) = plan_chain u fw (chain, base)"
proof -
  assume "map_of t chain = map_of u chain" "map_of t base = map_of u base"
  then have "lookup_or [] t chain = lookup_or [] u chain" "lookup_or [] t base = lookup_or [] u base" "has_key t chain = has_key u chain"
    "has_key t base = has_key u base" by (simp_all add: lookup_or_def has_key_def)
  then show ?thesis by (simp only: plan_chain_def prod.case)
qed

lemma chain_step:
  assumes p: "plan_chain t fw (chain, base) = Inr (c # cs)" and g: "(chain, base) \<in> set gate_chains"
    and laws: "iptables_laws ex rules" and n: "\<forall>r \<in> set (lookup_or [] (fw_expected fw) chain). normal_rule r \<and> r \<in> rules"
  shows "\<exists>u. ex t c = Some u \<and> plan_chain u fw (chain, base) = Inr cs \<and> (\<forall>k. k \<noteq> chain \<and> k \<noteq> base \<longrightarrow> map_of u k = map_of t k) \<and>
    (jumped u (chain, base) \<longrightarrow> complete_chain u fw (chain, base) \<or> (jumped t (chain, base) \<and> \<not> complete_chain t fw (chain, base)))"
proof -
  define e where "e = lookup_or [] (fw_expected fw) chain"
  define m where "m = lookup_or [] t chain"
  have ne: "chain \<noteq> base" using g by (auto simp: gate_chains_def)
  obtain found where f: "m = take (length m) e" "has_key t base" "scan_jump (''-j '' @ chain) (lookup_or [] t base) True False = Inr found"
    "c # cs = (if has_key t chain then [] else [[''-N'', chain]]) @ map (\<lambda>rule. [''-A'', chain] @ fields_of rule) (drop (length m) e) @
          (if found then [] else [[''-I'', base, ''1'', ''-j'', chain]])"
    using p unfolding plan_chain_iff Let_def e_def[symmetric] m_def[symmetric] by blast
  obtain b where b: "map_of t base = Some b" using f(2) by (auto simp: has_key_def)
  consider (new) "\<not> has_key t chain" | (rule) "has_key t chain" "drop (length m) e \<noteq> []" | (jump) "has_key t chain" "drop (length m) e = []" by blast
  then show ?thesis
  proof cases
    case new
    then have m: "m = []" by (simp add: m_def has_key_def lookup_or_def)
    obtain u where u: "ex t [''-N'', chain] = Some u" "map_of u = (map_of t)(chain \<mapsto> [])"
      using laws new unfolding iptables_laws_def by blast
    have "plan_chain u fw (chain, base) = Inr cs"
      using f new u(2) ne m unfolding plan_chain_iff Let_def e_def[symmetric] by (auto simp: has_key_def lookup_or_def)
    with new f(4) u ne show ?thesis by (intro exI[of _ u]) (auto simp: jumped_def lookup_or_def complete_chain_def has_key_def)
  next
    case rule
    then obtain r rs where r: "drop (length m) e = r # rs" by (cases "drop (length m) e") auto
    have "r \<in> set e" using r by (metis in_set_dropD list.set_intros(1))
    then have nr: "join_words (fields_of r) = r" "r \<in> rules" using n by (auto simp: e_def normal_rule_def)
    have mc: "map_of t chain = Some m" using rule(1) by (auto simp: m_def has_key_def)
    obtain u where u: "ex t ([''-A'', chain] @ fields_of r) = Some u" "map_of u = (map_of t)(chain \<mapsto> m @ [r])"
      using laws mc nr unfolding iptables_laws_def by metis
    have lt: "length m < length e" using r by (metis drop_eq_Nil2 leI list.distinct(1))
    have mn: "min (length e) (Suc (length m)) = Suc (length m)" using lt by simp
    have er: "e ! length m = r" using r lt by (metis hd_drop_conv_nth list.sel(1))
    have t: "m @ [r] = take (Suc (length m)) e" using f(1) er take_Suc_conv_app_nth[OF lt] by simp
    have d: "drop (Suc (length m)) e = rs" using r by (metis drop_Suc list.sel(3) tl_drop)
    have c: "c = [''-A'', chain] @ fields_of r" "cs = map (\<lambda>rule. [''-A'', chain] @ fields_of rule) rs @ (if found then [] else [[''-I'', base, ''1'', ''-j'', chain]])"
      using f(4) rule(1) r by simp_all
    have lu: "lookup_or [] u chain = m @ [r]" "lookup_or [] u base = lookup_or [] t base" "has_key u chain" "has_key u base"
      using u(2) ne f(2) by (simp_all add: lookup_or_def has_key_def)
    have "plan_chain u fw (chain, base) = Inr cs"
      unfolding plan_chain_iff Let_def e_def[symmetric] lu using f(3) c(2) t d lu mn by simp
    moreover have "\<not> complete_chain t fw (chain, base)" using mc lt by (auto simp: complete_chain_def e_def)
    ultimately show ?thesis using u c(1) ne lu by (intro exI[of _ u]) (auto simp: jumped_def)
  next
    case jump
    then have c: "\<not> found" "c = [''-I'', base, ''1'', ''-j'', chain]" "cs = []" using f(4) by (auto split: if_splits)
    obtain u where u: "ex t [''-I'', base, ''1'', ''-j'', chain] = Some u" "map_of u = (map_of t)(base \<mapsto> (''-j '' @ chain) # b)"
      using laws b jump(1) unfolding iptables_laws_def by metis
    have me: "m = e" using jump(2) f(1) by (metis drop_eq_Nil2 take_all)
    have lu: "lookup_or [] u chain = m" "lookup_or [] u base = (''-j '' @ chain) # b" "has_key u chain" "has_key u base"
      using u(2) ne jump(1) by (simp_all add: lookup_or_def has_key_def m_def)
    have "scan_jump (''-j '' @ chain) b True False = Inr False" using f(3) b c(1) by simp
    then have "scan_jump (''-j '' @ chain) ((''-j '' @ chain) # b) True False = Inr True"
      unfolding scan_first[OF gate_jumps[OF g]] by simp
    then have "plan_chain u fw (chain, base) = Inr []"
      unfolding plan_chain_iff Let_def e_def[symmetric] lu using me lu by (auto simp del: scan_jump.simps intro: exI[of _ True])
    moreover have "complete_chain u fw (chain, base)"
      using jump(1) me u(2) ne by (auto simp: complete_chain_def e_def m_def has_key_def)
    ultimately show ?thesis using u c by (intro exI[of _ u]) auto
  qed
qed

definition steady_gates :: "table \<Rightarrow> table \<Rightarrow> firewall \<Rightarrow> bool" where
  \<comment> \<open>a jump that was not there leads to a complete chain\<close>
  "steady_gates t u fw \<longleftrightarrow> (\<forall>p \<in> set gate_chains. jumped u p \<longrightarrow> jumped t p \<or> complete_chain u fw p)"

lemma plan_step:
  assumes p: "plan t fw = Inr (c # cs)" and laws: "iptables_laws ex rules"
    and n: "\<forall>(chain, base) \<in> set gate_chains. \<forall>r \<in> set (lookup_or [] (fw_expected fw) chain). normal_rule r \<and> r \<in> rules"
    and s: "steady_gates t0 t fw"
  shows "\<exists>u. ex t c = Some u \<and> plan u fw = Inr cs \<and> steady_gates t0 u fw"
proof -
  let ?a = "(''PROOF-EGRESS'', ''OUTPUT'')" and ?b = "(''PROOF-INGRESS'', ''INPUT'')"
  have g: "?a \<in> set gate_chains" "?b \<in> set gate_chains" by (simp_all add: gate_chains_def)
  obtain xs ys where xy: "plan_chain t fw ?a = Inr xs" "plan_chain t fw ?b = Inr ys" "c # cs = xs @ ys"
    using p by (auto simp: plan_def gate_chains_def split: sum.splits)
  have st: "steady_gates t0 u fw" if "jumped u ?a \<longrightarrow> jumped t0 ?a \<or> complete_chain u fw ?a" "jumped u ?b \<longrightarrow> jumped t0 ?b \<or> complete_chain u fw ?b" for u
    using that by (simp add: steady_gates_def gate_chains_def)
  have s1: "jumped t ?a \<longrightarrow> jumped t0 ?a \<or> complete_chain t fw ?a" "jumped t ?b \<longrightarrow> jumped t0 ?b \<or> complete_chain t fw ?b"
    using s g by (auto simp: steady_gates_def)
  have n1: "\<forall>r \<in> set (lookup_or [] (fw_expected fw) ''PROOF-EGRESS''). normal_rule r \<and> r \<in> rules"
    "\<forall>r \<in> set (lookup_or [] (fw_expected fw) ''PROOF-INGRESS''). normal_rule r \<and> r \<in> rules" using n g by auto
  show ?thesis
  proof (cases xs)
    case (Cons x xs')
    then have c: "c = x" "cs = xs' @ ys" using xy(3) by auto
    obtain u where u: "ex t c = Some u" "plan_chain u fw ?a = Inr xs'" "\<forall>k. k \<noteq> ''PROOF-EGRESS'' \<and> k \<noteq> ''OUTPUT'' \<longrightarrow> map_of u k = map_of t k"
      "jumped u ?a \<longrightarrow> complete_chain u fw ?a \<or> (jumped t ?a \<and> \<not> complete_chain t fw ?a)"
      using chain_step[OF xy(1)[unfolded Cons] g(1) laws n1(1)] c by auto
    have k: "map_of u ''PROOF-INGRESS'' = map_of t ''PROOF-INGRESS''" "map_of u ''INPUT'' = map_of t ''INPUT''" using u(3) by auto
    have "plan_chain u fw ?b = Inr ys" using plan_chain_cong[OF k] xy(2) by simp
    then have "plan u fw = Inr cs" using u(2) c by (simp add: plan_def gate_chains_def)
    moreover have "steady_gates t0 u fw"
      by (rule st) (use s1 u(4) k in \<open>auto simp: jumped_def complete_chain_def lookup_or_def\<close>)
    ultimately show ?thesis using u(1) by blast
  next
    case Nil
    then have ys: "ys = c # cs" using xy(3) by simp
    obtain u where u: "ex t c = Some u" "plan_chain u fw ?b = Inr cs" "\<forall>k. k \<noteq> ''PROOF-INGRESS'' \<and> k \<noteq> ''INPUT'' \<longrightarrow> map_of u k = map_of t k"
      "jumped u ?b \<longrightarrow> complete_chain u fw ?b \<or> (jumped t ?b \<and> \<not> complete_chain t fw ?b)"
      using chain_step[OF xy(2)[unfolded ys] g(2) laws n1(2)] by auto
    have k: "map_of u ''PROOF-EGRESS'' = map_of t ''PROOF-EGRESS''" "map_of u ''OUTPUT'' = map_of t ''OUTPUT''" using u(3) by auto
    have "plan_chain u fw ?a = Inr []" using plan_chain_cong[OF k] xy(1) Nil by simp
    then have "plan u fw = Inr cs" using u(2) by (simp add: plan_def gate_chains_def)
    moreover have "steady_gates t0 u fw"
      by (rule st) (use s1 u(4) k in \<open>auto simp: jumped_def complete_chain_def lookup_or_def\<close>)
    ultimately show ?thesis using u(1) by blast
  qed
qed

lemma plan_continues:
  assumes "plan t fw = Inr (ds @ es)" "iptables_laws ex rules" "steady_gates t0 t fw"
    "\<forall>(chain, base) \<in> set gate_chains. \<forall>r \<in> set (lookup_or [] (fw_expected fw) chain). normal_rule r \<and> r \<in> rules"
  shows "\<exists>u. run_commands ex t ds = Some u \<and> plan u fw = Inr es \<and> steady_gates t0 u fw"
  using assms
proof (induction ds arbitrary: t)
  case (Cons d ds)
  obtain u where "ex t d = Some u" "plan u fw = Inr (ds @ es)" "steady_gates t0 u fw"
    using plan_step[OF Cons.prems(1)[simplified] Cons.prems(2,4,3)] by blast
  with Cons.IH[of u] Cons.prems show ?case by auto
qed simp

definition gate_rules :: "options \<Rightarrow> string set" where
  "gate_rules q = set (concat (concat (map (\<lambda>fw. map snd (fw_expected fw)) (gate_model q))))"

lemma model_rules:
  assumes "options_ok q" "fw \<in> set (gate_model q)"
  shows "\<forall>(chain, base) \<in> set gate_chains. \<forall>r \<in> set (lookup_or [] (fw_expected fw) chain). normal_rule r \<and> r \<in> gate_rules q"
proof (rule ballI, rule case_prodI2, rule ballI)
  fix p chain base r assume r: "r \<in> set (lookup_or [] (fw_expected fw) chain)"
  then obtain rs where rs: "(chain, rs) \<in> set (fw_expected fw)" "r \<in> set rs"
    by (cases "map_of (fw_expected fw) chain") (auto simp: lookup_or_def dest: map_of_SomeD)
  have "r \<in> gate_rules q" unfolding gate_rules_def using assms(2) rs by force
  then show "normal_rule r \<and> r \<in> gate_rules q" using model_normal[OF assms rs] by simp
qed

section \<open>What the helper runs\<close>

lemma observed_log: "observed m ev w = (r, w') \<Longrightarrow> nw_log w' = nw_log w @ ev r"
  by (auto simp: observed_def split: prod.splits)

lemma command_ok:
  "node_command N fd b args w = (Inr out, w') \<Longrightarrow> nw_log w' = nw_log w @ [Ran fd b args (Inr out)]"
  by (auto simp: node_command_def Inr_iffs dest: observed_log)

lemma catch_throw_iff:
  "bind_io (catch_io m) (\<lambda>r. case r of Inl e \<Rightarrow> throw (g e) | Inr x \<Rightarrow> f x) s = (Inr y, t) \<longleftrightarrow>
     (\<exists>x s1. m s = (Inr x, s1) \<and> f x s1 = (Inr y, t))"
  by (cases "m s"; cases "fst (m s)") (auto simp: io_apply)

lemma inspect_ok:
  assumes "inspect_pod N q w = (Inr s, w')"
  shows "\<exists>out. nw_log w' = nw_log w @ [Ran None ''/usr/local/bin/crictl'' (inspect_args q) (Inr out)] \<and>
    no_inspection N out = Inr s \<and> check_inspection q s = None"
  using assms unfolding inspect_pod_def catch_throw_iff by (auto simp: Inr_iffs dest: command_ok)

definition pinned_events :: "'x nodeio \<Rightarrow> options \<Rightarrow> nat \<Rightarrow> int \<Rightarrow> node_event list \<Rightarrow> bool" where
  \<comment> \<open>the sandbox is the one asked for, in pod networking, and the descriptor is its namespace and not the host's\<close>
  "pinned_events N q fd pid ts \<longleftrightarrow> (\<exists>out s i j. ts = [Ran None ''/usr/local/bin/crictl'' (inspect_args q) (Inr out),
     Stat_fd fd (Inr i), Stat_pid pid (Inr i), Stat_self (Inr j)] \<and> i \<noteq> j \<and> no_inspection N out = Inr s \<and>
     check_inspection q s = None \<and> in_pid s = pid)"

lemma pinned_ok:
  assumes "verify_pinned N q fd pid w = (Inr u, w')"
  shows "\<exists>ts. nw_log w' = nw_log w @ ts \<and> pinned_events N q fd pid ts"
proof -
  obtain s w1 where s: "inspect_pod N q w = (Inr s, w1)" "in_pid s = pid"
    and 1: "bind_io (observed (no_stat_fd N fd) (\<lambda>r. [Stat_fd fd r])) (\<lambda>pinned.
       bind_io (catch_io (observed (no_stat_pid N pid) (\<lambda>r. [Stat_pid pid r]))) (\<lambda>r. case r of
         Inl e \<Rightarrow> throw EPending
       | Inr current \<Rightarrow> bind_io (observed (no_stat_self N) (\<lambda>r. [Stat_self r])) (\<lambda>host.
           require (pinned \<noteq> host \<and> pinned = current) (EMsg ''host namespace or changed sandbox network namespace refused'')))) w1 = (Inr u, w')"
    using assms unfolding verify_pinned_def bind_Inr_iff[of "inspect_pod N q"] then_Inr_iff leaf_Inr_iff by blast
  obtain i w2 i' w3 where t: "observed (no_stat_fd N fd) (\<lambda>r. [Stat_fd fd r]) w1 = (Inr i, w2)"
    "observed (no_stat_pid N pid) (\<lambda>r. [Stat_pid pid r]) w2 = (Inr i', w3)"
    and 2: "bind_io (observed (no_stat_self N) (\<lambda>r. [Stat_self r])) (\<lambda>host.
           require (i \<noteq> host \<and> i = i') (EMsg ''host namespace or changed sandbox network namespace refused'')) w3 = (Inr u, w')"
    using 1 unfolding bind_Inr_iff[of "observed (no_stat_fd N fd) ev" for ev] catch_throw_iff by blast
  obtain j where v: "observed (no_stat_self N) (\<lambda>r. [Stat_self r]) w3 = (Inr j, w')" "i \<noteq> j" "i = i'"
    using 2 unfolding Inr_iffs by blast
  obtain out where "nw_log w1 = nw_log w @ [Ran None ''/usr/local/bin/crictl'' (inspect_args q) (Inr out)]"
    "no_inspection N out = Inr s" "check_inspection q s = None" using inspect_ok[OF s(1)] by blast
  then have "nw_log w' = nw_log w @ [Ran None ''/usr/local/bin/crictl'' (inspect_args q) (Inr out), Stat_fd fd (Inr i), Stat_pid pid (Inr i), Stat_self (Inr j)]"
    "pinned_events N q fd pid [Ran None ''/usr/local/bin/crictl'' (inspect_args q) (Inr out), Stat_fd fd (Inr i), Stat_pid pid (Inr i), Stat_self (Inr j)]"
    using s v observed_log[OF t(1)] observed_log[OF t(2)] observed_log[OF v(1)] by (auto simp: pinned_events_def)
  then show ?thesis by blast
qed

definition listing :: "nat \<Rightarrow> firewall \<Rightarrow> bytes \<Rightarrow> node_event" where
  "listing fd fw out = Ran (Some fd) ''/usr/bin/nsenter'' (namespace_args (fw_binary fw) [''-S'']) (Inr out)"

lemma verify_table_ok:
  assumes "verify_table N fd fw w = (Inr u, w')"
  shows "\<exists>out t. nw_log w' = nw_log w @ [listing fd fw out] \<and> parse_table out = Inr t \<and> exact_table t fw"
  using assms by (auto simp: verify_table_def read_table_def namespace_command_def Inr_iffs listing_def plan_exact dest: command_ok)

fun changing :: "node_event \<Rightarrow> bool" where
  \<comment> \<open>a command in the pod's namespace that is not a listing\<close>
  "changing (Ran (Some fd) b args r) \<longleftrightarrow> drop 7 args \<noteq> [''-S'']"
| "changing _ \<longleftrightarrow> False"

definition quiet_log :: "'x nworld \<Rightarrow> 'x nworld \<Rightarrow> bool" where
  "quiet_log w v \<longleftrightarrow> (\<exists>ts. nw_log v = nw_log w @ ts \<and> (\<forall>e \<in> set ts. \<not> changing e))"

interpretation qlog: two_state quiet_log
proof
  show "quiet_log w w" for w :: "'a nworld" by (simp add: quiet_log_def)
  show "quiet_log w u" if 1: "quiet_log w v" and 2: "quiet_log v u" for w v u :: "'a nworld"
  proof -
    obtain ts where t: "nw_log v = nw_log w @ ts" "\<forall>e \<in> set ts. \<not> changing e" using 1 unfolding quiet_log_def by blast
    obtain us where u: "nw_log u = nw_log v @ us" "\<forall>e \<in> set us. \<not> changing e" using 2 unfolding quiet_log_def by blast
    from t u show ?thesis unfolding quiet_log_def by (intro exI[of _ "ts @ us"]) auto
  qed
qed

lemma quiet_observed: "(\<And>r. \<forall>e \<in> set (ev r). \<not> changing e) \<Longrightarrow> keeps quiet_log (observed m ev)"
  by (auto simp: keeps_def observed_def quiet_log_def split: prod.split)

lemma quiet_command: "fd = None \<Longrightarrow> keeps quiet_log (node_command N fd b args)"
  unfolding node_command_def by (auto intro!: qlog.keeps_bind qlog.keeps_then qlog.keeps_ret qlog.keeps_require quiet_observed)

lemma quiet_list: "keeps quiet_log (namespace_command N fd b [''-S''])"
  unfolding namespace_command_def node_command_def
  by (auto simp: namespace_args_def intro!: qlog.keeps_bind qlog.keeps_then qlog.keeps_ret qlog.keeps_require quiet_observed)

lemmas quiet_intros = qlog.keeps_ret qlog.keeps_throw qlog.keeps_lift qlog.keeps_require qlog.keeps_bind qlog.keeps_then qlog.keeps_catch
  qlog.keeps_if qlog.keeps_sum quiet_command[OF refl] quiet_list

lemma quiet_inspect: "keeps quiet_log (inspect_pod N q)"
  unfolding inspect_pod_def by (intro quiet_intros)

lemma quiet_pinned: "keeps quiet_log (verify_pinned N q fd pid)"
  unfolding verify_pinned_def by (intro quiet_intros quiet_inspect quiet_observed) auto

lemma quiet_waiting: "keeps quiet_log (init_waiting N q)"
  unfolding init_waiting_def by (intro quiet_intros)

lemma quiet_read: "keeps quiet_log (read_table N fd fw)"
  unfolding read_table_def by (intro quiet_intros)

lemma quiet_plans: "keeps quiet_log (read_plans N fd fws)"
  by (induction fws) (auto intro!: quiet_intros quiet_read)

lemma quiet_verify: "keeps quiet_log (verify_table N fd fw)"
  unfolding verify_table_def by (intro quiet_intros quiet_read)

lemma quiet_flock: "keeps quiet_log (flock_loop N n)"
proof (induction n)
  case 0
  show ?case unfolding flock_loop.simps[of N 0] by (intro quiet_intros quiet_observed) (auto intro!: quiet_intros)
next
  case (Suc n)
  show ?case unfolding flock_loop.simps[of N "Suc n"] using Suc by (intro quiet_intros quiet_observed) (auto intro!: quiet_intros)
qed

section \<open>A successful installation verified an exact firewall\<close>

lemma pinned_exact:
  assumes "gate_pinned N q fd pid w = (Inr u, w')"
  shows "\<exists>pre out4 out6 t4 t6 ts. nw_log w' = pre @ [listing fd (gate_model q ! 0) out4, listing fd (gate_model q ! 1) out6] @ ts \<and>
    pinned_events N q fd pid ts \<and> parse_table out4 = Inr t4 \<and> exact_table t4 (gate_model q ! 0) \<and>
    parse_table out6 = Inr t6 \<and> exact_table t6 (gate_model q ! 1)"
proof -
  obtain w1 w2 where w: "for_io (gate_model q) (verify_table N fd) w1 = (Inr (), w2)" "verify_pinned N q fd pid w2 = (Inr u, w')"
    using assms by (auto simp: gate_pinned_def Inr_iffs)
  have m: "gate_model q = [gate_model q ! 0, gate_model q ! 1]" by (simp add: gate_model_def)
  obtain w3 where v: "verify_table N fd (gate_model q ! 0) w1 = (Inr (), w3)" "verify_table N fd (gate_model q ! 1) w3 = (Inr (), w2)"
    using w(1) by (subst (asm) m) (auto simp: Inr_iffs)
  obtain o4 t4 where a: "nw_log w3 = nw_log w1 @ [listing fd (gate_model q ! 0) o4]" "parse_table o4 = Inr t4" "exact_table t4 (gate_model q ! 0)"
    using verify_table_ok[OF v(1)] by blast
  obtain o6 t6 where b: "nw_log w2 = nw_log w3 @ [listing fd (gate_model q ! 1) o6]" "parse_table o6 = Inr t6" "exact_table t6 (gate_model q ! 1)"
    using verify_table_ok[OF v(2)] by blast
  obtain ts where c: "nw_log w' = nw_log w2 @ ts" "pinned_events N q fd pid ts" using pinned_ok[OF w(2)] by blast
  have "nw_log w' = nw_log w1 @ [listing fd (gate_model q ! 0) o4, listing fd (gate_model q ! 1) o6] @ ts" using a(1) b(1) c(1) by simp
  with a(2,3) b(2,3) c(2) show ?thesis by blast
qed

section \<open>The firewall is changed only before the job runs\<close>

definition runs_gate_only :: "options \<Rightarrow> container list \<Rightarrow> bool" where
  "runs_gate_only q cs \<longleftrightarrow> (\<forall>c \<in> set cs. ct_state c = ''CONTAINER_RUNNING'' \<longrightarrow>
     ct_sandbox c = op_sandbox q \<and> ct_name c = ''network-gate'' \<and> ct_pod c = op_uid q)"

lemma gate_running_only: "gate_running q cs b = Inr v \<Longrightarrow> runs_gate_only q cs"
  by (induction cs arbitrary: b) (auto simp: runs_gate_only_def split: if_splits)

definition appending :: "string list \<Rightarrow> bool" where
  \<comment> \<open>a new chain, an appended rule or an inserted jump; nothing that flushes, replaces or deletes\<close>
  "appending args \<longleftrightarrow> args \<noteq> [] \<and> hd args \<in> {''-N'', ''-A'', ''-I''}"

lemma plan_appends:
  assumes "plan t fw = Inr cs"
  shows "list_all appending cs"
proof -
  have c: "list_all appending xs" if "plan_chain t fw p = Inr xs" for xs p
    using that by (cases p) (auto simp: plan_chain_iff Let_def appending_def list_all_iff split: if_splits)
  have "list_all appending xs" if "plan_chains t fw ps = Inr xs" for ps xs
    using that by (induction ps arbitrary: xs) (auto split: sum.splits dest: c)
  with assms show ?thesis by (simp add: plan_def)
qed

lemma read_plans_append: "read_plans N fd fws w = (Inr ps, w') \<Longrightarrow> \<forall>cs \<in> set ps. list_all appending cs"
  by (induction fws arbitrary: ps w) (auto simp: Inr_iffs dest: plan_appends)

text \<open>The stages of a log: pinned, waited for, changed.\<close>

definition pinned_log :: "'x nodeio \<Rightarrow> options \<Rightarrow> nat \<Rightarrow> node_event list \<Rightarrow> bool" where
  "pinned_log N q fd ts \<longleftrightarrow> (\<forall>e \<in> set ts. \<not> changing e) \<and> (\<exists>a p b pid. ts = a @ p @ b \<and> pinned_events N q fd pid p)"

definition change_of :: "nat \<Rightarrow> node_event \<Rightarrow> bool" where
  "change_of fd e \<longleftrightarrow> (\<exists>bin args r. e = Ran (Some fd) ''/usr/bin/nsenter'' (namespace_args bin args) r \<and> appending args)"

definition waited_log :: "'x nodeio \<Rightarrow> options \<Rightarrow> nat \<Rightarrow> node_event list \<Rightarrow> bool" where
  \<comment> \<open>the namespace is pinned, then the containers are listed, then come the changes\<close>
  "waited_log N q fd ts \<longleftrightarrow> (\<exists>pre out cs post. ts = pre @ Ran None ''/usr/local/bin/crictl'' (ps_args q) (Inr out) # post \<and>
     pinned_log N q fd pre \<and> no_containers N out = Inr cs \<and> runs_gate_only q cs \<and> (\<forall>e \<in> set post. changing e \<longrightarrow> change_of fd e))"

definition gate_log :: "'x nodeio \<Rightarrow> options \<Rightarrow> node_event list \<Rightarrow> bool" where
  "gate_log N q ts \<longleftrightarrow> (\<forall>e \<in> set ts. \<not> changing e) \<or> (\<exists>fd. waited_log N q fd ts)"

abbreviation grown :: "node_event list \<Rightarrow> (node_event list \<Rightarrow> bool) \<Rightarrow> 'x nworld \<Rightarrow> bool" where
  "grown l J w \<equiv> \<exists>ts. nw_log w = l @ ts \<and> J ts"

lemma pinned_more: "pinned_log N q fd ts \<Longrightarrow> \<forall>e \<in> set us. \<not> changing e \<Longrightarrow> pinned_log N q fd (ts @ us)"
  unfolding pinned_log_def by (metis (no_types, lifting) Un_iff append.assoc set_append)

lemma waited_more: "waited_log N q fd ts \<Longrightarrow> \<forall>e \<in> set us. changing e \<longrightarrow> change_of fd e \<Longrightarrow> waited_log N q fd (ts @ us)"
proof -
  assume w: "waited_log N q fd ts" and u: "\<forall>e \<in> set us. changing e \<longrightarrow> change_of fd e"
  obtain pre out cs post where p: "ts = pre @ Ran None ''/usr/local/bin/crictl'' (ps_args q) (Inr out) # post" "pinned_log N q fd pre"
    "no_containers N out = Inr cs" "runs_gate_only q cs" "\<forall>e \<in> set post. changing e \<longrightarrow> change_of fd e"
    using w unfolding waited_log_def by blast
  then have "\<forall>e \<in> set (post @ us). changing e \<longrightarrow> change_of fd e" "ts @ us = pre @ Ran None ''/usr/local/bin/crictl'' (ps_args q) (Inr out) # (post @ us)"
    using u by auto
  with p(2-4) show ?thesis unfolding waited_log_def by blast
qed

lemma triple_quiet:
  assumes "keeps quiet_log m" "\<And>ts us. J ts \<Longrightarrow> \<forall>e \<in> set us. \<not> changing e \<Longrightarrow> J (ts @ us)"
  shows "triple (grown l J) m (\<lambda>_. grown l J) (grown l J)"
proof (rule tripleI)
  fix w :: "'a nworld" assume "grown l J w"
  then obtain ts where ts: "nw_log w = l @ ts" "J ts" by blast
  obtain r v where v: "m w = (r, v)" by fastforce
  obtain us where "nw_log v = nw_log w @ us" "\<forall>e \<in> set us. \<not> changing e"
    using qlog.keepsD[OF assms(1) v] unfolding quiet_log_def by blast
  with ts assms(2)[of ts us] have "grown l J v" by (intro exI[of _ "ts @ us"]) simp
  with v show "case m w of (Inr x, v) \<Rightarrow> grown l J v | (Inl e, v) \<Rightarrow> grown l J v" by (auto split: sum.split)
qed

lemma grown_mono: "grown l J w \<Longrightarrow> (\<And>ts. J ts \<Longrightarrow> J' ts) \<Longrightarrow> grown l J' w"
  by blast

abbreviation no_change :: "node_event list \<Rightarrow> bool" where
  "no_change ts \<equiv> \<forall>e \<in> set ts. \<not> changing e"

lemma gate_log_intros: "no_change ts \<Longrightarrow> gate_log N q ts" "pinned_log N q fd ts \<Longrightarrow> gate_log N q ts" "waited_log N q fd ts \<Longrightarrow> gate_log N q ts"
  by (auto simp: gate_log_def pinned_log_def)

lemma triple_still:
  "keeps quiet_log m \<Longrightarrow> triple (grown l no_change) m (\<lambda>_. grown l no_change) (grown l (gate_log N q))"
  by (rule triple_error[OF triple_quiet]) (auto intro: gate_log_intros)

lemma triple_pinned_still:
  "keeps quiet_log m \<Longrightarrow> triple (grown l (pinned_log N q fd)) m (\<lambda>_. grown l (pinned_log N q fd)) (grown l (gate_log N q))"
  by (rule triple_error[OF triple_quiet]) (auto intro: gate_log_intros pinned_more)

lemma triple_waited_still:
  "keeps quiet_log m \<Longrightarrow> triple (grown l (waited_log N q fd)) m (\<lambda>_. grown l (waited_log N q fd)) (grown l (gate_log N q))"
  by (rule triple_error[OF triple_quiet]) (auto intro: gate_log_intros waited_more)

lemma triple_pin: "triple (grown l no_change) (verify_pinned N q fd pid) (\<lambda>_. grown l (pinned_log N q fd)) (grown l (gate_log N q))"
proof (rule tripleI)
  fix w :: "'a nworld" assume w: "grown l no_change w"
  obtain r v where v: "verify_pinned N q fd pid w = (r, v)" by fastforce
  show "case verify_pinned N q fd pid w of (Inr x, v) \<Rightarrow> grown l (pinned_log N q fd) v | (Inl e, v) \<Rightarrow> grown l (gate_log N q) v"
  proof (cases r)
    case (Inl e)
    with v have m: "verify_pinned N q fd pid w = (Inl e, v)" by simp
    show ?thesis using tripleE[OF triple_still[where N = N and q = q, OF quiet_pinned] w m] m by simp
  next
    case (Inr u)
    obtain ts where ts: "nw_log w = l @ ts" "no_change ts" using w by blast
    obtain us where us: "nw_log v = nw_log w @ us" "pinned_events N q fd pid us" using pinned_ok v Inr by blast
    then have "no_change us" by (auto simp: pinned_events_def)
    then have "pinned_log N q fd (ts @ us)" using ts(2) us(2) unfolding pinned_log_def
      by (intro conjI exI[of _ ts] exI[of _ us] exI[of _ "[]"]) auto
    with ts(1) us(1) v Inr show ?thesis by (auto intro!: exI[of _ "ts @ us"])
  qed
qed

lemma triple_wait: "triple (grown l (pinned_log N q fd)) (init_waiting N q) (\<lambda>_. grown l (waited_log N q fd)) (grown l (gate_log N q))"
proof (rule tripleI)
  fix w :: "'a nworld" assume w: "grown l (pinned_log N q fd) w"
  obtain r v where v: "init_waiting N q w = (r, v)" by fastforce
  show "case init_waiting N q w of (Inr x, v) \<Rightarrow> grown l (waited_log N q fd) v | (Inl e, v) \<Rightarrow> grown l (gate_log N q) v"
  proof (cases r)
    case (Inl e)
    with v have m: "init_waiting N q w = (Inl e, v)" by simp
    show ?thesis using tripleE[OF triple_pinned_still[where N = N and q = q, OF quiet_waiting] w m] m by simp
  next
    case (Inr u)
    obtain ts where ts: "nw_log w = l @ ts" "pinned_log N q fd ts" using w by blast
    obtain out cs b where c: "node_command N None ''/usr/local/bin/crictl'' (ps_args q) w = (Inr out, v)" "no_containers N out = Inr cs" "gate_running q cs False = Inr b"
      using v[unfolded Inr] unfolding init_waiting_def Inr_iffs by blast
    have "nw_log v = l @ ts @ [Ran None ''/usr/local/bin/crictl'' (ps_args q) (Inr out)]" using command_ok[OF c(1)] ts(1) by simp
    moreover have "waited_log N q fd (ts @ [Ran None ''/usr/local/bin/crictl'' (ps_args q) (Inr out)])"
      unfolding waited_log_def using ts(2) c(2) gate_running_only[OF c(3)]
      by (intro exI[of _ ts] exI[of _ out] exI[of _ cs] exI[of _ "[]"]) auto
    ultimately show ?thesis using v Inr by auto
  qed
qed

lemma triple_change:
  assumes "appending args"
  shows "triple (grown l (waited_log N q fd)) (namespace_command N fd b args) (\<lambda>_. grown l (waited_log N q fd)) (grown l (gate_log N q))"
proof (rule tripleI)
  fix w :: "'a nworld" assume w: "grown l (waited_log N q fd) w"
  obtain ts where ts: "nw_log w = l @ ts" "waited_log N q fd ts" using w by blast
  obtain r v where v: "namespace_command N fd b args w = (r, v)" by fastforce
  have "\<exists>r. nw_log v = nw_log w @ [Ran (Some fd) ''/usr/bin/nsenter'' (namespace_args b args) r]"
    using v by (auto simp: namespace_command_def node_command_def observed_def io_apply split: prod.splits sum.splits if_splits)
  then obtain r' where r: "nw_log v = nw_log w @ [Ran (Some fd) ''/usr/bin/nsenter'' (namespace_args b args) r']" ..
  have "waited_log N q fd (ts @ [Ran (Some fd) ''/usr/bin/nsenter'' (namespace_args b args) r'])"
    by (rule waited_more[OF ts(2)]) (use assms in \<open>auto simp: change_of_def\<close>)
  with r ts(1) have g: "grown l (waited_log N q fd) v" by auto
  then have "grown l (gate_log N q) v" by (rule grown_mono) (rule gate_log_intros)
  with g v show "case namespace_command N fd b args w of (Inr x, v) \<Rightarrow> grown l (waited_log N q fd) v | (Inl e, v) \<Rightarrow> grown l (gate_log N q) v"
    by (auto split: sum.split)
qed

lemma triple_run:
  assumes "\<forall>(fw, cs) \<in> set ps. list_all appending cs"
  shows "triple (grown l (waited_log N q fd)) (run_plans N fd ps) (\<lambda>_. grown l (waited_log N q fd)) (grown l (gate_log N q))"
  unfolding run_plans_def
proof (rule triple_for)
  fix x assume x: "x \<in> set ps"
  obtain fw cs where fc: "x = (fw, cs)" by fastforce
  have "triple (grown l (waited_log N q fd)) (for_io cs (\<lambda>args. then_io (namespace_command N fd (fw_binary fw) args) (ret ())))
     (\<lambda>_. grown l (waited_log N q fd)) (grown l (gate_log N q))"
  proof (rule triple_for)
    fix args assume "args \<in> set cs"
    then have "appending args" using assms x fc by (auto simp: list_all_iff)
    then show "triple (grown l (waited_log N q fd)) (then_io (namespace_command N fd (fw_binary fw) args) (ret ()))
      (\<lambda>_. grown l (waited_log N q fd)) (grown l (gate_log N q))"
      by (intro triple_then[OF triple_change] triple_ret)
  qed
  then show "triple (grown l (waited_log N q fd)) (case x of (fw, cs) \<Rightarrow> for_io cs (\<lambda>args. then_io (namespace_command N fd (fw_binary fw) args) (ret ())))
     (\<lambda>_. grown l (waited_log N q fd)) (grown l (gate_log N q))" using fc by simp
qed

definition gate_stage :: "'x nodeio \<Rightarrow> options \<Rightarrow> nat \<Rightarrow> node_event list \<Rightarrow> bool" where
  "gate_stage N q fd ts \<longleftrightarrow> pinned_log N q fd ts \<or> waited_log N q fd ts"

lemma triple_stage:
  "keeps quiet_log m \<Longrightarrow> triple (grown l (gate_stage N q fd)) m (\<lambda>_. grown l (gate_stage N q fd)) (grown l (gate_log N q))"
  by (rule triple_error[OF triple_quiet]) (auto simp: gate_stage_def intro: gate_log_intros pinned_more waited_more)

lemma triple_read_plans:
  "triple (grown l (pinned_log N q fd)) (read_plans N fd fws)
     (\<lambda>ps w. grown l (pinned_log N q fd) w \<and> (\<forall>cs \<in> set ps. list_all appending cs)) (grown l (gate_log N q))"
proof (rule tripleI)
  fix w :: "'a nworld" assume w: "grown l (pinned_log N q fd) w"
  obtain r v where v: "read_plans N fd fws w = (r, v)" by fastforce
  show "case read_plans N fd fws w of (Inr ps, v) \<Rightarrow> grown l (pinned_log N q fd) v \<and> (\<forall>cs \<in> set ps. list_all appending cs)
    | (Inl e, v) \<Rightarrow> grown l (gate_log N q) v"
  proof (cases r)
    case (Inl e)
    with v have m: "read_plans N fd fws w = (Inl e, v)" by simp
    show ?thesis using tripleE[OF triple_pinned_still[where N = N and q = q, OF quiet_plans] w m] m by simp
  next
    case (Inr ps)
    with v have m: "read_plans N fd fws w = (Inr ps, v)" by simp
    show ?thesis using tripleD[OF triple_pinned_still[where N = N and q = q, OF quiet_plans] w m] read_plans_append[OF m] m by simp
  qed
qed

lemma triple_gate:
  "triple (grown l no_change) (gate_pinned N q fd pid) (\<lambda>_. grown l (gate_log N q)) (grown l (gate_log N q))"
  unfolding gate_pinned_def
proof (rule triple_then[OF triple_pin], rule triple_bind[OF triple_read_plans])
  fix plans
  let ?run = "if list_all (\<lambda>cs. cs = []) plans then ret () else then_io (init_waiting N q) (run_plans N fd (zip (gate_model q) plans))"
  let ?P = "grown l (pinned_log N q fd)" and ?S = "grown l (gate_stage N q fd)" and ?E = "grown l (gate_log N q)"
  have r: "triple (\<lambda>w. ?P w \<and> (\<forall>cs \<in> set plans. list_all appending cs)) ?run (\<lambda>_. ?S) ?E"
  proof (rule triple_pure)
    assume a: "\<forall>cs \<in> set plans. list_all appending cs"
    have z: "\<forall>(fw, cs) \<in> set (zip (gate_model q) plans). list_all appending cs" using a by (auto dest: set_zip_rightD)
    have "triple ?P (then_io (init_waiting N q) (run_plans N fd (zip (gate_model q) plans))) (\<lambda>_. ?S) ?E"
      by (rule triple_post[OF triple_then[OF triple_wait triple_run[OF z]]]) (auto simp: gate_stage_def)
    then show "triple ?P ?run (\<lambda>_. ?S) ?E"
      by (cases "list_all (\<lambda>cs. cs = []) plans") (auto simp: gate_stage_def intro!: triple_ret)
  qed
  have f: "triple ?S (for_io (gate_model q) (verify_table N fd)) (\<lambda>_. ?S) ?E" by (rule triple_for) (rule triple_stage[OF quiet_verify])
  have p: "triple ?S (verify_pinned N q fd pid) (\<lambda>_. ?E) ?E"
    by (rule triple_post[OF triple_stage[OF quiet_pinned]]) (auto simp: gate_stage_def intro: gate_log_intros)
  show "triple (\<lambda>w. ?P w \<and> (\<forall>cs \<in> set plans. list_all appending cs))
     (then_io ?run (then_io (for_io (gate_model q) (verify_table N fd)) (verify_pinned N q fd pid))) (\<lambda>_. ?E) ?E"
    by (rule triple_then[OF r triple_then[OF f p]])
qed

lemma quiet_silent: "keeps quiet_log (observed m (\<lambda>_. []))"
  by (rule quiet_observed) simp

lemma triple_install: "triple (grown l no_change) (install N n q) (\<lambda>_. grown l (gate_log N q)) (grown l (gate_log N q))"
  unfolding install_def
proof (rule triple_then[OF triple_still[OF qlog.keeps_require]], rule triple_then[OF triple_still[OF quiet_silent]],
    rule triple_then[OF triple_still[OF quiet_flock]], rule triple_bind[OF triple_still[OF quiet_inspect]],
    rule triple_bind[OF triple_still[OF qlog.keeps_catch[OF quiet_silent]]])
  fix s and r :: "gerr + nat"
  show "triple (grown l no_change) (case r of Inl e \<Rightarrow> throw EPending | Inr fd \<Rightarrow> gate_pinned N q fd (in_pid s))
    (\<lambda>_. grown l (gate_log N q)) (grown l (gate_log N q))"
    by (cases r) (auto simp: triple_gate intro!: triple_error[OF triple_throw] gate_log_intros(1))
qed

lemma install_logs:
  assumes "install N n q w = (r, w')"
  shows "\<exists>ts. nw_log w' = nw_log w @ ts \<and> gate_log N q ts"
proof -
  have w: "grown (nw_log w) no_change w" by (intro exI[of _ "[]"]) simp
  show ?thesis
  proof (cases r)
    case (Inl e)
    with assms have "install N n q w = (Inl e, w')" by simp
    from tripleE[OF triple_install w this] show ?thesis .
  next
    case (Inr u)
    with assms have "install N n q w = (Inr u, w')" by simp
    from tripleD[OF triple_install w this] show ?thesis .
  qed
qed

lemma install_exact:
  assumes "install N n q w = (Inr u, w')"
  shows "options_ok q \<and> (\<exists>pre fd pid out4 out6 t4 t6 ts.
    nw_log w' = pre @ [listing fd (gate_model q ! 0) out4, listing fd (gate_model q ! 1) out6] @ ts \<and> pinned_events N q fd pid ts \<and>
    parse_table out4 = Inr t4 \<and> exact_table t4 (gate_model q ! 0) \<and> parse_table out6 = Inr t6 \<and> exact_table t6 (gate_model q ! 1))"
proof -
  obtain fd w1 and s :: inspection where a: "options_ok q" and g: "gate_pinned N q fd (in_pid s) w1 = (Inr u, w')"
    using assms unfolding install_def then_Inr_iff leaf_Inr_iff bind_Inr_iff[of "inspect_pod N q"] catch_throw_iff by blast
  from pinned_exact[OF g] show ?thesis by (elim exE) (rule conjI, rule a, intro exI, assumption)
qed

end
