(* ===== verification/Firewall_Sample.thy ===== *)
theory Firewall_Sample
  imports Firewall
begin

text \<open>
  A concrete node for the firewall helper: a pod whose IPv4 table lacks the jump from OUTPUT, so that one
  command completes it; and an executable model of the three commands a plan consists of.
\<close>

section \<open>Listings\<close>

definition unlines :: "string list \<Rightarrow> string" where
  "unlines ls = concat (map (\<lambda>l. l @ [CHR 0x0A]) ls)"

definition plain :: "string \<Rightarrow> bool" where
  "plain s \<longleftrightarrow> (\<forall>c \<in> set s. (of_char c :: nat) < 128)"

abbreviation gap :: "char \<Rightarrow> bool" where
  "gap c \<equiv> is_space (of_char c)"

lemma chunks_plain: "plain s \<Longrightarrow> chunks s = map (\<lambda>c. (of_char c, [c])) s"
  by (induction s) (auto simp: plain_def chunks_ascii)

lemma trim_plain: "plain s \<Longrightarrow> trim_space s = rev (dropWhile gap (rev (dropWhile gap s)))"
  by (simp add: trim_space_def chunks_plain dropWhile_map rev_map comp_def space_chunk_def)

lemma split_on_free: "d \<notin> set l \<Longrightarrow> split_on d l = [l]"
  by (induction l) auto

lemma split_on_line: "d \<notin> set l \<Longrightarrow> split_on d (l @ d # s) = l # split_on d s"
  by (induction l) auto

lemma split_unlines: "ls \<noteq> [] \<Longrightarrow> \<forall>l \<in> set ls. CHR 0x0A \<notin> set l \<Longrightarrow> split_on (CHR 0x0A) (butlast (unlines ls)) = ls"
proof (induction ls)
  case (Cons l ls)
  show ?case
  proof (cases ls)
    case Nil
    with Cons.prems show ?thesis by (simp add: unlines_def split_on_free)
  next
    case (Cons k ks)
    then have ne: "unlines ls \<noteq> []" by (simp add: unlines_def)
    have "butlast (unlines (l # ls)) = l @ CHR 0x0A # butlast (unlines ls)" using ne by (simp add: unlines_def butlast_append)
    with Cons Cons.IH Cons.prems show ?thesis by (simp add: split_on_line)
  qed
qed simp

definition line :: "string \<Rightarrow> bool" where
  "line l \<longleftrightarrow> l \<noteq> [] \<and> plain l \<and> CHR 0x0A \<notin> set l \<and> \<not> gap (hd l) \<and> \<not> gap (last l)"

lemma unlines_last: "ls \<noteq> [] \<Longrightarrow> \<forall>l \<in> set ls. line l \<Longrightarrow> \<exists>y c. unlines ls = y @ [c, CHR 0x0A] \<and> \<not> gap c"
proof -
  assume a: "ls \<noteq> []" "\<forall>l \<in> set ls. line l"
  then have "line (last ls)" by simp
  then have l: "last ls = butlast (last ls) @ [last (last ls)]" "\<not> gap (last (last ls))" by (simp_all add: line_def)
  have "unlines ls = unlines (butlast ls @ [last ls])" using a(1) by simp
  also have "\<dots> = unlines (butlast ls) @ last ls @ [CHR 0x0A]" by (simp add: unlines_def del: append_butlast_last_id)
  also have "\<dots> = (unlines (butlast ls) @ butlast (last ls)) @ [last (last ls), CHR 0x0A]" by (subst l(1)) simp
  finally show ?thesis using l(2) by blast
qed

lemma trim_unlines:
  assumes "ls \<noteq> []" "\<forall>l \<in> set ls. line l"
  shows "trim_space (unlines ls) = butlast (unlines ls)"
proof -
  have p: "plain (unlines ls)" using assms(2) by (auto simp: plain_def unlines_def line_def)
  obtain l ks where l: "ls = l # ks" using assms(1) by (cases ls) auto
  have h: "dropWhile gap (unlines ls) = unlines ls"
    using assms(2) l by (cases l) (auto simp: unlines_def line_def)
  obtain y c where y: "unlines ls = y @ [c, CHR 0x0A]" "\<not> gap c" using unlines_last[OF assms] by blast
  have "gap (CHR 0x0A)" by (simp add: is_space_def in_rng_def)
  with y show ?thesis unfolding trim_plain[OF p] h by (simp add: butlast_append)
qed

lemma parse_unlines:
  assumes "ls \<noteq> []" "\<forall>l \<in> set ls. line l"
  shows "parse_table (unlines ls) = parse_lines ls []"
  unfolding parse_table_def trim_unlines[OF assms] using split_unlines[OF assms(1)] assms(2) by (simp add: line_def)

lemma parse_words:
  "\<forall>w \<in> set (kind # name # ws). word w \<Longrightarrow> parse_lines (join_words (kind # name # ws) # ls) t =
     (if kind = ''-N'' \<or> kind = ''-P'' then (if has_key t name then Inl (EMsg ''duplicate chain'') else parse_lines ls (AList.update name [] t))
      else if kind = ''-A'' then (if \<not> has_key t name then Inl (EMsg ''rule before chain'')
           else parse_lines ls (AList.update name (lookup_or [] t name @ [join_words ws]) t))
      else Inl (EMsg ''unexpected iptables listing''))"
  by (simp add: fields_join del: join_words.simps)

lemma join_line: "ws \<noteq> [] \<Longrightarrow> \<forall>w \<in> set ws. word w \<Longrightarrow> line (join_words ws)"
proof -
  assume a: "ws \<noteq> []" "\<forall>w \<in> set ws. word w"
  have g: "\<not> gap c" if "(33::nat) \<le> of_char c" "(of_char c :: nat) < 127" for c using that by (auto simp: is_space_def in_rng_def)
  have w: "w \<noteq> [] \<and> plain w \<and> CHR 0x0A \<notin> set w \<and> \<not> gap (hd w) \<and> \<not> gap (last w)" if "word w" for w
  proof -
    have c: "(33::nat) \<le> of_char c \<and> (of_char c :: nat) < 127" if "c \<in> set w" for c using \<open>word w\<close> that by (simp add: word_def)
    have n: "w \<noteq> []" using that by (simp add: word_def)
    have "plain w" unfolding plain_def using c by force
    moreover have "CHR 0x0A \<notin> set w" using c[of "CHR 0x0A"] by auto
    ultimately show ?thesis using n c[of "hd w"] c[of "last w"] g by simp
  qed
  show ?thesis
    using a
  proof (induction ws rule: join_words.induct)
    case (2 v)
    then show ?case using w[of v] by (simp add: line_def)
  next
    case (3 v u ws)
    then have "line (join_words (u # ws))" by simp
    with 3(3) w[of v] show ?case by (auto simp: line_def plain_def)
  qed simp
qed

section \<open>A node\<close>

definition gate_options :: options where
  "gate_options = \<lparr>op_sandbox = replicate 64 (CHR ''a''), op_uid = ''796b063d-c008-4432-a6aa-891b186535d2'',
     op_ns = ''proof-runner-'' @ replicate 32 (CHR ''b''), op_api = ''10.96.0.1'', op_endpoint = ''172.19.0.2''\<rparr>"

definition policies :: "string list list" where
  "policies = [[''-P'', ''INPUT'', ''ACCEPT''],
     [''-P'', ''FORWARD'', ''ACCEPT''],
     [''-P'', ''OUTPUT'', ''ACCEPT''],
     [''-N'', ''PROOF-EGRESS''],
     [''-N'', ''PROOF-INGRESS'']]"

definition rules4 :: "string list list" where
  "rules4 = [[''-A'', ''INPUT'', ''-j'', ''PROOF-INGRESS''],
     [''-A'', ''PROOF-EGRESS'', ''-o'', ''lo'', ''-j'', ''ACCEPT''],
     [''-A'', ''PROOF-EGRESS'', ''-d'', ''10.96.0.1/32'', ''-p'', ''tcp'', ''-m'', ''tcp'', ''--dport'', ''443'', ''-j'', ''ACCEPT''],
     [''-A'', ''PROOF-EGRESS'', ''-d'', ''172.19.0.2/32'', ''-p'', ''tcp'', ''-m'', ''tcp'', ''--dport'', ''6443'', ''-j'', ''ACCEPT''],
     [''-A'', ''PROOF-EGRESS'', ''-j'', ''REJECT'', ''--reject-with'', ''icmp-port-unreachable''],
     [''-A'', ''PROOF-INGRESS'', ''-i'', ''lo'', ''-j'', ''ACCEPT''],
     [''-A'', ''PROOF-INGRESS'', ''-m'', ''conntrack'', ''--ctstate'', ''RELATED,ESTABLISHED'', ''-j'', ''ACCEPT''],
     [''-A'', ''PROOF-INGRESS'', ''-j'', ''REJECT'', ''--reject-with'', ''icmp-port-unreachable'']]"

definition rules6 :: "string list list" where
  "rules6 = [[''-A'', ''INPUT'', ''-j'', ''PROOF-INGRESS''],
     [''-A'', ''OUTPUT'', ''-j'', ''PROOF-EGRESS''],
     [''-A'', ''PROOF-EGRESS'', ''-o'', ''lo'', ''-j'', ''ACCEPT''],
     [''-A'', ''PROOF-EGRESS'', ''-j'', ''REJECT'', ''--reject-with'', ''icmp6-port-unreachable''],
     [''-A'', ''PROOF-INGRESS'', ''-i'', ''lo'', ''-j'', ''ACCEPT''],
     [''-A'', ''PROOF-INGRESS'', ''-m'', ''conntrack'', ''--ctstate'', ''RELATED,ESTABLISHED'', ''-j'', ''ACCEPT''],
     [''-A'', ''PROOF-INGRESS'', ''-j'', ''REJECT'', ''--reject-with'', ''icmp6-port-unreachable'']]"

definition list_tables :: "path \<Rightarrow> bool \<Rightarrow> bytes" where
  \<comment> \<open>what \<open>-S\<close> prints, before and after the jump is there\<close>
  "list_tables bin jump = (if bin = ''/usr/sbin/ip6tables'' then unlines (map join_words (policies @ rules6))
     else unlines (map join_words (policies @ (if jump then [[''-A'', ''OUTPUT'', ''-j'', ''PROOF-EGRESS'']] else []) @ rules4)))"

definition gate_node_io :: "bool nodeio" where
  \<comment> \<open>its state: was a command run in the namespace\<close>
  "gate_node_io = \<lparr>no_run = \<lambda>fd b args x. (case fd of None \<Rightarrow> (Inr ''json'', x)
       | Some _ \<Rightarrow> if drop 7 args = [''-S''] then (Inr (list_tables (args ! 2) x), x) else (Inr [], True)),
     no_lock_file = \<lambda>_. ret (), no_flock = ret True, no_open_ns = \<lambda>_. ret 3, no_stat_fd = \<lambda>_. ret 7, no_stat_pid = \<lambda>_. ret 7, no_stat_self = ret 1,
     no_inspection = \<lambda>_. Inr \<lparr>in_id = op_sandbox gate_options, in_state = ''SANDBOX_READY'', in_uid = op_uid gate_options, in_ns = op_ns gate_options,
       in_network = ''0'', in_pid = 1234\<rparr>,
     no_containers = \<lambda>_. Inr [\<lparr>ct_sandbox = op_sandbox gate_options, ct_state = ''CONTAINER_RUNNING'', ct_name = ''network-gate'', ct_pod = op_uid gate_options\<rparr>]\<rparr>"

lemma gate_options_ok: "options_ok gate_options"
  by code_simp

definition egress4 :: "string list" where
  "egress4 = lookup_or [] (fw_expected (gate_model gate_options ! 0)) ''PROOF-EGRESS''"

definition base_table :: "string list \<Rightarrow> table" where
  "base_table output = [(''INPUT'', [''-j PROOF-INGRESS'']), (''FORWARD'', []), (''OUTPUT'', output)]"

definition gate_lines :: "string list list" where
  "gate_lines = policies @ [[''-A'', ''OUTPUT'', ''-j'', ''PROOF-EGRESS'']] @ rules4 @ rules6"

lemma gate_lines_words: "\<forall>ws \<in> set gate_lines. ws \<noteq> [] \<and> (\<forall>w \<in> set ws. word w)"
  by (simp add: gate_lines_def policies_def rules4_def rules6_def word_def)

lemma listed: "set wss \<subseteq> set gate_lines \<Longrightarrow> wss \<noteq> [] \<Longrightarrow> parse_table (unlines (map join_words wss)) = parse_lines (map join_words wss) []"
proof (rule parse_unlines)
  assume "set wss \<subseteq> set gate_lines"
  then have "line (join_words ws)" if "ws \<in> set wss" for ws using that gate_lines_words join_line by blast
  then show "\<forall>l \<in> set (map join_words wss). line l" by simp
qed simp

lemma gate_lines_fields: "\<forall>ws \<in> set gate_lines. fields_of (join_words ws) = ws"
  using gate_lines_words fields_join by blast

lemma listed4:
  "parse_table (list_tables ''/usr/sbin/iptables'' jump) =
     Inr (base_table (if jump then [''-j PROOF-EGRESS''] else []) @ fw_expected (gate_model gate_options ! 0))"
proof -
  let ?ls = "policies @ (if jump then [[''-A'', ''OUTPUT'', ''-j'', ''PROOF-EGRESS'']] else []) @ rules4"
  have 1: "list_tables ''/usr/sbin/iptables'' jump = unlines (map join_words ?ls)" by (simp add: list_tables_def)
  have 2: "parse_table (unlines (map join_words ?ls)) = parse_lines (map join_words ?ls) []" by (rule listed) (auto simp: gate_lines_def policies_def)
  have 3: "parse_lines (map join_words ?ls) [] = Inr (base_table (if jump then [''-j PROOF-EGRESS''] else []) @ fw_expected (gate_model gate_options ! 0))"
    using gate_lines_fields
    by (simp add: gate_lines_def policies_def rules4_def rules6_def gate_model_def gate_options_def base_table_def reject4_def accept_known_def)
  show ?thesis unfolding 1 2 by (rule 3)
qed

lemma listed6:
  "parse_table (list_tables ''/usr/sbin/ip6tables'' jump) = Inr (base_table [''-j PROOF-EGRESS''] @ fw_expected (gate_model gate_options ! 1))"
proof -
  let ?ls = "policies @ rules6"
  have 1: "list_tables ''/usr/sbin/ip6tables'' jump = unlines (map join_words ?ls)" by (simp add: list_tables_def)
  have 2: "parse_table (unlines (map join_words ?ls)) = parse_lines (map join_words ?ls) []" by (rule listed) (auto simp: gate_lines_def policies_def)
  have 3: "parse_lines (map join_words ?ls) [] = Inr (base_table [''-j PROOF-EGRESS''] @ fw_expected (gate_model gate_options ! 1))"
    using gate_lines_fields
    by (simp add: gate_lines_def policies_def rules4_def rules6_def gate_model_def gate_options_def base_table_def reject6_def accept_known_def)
  show ?thesis unfolding 1 2 by (rule 3)
qed

lemma sample_plans:
  "plan (base_table [''-j PROOF-EGRESS''] @ fw_expected (gate_model gate_options ! 0)) (gate_model gate_options ! 0) = Inr []"
  "plan (base_table [''-j PROOF-EGRESS''] @ fw_expected (gate_model gate_options ! 1)) (gate_model gate_options ! 1) = Inr []"
  "plan (base_table [] @ fw_expected (gate_model gate_options ! 0)) (gate_model gate_options ! 0) = Inr [[''-I'', ''OUTPUT'', ''1'', ''-j'', ''PROOF-EGRESS'']]"
  by (simp add: plan_exact exact_table_def gate_chains_def base_table_def gate_model_def)
    (simp add: plan_exact exact_table_def gate_chains_def base_table_def gate_model_def,
     simp add: plan_def gate_chains_def plan_chain_def has_key_def base_table_def gate_model_def)

section \<open>One installation\<close>

definition fw4 :: firewall where "fw4 = gate_model gate_options ! 0"
definition fw6 :: firewall where "fw6 = gate_model gate_options ! 1"

lemma sample_model: "gate_model gate_options = [fw4, fw6]" "fw_binary fw4 = ''/usr/sbin/iptables''" "fw_binary fw6 = ''/usr/sbin/ip6tables''"
  by (simp_all add: fw4_def fw6_def gate_model_def)

lemmas sample_tables = listed4[folded fw4_def] listed6[folded fw6_def] sample_plans[folded fw4_def fw6_def]

lemma node_fields [simp]:
  "no_run gate_node_io None b args x = (Inr ''json'', x)"
  "no_run gate_node_io (Some fd) b args x = (if drop 7 args = [''-S''] then (Inr (list_tables (args ! 2) x), x) else (Inr [], True))"
  "no_lock_file gate_node_io f x = (Inr (), x)" "no_flock gate_node_io x = (Inr True, x)" "no_open_ns gate_node_io pid x = (Inr 3, x)"
  "no_stat_fd gate_node_io fd x = (Inr 7, x)" "no_stat_pid gate_node_io pid x = (Inr 7, x)" "no_stat_self gate_node_io x = (Inr 1, x)"
  "no_inspection gate_node_io out = Inr \<lparr>in_id = op_sandbox gate_options, in_state = ''SANDBOX_READY'', in_uid = op_uid gate_options, in_ns = op_ns gate_options,
     in_network = ''0'', in_pid = 1234\<rparr>"
  "no_containers gate_node_io out = Inr [\<lparr>ct_sandbox = op_sandbox gate_options, ct_state = ''CONTAINER_RUNNING'', ct_name = ''network-gate'', ct_pod = op_uid gate_options\<rparr>]"
  by (simp_all add: gate_node_io_def ret_def)

lemma listing_short: "length (list_tables b x) \<le> 8388608"
  by (simp add: list_tables_def unlines_def policies_def rules4_def rules6_def)

lemma node_lists:
  "namespace_command gate_node_io fd b [''-S''] w = (Inr (list_tables b (nw_ext w)), w\<lparr>nw_log := nw_log w @
     [Ran (Some fd) ''/usr/bin/nsenter'' (namespace_args b [''-S'']) (Inr (list_tables b (nw_ext w)))]\<rparr>)"
  by (simp add: namespace_command_def node_command_def observed_def io_apply listing_short namespace_args_def)

lemma node_inspects:
  "inspect_pod gate_node_io gate_options w = (Inr \<lparr>in_id = op_sandbox gate_options, in_state = ''SANDBOX_READY'', in_uid = op_uid gate_options,
       in_ns = op_ns gate_options, in_network = ''0'', in_pid = 1234\<rparr>,
     w\<lparr>nw_log := nw_log w @ [Ran None ''/usr/local/bin/crictl'' (inspect_args gate_options) (Inr ''json'')]\<rparr>)"
  by (simp add: inspect_pod_def node_command_def observed_def io_apply check_inspection_def check_def)

lemma node_verifies: "\<exists>ts. verify_pinned gate_node_io gate_options fd 1234 w = (Inr (), w\<lparr>nw_log := nw_log w @ ts\<rparr>)"
  by (simp add: verify_pinned_def node_inspects io_apply observed_def, blast)

lemma node_waits: "\<exists>ts. init_waiting gate_node_io gate_options w = (Inr (), w\<lparr>nw_log := nw_log w @ ts\<rparr>)"
  by (simp add: init_waiting_def node_command_def observed_def io_apply, blast)

lemma node_changes:
  "namespace_command gate_node_io fd b [''-I'', x, y, z, c] w = (Inr [], w\<lparr>nw_ext := True, nw_log := nw_log w @
     [Ran (Some fd) ''/usr/bin/nsenter'' (namespace_args b [''-I'', x, y, z, c]) (Inr [])]\<rparr>)"
  by (simp add: namespace_command_def node_command_def observed_def io_apply namespace_args_def)

definition gate_start :: "bool nworld" where
  "gate_start = \<lparr>nw_ext = False, nw_log = []\<rparr>"

lemma node_reads:
  "read_plans gate_node_io fd (gate_model gate_options) w = (Inr [if nw_ext w then [] else [[''-I'', ''OUTPUT'', ''1'', ''-j'', ''PROOF-EGRESS'']], []],
     w\<lparr>nw_log := nw_log w @ [listing fd fw4 (list_tables ''/usr/sbin/iptables'' (nw_ext w)), listing fd fw6 (list_tables ''/usr/sbin/ip6tables'' (nw_ext w))]\<rparr>)"
  by (simp add: sample_model read_table_def node_lists io_apply sample_tables listing_def)

lemma node_checks:
  "nw_ext w \<Longrightarrow> for_io (gate_model gate_options) (verify_table gate_node_io fd) w = (Inr (),
     w\<lparr>nw_log := nw_log w @ [listing fd fw4 (list_tables ''/usr/sbin/iptables'' True), listing fd fw6 (list_tables ''/usr/sbin/ip6tables'' True)]\<rparr>)"
  by (simp add: sample_model verify_table_def read_table_def node_lists io_apply sample_tables listing_def)

lemma gate_installs: "\<exists>v. install gate_node_io 0 gate_options gate_start = (Inr (), v) \<and> (\<exists>e \<in> set (nw_log v). changing e)"
proof -
  obtain w where w: "gate_pinned gate_node_io gate_options 3 1234 w = (fst (install gate_node_io 0 gate_options gate_start), snd (install gate_node_io 0 gate_options gate_start))"
    "nw_ext w = False"
  proof -
    have "install gate_node_io 0 gate_options gate_start = gate_pinned gate_node_io gate_options 3 1234
       (gate_start\<lparr>nw_log := [Ran None ''/usr/local/bin/crictl'' (inspect_args gate_options) (Inr ''json'')]\<rparr>)"
      by (simp add: install_def gate_options_ok io_apply observed_def flock_loop.simps node_inspects gate_start_def)
    then show ?thesis using that by (simp add: gate_start_def)
  qed
  obtain t1 where 1: "verify_pinned gate_node_io gate_options 3 1234 w = (Inr (), w\<lparr>nw_log := nw_log w @ t1\<rparr>)" using node_verifies by blast
  define w1 where "w1 = w\<lparr>nw_log := nw_log w @ t1 @ [listing 3 fw4 (list_tables ''/usr/sbin/iptables'' False), listing 3 fw6 (list_tables ''/usr/sbin/ip6tables'' False)]\<rparr>"
  have 2: "read_plans gate_node_io 3 (gate_model gate_options) (w\<lparr>nw_log := nw_log w @ t1\<rparr>) = (Inr [[[''-I'', ''OUTPUT'', ''1'', ''-j'', ''PROOF-EGRESS'']], []], w1)"
    by (simp add: node_reads w w1_def)
  obtain t2 where 3: "init_waiting gate_node_io gate_options w1 = (Inr (), w1\<lparr>nw_log := nw_log w1 @ t2\<rparr>)" using node_waits by blast
  define c where "c = Ran (Some 3) ''/usr/bin/nsenter'' (namespace_args ''/usr/sbin/iptables'' [''-I'', ''OUTPUT'', ''1'', ''-j'', ''PROOF-EGRESS'']) (Inr [])"
  have 4: "run_plans gate_node_io 3 (zip (gate_model gate_options) [[[''-I'', ''OUTPUT'', ''1'', ''-j'', ''PROOF-EGRESS'']], []]) (w1\<lparr>nw_log := nw_log w1 @ t2\<rparr>) =
     (Inr (), w1\<lparr>nw_ext := True, nw_log := nw_log w1 @ t2 @ [c]\<rparr>)"
    by (simp add: run_plans_def sample_model io_apply node_changes c_def)
  define w2 where "w2 = w1\<lparr>nw_ext := True, nw_log := nw_log w1 @ t2 @ [c, listing 3 fw4 (list_tables ''/usr/sbin/iptables'' True), listing 3 fw6 (list_tables ''/usr/sbin/ip6tables'' True)]\<rparr>"
  have 5: "for_io (gate_model gate_options) (verify_table gate_node_io 3) (w1\<lparr>nw_ext := True, nw_log := nw_log w1 @ t2 @ [c]\<rparr>) = (Inr (), w2)"
    by (simp add: node_checks w2_def)
  obtain t3 where 6: "verify_pinned gate_node_io gate_options 3 1234 w2 = (Inr (), w2\<lparr>nw_log := nw_log w2 @ t3\<rparr>)" using node_verifies by blast
  have "gate_pinned gate_node_io gate_options 3 1234 w = (Inr (), w2\<lparr>nw_log := nw_log w2 @ t3\<rparr>)"
    unfolding gate_pinned_def using 1 2 3 4 5 6 by (simp add: io_apply)
  moreover have "changing c" by (simp add: c_def namespace_args_def)
  ultimately show ?thesis using w(1) by (intro exI[of _ "w2\<lparr>nw_log := nw_log w2 @ t3\<rparr>"]) (auto simp: w2_def prod_eq_iff)
qed

section \<open>The commands of a plan\<close>

definition apply_command :: "table \<Rightarrow> string list \<Rightarrow> table option" where
  "apply_command t args = (case args of
     kind # chain # ws \<Rightarrow>
       (if kind = ''-N'' then (if has_key t chain then None else Some (AList.update chain [] t))
        else if kind = ''-A'' then map_option (\<lambda>rs. AList.update chain (rs @ [join_words ws]) t) (map_of t chain)
        else if kind = ''-I'' \<and> length ws = 3 \<and> has_key t (ws ! 2) then map_option (\<lambda>rs. AList.update chain (join_words (drop 1 ws) # rs) t) (map_of t chain)
        else None)
   | _ \<Rightarrow> None)"

lemma apply_laws: "iptables_laws apply_command rules"
  by (auto simp: iptables_laws_def apply_command_def update_conv)

end
