(* ===== verification/Spec2Isabelle.thy ===== *)
theory Spec2Isabelle
  imports Recovery_Sample Firewall_Sample
begin

text \<open>
  A verification of the cleanup-receipt system: the Go packages under src/internal and the commands
  under src/cmd that run a disposable CI job, destroy what it created, and turn what was observed into
  a signed, archived receipt.

  \<^bold>\<open>The program.\<close> The coordinator (internal/coordinator) provisions one isolated job, follows it, collects
  its evidence and logs, deletes its namespaces and records everything in a ledger file, run.json; its
  collector on the node (internal/coordinator/observer) contributes observations the job cannot forge.
  Inside the job, the cleanup engine (internal/proof) inventories and deletes what the job made. The
  finalizer (internal/finalizer) freezes the coordinator's directory, archives it (internal/archive),
  builds a receipt, has it signed by Cosign and publishes it. The delivery queue (internal/delivery)
  posts published results to the metadata API (internal/api), which verifies them against the archive
  again before it ingests them. The watchdog (internal/watchdog) restarts interrupted finalizations.

  \<^bold>\<open>Conventions.\<close> Strings and byte slices are lists of bytes, times and durations integers in
  nanoseconds (the code never comes near the 64-bit limits: receipts end before \<open>year_10000\<close>), Go maps
  association lists. A function that may fail returns \<^typ>\<open>gerr\<close> or a value; a method with effects is an
  \<open>io\<close>, a function from its world to an error or a value and the next world, so what was written before
  a failure stays written. Errors keep what the code inspects (sentinels, \<open>errors.Is\<close>, terminal or not);
  the text that \<open>fmt.Errorf\<close> puts in front of a wrapped error is dropped. Reads of the clock, faults
  of single system calls, and everything outside the repository are parameters, indexed by a tick of
  the world where they may differ from call to call: so a theorem covers every fault, every crash point
  and every behaviour of another process that these calls could show. Third-party code that is a
  parameter: the JSON canonicalizer and \<open>encoding/json\<close> (\<open>codec\<close>, with the hypothesis \<open>sound_codec\<close> that
  decoding inverts encoding), the S3 client (\<open>s3\<close>), Cosign, the token endpoint, the Kubernetes API
  server (\<open>kube\<close>, with the hypothesis \<open>honest\<close>), PostgreSQL (rows of tables; which statement fails is a
  parameter), HTTP servers. SHA-256 and UTF-8 decoding are modelled in full.

  \<^bold>\<open>Theories.\<close> Shared: \<open>Prelude\<close> (errors, maps, the \<open>io\<close> combinators, the invariant calculus: \<open>keeps\<close> in
  the locale \<open>two_state\<close> for two-state invariants, \<open>triple\<close> for pre- and postconditions), \<open>Text\<close> (Go
  string functions and the regular expressions), \<open>Digest\<close> (SHA-256), \<open>Files\<close> (bounded reads and
  durable replacement).

  \<^item> \<open>ProofModel\<close> and \<open>Observer\<close>: internal/proof/model.go, assignment.go and
    internal/coordinator/observer/contract.go, files_linux.go: identities, cleanup contexts, evidence,
    assignments, collector results, and the automaton of the log watch.
  \<^item> \<open>Ledger\<close>, \<open>Staging\<close>, \<open>Observations\<close>: internal/coordinator/ledger.go, staging.go, observations.go:
    the ledger file, the job evidence, the trusted observations and their publication.
  \<^item> \<open>Net\<close>, \<open>Cluster\<close>: IPv4 addresses as the gate reads them; the Kubernetes objects and the API server the
    coordinator sees (\<open>capi\<close>, a record of operations on a state of its own), the coordinator's world
    (ledger in memory, run directory, cluster, clock) and the two-state invariants of all its steps.
    \<open>Provision\<close>: provision.go. \<open>Collection\<close>: collector.go and the log part of staging.go. \<open>Gate\<close>:
    network_gate.go. \<open>Coordinator\<close>: coordinator.go, from Start and Collect down to the deletions, and
    \<open>lives\<close>, the histories of a run. \<open>Disposal\<close>: the hypothesis \<open>answers\<close> on the API server and what a
    successful disposal has achieved.
  \<^item> \<open>Sandbox\<close>, \<open>Cleanup\<close>: internal/proof/files_linux.go and kubernetes.go: the sandbox and its wiping, the
    inventory of a namespace, deletion under UID preconditions, confirmation of absence.
  \<^item> \<open>Archive\<close>: internal/archive/archive.go, the client of the versioned object store.
  \<^item> \<open>Receipt\<close>, \<open>Finalizer\<close>, \<open>Signing\<close>: internal/finalizer/schema.go, archived.go, core.go, signing.go.
    \<open>Progress\<close>, \<open>Publication\<close> and \<open>Completion\<close> hold the invariants, the safety and the liveness of the
    engine; the locales \<open>archive_contract\<close> and \<open>signer_contract\<close> of \<open>Publication\<close> state what the engine
    relies on, and are interpreted on the clients of internal/archive and of signing.go.
  \<^item> \<open>Watchdog\<close>: internal/watchdog/state.go. \<open>Delivery\<close>: internal/delivery/queue.go. \<open>Api\<close>:
    internal/api/verify.go, store.go, recovery.go, http.go, config.go.
  \<^item> \<open>Documents\<close>, \<open>Samples\<close> and \<open>Rehearsal\<close>: a concrete wire format on which the hypotheses about codecs hold
    together, and one complete run (ledger, archive, signer, sandbox, API server, queue) to which the
    theorems below are applied.

  \<^bold>\<open>Bounds and fuel.\<close> \<open>empty_directory\<close> recurses on the number of levels that are left; 129 levels are
  what the code's limit of depth 128 admits, and level 130 is the code's error, so the fuel is never what
  ends it. The loops of \<open>Inventory\<close> over pages and of \<open>RemoveResources\<close> and the coordinator's deletion over
  ticks end when the context's deadline passes; the model takes the number of requests and of ticks until
  then as an argument and returns the deadline's error at the end, which is what the code does then.
  \<open>all_pages\<close> gets one request more than there are rows, which is shown to suffice. All other loops are
  structural. The coordinator's own polls get the ticks of their deadline from \<open>re_ticks\<close> in the same way.

  \<^bold>\<open>The coordinator's runs.\<close> Besides its state, the coordinator's world logs what was asked of others:
  \<open>rw_launches\<close> counts the requests for a job, \<open>rw_deletions\<close> lists the deletions, \<open>rw_trace\<close> what was done
  on the node. Each start, collection and cancellation runs in an environment of its own, which says for
  every tick which write or read fails, what time it is and whether a deadline has passed; a crash is an
  environment in which everything fails from some tick on, for then nothing reaches the disk or the
  cluster any more. Between two of them the cluster may change in any way. Of a Kubernetes object the
  model keeps the fields the coordinator reads, of the manifests it creates the fields that vary between
  runs. What docker prints is one parameter for both output streams.

  \<^bold>\<open>Properties.\<close> They are numbered in the order of the components below; each is followed by a witness
  that applies it to concrete inputs when it has hypotheses.

  \<^bold>\<open>Not modelled.\<close> Process locks (\<open>flock\<close>): each engine is modelled as the single writer the lock makes it.
  Set-up of clients (Connect, LoadConfig, TLS and X.509, SQL connections), flag parsing, the local token
  issuer and the test fixtures are calls into libraries without a decision of their own. The read-only
  SQL views of the API and its HTML are queries of the database and templates. The dashboard and the
  GitHub action are TypeScript.
\<close>

section \<open>The finalization engine\<close>







text \<open>C4. A receipt fails exactly when some component was reported as failed, by accepted job evidence or by the
  validated trusted observations: no failure is hidden, and nothing else makes a receipt fail.\<close>

theorem failing_receipt:
  assumes "build_receipt W now l input s = Inr r" and "sound_codec (w_observations W)"
  shows "rc_verdict r = ''fail'' \<longleftrightarrow>
    (\<exists>k \<in> set components. job_reported W now l input k \<or> observer_reported W l input k)"
  by (rule built_verdict_fail[OF assms])

theorem failing_receipt_witness:
  "\<not> (\<exists>k \<in> set components. job_reported sample_wire sample_end sample_ledger sample_input k \<or>
     observer_reported sample_wire sample_ledger sample_input k)"
proof -
  obtain r where r: "build_receipt sample_wire sample_end sample_ledger sample_input sample_state = Inr r" "rc_verdict r = ''pass''"
    using sample_passes by blast
  with failing_receipt[OF r(1) sample_fwire_sound(4)] show ?thesis by simp
qed

text \<open>C5. The builder cannot fail on a snapshot that was accepted and archived: for every accepted ledger, whatever
  the job and the collector wrote, there is a valid receipt.\<close>

theorem receipt_always_built:
  assumes "accepted_ledger run l" "receipt_texts_ok l (rt_policy s)" "l_updated l \<le> rt_finalized s"
    and "snapshot_archived input objs" "rt_objects s = Some objs" "map_of input ''run.json'' = Some doc"
    and "sound_codec (w_observations W)"
  shows "\<exists>r. build_receipt W now l input s = Inr r"
  by (rule build_receipt_total[OF assms])

theorem receipt_always_built_witness:
  "\<exists>r. build_receipt sample_wire 0 sample_ledger sample_input sample_state = Inr r"
  by (rule receipt_always_built[OF sample_accepted _ _ sample_snapshot_archived _ _ sample_fwire_sound(4)])
    (simp_all add: sample_archived_facts sample_texts sample_ledger_simps)

text \<open>C6. Round trip through the archive: a receipt built from a snapshot re-derives from the archived copies of
  that snapshot, at the same time or, for receipts whose job evidence was not rejected, at any later time.\<close>

theorem archived_receipt_accepted:
  assumes "build_receipt (fw_base F) now l input s = Inr r"
    and "rt_objects s = Some objs" "distinct_keys objs" "distinct_keys input"
    and "now' = now \<or> now \<le> now' \<and> rc_evidence r \<noteq> ''invalid''"
    and "strict_canonical (w_ledger (fw_base F)) max_receipt (lookup_or [] input ''run.json'') = Inr l"
    and "l_kind l = ''local-ci-run/v1''" "l_phase l = ''complete''" "l_token l = i_run (l_identity l)"
    and "\<And>k. k \<in> set artifact_names \<Longrightarrow> (case map_of input k of None \<Rightarrow> \<not> has_key objs k
      | Some b \<Rightarrow> \<exists>ref. map_of objs k = Some ref \<and> rf_size ref = int (length b) \<and> rf_sha ref = digest b)"
  shows "validate_archived F now' r (archived_part input) = None"
  by (rule validate_archived_complete[OF assms])

theorem archived_receipt_accepted_witness:
  "\<exists>r. rc_verdict r = ''pass'' \<and> validate_archived sample_fwire sample_end r (archived_part sample_input) = None"
proof -
  obtain r where r: "build_receipt sample_wire sample_end sample_ledger sample_input sample_state = Inr r" "rc_verdict r = ''pass''"
    using sample_passes by blast
  have "validate_archived sample_fwire sample_end r (archived_part sample_input) = None"
    by (rule archived_receipt_accepted[where now = sample_end and s = sample_state and l = sample_ledger,
          OF _ _ _ _ _ _ _ _ _ sample_archived_refs])
      (simp_all add: r sample_canonical sample_fwire_sound sample_archived_facts sample_ledger_simps sample_identity_simps)
  with r show ?thesis by blast
qed

text \<open>C7. A reader who accepts an archived receipt has in its files the exact ledger of the receipt's identity, and
  the builder derives exactly this receipt from the archived files: no field of an accepted receipt is a claim of the
  finalizer alone.\<close>

theorem archived_receipt_derived:
  assumes "validate_archived F now r files = None" "parse_receipt F data = Inr r" and "sound_codec (fw_receipt F)"
  shows "\<exists>l s. strict_canonical (w_ledger (fw_base F)) max_receipt (lookup_or [] files ''run.json'') = Inr l \<and>
    l_identity l = rc_identity r \<and> build_receipt (fw_base F) now l files s = Inr r"
  by (rule validate_archived_sound[OF assms])

theorem archived_receipt_derived_witness:
  "\<exists>r s. build_receipt sample_wire sample_end sample_ledger (archived_part sample_input) s = Inr r \<and> rc_verdict r = ''pass''"
proof -
  obtain r where r: "build_receipt sample_wire sample_end sample_ledger sample_input sample_state = Inr r" "rc_verdict r = ''pass''"
    using sample_passes by blast
  from archived_receipt_derived[OF sample_archived_valid[OF r(1)] sample_parsed[OF r(1)] sample_fwire_sound(1)] r(2)
  show ?thesis by (auto simp: sample_fwire_sound archived_part_def sample_input_def artifact_names_def sample_canonical)
qed

text \<open>C8. Whatever runs of the engine follow each other on an initially empty state directory, with any faults,
  crashes at any write, configurations, archives and signers: no stored state ever counts more than six attempts.\<close>

theorem attempts_bounded:
  assumes "history F w u" "sound_codec (fw_retry F)" "\<forall>key. state_file w key = Missing" "stored F u key s"
  shows "0 \<le> rt_attempts s \<and> rt_attempts s \<le> 6"
  using history_attempts[OF assms(1-3)] assms(4) unfolding attempts_ok_def by blast

theorem attempts_bounded_witness:
  "\<exists>w. history sample_fwire sample_world w \<and> rt_attempts (fd_mem w) = 1 \<and>
     (\<forall>key s. stored sample_fwire w key s \<longrightarrow> rt_attempts s \<le> 6)"
proof -
  obtain res w where w: "fin_run sample_fwire sample_env sample_config sample_archiver sample_signer sample_run sample_world = (Inr res, w)"
    "rt_attempts (fd_mem w) = 1" using sample_completes by blast
  have h: "history sample_fwire sample_world w" using history.step[OF history.start w(1)] .
  with attempts_bounded[OF h sample_fwire_sound(3)] w(2) show ?thesis by (auto simp: sample_world_def state_file_def)
qed

text \<open>C9. Over any such sequence of runs a stored state only advances: identity, policy, frozen snapshot and time of
  finalization stay, the attempts do not decrease, and a receipt digest, a bundle digest or an archived reference that
  was recorded is never replaced.\<close>

theorem progress_monotone:
  assumes "history F w u" "sound_codec (fw_retry F)" "stored F w key s"
  shows "\<exists>s'. stored F u key s' \<and> rt_identity s' = rt_identity s \<and> rt_policy s' = rt_policy s \<and>
    rt_snapshots s' = rt_snapshots s \<and> rt_finalized s' = rt_finalized s \<and> rt_attempts s \<le> rt_attempts s' \<and>
    (rt_receipt_sha s \<noteq> [] \<longrightarrow> rt_receipt_sha s' = rt_receipt_sha s) \<and>
    (rt_bundle_sha s \<noteq> [] \<longrightarrow> rt_bundle_sha s' = rt_bundle_sha s) \<and>
    (\<forall>k ref. map_of (entries (rt_objects s)) k = Some ref \<longrightarrow> map_of (entries (rt_objects s')) k = Some ref)"
  using history_later[OF assms] unfolding later_def by blast

theorem progress_monotone_witness:
  "let key = dedup_key sample_fwire sample_identity;
       w = sample_world\<lparr>fd_state := \<lambda>_ _. Regular (put retry_part sample_state)\<rparr>;
       u = snd (fin_run sample_fwire sample_env sample_config sample_archiver sample_signer sample_run w)
   in \<exists>s'. stored sample_fwire u key s' \<and> rt_finalized s' = sample_end"
proof -
  define w where "w = sample_world\<lparr>fd_state := \<lambda>_ _. Regular (put retry_part sample_state)\<rparr>"
  have s: "stored sample_fwire w (dedup_key sample_fwire sample_identity) sample_state"
    using part_get[OF document_parts_ok(3), of sample_state "[]"]
    by (simp add: stored_def w_def state_file_def sample_fwire_def document_def)
  have "history sample_fwire w (snd (fin_run sample_fwire sample_env sample_config sample_archiver sample_signer sample_run w))"
    by (rule history.step[OF history.start prod.collapse[symmetric]])
  from progress_monotone[OF this sample_fwire_sound(3) s] show ?thesis
    unfolding Let_def w_def by (auto simp: sample_archived_facts)
qed

text \<open>C10. The file that tells readers a result exists changes only beside a pair of published files whose signature
  was verified, also in runs that fail or are cut off anywhere.\<close>

theorem result_marks_verified_pair:
  assumes "fin_run F E C A S run w = (r, w')" and "fd_out w' key ''result.json'' \<noteq> fd_out w key ''result.json''"
  shows "\<exists>rcpt bundle x x'. fd_out w' key ''receipt.json'' = Regular rcpt \<and>
    fd_out w' key ''receipt.bundle.json'' = Regular bundle \<and> sn_verify S rcpt bundle x = (Inr (), x')"
  using fin_run_marker[OF assms(1), of key] assms(2) unfolding marker_def signed_pair_def by simp

theorem result_marks_verified_pair_witness:
  "\<exists>w key rcpt. snd (fin_run sample_fwire sample_env sample_config sample_archiver sample_signer sample_run sample_world) = w \<and>
     fd_out w key ''result.json'' \<noteq> Missing \<and> fd_out w key ''receipt.json'' = Regular rcpt"
proof -
  obtain res w where w: "fin_run sample_fwire sample_env sample_config sample_archiver sample_signer sample_run sample_world = (Inr res, w)"
    using sample_completes by blast
  from fin_run_published[OF w sample_fwire_sound(3)] obtain key where
    p: "published sample_fwire sample_archiver sample_signer w key res" by blast
  then have m: "fd_out w key ''result.json'' \<noteq> fd_out sample_world key ''result.json''" by (auto simp: published_def sample_world_def)
  from result_marks_verified_pair[OF w m] m w show ?thesis by (auto simp: sample_world_def)
qed

text \<open>C11. Once six attempts are used up without an archived signed pair, the engine calls neither the archive nor
  the signer again and publishes nothing: the run ends with an error.\<close>

theorem exhausted_stops:
  assumes "rt_status (fd_mem w) \<noteq> ''complete''" "\<not> both_archived (fd_mem w)" "rt_attempts (fd_mem w) \<ge> 6"
    and "fin_continue F E A S key l input w = (r, w')"
  shows "(\<exists>e. r = Inl e) \<and> fd_ext w' = fd_ext w \<and> fd_out w' = fd_out w"
  by (rule continue_exhausted[OF assms])

theorem exhausted_stops_witness:
  "let w = sample_world\<lparr>fd_mem := sample_state\<lparr>rt_attempts := 6\<rparr>\<rparr>;
       (r, w') = fin_continue sample_fwire sample_env sample_archiver sample_signer ''k'' sample_ledger sample_input w
   in (\<exists>e. r = Inl e) \<and> fd_ext w' = 0"
proof -
  define w where "w = sample_world\<lparr>fd_mem := sample_state\<lparr>rt_attempts := 6\<rparr>\<rparr>"
  obtain r w' where c: "fin_continue sample_fwire sample_env sample_archiver sample_signer ''k'' sample_ledger sample_input w = (r, w')"
    by fastforce
  have "(\<exists>e. r = Inl e) \<and> fd_ext w' = fd_ext w \<and> fd_out w' = fd_out w"
    by (rule exhausted_stops[OF _ _ _ c])
      (simp_all add: w_def both_archived_def sample_state_def fresh_state_def sample_objects_def sample_input_def)
  with c show ?thesis unfolding w_def Let_def by (simp add: sample_world_def)
qed

text \<open>Before its retry time a pending run does nothing at all: it returns the error that says so, and no file,
  no archive and no signer state changes.\<close>

theorem retry_waits:
  assumes "rt_status (fd_mem w) \<noteq> ''complete''" "rt_status (fd_mem w) \<noteq> ''exhausted''" "rt_attempts (fd_mem w) < 6"
    and "rt_next (fd_mem w) = Some due" "\<And>t. fe_now E t < due"
    and "fin_continue F E A S key l input w = (r, w')"
  shows "r = Inl ERetryNotDue \<and> fd_state w' = fd_state w \<and> fd_out w' = fd_out w \<and> fd_mem w' = fd_mem w \<and> fd_ext w' = fd_ext w"
  using continue_not_due[OF assms] by (simp add: quiet_def)

theorem retry_waits_witness:
  "fst (fin_continue sample_fwire sample_env sample_archiver sample_signer ''k'' sample_ledger sample_input
     (sample_world\<lparr>fd_mem := sample_state\<lparr>rt_next := Some (sample_end + minute)\<rparr>\<rparr>)) = Inl ERetryNotDue"
proof -
  let ?w = "sample_world\<lparr>fd_mem := sample_state\<lparr>rt_next := Some (sample_end + minute)\<rparr>\<rparr>"
  have "fst (fin_continue sample_fwire sample_env sample_archiver sample_signer ''k'' sample_ledger sample_input ?w) = Inl ERetryNotDue \<and>
    fd_state (snd (fin_continue sample_fwire sample_env sample_archiver sample_signer ''k'' sample_ledger sample_input ?w)) = fd_state ?w \<and>
    fd_out (snd (fin_continue sample_fwire sample_env sample_archiver sample_signer ''k'' sample_ledger sample_input ?w)) = fd_out ?w \<and>
    fd_mem (snd (fin_continue sample_fwire sample_env sample_archiver sample_signer ''k'' sample_ledger sample_input ?w)) = fd_mem ?w \<and>
    fd_ext (snd (fin_continue sample_fwire sample_env sample_archiver sample_signer ''k'' sample_ledger sample_input ?w)) = fd_ext ?w"
    by (rule retry_waits[where due = "sample_end + minute", OF _ _ _ _ _ prod.collapse[symmetric]]) (simp_all add: sample_state_def fresh_state_def sample_env_simps)
  then show ?thesis by blast
qed

section \<open>The run coordinator\<close>

text \<open>C12. What the coordinator asks of the cluster is covered by its ledger on disk. Over the whole life of a run (a start, then any
  number of collections and cancellations, each in an environment of its own in which any write may fail and against a cluster
  that may have changed in any way), at most one job is ever asked for, and only when the ledger on disk already says that a launch
  was attempted; and a namespace, role or binding is deleted only when the ledger on disk says that collection is over, under
  the name of this run and the UID recorded on disk.\<close>

theorem requests_recorded:
  assumes "sound_codec C" "lives C w"
  shows "rw_launches w \<le> 1 \<and> (rw_launches w = 1 \<longrightarrow> (\<exists>l. disk_ledger C w = Some l \<and> l_launch_attempted l)) \<and>
    (\<forall>d \<in> set (rw_deletions w). \<exists>l. disk_ledger C w = Some l \<and> 2 \<le> rank l \<and> own_deletion l d)"
  using lives_covered[OF assms(2,1)] by (auto simp: covered_def)

theorem requests_recorded_witness:
  "\<exists>w :: (okind \<times> string) list rworld. lives trial_codec w \<and> rw_launches w = 1 \<and> (\<exists>l. disk_ledger trial_codec w = Some l \<and> l_launch_attempted l)"
proof -
  obtain t where t: "lives trial_codec (trial_world trial_end trial_end 1 t)" using trial_lives by blast
  have n: "rw_launches (trial_world trial_end trial_end 1 t) = 1" by (simp add: trial_world_def)
  obtain l where "disk_ledger trial_codec (trial_world trial_end trial_end 1 t) = Some l" "l_launch_attempted l"
    using requests_recorded[OF trial_sound t] n by blast
  with t n show ?thesis by (intro exI conjI)
qed



text \<open>C14. The gate is released last, and for the workload that was verified: when one observation of a runner pod asks for the release
  of its gate, the pod is the recorded one, runs on the fixed node, without host networking, with its init container waiting and
  no workload container started; and before the release, in the same call, the node listed its sandboxes, the firewall of one sandbox
  of this pod was verified, and the collector proved its watch over the same sandbox.\<close>

theorem gate_released_last:
  assumes "ensure_gate K E pod w = (r, w')"
  shows "\<exists>ts. rw_trace w' = rw_trace w @ ts \<and> (\<forall>u n. Gate_released u n \<in> set ts \<longrightarrow> gate_may_open (rw_ledger w) pod \<and> u = l_pod_uid (rw_ledger w) \<and>
    (\<exists>list sandbox api_ip endpoint q. ts = [Node_command list, Node_command (netgate_args sandbox u (l_runner_ns (rw_ledger w)) api_ip endpoint),
       Collector_armed q, Gate_released u n] \<and> q_sandbox q = sandbox \<and> q_uid q = u))"
  using ensure_gate_sequence[OF assms] unfolding gate_sequence_def by (metis empty_iff empty_set)

theorem gate_released_last_witness:
  "\<exists>w. snd (ensure_gate gate_cluster gate_env gate_pod gate_world) = w \<and> Gate_released sample_uid gate_nonce \<in> set (rw_trace w) \<and>
     (\<exists>list api_ip endpoint q. rw_trace w = [Node_command list, Node_command (netgate_args (q_sandbox q) sample_uid (l_runner_ns gate_ledger) api_ip endpoint),
       Collector_armed q, Gate_released sample_uid gate_nonce])"
proof -
  obtain w r c d where w: "ensure_gate gate_cluster gate_env gate_pod gate_world = (Inr (), w)"
    "rw_trace w = [c, d, Collector_armed r, Gate_released sample_uid gate_nonce]" using gate_opens by blast
  have "rw_trace gate_world = []" "rw_ledger gate_world = gate_ledger" by (simp_all add: gate_world_def)
  with gate_released_last[OF w(1)] w show ?thesis by auto
qed

text \<open>C15. Disposal is truthful: when it reports success, all four objects are marked absent in the ledger, the phase is complete and so it
  is on disk, and every object whose UID the ledger records no longer exists, provided the API server answers as documented.\<close>

theorem disposal_truthful:
  assumes "answers known alive K" "cleared known alive {} w" "finish_disposal K E w = (Inr u, w')"
  shows "(\<forall>s. absent_flag s (rw_ledger w') \<and> (slot_uid s (rw_ledger w') \<noteq> [] \<longrightarrow> \<not> alive (slot_key s (rw_ledger w')) (rw_ext w'))) \<and>
    l_phase (rw_ledger w') = ''complete'' \<and> on_disk E (rw_ledger w') (rw_dir w' ''run.json'')"
  using finish_disposes[OF assms] by (simp add: disposed_def)

theorem disposal_truthful_witness:
  "\<exists>w. finish_disposal sample_cluster disposal_env disposal_world = (Inr (), w) \<and> length (rw_deletions w) = 4 \<and> l_role_absent (rw_ledger w) \<and>
     l_phase (rw_ledger w) = ''complete''"
proof -
  obtain w where w: "finish_disposal sample_cluster disposal_env disposal_world = (Inr (), w)" "length (rw_deletions w) = 4"
    using sample_finishes by blast
  have "cleared (\<lambda>_ _. True) (\<lambda>(k, n, u) x. (k, n) \<notin> set x) {} disposal_world" by (simp add: cleared_def)
  from disposal_truthful[OF sample_answers this w(1)] w show ?thesis by (metis absent_flag.simps(4))
qed

section \<open>The firewall of the runner pod\<close>

text \<open>C16. When the firewall helper reports success, the firewall is exact and belongs to the right pod: the last thing it did was to
  list both tables in the pinned network namespace, each with exactly the expected rules in both chains of the gate, with the
  jumps first in OUTPUT and INPUT and no other rule of the gate there; and then to verify that the sandbox has the requested
  identity and pod networking, and that the pinned namespace is its namespace and not the host's.\<close>

theorem netgate_exact:
  assumes "install N n q w = (Inr u, w')"
  shows "options_ok q \<and> (\<exists>pre fd pid out4 out6 t4 t6 ts.
    nw_log w' = pre @ [listing fd (gate_model q ! 0) out4, listing fd (gate_model q ! 1) out6] @ ts \<and> pinned_events N q fd pid ts \<and>
    parse_table out4 = Inr t4 \<and> exact_table t4 (gate_model q ! 0) \<and> parse_table out6 = Inr t6 \<and> exact_table t6 (gate_model q ! 1))"
  by (rule install_exact[OF assms])

theorem netgate_exact_witness:
  "\<exists>v t out. install gate_node_io 0 gate_options gate_start = (Inr (), v) \<and> parse_table out = Inr t \<and> exact_table t (gate_model gate_options ! 0)"
proof -
  obtain v where v: "install gate_node_io 0 gate_options gate_start = (Inr (), v)" using gate_installs by blast
  from netgate_exact[OF this] obtain out t where "parse_table out = Inr t" "exact_table t (gate_model gate_options ! 0)" by blast
  with v show ?thesis by blast
qed

text \<open>C17. Whatever happens during an installation, a firewall is changed only before the job runs: if any command other than a listing
  runs in a network namespace, it appends a chain, a rule or a jump, in the one namespace that was verified to be the pod's and not
  the host's, and it runs after the containers were listed and no container was running but the gate of this very pod.\<close>

theorem netgate_appends_while_waiting:
  assumes "install N n q w = (r, w')"
  shows "\<exists>ts. nw_log w' = nw_log w @ ts \<and> ((\<forall>e \<in> set ts. \<not> changing e) \<or>
    (\<exists>fd pre out cs post. ts = pre @ Ran None ''/usr/local/bin/crictl'' (ps_args q) (Inr out) # post \<and> pinned_log N q fd pre \<and>
       no_containers N out = Inr cs \<and> runs_gate_only q cs \<and> (\<forall>e \<in> set post. changing e \<longrightarrow> change_of fd e)))"
  using install_logs[OF assms] unfolding gate_log_def waited_log_def .

theorem netgate_appends_while_waiting_witness:
  "\<exists>v e fd. install gate_node_io 0 gate_options gate_start = (Inr (), v) \<and> e \<in> set (nw_log v) \<and> changing e \<and> change_of fd e"
proof -
  obtain v e where v: "install gate_node_io 0 gate_options gate_start = (Inr (), v)" "e \<in> set (nw_log v)" "changing e" using gate_installs by blast
  have "nw_log gate_start = []" by (simp add: gate_start_def)
  with netgate_appends_while_waiting[OF v(1)] v(2,3) obtain fd pre out post where
    l: "nw_log v = pre @ Ran None ''/usr/local/bin/crictl'' (ps_args gate_options) (Inr out) # post" "pinned_log gate_node_io gate_options fd pre"
    "\<forall>e \<in> set post. changing e \<longrightarrow> change_of fd e" by auto
  then have "e \<in> set post" using v(2,3) by (auto simp: pinned_log_def)
  with l(3) v show ?thesis by blast
qed

text \<open>C18. An interrupted installation is completed, never repeated: when a plan was carried out up to any command and planning starts again from
  the table that is there now, exactly the commands that were left are planned; and along the way a jump that was not there before
  leads to a complete chain only. This holds for iptables as documented (\<open>iptables_laws\<close>).\<close>

theorem plan_resumes:
  assumes "options_ok q" "fw \<in> set (gate_model q)" "iptables_laws ex (gate_rules q)" "plan t fw = Inr (before @ after)"
  shows "\<exists>u. run_commands ex t before = Some u \<and> plan u fw = Inr after \<and>
    (\<forall>p \<in> set gate_chains. jumped u p \<longrightarrow> jumped t p \<or> complete_chain u fw p)"
  using plan_continues[OF assms(4,3) _ model_rules[OF assms(1,2)], of t] by (simp add: steady_gates_def)

theorem plan_resumes_witness:
  "\<exists>u. run_commands apply_command (base_table [] @ fw_expected fw4) [[''-I'', ''OUTPUT'', ''1'', ''-j'', ''PROOF-EGRESS'']] = Some u \<and> plan u fw4 = Inr []"
proof -
  have "fw4 \<in> set (gate_model gate_options)" by (simp add: sample_model)
  from plan_resumes[OF gate_options_ok this apply_laws, of "base_table [] @ fw_expected fw4" "[[''-I'', ''OUTPUT'', ''1'', ''-j'', ''PROOF-EGRESS'']]" "[]"]
  show ?thesis using sample_tables(5) by (simp only: append_Nil2) blast
qed

section \<open>Signing and the archive\<close>

text \<open>C19. A verification that succeeds was made by the approved Cosign binary, against the pinned trust root, for
  the pinned identity and issuer, on exactly these bytes, and the receipt carries the pinned policy.\<close>

theorem verification_pinned:
  assumes "cosign_verify F c E data bdl s = (Inr u, s')"
  shows "(\<exists>r. parse_receipt F data = Inr r \<and> rc_finalizer r = cs_policy c) \<and> bdl \<noteq> [] \<and> int (length bdl) \<le> max_bundle \<and>
    (\<exists>dir config trust bin rest out. ce_binary E = Regular bin \<and> digest bin = sp_cosign (cs_policy c) \<and>
       digest trust = sp_trust_root (cs_policy c) \<and>
       ce_run E (verify_args (cs_policy c) dir)
         ([(''receipt.json'', data), (''signing.json'', config), (''trust.json'', trust)] @ rest @ [(''receipt.bundle.json'', bdl)]) s
         = (Inr out, s'))"
  using cosign_verify_Inr[OF assms] by blast

theorem verification_pinned_witness:
  "\<exists>r. rc_verdict r = ''pass'' \<and> parse_receipt sample_fwire (put receipt_part r) = Inr r \<and> rc_finalizer r = sample_policy"
proof -
  obtain r where r: "build_receipt sample_wire sample_end sample_ledger sample_input sample_state = Inr r" "rc_verdict r = ''pass''"
    using sample_passes by blast
  from verification_pinned[OF sample_verifies[OF r(1), of 0]] sample_parsed[OF r(1)] r(2) show ?thesis
    by (auto simp: sample_cosign_def)
qed

text \<open>C20. A read of the archive that succeeds returns exactly the bytes the reference names, and the reference lies
  in the configured archive under a key made of that digest.\<close>

theorem archive_read_exact:
  assumes "archive_read c S r s = (Inr b, s')"
  shows "digest b = rf_sha r \<and> int (length b) = rf_size r \<and> rf_store r = ac_store c \<and> rf_bucket r = ac_bucket c \<and>
    rf_key r = ac_prefix c @ sha_segment (digest b) \<and> rf_size r \<le> ac_max c"
  using archive_read_Inr[OF assms] client_validate_None[of c r] by simp

theorem archive_read_exact_witness:
  "rf_key sample_stored = ''evidence'' @ sha_segment (digest sample_log) \<and> rf_size sample_stored = 5"
  using archive_read_exact[OF sample_read] by (simp add: sample_archive_def sample_log_def)



section \<open>The coordinator\<close>

text \<open>C22. Derived observations never overclaim: a component is verified only as a trusted observation, and each on
  its own ground, the confirmed absence of the resources, the disposal of the runner, or the collector's finding, for
  credentials together with the disposal.\<close>

theorem observations_grounded:
  assumes "derive_observations W l data res = Inr ob" and "o_status (cov (v_coverage ob) k) = ''verified''"
  shows "o_observer (cov (v_coverage ob) k) = ''trusted'' \<and> (
     k = ''resources'' \<and> l_resource_absent l \<and> l_resource_uid l \<noteq> [] \<or>
     k = ''runner_disposal'' \<and> runner_disposed l \<or>
     k = ''credentials'' \<and> runner_disposed l \<and> (\<exists>x. res = Some x \<and> f_status (x_credentials x) = ''verified'') \<or>
     k = ''workspace'' \<and> (\<exists>x. res = Some x \<and> f_status (x_workspace x) = ''verified'') \<or>
     k = ''logs'' \<and> (\<exists>x. res = Some x \<and> f_status (x_logs x) = ''verified'') \<and> l_logs_status l = ''complete'')"
  by (rule derived_verified[OF assms])

theorem observations_grounded_witness:
  "o_status (cov (v_coverage sample_observations) ''logs'') = ''verified'' \<and>
   o_observer (cov (v_coverage sample_observations) ''logs'') = ''trusted''"
  using observations_grounded[OF sample_derived, of "''logs''"] by (simp add: sample_coverage components_def)

text \<open>C23. The readiness marker is published last: it appears only when the observations it binds are durably in
  place, whatever fails during the publication.\<close>

theorem ready_is_last:
  assumes "publish_pair W io1 io2 l ledger_data raw d = (r, d')"
    and "d ''finalization-ready.json'' = Missing" "d' ''finalization-ready.json'' \<noteq> Missing"
  shows "d' ''observations.json'' = Regular raw \<and>
    (\<exists>rd. enc (w_ready W) (ready_doc l ledger_data raw) = Inr rd \<and> d' ''finalization-ready.json'' = Regular rd)"
  by (rule publish_pair_ready[OF assms])

theorem ready_is_last_witness:
  "let d' = snd (publish_pair sample_wire durable_ok durable_ok sample_ledger ''LEDGER'' ''OBSERVATIONS'' (\<lambda>_. Missing))
   in d' ''observations.json'' = Regular ''OBSERVATIONS'' \<and> d' ''finalization-ready.json'' \<noteq> Missing"
proof -
  let ?p = "publish_pair sample_wire durable_ok durable_ok sample_ledger ''LEDGER'' ''OBSERVATIONS'' (\<lambda>_. Missing)"
  have r: "snd ?p ''finalization-ready.json'' \<noteq> Missing"
    by (simp add: publish_pair_def publish_immutable_def read_bounded_def sample_wire_simps Let_def)
  from ready_is_last[OF prod.collapse[symmetric, of ?p] _ r] r show ?thesis by simp
qed



text \<open>C25. Job evidence cannot claim more than it may: what validates is canonical, bound to the ledger's identity and
  namespaces, never trusted, never about logs or the runner's own disposal, never a pass, and says fail exactly when a
  component failed.\<close>

theorem evidence_limited:
  assumes "validate_evidence W now data l = None"
  shows "\<exists>p. dec (w_evidence W) data = Inr p \<and> enc (w_evidence W) p = Inr data \<and> p_identity p = l_identity l \<and>
    p_namespace_uid p = l_resource_uid l \<and> p_cluster_uid p = l_cluster_uid l \<and> p_verdict p \<in> {''partial'', ''fail''} \<and>
    (\<forall>name \<in> set components. o_observer (cov (p_coverage p) name) \<in> {''job'', ''none''}) \<and>
    (\<forall>name \<in> {''logs'', ''runner_disposal''}. o_status (cov (p_coverage p) name) = ''unobservable'') \<and>
    (p_verdict p = ''fail'' \<longleftrightarrow> (\<exists>name \<in> set components. o_status (cov (p_coverage p) name) = ''failed''))"
proof -
  from validate_evidence_None[OF assms] obtain p where p: "dec (w_evidence W) data = Inr p" "enc (w_evidence W) p = Inr data"
    "p_identity p = l_identity l" "p_namespace_uid p = l_resource_uid l" "p_cluster_uid p = l_cluster_uid l"
    "p_verdict p = ''partial'' \<or> p_verdict p = ''fail''" "\<forall>name \<in> set components. evidence_obs_check name (p_coverage p) = None"
    "p_verdict p = ''fail'' \<longleftrightarrow> (\<exists>name \<in> set components. o_status (cov (p_coverage p) name) = ''failed'')" by blast
  have "o_observer (cov (p_coverage p) name) \<in> {''job'', ''none''}" if "name \<in> set components" for name
    using evidence_obs_check_None(2) p(7) that by blast
  moreover have "o_status (cov (p_coverage p) name) = ''unobservable''" if "name \<in> {''logs'', ''runner_disposal''}" for name
  proof -
    from that have "name \<in> set components" by (auto simp: components_def)
    with p(7) that show ?thesis by (intro evidence_obs_check_None(7)) auto
  qed
  ultimately show ?thesis using p by blast
qed

theorem evidence_limited_witness:
  "p_verdict sample_evidence \<in> {''partial'', ''fail''} \<and> o_observer (cov (p_coverage sample_evidence) ''workspace'') \<in> {''job'', ''none''}"
proof -
  from evidence_limited[OF sample_evidence_ok] obtain p where p: "dec (w_evidence sample_wire) ''EVIDENCE'' = Inr p"
    "p_verdict p \<in> {''partial'', ''fail''}" "\<forall>name \<in> set components. o_observer (cov (p_coverage p) name) \<in> {''job'', ''none''}" by blast
  have "''workspace'' \<in> set components" by (simp add: components_def)
  with p show ?thesis by (simp only: sample_wire_simps sum.inject)
qed

text \<open>Round trip of the ledger: what a save wrote is what the next load returns.\<close>

theorem ledger_roundtrip:
  assumes "save_ledger C now io l d = (None, l', d')" and "sound_codec C"
    and "l_kind l = ''local-ci-run/v1''" "i_run (l_identity l) = run" "l_token l = run"
    "l_resource_ns l = ''proof-'' @ run" "l_runner_ns l = ''proof-runner-'' @ run" "identity_validate (l_identity l) = None"
  shows "load_ledger C run d' = Inr l'"
  by (rule save_ledger_load[OF assms])

theorem ledger_roundtrip_witness:
  "\<exists>l' d'. save_ledger (w_ledger sample_wire) sample_end durable_ok sample_ledger (\<lambda>_. Missing) = (None, l', d') \<and>
     load_ledger (w_ledger sample_wire) sample_run d' = Inr l'"
proof -
  have "sample_ledger\<lparr>l_updated := sample_end\<rparr> = sample_ledger" by (simp add: sample_ledger_def sample_pinned_def)
  then obtain l' d' where s: "save_ledger (w_ledger sample_wire) sample_end durable_ok sample_ledger (\<lambda>_. Missing) = (None, l', d')"
    by (simp add: save_ledger_def ledger_bytes_def sample_wire_simps Let_def run_pattern_def sample_ledger_simps sample_identity_simps
        sample_hex_n)
  with ledger_roundtrip[OF s sample_fwire_sound(5) sample_ledger_simps(1) _ sample_ledger_simps(3-5)] sample_identity_ok
  show ?thesis by (auto simp: sample_ledger_simps sample_identity_simps)
qed

text \<open>A run directory appears atomically: after the first publication of a ledger, whatever failed in it, the
  directory is as before, or it was absent and now holds the complete encoded ledger.\<close>

theorem ledger_appears_complete:
  assumes "publish_ledger C now io l target = (r, l', target')"
  shows "target' = target \<or>
    (target = None \<and> (\<exists>data d. target' = Some d \<and> d ''run.json'' = Regular data \<and> enc C l' = Inr data))"
  by (rule publish_ledger_atomic[OF assms])

theorem ledger_appears_complete_witness:
  "\<exists>d. snd (snd (publish_ledger (w_ledger sample_wire) sample_end \<lparr>p_mkdir = True, p_file = durable_ok, p_rename = True, p_sync = False\<rparr>
     sample_ledger None)) = Some d \<and> d ''run.json'' = Regular ''LEDGER''"
proof -
  let ?io = "\<lparr>p_mkdir = True, p_file = durable_ok, p_rename = True, p_sync = False\<rparr>"
  have u: "sample_ledger\<lparr>l_updated := sample_end\<rparr> = sample_ledger" by (simp add: sample_ledger_def sample_pinned_def)
  obtain e t where p: "publish_ledger (w_ledger sample_wire) sample_end ?io sample_ledger None = (Some e, sample_ledger, Some t)"
    by (simp add: publish_ledger_def ledger_bytes_def u sample_wire_simps Let_def run_pattern_def sample_ledger_simps
        sample_identity_simps sample_hex_n)
  from ledger_appears_complete[OF p] show ?thesis unfolding p by (auto simp: sample_wire_simps)
qed

section \<open>The collector\<close>

text \<open>C26. The watch over the guard's log accepts exactly the event sequences of one complete log: one creation, then
  modifications, then one closing by the writer, with nothing else in the guard's directory and no sign of a lost
  watch.\<close>

theorem watch_accepts_complete:
  assumes "\<not> w_created w" "\<not> w_closed w" "w_problem w = []"
  shows "w_problem (watch_run w es) = [] \<and> w_closed (watch_run w es) \<longleftrightarrow> complete_trace (w_guard w) es"
  by (rule watch_run_fresh_ok[OF assms])

theorem watch_accepts_complete_witness:
  "let w = \<lparr>w_guard = 1, w_created = False, w_closed = False, w_problem = []\<rparr>;
       ev = (\<lambda>m. \<lparr>e_wd = 1, e_mask = m, e_name = ''0.log''\<rparr>)
   in \<not> complete_trace 1 [ev in_create, ev in_modify] \<and> complete_trace 1 [ev in_create, ev in_modify, ev in_close_write]"
proof -
  let ?w = "\<lparr>w_guard = 1, w_created = False, w_closed = False, w_problem = []\<rparr>"
  let ?ev = "\<lambda>m. \<lparr>e_wd = 1, e_mask = m, e_name = ''0.log''\<rparr>"
  note t = watch_accepts_complete[of ?w]
  show ?thesis
    using t[of "[?ev in_create, ?ev in_modify]"] t[of "[?ev in_create, ?ev in_modify, ?ev in_close_write]"]
    by (simp add: watch_step_def)
qed

section \<open>The text of observations\<close>

text \<open>Whatever text a job or a collector reports, \<open>boundedReason\<close> produces 1 to 480 bytes of valid
  UTF-8 without control characters, so it always passes the receipt validator.\<close>

theorem job_text_bounded: "safe_text (bounded_reason s) 480 False"
  by (rule bounded_reason_safe)

text \<open>Bounding is idempotent: re-deriving a receipt from archived, already bounded text does not change it.\<close>

theorem job_text_stable: "bounded_reason (bounded_reason s) = bounded_reason s"
  by (rule bounded_reason_idem)

section \<open>The cleanup context\<close>

text \<open>C27. Recording an observation keeps a valid cleanup context valid.\<close>

theorem context_stays_valid:
  assumes "state_validate s = None" "c \<in> set components" "st \<in> {''verified'', ''failed'', ''unsupported'', ''unobservable''}" "re \<noteq> []"
  shows "state_validate (record_obs c st re s) = None"
  by (rule state_validate_record[OF assms])

theorem context_stays_valid_witness:
  "state_validate (record_obs ''workspace'' ''failed'' ''left over'' sample_context) = None"
  by (rule context_stays_valid[OF sample_context_ok]) (simp_all add: components_def)

section \<open>The cleanup engine\<close>

text \<open>C28. What a cleanup reports is true. A workspace or credentials directory it records as verified is empty. When it
  records the resources or the credentials as verified, the inventory is complete and no object of the inventory exists
  any more; when it ends without an error, all of this holds. Whatever happens, it has asked the API to delete only the
  namespace of its context, under its UID, and cluster-scoped objects of its own inventory, under theirs.\<close>

theorem cleanup_truthful:
  fixes w :: "'x cworld"
  assumes "honest known alive K" "tracked known w" "cleanup K E w = (r, w')"
  shows "\<exists>e. r = Inr e \<and>
    (\<forall>name \<in> {''workspace'', ''credentials''}. o_status (cov (s_coverage (cw_state w')) name) = ''verified'' \<or> e = None \<longrightarrow>
       emptied (cw_state w') name (cw_files w')) \<and>
    (\<forall>name \<in> {''resources'', ''credentials''}. o_status (cov (s_coverage (cw_state w')) name) = ''verified'' \<or> e = None \<longrightarrow>
       inventoried w' \<and> settled alive w') \<and>
    (\<exists>ds. cw_deletions w' = cw_deletions w @ ds \<and> (\<forall>d \<in> set ds. owned (cw_state w') d))"
  using cleanup_outcome[OF assms] by auto

theorem cleanup_truthful_witness:
  "\<exists>w. cleanup sample_kube sample_cenv sample_cworld = (Inr None, w) \<and> emptied (cw_state w) ''workspace'' (cw_files w) \<and>
     settled (\<lambda>k x. x \<and> k = sample_ref_key) w"
proof -
  obtain w where w: "cleanup sample_kube sample_cenv sample_cworld = (Inr None, w)" using sample_cleans by blast
  have "tracked (\<lambda>_ _. True) sample_cworld" by (simp add: tracked_def)
  from cleanup_truthful[OF sample_honest this w] w show ?thesis by auto
qed

text \<open>C29. A wipe that returns without an error touched only its own directory: the sandbox and the directory are the ones
  pinned by the context, by device and inode, the ownership marker was there, the directory is now empty, and every
  other entry of the sandbox and every other path is as before.\<close>

theorem wipe_exact:
  assumes "wipe E s name w = (Inr u, w')"
  shows "wiped s name (fs_at w (s_sandbox s)) (fs_at w' (s_sandbox s)) \<and> (\<forall>p. p \<noteq> s_sandbox s \<longrightarrow> fs_at w' p = fs_at w p)"
  using wipe_wiped[OF assms] by simp

theorem wipe_exact_witness:
  "\<exists>w. wipe sample_senv sample_context ''workspace'' (cw_files sample_cworld) = (Inr (), w) \<and>
     wiped sample_context ''workspace'' (fs_at (cw_files sample_cworld) (s_sandbox sample_context)) (fs_at w (s_sandbox sample_context))"
proof -
  obtain w where w: "wipe sample_senv sample_context ''workspace'' (cw_files sample_cworld) = (Inr (), w)"
    using sample_workspace_wipes by blast
  from wipe_exact[OF this] w show ?thesis by blast
qed

text \<open>C30. A wipe succeeds whenever it can: without faults, deadlines or other writers, on a sandbox that carries the
  pinned identities and the ownership marker, it empties every directory tree of at most 129 levels and 10000 nodes
  without a mount point.\<close>

theorem wipe_succeeds:
  assumes "unhindered E" "state_validate s = None" "name = ''workspace'' \<or> name = ''credentials''"
    and "fs_at w (s_sandbox s) = Some (Dir (lookup_or zero_dir (s_directories s) ''root'') es)"
    and "map_of es ''.proof-owner'' = Some (Plain (s_token s))"
    and "map_of es name = Some (Dir (lookup_or zero_dir (s_directories s) name) inner)"
    and "wipeable 129 inner" "node_count 129 inner \<le> 10000"
  shows "\<exists>w'. wipe E s name w = (Inr (), w') \<and> emptied s name w'"
  using wipe_works[OF assms] wipe_emptied by blast

theorem wipe_succeeds_witness:
  "\<exists>w. wipe sample_senv sample_context ''workspace'' (cw_files sample_cworld) = (Inr (), w) \<and> emptied sample_context ''workspace'' w"
  by (rule wipe_succeeds[OF sample_unhindered sample_context_ok, where inner = "[(''output'', Plain ''data'')]"])
    (simp_all add: sample_cworld_def numeral_eq_Suc)+

section \<open>The recovery watchdog\<close>





section \<open>Recovery\<close>

text \<open>C33. Recovery never launches a job: whatever a step of the watchdog does with the operator's backend, and whatever fails in it, no
  job is requested from the cluster; a run that was never launched is cancelled on disk before its collection is resumed. The
  only assumptions are that all processes read ledgers in one format and that a failing system call does not claim that a file
  does not exist.\<close>

theorem recovery_never_launches:
  assumes "operator_sound B C" "wstep WC E (operator_backend B key) ident w = (r, w')"
  shows "rw_launches (ow_run (ww_ext w')) = rw_launches (ow_run (ww_ext w))"
  using stk.keepsD[OF step_keeps[OF assms(1)] assms(2)] by (simp add: step_kept_def run_kept_def unlaunched_def)

theorem recovery_never_launches_witness:
  "rw_launches (ow_run (ww_ext (snd (wstep (bounded_document 65536 wstate_part) sample_wenv (operator_backend (sample_operator trial_env) (\<lambda>_. ''key'')) sample_identity
     \<lparr>ww_file = Missing, ww_ext = operator_world (trial_world (replicate 8 False) (replicate 8 False) 0 0), ww_tick = 0\<rparr>)))) = 0"
  by (subst recovery_never_launches[OF trial_operator_sound prod.collapse[symmetric]])
    (simp add: operator_world_def trial_world_def)



section \<open>The delivery queue\<close>

text \<open>C35. Whatever deliveries follow each other on an initially empty queue, with any results, replies, clocks, faults
  and crashes at any write: for no key is the receipt posted to the API more than six times.\<close>

theorem posts_bounded:
  assumes "deliveries F W w u" "sound_codec (qw_state W)" "\<forall>key. qd_files w key = Missing" "qd_log w = []"
  shows "posts key u \<le> 6"
  by (rule deliveries_bounded[OF assms])

theorem posts_bounded_witness:
  "\<forall>key. posts key (snd (deliver sample_qfwire sample_qwire (sample_http 503) sample_qenv ''/queue'' ''OUTCOME'' sample_qworld)) \<le> 6"
  by (rule allI, rule posts_bounded[OF deliveries.step[OF deliveries.start prod.collapse[symmetric]] sample_qwire_sound])
    (simp_all add: sample_q_simps)

text \<open>C36. A delivery that reports success has recorded it: the state file of the result's key holds, durably, the
  complete state for exactly this result.\<close>

theorem delivery_recorded:
  assumes "deliver F W H E dir data w = (Inr (s', None), w')"
  shows "\<exists>r. parse_result F data = Inr r \<and> qs_status s' = ''complete'' \<and> qs_result s' = r \<and>
    holds W (dedup_key F (oc_identity r)) s' w'"
  by (rule deliver_complete[OF assms])

theorem delivery_recorded_witness:
  "let w = snd (deliver sample_qfwire sample_qwire (sample_http 201) sample_qenv ''/queue'' ''OUTCOME'' sample_qworld)
   in holds sample_qwire (dedup_key sample_qfwire (oc_identity sample_outcome)) sample_queued w"
proof -
  obtain w where w: "deliver sample_qfwire sample_qwire (sample_http 201) sample_qenv ''/queue'' ''OUTCOME'' sample_qworld =
      (Inr (sample_queued, None), w)" using sample_delivers by (metis prod.collapse)
  from delivery_recorded[OF w] w show ?thesis unfolding Let_def by (auto simp: sample_outcome_parsed)
qed

text \<open>The queue and the API agree: every failure report a consistent queue state holds, for a result whose identity
  the API admits, passes the API's validation of attempts.\<close>

theorem queue_reports_accepted:
  assumes "queue_ok s" "a \<in> set (qs_failures s)" "valid_identity (oc_identity (qs_result s))"
  shows "attempt_validate a"
  by (rule queue_reports_valid[OF assms])

theorem queue_reports_accepted_witness:
  "let s = qfailed sample_outcome 409 None ((qinitial sample_outcome)\<lparr>qs_tries := 1, qs_status := ''running'', qs_next := Some sample_end\<rparr>)
   in qs_failures s \<noteq> [] \<and> attempt_validate (hd (qs_failures s))"
proof -
  let ?s = "(qinitial sample_outcome)\<lparr>qs_tries := 1, qs_status := ''running'', qs_next := Some sample_end\<rparr>"
  have "queue_ok ?s" by (simp add: queue_ok_def qinitial_def)
  then have ok: "queue_ok (qfailed sample_outcome 409 None ?s)" by (rule queue_ok_failed) (simp_all add: qinitial_def)
  have ne: "qs_failures (qfailed sample_outcome 409 None ?s) \<noteq> []" "qs_result (qfailed sample_outcome 409 None ?s) = sample_outcome"
    by (simp_all add: qfailed_def Let_def permanent_status_def qinitial_def)
  have i: "oc_identity sample_outcome = sample_identity" by (simp add: sample_outcome_def)
  from queue_reports_accepted[OF ok hd_in_set[OF ne(1)]] ne sample_identity_valid show ?thesis unfolding Let_def by (simp add: i)
qed

section \<open>The metadata API\<close>

text \<open>C37. Ingestion is idempotent: once a result was committed, ingesting it again, also after a failed reply, adds
  nothing and returns the same identifier as a duplicate.\<close>

theorem ingest_idempotent:
  assumes "ingest T v d = (Inr c, d')" "valid_identity (rc_identity (vd_receipt v))"
    and "tx_begin T'" "tx_insert T'" "tx_select T'" "tx_commit T'"
  shows "ingest T' v d' = (Inr \<lparr>cm_id = cm_id c, cm_duplicate = True\<rparr>, d')"
  by (rule ingest_again[OF assms])

text \<open>C38. Ingestion keeps the tables consistent, whatever statement of the transaction fails and also when a failed
  commit took effect: one receipt per run, distinct identifiers, and exactly one incident for every receipt that does
  not pass and none for one that does.\<close>

theorem tables_consistent:
  assumes "ingest T v d = (r, d')" "distinct (map rr_key (db_receipts d))" "distinct (map rr_id (db_receipts d))"
    and "map in_receipt (db_incidents d) = map rr_id (filter (\<lambda>r. rr_verdict r \<noteq> ''pass'') (db_receipts d))"
    and "tx_uuid T \<notin> rr_id ` set (db_receipts d)"
  shows "distinct (map rr_key (db_receipts d')) \<and> distinct (map rr_id (db_receipts d')) \<and>
    map in_receipt (db_incidents d') = map rr_id (filter (\<lambda>r. rr_verdict r \<noteq> ''pass'') (db_receipts d'))"
  using ingest_ok[OF assms(1)] assms(2-5) unfolding db_ok_def by blast

theorem ingest_idempotent_witness:
  "fst (ingest sample_txn sample_verified (snd (ingest sample_txn sample_verified sample_db))) = Inr \<lparr>cm_id = ''id'', cm_duplicate = True\<rparr>"
proof -
  have t: "tx_begin sample_txn" "tx_insert sample_txn" "tx_select sample_txn" "tx_commit sample_txn" by (simp_all add: sample_txn_def)
  have v: "valid_identity (rc_identity (vd_receipt sample_verified))" by (simp add: sample_verified_simps sample_identity_valid)
  from ingest_idempotent[OF sample_ingest v t] show ?thesis unfolding sample_ingest snd_conv by simp
qed

theorem tables_consistent_witness:
  "map in_receipt (db_incidents (snd (ingest sample_txn sample_verified sample_db))) = [''id'']"
proof -
  have e: "db_receipts sample_db = []" "db_incidents sample_db = []" by (simp_all add: sample_db_def)
  have "map in_receipt (db_incidents (snd (ingest sample_txn sample_verified sample_db))) =
    map rr_id (filter (\<lambda>r. rr_verdict r \<noteq> ''pass'') (db_receipts (snd (ingest sample_txn sample_verified sample_db))))"
    using tables_consistent[OF prod.collapse[symmetric], of sample_db sample_txn sample_verified]
    by (simp only: e list.map filter.simps distinct.simps list.set image_empty empty_iff simp_thms)
  then show ?thesis unfolding sample_ingest by (simp add: sample_verified_simps)
qed



text \<open>C40. A recovery report never changes or removes the row of an attempt that already succeeded.\<close>

theorem upsert_keeps_success:
  assumes "row \<in> set rows" "ar_result row = ''succeeded''"
  shows "row \<in> set (upsert new rows)"
  by (rule upsert_succeeded) (use assms in simp_all)

theorem upsert_keeps_success_witness:
  "let i = \<lparr>i_provider = ''local'', i_repository = ''r'', i_run = ''0'', i_attempt = 1, i_job = ''j'', i_revision = []\<rparr>;
       row = \<lparr>ar_id = ''a'', ar_key = i, ar_number = 1, ar_origin = ''watchdog'', ar_stage = ''complete'',
         ar_result = ''succeeded'', ar_error = [], ar_receipt = ''x'', ar_next = None, ar_owner = [], ar_lease = None\<rparr>
   in row \<in> set (upsert (row\<lparr>ar_stage := ''collect'', ar_result := ''retry''\<rparr>) [row])"
  unfolding Let_def by (rule upsert_keeps_success) simp_all

end
